(* ===== verification/Prelude.thy ===== *)
theory Prelude
  imports Complex_Main "HOL-Library.Char_ord" "HOL-Library.List_Lexorder" "HOL-Library.Sublist"
    "HOL-Library.Multiset"
begin

text \<open>
  The shared base of the development: JavaScript strings as character lists (a character is a
  code unit below 256), the string operations of the standard library that the modelled code
  calls, \<open>Array.prototype.sort\<close> with a comparator, insertion-ordered maps as association lists,
  and the two interfaces that several components share: a comparator that is a consistent order
  on a carrier, and a state machine whose operations keep an invariant.
\<close>

section \<open>Options and association lists\<close>

text \<open>\<open>value ?? fallback\<close> for an optional value.\<close>

definition or_else :: "'a option \<Rightarrow> 'a \<Rightarrow> 'a" where
  "or_else v d = (case v of None \<Rightarrow> d | Some x \<Rightarrow> x)"

lemma or_else_simps [simp]: "or_else None d = d" "or_else (Some x) d = x"
  by (simp_all add: or_else_def)

text \<open>
  A JavaScript object or \<open>Map\<close> is an association list in insertion order. \<open>alist_put\<close> is an
  assignment: an existing key keeps its position, a new key goes last. \<open>alist_del\<close> is \<open>delete\<close>.
\<close>

fun alist_put :: "'k \<Rightarrow> 'v \<Rightarrow> ('k \<times> 'v) list \<Rightarrow> ('k \<times> 'v) list" where
  "alist_put k v [] = [(k, v)]"
| "alist_put k v ((k', v') # kvs) =
     (if k' = k then (k, v) # kvs else (k', v') # alist_put k v kvs)"

definition alist_del :: "'k \<Rightarrow> ('k \<times> 'v) list \<Rightarrow> ('k \<times> 'v) list" where
  "alist_del k kvs = filter (\<lambda>e. fst e \<noteq> k) kvs"

lemma map_of_alist_put [simp]: "map_of (alist_put k v kvs) = (map_of kvs)(k \<mapsto> v)"
  by (induction kvs) (auto simp: fun_eq_iff)

lemma map_of_alist_del [simp]: "map_of (alist_del k kvs) = (map_of kvs)(k := None)"
  by (induction kvs) (auto simp: alist_del_def fun_eq_iff)

lemma dom_alist_put [simp]: "fst ` set (alist_put k v kvs) = insert k (fst ` set kvs)"
  by (induction k v kvs rule: alist_put.induct) auto

lemma dom_alist_del [simp]: "fst ` set (alist_del k kvs) = fst ` set kvs - {k}"
  by (auto simp: alist_del_def)

lemma distinct_alist_put [simp]:
  "distinct (map fst kvs) \<Longrightarrow> distinct (map fst (alist_put k v kvs))"
proof (induction kvs)
  case (Cons e kvs)
  have "fst e \<notin> fst ` set (alist_put k v kvs)" if "fst e \<noteq> k"
    using Cons.prems that by (simp add: dom_alist_put)
  with Cons show ?case
    by (cases e) auto
qed simp

lemma distinct_alist_del [simp]:
  "distinct (map fst kvs) \<Longrightarrow> distinct (map fst (alist_del k kvs))"
  by (induction kvs) (auto simp: alist_del_def)

lemma set_alist_put: "set (alist_put k v kvs) \<subseteq> insert (k, v) (set kvs)"
  by (induction k v kvs rule: alist_put.induct) auto

lemma set_alist_del: "set (alist_del k kvs) \<subseteq> set kvs"
  by (auto simp: alist_del_def)

lemma in_dom_map_of: "k \<in> fst ` set kvs \<longleftrightarrow> map_of kvs k \<noteq> None"
  by (simp add: map_of_eq_None_iff)

lemma alist_put_new: "map_of kvs k = None \<Longrightarrow> alist_put k v kvs = kvs @ [(k, v)]"
  by (induction kvs) (auto split: if_splits)

text \<open>\<open>Set.add\<close>, and \<open>[...new Set(xs)]\<close>: the first occurrence of each element, in order.\<close>

definition set_add :: "'a \<Rightarrow> 'a list \<Rightarrow> 'a list" where
  "set_add x s = (if x \<in> set s then s else s @ [x])"

definition js_set :: "'a list \<Rightarrow> 'a list" where
  "js_set xs = foldl (\<lambda>s x. set_add x s) [] xs"

lemma set_set_add [simp]: "set (set_add x s) = insert x (set s)"
  by (auto simp: set_add_def)

lemma distinct_set_add [simp]: "distinct s \<Longrightarrow> distinct (set_add x s)"
  by (auto simp: set_add_def)

lemma foldl_set_add:
  "set (foldl (\<lambda>s x. set_add x s) s xs) = set s \<union> set xs"
  "distinct s \<Longrightarrow> distinct (foldl (\<lambda>s x. set_add x s) s xs)"
  by (induction xs arbitrary: s) auto

lemma set_js_set [simp]: "set (js_set xs) = set xs"
  by (simp add: js_set_def foldl_set_add)

lemma distinct_js_set [simp]: "distinct (js_set xs)"
  by (simp add: js_set_def foldl_set_add)

section \<open>Strings\<close>

text \<open>White space as \<open>String.prototype.trim\<close> sees it, for the code units below 256.\<close>

definition js_space :: "char \<Rightarrow> bool" where
  "js_space c \<longleftrightarrow> of_char c \<in> {9, 10, 11, 12, 13, 32, 160 :: nat}"

definition js_trim :: "string \<Rightarrow> string" where
  "js_trim s = rev (dropWhile js_space (rev (dropWhile js_space s)))"

lemma js_trim_Nil [simp]: "js_trim [] = []"
  by (simp add: js_trim_def)

lemma js_trim_eq_Nil: "js_trim s = [] \<longleftrightarrow> (\<forall>c \<in> set s. js_space c)"
proof
  assume "js_trim s = []"
  then have "\<forall>c \<in> set (dropWhile js_space s). js_space c"
    by (simp add: js_trim_def dropWhile_eq_Nil_conv)
  then show "\<forall>c \<in> set s. js_space c"
    by (metis Un_iff set_append set_takeWhileD takeWhile_dropWhile_id)
qed (auto simp: js_trim_def dropWhile_eq_Nil_conv dest: set_dropWhileD)

lemma js_trim_append_not_blank:
  "js_trim s \<noteq> [] \<Longrightarrow> js_trim (s @ t) \<noteq> []"
  by (auto simp: js_trim_eq_Nil)

text \<open>\<open>startsWith\<close>, \<open>split\<close> on one character, \<open>join\<close>, and the decimal text of a number.\<close>

definition starts_with :: "string \<Rightarrow> string \<Rightarrow> bool" where
  "starts_with s p \<longleftrightarrow> prefix p s"

fun split_on :: "char \<Rightarrow> string \<Rightarrow> string list" where
  "split_on d [] = [[]]"
| "split_on d (c # cs) =
     (if c = d then [] # split_on d cs
      else (case split_on d cs of [] \<Rightarrow> [[c]] | w # ws \<Rightarrow> (c # w) # ws))"

fun join_with :: "string \<Rightarrow> string list \<Rightarrow> string" where
  "join_with sep [] = []"
| "join_with sep [w] = w"
| "join_with sep (w # v # ws) = w @ sep @ join_with sep (v # ws)"

definition digit_char :: "nat \<Rightarrow> char" where
  "digit_char d = char_of (48 + d)"

fun nat_text :: "nat \<Rightarrow> string" where
  "nat_text n = (if n < 10 then [digit_char n] else nat_text (n div 10) @ [digit_char (n mod 10)])"

declare nat_text.simps [simp del]

definition is_digit :: "char \<Rightarrow> bool" where
  "is_digit c \<longleftrightarrow> 48 \<le> (of_char c :: nat) \<and> (of_char c :: nat) \<le> 57"

definition digit_value :: "char \<Rightarrow> nat" where
  "digit_value c = of_char c - 48"

definition digits_value :: "string \<Rightarrow> nat" where
  "digits_value s = foldl (\<lambda>a c. 10 * a + digit_value c) 0 s"

lemma split_on_ne [simp]: "split_on d s \<noteq> []"
  by (induction s) (auto split: list.splits)

lemma split_on_no_sep: "d \<notin> set s \<Longrightarrow> split_on d s = [s]"
  by (induction s) auto

lemma split_on_append:
  "d \<notin> set w \<Longrightarrow> split_on d (w @ d # s) = w # split_on d s"
  by (induction w) auto

lemma split_on_join:
  assumes "ws \<noteq> []" and "\<forall>w \<in> set ws. d \<notin> set w"
  shows "split_on d (join_with [d] ws) = ws"
  using assms
  by (induction "[d]" ws rule: join_with.induct) (auto simp: split_on_no_sep split_on_append)

lemma digit_value_digit_char [simp]: "d < 10 \<Longrightarrow> digit_value (digit_char d) = d"
  by (simp add: digit_value_def digit_char_def)

lemma is_digit_digit_char [simp]: "d < 10 \<Longrightarrow> is_digit (digit_char d)"
  by (simp add: is_digit_def digit_char_def)

lemma digits_value_nat_text [simp]: "digits_value (nat_text n) = n"
proof (induction n rule: nat_text.induct)
  case (1 n)
  then show ?case
    by (subst nat_text.simps) (auto simp: digits_value_def)
qed

lemma nat_text_inject [simp]: "nat_text m = nat_text n \<longleftrightarrow> m = n"
  by (metis digits_value_nat_text)

lemma nat_text_digits: "c \<in> set (nat_text n) \<Longrightarrow> is_digit c"
proof (induction n rule: nat_text.induct)
  case (1 n)
  then show ?case
    by (subst (asm) nat_text.simps) (auto split: if_splits)
qed

lemma nat_text_ne [simp]: "nat_text n \<noteq> []"
  by (subst nat_text.simps) simp

section \<open>Numbers and positions\<close>

text \<open>A JavaScript number: a finite one is its exact value; \<open>NaN\<close> and the infinities are one case.\<close>

datatype js_number = Finite rat | NotFinite

definition max_safe_integer :: nat where
  "max_safe_integer = 9007199254740991"

fun isSafeInteger :: "js_number \<Rightarrow> bool" where
  "isSafeInteger (Finite q) \<longleftrightarrow> q = of_int \<lfloor>q\<rfloor> \<and> \<bar>\<lfloor>q\<rfloor>\<bar> \<le> int max_safe_integer"
| "isSafeInteger NotFinite \<longleftrightarrow> False"

text \<open>
  \<open>Math.round\<close> rounds halves up. The sign of a number is all a sort reads of what its comparison
  returns.
\<close>

definition js_round :: "rat \<Rightarrow> int" where
  "js_round q = \<lfloor>q + 1 / 2\<rfloor>"

definition rat_sign :: "rat \<Rightarrow> int" where
  "rat_sign q = (if q < 0 then -1 else if q = 0 then 0 else 1)"

definition min_safe_integer :: int where
  "min_safe_integer = - int max_safe_integer"

text \<open>\<open>Math.trunc\<close>, \<open>findIndex\<close> and \<open>slice(-n)\<close> for a positive \<open>n\<close>.\<close>

definition js_trunc :: "rat \<Rightarrow> int" where
  "js_trunc q = (if 0 \<le> q then \<lfloor>q\<rfloor> else \<lceil>q\<rceil>)"

fun findIndex :: "('a \<Rightarrow> bool) \<Rightarrow> 'a list \<Rightarrow> nat option" where
  "findIndex P [] = None"
| "findIndex P (x # xs) = (if P x then Some 0 else map_option Suc (findIndex P xs))"

definition slice_last :: "nat \<Rightarrow> 'a list \<Rightarrow> 'a list" where
  "slice_last n xs = drop (length xs - n) xs"

lemma length_slice_last: "length (slice_last n xs) \<le> n"
  by (simp add: slice_last_def)

lemma set_slice_last: "set (slice_last n xs) \<subseteq> set xs"
  by (simp add: slice_last_def set_drop_subset)

lemma findIndex_None: "findIndex P xs = None \<longleftrightarrow> (\<forall>x \<in> set xs. \<not> P x)"
  by (induction xs) auto

lemma findIndex_Some:
  "findIndex P xs = Some i \<longleftrightarrow> i < length xs \<and> P (xs ! i) \<and> (\<forall>j < i. \<not> P (xs ! j))"
proof (induction xs arbitrary: i)
  case (Cons x xs)
  then show ?case by (cases i) (auto simp: All_less_Suc2)
qed simp

section \<open>Sorting with a comparator\<close>

text \<open>
  \<open>Array.prototype.sort(compare)\<close> is a stable sort. It is modelled as insertion from the right
  before the first element that is not smaller, which is stable. The result is determined by the
  specification of the language only where the comparator is consistent; the interface
  \<open>comparator\<close> below states that.
\<close>

fun insort_by :: "('a \<Rightarrow> 'a \<Rightarrow> int) \<Rightarrow> 'a \<Rightarrow> 'a list \<Rightarrow> 'a list" where
  "insort_by cmp x [] = [x]"
| "insort_by cmp x (y # ys) = (if cmp x y \<le> 0 then x # y # ys else y # insort_by cmp x ys)"

definition sort_by :: "('a \<Rightarrow> 'a \<Rightarrow> int) \<Rightarrow> 'a list \<Rightarrow> 'a list" where
  "sort_by cmp xs = foldr (insort_by cmp) xs []"

lemma set_insort_by [simp]: "set (insort_by cmp x ys) = insert x (set ys)"
  by (induction ys) auto

lemma length_insort_by [simp]: "length (insort_by cmp x ys) = Suc (length ys)"
  by (induction ys) auto

lemma distinct_map_insort_by [simp]:
  "distinct (map f (insort_by cmp x ys)) \<longleftrightarrow> f x \<notin> f ` set ys \<and> distinct (map f ys)"
  by (induction ys) auto

lemma sort_by_simps [simp]:
  "sort_by cmp [] = []"
  "sort_by cmp (x # xs) = insort_by cmp x (sort_by cmp xs)"
  by (simp_all add: sort_by_def)

lemma set_sort_by [simp]: "set (sort_by cmp xs) = set xs"
  by (induction xs) auto

lemma length_sort_by [simp]: "length (sort_by cmp xs) = length xs"
  by (induction xs) auto

lemma distinct_map_sort_by [simp]: "distinct (map f (sort_by cmp xs)) = distinct (map f xs)"
  by (induction xs) auto

lemma sort_by_eq_Nil [simp]: "sort_by cmp xs = [] \<longleftrightarrow> xs = []"
  by (metis length_0_conv length_sort_by)

lemma sort_by_cong:
  assumes "\<And>x y. x \<in> set xs \<Longrightarrow> y \<in> set xs \<Longrightarrow> cmp x y = cmp' x y"
  shows "sort_by cmp xs = sort_by cmp' xs"
proof -
  have ins: "insort_by cmp x ys = insort_by cmp' x ys"
    if "\<And>y. y \<in> set ys \<Longrightarrow> cmp x y = cmp' x y" for x ys
    using that by (induction ys) auto
  show ?thesis
    using assms by (induction xs) (auto intro!: ins)
qed

text \<open>
  The interface of a comparator: on the carrier its sign is that of a total preorder. The
  provider is the code that hands the comparator to \<open>sort\<close>; the client is whoever reads the
  head or the order of the sorted array.
\<close>

locale comparator =
  fixes carrier :: "'a \<Rightarrow> bool"
    and cmp :: "'a \<Rightarrow> 'a \<Rightarrow> int"
  assumes total: "carrier x \<Longrightarrow> carrier y \<Longrightarrow> cmp x y \<le> 0 \<or> cmp y x \<le> 0"
    and trans: "carrier x \<Longrightarrow> carrier y \<Longrightarrow> carrier z \<Longrightarrow>
      cmp x y \<le> 0 \<Longrightarrow> cmp y z \<le> 0 \<Longrightarrow> cmp x z \<le> 0"
begin

lemma refl: "carrier x \<Longrightarrow> cmp x x \<le> 0"
  using total by blast

lemma sorted_insort_by:
  assumes "carrier x" and "\<forall>y \<in> set ys. carrier y"
    and "sorted_wrt (\<lambda>a b. cmp a b \<le> 0) ys"
  shows "sorted_wrt (\<lambda>a b. cmp a b \<le> 0) (insort_by cmp x ys)"
  using assms
proof (induction ys)
  case (Cons y ys)
  show ?case
  proof (cases "cmp x y \<le> 0")
    case True
    with Cons.prems show ?thesis by (auto intro: trans)
  next
    case False
    with Cons.prems have "cmp y x \<le> 0" using total by auto
    with False Cons show ?thesis by auto
  qed
qed simp

theorem sorted_sort_by:
  "\<forall>x \<in> set xs. carrier x \<Longrightarrow> sorted_wrt (\<lambda>a b. cmp a b \<le> 0) (sort_by cmp xs)"
  by (induction xs) (auto intro!: sorted_insort_by)

theorem head_least:
  assumes "\<forall>x \<in> set xs. carrier x" and "sort_by cmp xs = h # t" and "x \<in> set xs"
  shows "cmp h x \<le> 0"
proof -
  have "sorted_wrt (\<lambda>a b. cmp a b \<le> 0) (h # t)"
    using sorted_sort_by [OF assms(1)] assms(2) by simp
  moreover have "x \<in> set (h # t)" using assms(2,3) by (metis set_sort_by)
  moreover have "carrier h" using assms(1,2) by (metis list.set_intros(1) set_sort_by)
  ultimately show ?thesis using refl by auto
qed

lemma insort_by_filter:
  assumes "carrier x" and "\<forall>y \<in> set ys. carrier y" and "sorted_wrt (\<lambda>a b. cmp a b \<le> 0) ys"
  shows "filter P (insort_by cmp x ys) = (if P x then insort_by cmp x (filter P ys) else filter P ys)"
  using assms
proof (induction ys)
  case (Cons y ys)
  have "insort_by cmp x zs = x # zs" if "cmp x y \<le> 0" "zs = filter P ys" for zs
    using that Cons.prems by (cases zs) (auto dest!: Cons_eq_filterD intro: trans)
  with Cons show ?case by auto
qed simp

theorem sort_by_filter:
  "\<forall>x \<in> set xs. carrier x \<Longrightarrow> sort_by cmp (filter P xs) = filter P (sort_by cmp xs)"
  by (induction xs) (simp_all add: insort_by_filter sorted_sort_by)

end

text \<open>
  A consistent comparator of a whole type; comparators compose lexicographically, as the chains
  of \<open>a || b\<close> in the code do.
\<close>

definition consistent :: "('a \<Rightarrow> 'a \<Rightarrow> int) \<Rightarrow> bool" where
  "consistent c \<longleftrightarrow>
     (\<forall>x y. sgn (c x y) = - sgn (c y x)) \<and>
     (\<forall>x y z. c x y \<le> 0 \<longrightarrow> c y z \<le> 0 \<longrightarrow> c x z \<le> 0)"

definition or_compare :: "('a \<Rightarrow> 'a \<Rightarrow> int) \<Rightarrow> ('a \<Rightarrow> 'a \<Rightarrow> int) \<Rightarrow> 'a \<Rightarrow> 'a \<Rightarrow> int" where
  "or_compare c d x y = (if c x y \<noteq> 0 then c x y else d x y)"

lemma consistent_sgn: "consistent c \<Longrightarrow> sgn (c x y) = - sgn (c y x)"
  unfolding consistent_def by blast

lemma consistent_neg:
  assumes "consistent c"
  shows "c x y \<le> 0 \<longleftrightarrow> 0 \<le> c y x"
  using consistent_sgn [OF assms, of x y] by (simp add: sgn_if split: if_splits)

lemma consistent_trans: "consistent c \<Longrightarrow> c x y \<le> 0 \<Longrightarrow> c y z \<le> 0 \<Longrightarrow> c x z \<le> 0"
  unfolding consistent_def by blast

lemma consistent_comparator: "consistent c \<Longrightarrow> comparator (\<lambda>_. True) c"
proof
  fix x y assume "consistent c"
  then show "c x y \<le> 0 \<or> c y x \<le> 0" using consistent_neg [of c x y] by linarith
qed (rule consistent_trans)

lemma consistent_map: "consistent c \<Longrightarrow> consistent (\<lambda>x y. c (f x) (f y))"
  unfolding consistent_def by blast

lemma consistent_minus: "consistent (\<lambda>x y :: int. x - y)"
  by (auto simp: consistent_def sgn_if)

lemma consistent_or:
  assumes c: "consistent c" and d: "consistent d"
  shows "consistent (or_compare c d)"
  unfolding consistent_def
proof (intro conjI allI impI)
  fix x y
  show "sgn (or_compare c d x y) = - sgn (or_compare c d y x)"
    using consistent_sgn [OF c, of x y] consistent_sgn [OF d, of x y]
    by (simp add: or_compare_def sgn_if split: if_splits)
next
  fix x y z
  assume xy: "or_compare c d x y \<le> 0" and yz: "or_compare c d y z \<le> 0"
  then have le: "c x y \<le> 0" "c y z \<le> 0"
    by (auto simp: or_compare_def split: if_splits)
  then have xz: "c x z \<le> 0" by (rule consistent_trans [OF c])
  show "or_compare c d x z \<le> 0"
  proof (cases "c x z = 0")
    case True
    then have "c z x \<le> 0" using consistent_neg [OF c, of z x] by simp
    then have "c y x \<le> 0" "c z y \<le> 0"
      using le consistent_trans [OF c] by blast+
    then have "c x y = 0" "c y z = 0"
      using le consistent_neg [OF c, of y x] consistent_neg [OF c, of z y] by simp_all
    with xy yz have "d x y \<le> 0" "d y z \<le> 0" by (simp_all add: or_compare_def)
    then have "d x z \<le> 0" by (rule consistent_trans [OF d])
    with True show ?thesis by (simp add: or_compare_def)
  qed (simp add: or_compare_def xz)
qed

section \<open>State machines with an invariant\<close>

text \<open>
  The interface of a component whose operations are fallible steps of one state: an operation
  that succeeds keeps the invariant. The client obtains the invariant after any sequence of
  operations; an operation that fails leaves the state as it was.
\<close>

locale machine =
  fixes step :: "'s \<Rightarrow> 'op \<Rightarrow> 's"
    and inv :: "'s \<Rightarrow> bool"
  assumes step_inv: "inv s \<Longrightarrow> inv (step s e)"
begin

theorem run_inv: "inv s \<Longrightarrow> inv (foldl step s es)"
  by (induction es arbitrary: s) (auto intro: step_inv)

end

end
