(* ===== verification/Json.thy ===== *)
theory Json
  imports Prelude
begin

text \<open>
  JSON values, as the workspace code handles them: documents, patch values and whole workspace
  snapshots are plain JSON objects at run time. The theory models the copy and the deep equality
  routines of \<open>workspaceCommand.ts\<close>, \<open>workspaceOperation.ts\<close> and \<open>jsonValue.ts\<close>, and proves
  that the equality routines agree and identify exactly the values that differ in the order of
  object keys only.

  Numbers are rationals: a value that has been through \<open>JSON.stringify\<close> is finite and never
  \<open>-0\<close>, so its exact value determines it and \<open>Object.is\<close> is equality. An object is its list of
  own entries in insertion order; the special enumeration order of integer-like keys and the
  properties an object inherits from \<open>Object.prototype\<close> are not modelled.
\<close>

section \<open>The data\<close>

datatype json =
    JNull
  | JBool bool
  | JNum rat
  | JStr string
  | JArr "json list"
  | JObj "(string \<times> json) list"

text \<open>Every object of the run time has distinct keys.\<close>

fun wf_json :: "json \<Rightarrow> bool" where
  "wf_json (JArr xs) = (\<forall>x \<in> set xs. wf_json x)"
| "wf_json (JObj kvs) = (distinct (map fst kvs) \<and> (\<forall>e \<in> set kvs. wf_json (snd e)))"
| "wf_json _ = True"

fun json_keys :: "json \<Rightarrow> string list" where
  "json_keys (JObj kvs) = map fst kvs"
| "json_keys _ = []"

text \<open>\<open>isRecord\<close> of \<open>jsonValue.ts\<close> and \<open>Array.isArray\<close>.\<close>

fun isRecord :: "json \<Rightarrow> bool" where
  "isRecord (JObj _) = True"
| "isRecord _ = False"

fun isArray :: "json \<Rightarrow> bool" where
  "isArray (JArr _) = True"
| "isArray _ = False"

lemma map_of_size: "map_of kvs k = Some v \<Longrightarrow> size v < size (JObj kvs)"
  by (induction kvs) (auto split: if_splits)

lemma wf_json_map_of: "wf_json (JObj kvs) \<Longrightarrow> map_of kvs k = Some v \<Longrightarrow> wf_json v"
  by (auto dest!: map_of_SomeD)

lemma map_of_sub:
  assumes "wf_json a" and "a = JObj l" and "map_of l k = Some v"
  shows "size v < size a" and "wf_json v"
  using assms map_of_size wf_json_map_of by blast+

section \<open>Copies\<close>

text \<open>\<open>cloneJsonValue\<close>: rebuilds arrays and objects entry by entry.\<close>

fun cloneJsonValue :: "json \<Rightarrow> json" where
  "cloneJsonValue (JArr xs) = JArr (map cloneJsonValue xs)"
| "cloneJsonValue (JObj kvs) = JObj (map (\<lambda>(k, v). (k, cloneJsonValue v)) kvs)"
| "cloneJsonValue v = v"

lemma cloneJsonValue_id [simp]: "cloneJsonValue v = v"
proof (induction v rule: cloneJsonValue.induct)
  case (2 kvs)
  then have "map (\<lambda>(k, v). (k, cloneJsonValue v)) kvs = kvs"
    by (intro map_idI) auto
  then show ?case by simp
qed (auto intro: map_idI)

section \<open>Deep equality\<close>

text \<open>\<open>valuesEqual\<close> of \<open>workspaceCommand.ts\<close>: the sorted key lists are compared first.\<close>

function valuesEqual :: "json \<Rightarrow> json \<Rightarrow> bool" where
  "valuesEqual left right =
     (case (left, right) of
        (JArr xs, JArr ys) \<Rightarrow> length xs = length ys \<and> list_all2 valuesEqual xs ys
      | (JObj l, JObj r) \<Rightarrow>
          sort (map fst l) = sort (map fst r) \<and>
          list_all (\<lambda>key. case (map_of l key, map_of r key) of
                            (Some v, Some w) \<Rightarrow> valuesEqual v w
                          | _ \<Rightarrow> False) (sort (map fst l))
      | _ \<Rightarrow> left = right)"
  by pat_completeness auto
termination
  by (relation "measure (\<lambda>(l, r). size l)")
    (auto dest: map_of_size [OF sym] simp: less_Suc_eq_le size_list_estimation')

text \<open>
  \<open>jsonValuesEqual\<close> of \<open>jsonValue.ts\<close>, and \<open>valuesEqual\<close> of \<open>workspaceOperation.ts\<close>, which has
  the same body: the keys are compared position by position along the walk.
\<close>

function jsonValuesEqual :: "json \<Rightarrow> json \<Rightarrow> bool" where
  "jsonValuesEqual left right =
     (case (left, right) of
        (JArr xs, JArr ys) \<Rightarrow> length xs = length ys \<and> list_all2 jsonValuesEqual xs ys
      | (JObj l, JObj r) \<Rightarrow>
          length l = length r \<and>
          list_all (\<lambda>(key, key'). key = key' \<and>
                      (case (map_of l key, map_of r key) of
                         (Some v, Some w) \<Rightarrow> jsonValuesEqual v w
                       | _ \<Rightarrow> False))
            (zip (sort (map fst l)) (sort (map fst r)))
      | _ \<Rightarrow> left = right)"
  by pat_completeness auto
termination
  by (relation "measure (\<lambda>(l, r). size l)")
    (auto dest: map_of_size [OF sym] simp: less_Suc_eq_le size_list_estimation')

declare valuesEqual.simps [simp del] jsonValuesEqual.simps [simp del]

lemma valuesEqual_simps [simp]:
  "valuesEqual JNull y \<longleftrightarrow> y = JNull"
  "valuesEqual (JBool b) y \<longleftrightarrow> y = JBool b"
  "valuesEqual (JNum n) y \<longleftrightarrow> y = JNum n"
  "valuesEqual (JStr s) y \<longleftrightarrow> y = JStr s"
  "valuesEqual (JArr xs) (JArr ys) \<longleftrightarrow> list_all2 valuesEqual xs ys"
  "valuesEqual x JNull \<longleftrightarrow> x = JNull"
  "valuesEqual x (JBool b) \<longleftrightarrow> x = JBool b"
  "valuesEqual x (JNum n) \<longleftrightarrow> x = JNum n"
  "valuesEqual x (JStr s) \<longleftrightarrow> x = JStr s"
  "valuesEqual (JArr xs) (JObj r) \<longleftrightarrow> False"
  "valuesEqual (JObj l) (JArr ys) \<longleftrightarrow> False"
  by (auto simp: valuesEqual.simps [of _ y for y] list_all2_lengthD split: json.splits)

text \<open>The equality of two objects, seen as maps: every key has equal values on both sides.\<close>

lemma sort_fst_eq_iff:
  assumes "distinct (map fst l)" and "distinct (map fst r)"
  shows "sort (map fst l) = sort (map fst r) \<longleftrightarrow> dom (map_of l) = dom (map_of r)"
proof -
  have "sort (map fst l) = sort (map fst r) \<longleftrightarrow> set (map fst l) = set (map fst r)"
    by (metis assms set_sort sorted_list_of_set_sort_remdups distinct_remdups_id)
  then show ?thesis by (simp add: dom_map_of_conv_image_fst)
qed

lemma valuesEqual_JObj:
  assumes "distinct (map fst l)" and "distinct (map fst r)"
  shows "valuesEqual (JObj l) (JObj r) \<longleftrightarrow>
    (\<forall>k. rel_option valuesEqual (map_of l k) (map_of r k))"
proof
  assume eq: "valuesEqual (JObj l) (JObj r)"
  then have dom: "dom (map_of l) = dom (map_of r)"
    and vals: "\<forall>k \<in> fst ` set l. case (map_of l k, map_of r k) of
                 (Some v, Some w) \<Rightarrow> valuesEqual v w | _ \<Rightarrow> False"
    using assms
    by (auto simp: valuesEqual.simps [of "JObj l"] sort_fst_eq_iff list_all_iff
        simp del: map_of_eq_None_iff)
  show "\<forall>k. rel_option valuesEqual (map_of l k) (map_of r k)"
  proof
    fix k
    show "rel_option valuesEqual (map_of l k) (map_of r k)"
    proof (cases "map_of l k")
      case None
      with dom have "map_of r k = None" by (metis domIff)
      with None show ?thesis by simp
    next
      case (Some v)
      then have "k \<in> fst ` set l" by (metis in_dom_map_of option.distinct(1))
      with vals have "case (map_of l k, map_of r k) of
          (Some v, Some w) \<Rightarrow> valuesEqual v w | _ \<Rightarrow> False" by (rule bspec)
      with Some show ?thesis by (auto split: option.splits)
    qed
  qed
next
  assume rel: "\<forall>k. rel_option valuesEqual (map_of l k) (map_of r k)"
  then have "dom (map_of l) = dom (map_of r)"
    by (auto simp: dom_def) (metis option.rel_distinct option.exhaust)+
  moreover have "case (map_of l k, map_of r k) of
      (Some v, Some w) \<Rightarrow> valuesEqual v w | _ \<Rightarrow> False" if "k \<in> fst ` set l" for k
  proof -
    from that obtain v where "map_of l k = Some v" by (auto simp: in_dom_map_of)
    with spec [OF rel, of k] show ?thesis by (auto simp: option_rel_Some1 split: option.splits)
  qed
  ultimately show "valuesEqual (JObj l) (JObj r)"
    using assms by (auto simp: valuesEqual.simps [of "JObj l"] sort_fst_eq_iff list_all_iff)
qed


lemma list_all2_nth_induct:
  assumes "list_all2 P xs ys" and "\<And>x y. x \<in> set xs \<Longrightarrow> y \<in> set ys \<Longrightarrow> P x y \<Longrightarrow> Q x y"
  shows "list_all2 Q xs ys"
  using assms by (auto simp: list_all2_conv_all_nth)

lemma size_in_JArr: "x \<in> set xs \<Longrightarrow> size x < size (JArr xs)"
  by (simp add: less_Suc_eq_le size_list_estimation')

lemma valuesEqual_refl [simp]: "wf_json v \<Longrightarrow> valuesEqual v v"
proof (induction v rule: wf_json.induct)
  case (1 xs)
  then show ?case by (auto intro: list.rel_refl_strong)
next
  case (2 kvs)
  then show ?case
    by (auto simp: valuesEqual_JObj intro!: option.rel_refl_strong dest!: map_of_SomeD)
qed auto

lemma valuesEqual_sym:
  "wf_json a \<Longrightarrow> wf_json b \<Longrightarrow> valuesEqual a b \<Longrightarrow> valuesEqual b a"
proof (induction a arbitrary: b rule: measure_induct_rule [where f = size])
  case (less a)
  show ?case
  proof (cases a)
    case (JArr xs)
    with less.prems obtain ys where b: "b = JArr ys" and xy: "list_all2 valuesEqual xs ys"
      by (cases b) auto
    have "list_all2 (\<lambda>y x. valuesEqual y x) ys xs"
      using xy less.prems less.IH JArr b size_in_JArr
      by (auto simp: list_all2_conv_all_nth)
    with JArr b show ?thesis by simp
  next
    case (JObj l)
    with less.prems obtain r where b: "b = JObj r" by (cases b) auto
    have "rel_option valuesEqual (map_of r k) (map_of l k)" for k
    proof -
      have "rel_option valuesEqual (map_of l k) (map_of r k)"
        using less.prems JObj b by (simp add: valuesEqual_JObj)
      then show ?thesis
      proof (cases rule: option.rel_cases)
        case (Some v w)
        moreover have "valuesEqual w v"
          using map_of_sub [OF less.prems(1) JObj Some(1)] map_of_sub(2) [OF less.prems(2) b Some(2)]
            Some(3) by (rule less.IH)
        ultimately show ?thesis by simp
      qed simp
    qed
    with less.prems JObj b show ?thesis by (simp add: valuesEqual_JObj)
  qed (use less.prems in auto)
qed

lemma valuesEqual_trans:
  "wf_json a \<Longrightarrow> wf_json b \<Longrightarrow> wf_json c \<Longrightarrow>
   valuesEqual a b \<Longrightarrow> valuesEqual b c \<Longrightarrow> valuesEqual a c"
proof (induction a arbitrary: b c rule: measure_induct_rule [where f = size])
  case (less a)
  show ?case
  proof (cases a)
    case (JArr xs)
    with less.prems obtain ys where b: "b = JArr ys" and xy: "list_all2 valuesEqual xs ys"
      by (cases b) auto
    from less.prems b obtain zs where c: "c = JArr zs" and yz: "list_all2 valuesEqual ys zs"
      by (cases c) auto
    have "valuesEqual (xs ! i) (zs ! i)" if "i < length xs" for i
      using less.IH [of "xs ! i" "ys ! i" "zs ! i"] that xy yz less.prems JArr b c
        size_in_JArr [of "xs ! i" xs] by (simp add: list_all2_conv_all_nth)
    with JArr c xy yz show ?thesis by (simp add: list_all2_conv_all_nth)
  next
    case (JObj l)
    with less.prems obtain r where b: "b = JObj r" by (cases b) auto
    with less.prems obtain m where c: "c = JObj m" by (cases c) auto
    have "rel_option valuesEqual (map_of l k) (map_of m k)" for k
    proof -
      have "rel_option valuesEqual (map_of l k) (map_of r k)"
        and "rel_option valuesEqual (map_of r k) (map_of m k)"
        using less.prems JObj b c by (simp_all add: valuesEqual_JObj)
      then show ?thesis
      proof (cases rule: option.rel_cases [OF \<open>rel_option valuesEqual (map_of l k) (map_of r k)\<close>])
        case (2 v w)
        with \<open>rel_option valuesEqual (map_of r k) (map_of m k)\<close>
        obtain u where u: "map_of m k = Some u" and "valuesEqual w u"
          by (auto simp: option_rel_Some1)
        moreover have "valuesEqual v u"
          using map_of_sub [OF less.prems(1) JObj 2(1)] map_of_sub(2) [OF less.prems(2) b 2(2)]
            map_of_sub(2) [OF less.prems(3) c u] 2(3) \<open>valuesEqual w u\<close> by (rule less.IH)
        ultimately show ?thesis using 2 by simp
      qed (auto simp: option_rel_Some1)
    qed
    with less.prems JObj c show ?thesis by (simp add: valuesEqual_JObj)
  qed (use less.prems in auto)
qed

section \<open>The canonical form\<close>

text \<open>The value with the keys of every object in ascending order.\<close>

fun canonical_json :: "json \<Rightarrow> json" where
  "canonical_json (JArr xs) = JArr (map canonical_json xs)"
| "canonical_json (JObj kvs) =
     JObj (map (\<lambda>(k, v). (k, canonical_json v)) (sort_key fst kvs))"
| "canonical_json v = v"

lemma sort_key_fst:
  assumes "distinct (map fst kvs)"
  shows "sort_key fst kvs = map (\<lambda>k. (k, the (map_of kvs k))) (sort (map fst kvs))"
proof -
  have "sort_key fst kvs = map (\<lambda>e. (fst e, the (map_of kvs (fst e)))) (sort_key fst kvs)"
    using assms by (intro map_idI [symmetric]) (auto simp: map_of_is_SomeI)
  also have "\<dots> = map (\<lambda>k. (k, the (map_of kvs k))) (map fst (sort_key fst kvs))"
    by (simp add: comp_def)
  also have "map fst (sort_key fst kvs) = sort (map fst kvs)"
    by (rule properties_for_sort [symmetric]) (simp_all add: sorted_sort_key)
  finally show ?thesis .
qed

lemma canonical_json_JObj:
  assumes "distinct (map fst kvs)"
  shows "canonical_json (JObj kvs) =
    JObj (map (\<lambda>k. (k, canonical_json (the (map_of kvs k)))) (sort (map fst kvs)))"
  by (simp add: sort_key_fst [OF assms] comp_def)

lemma map_graph_eq:
  "map (\<lambda>k. (k, f k)) L = map (\<lambda>k. (k, g k)) R \<longleftrightarrow> L = R \<and> (\<forall>k \<in> set L. f k = g k)"
  by (induction L R rule: list_induct2') auto

theorem valuesEqual_canonical:
  "wf_json a \<Longrightarrow> wf_json b \<Longrightarrow> valuesEqual a b \<longleftrightarrow> canonical_json a = canonical_json b"
proof (induction a arbitrary: b rule: measure_induct_rule [where f = size])
  case (less a)
  show ?case
  proof (cases a)
    case (JArr xs)
    show ?thesis
    proof (cases b)
      fix ys assume b: "b = JArr ys"
      have "valuesEqual (xs ! i) (ys ! i) \<longleftrightarrow> canonical_json (xs ! i) = canonical_json (ys ! i)"
        if "i < length xs" "i < length ys" for i
        using less.IH [of "xs ! i" "ys ! i"] that less.prems JArr b
          size_in_JArr [of "xs ! i" xs] by simp
      with JArr b show ?thesis
        by (auto simp: list_all2_conv_all_nth list_eq_iff_nth_eq)
    qed (use JArr in auto)
  next
    case (JObj l)
    show ?thesis
    proof (cases b)
      fix r assume b: "b = JObj r"
      have dl: "distinct (map fst l)" and dr: "distinct (map fst r)"
        using less.prems JObj b by auto
      have val: "valuesEqual v w \<longleftrightarrow> canonical_json v = canonical_json w"
        if "map_of l k = Some v" "map_of r k = Some w" for k v w
        using map_of_sub [OF less.prems(1) JObj that(1)] map_of_sub(2) [OF less.prems(2) b that(2)]
        by (rule less.IH)
      let ?f = "\<lambda>k. canonical_json (the (map_of l k))"
      let ?g = "\<lambda>k. canonical_json (the (map_of r k))"
      have pt: "(case (map_of l k, map_of r k) of
          (Some v, Some w) \<Rightarrow> valuesEqual v w | _ \<Rightarrow> False) \<longleftrightarrow> ?f k = ?g k"
        if "sort (map fst l) = sort (map fst r)" "k \<in> set (sort (map fst l))" for k
      proof -
        from that(2) have "k \<in> fst ` set l" by simp
        moreover have "fst ` set l = fst ` set r"
          by (metis that(1) list.set_map set_sort)
        ultimately have "map_of l k \<noteq> None" and "map_of r k \<noteq> None"
          by (simp_all add: map_of_eq_None_iff)
        then obtain v w where "map_of l k = Some v" "map_of r k = Some w" by blast
        with val show ?thesis by simp
      qed
      have "valuesEqual a b \<longleftrightarrow> sort (map fst l) = sort (map fst r) \<and>
          (\<forall>k \<in> set (sort (map fst l)). ?f k = ?g k)"
        unfolding JObj b valuesEqual.simps [of "JObj l"] list_all_iff prod.case json.case
        using pt by blast
      also have "\<dots> \<longleftrightarrow> canonical_json a = canonical_json b"
        unfolding JObj b canonical_json_JObj [OF dl] canonical_json_JObj [OF dr]
        by (simp add: map_graph_eq)
      finally show ?thesis .
    qed (use JObj in auto)
  qed (use less.prems in \<open>cases b; auto\<close>)+
qed

text \<open>The two routines decide the same relation on run-time values.\<close>

lemma list_all_zip_eq:
  "length xs = length ys \<and> list_all (\<lambda>(x, y). x = y \<and> P x y) (zip xs ys) \<longleftrightarrow>
   xs = ys \<and> list_all (\<lambda>x. P x x) xs"
  by (induction xs ys rule: list_induct2') auto

theorem jsonValuesEqual_eq: "jsonValuesEqual a b = valuesEqual a b"
proof (induction a arbitrary: b rule: measure_induct_rule [where f = size])
  case (less a)
  show ?case
  proof (cases "\<exists>l r. a = JObj l \<and> b = JObj r")
    case True
    then obtain l r where a: "a = JObj l" and b: "b = JObj r" by blast
    let ?P = "\<lambda>E key key'. case (map_of l key, map_of r key) of
        (Some v, Some w) \<Rightarrow> E v w | _ \<Rightarrow> False"
    have IH: "?P jsonValuesEqual k k' = ?P valuesEqual k k'" for k k'
      using less.IH map_of_size a by (auto split: option.splits)
    have "jsonValuesEqual a b \<longleftrightarrow>
        length (sort (map fst l)) = length (sort (map fst r)) \<and>
        list_all (\<lambda>(k, k'). k = k' \<and> ?P jsonValuesEqual k k')
          (zip (sort (map fst l)) (sort (map fst r)))"
      by (simp add: a b jsonValuesEqual.simps [of "JObj l"])
    then show ?thesis
      by (simp only: list_all_zip_eq IH) (simp add: a b valuesEqual.simps [of "JObj l"])
  next
    case False
    show ?thesis
    proof (cases "\<exists>xs ys. a = JArr xs \<and> b = JArr ys")
      case True
      then obtain xs ys where a: "a = JArr xs" and b: "b = JArr ys" by blast
      have "list_all2 jsonValuesEqual xs ys = list_all2 valuesEqual xs ys"
        using less.IH size_in_JArr a by (intro list.rel_cong) auto
      with a b show ?thesis
        by (auto simp: jsonValuesEqual.simps [of "JArr xs"] list_all2_lengthD)
    next
      case False
      with \<open>\<nexists>l r. a = JObj l \<and> b = JObj r\<close> show ?thesis
        by (subst jsonValuesEqual.simps, subst valuesEqual.simps) (auto split: json.splits)
    qed
  qed
qed

section \<open>Equality of run-time values\<close>

text \<open>
  Deep equality between two values that are both well formed. It is the relation under which
  the patch operations of a command are functions: two workspaces that are deeply equal stay so
  under the same patch.
\<close>

definition json_eqv :: "json \<Rightarrow> json \<Rightarrow> bool" where
  "json_eqv a b \<longleftrightarrow> wf_json a \<and> wf_json b \<and> valuesEqual a b"

lemma json_eqv_refl [simp]: "json_eqv a a \<longleftrightarrow> wf_json a"
  by (auto simp: json_eqv_def)

lemma json_eqv_sym: "json_eqv a b \<Longrightarrow> json_eqv b a"
  by (auto simp: json_eqv_def intro: valuesEqual_sym)

lemma json_eqv_trans: "json_eqv a b \<Longrightarrow> json_eqv b c \<Longrightarrow> json_eqv a c"
  by (auto simp: json_eqv_def intro: valuesEqual_trans)

lemma wf_json_JObj_iff:
  "wf_json (JObj kvs) \<longleftrightarrow>
     distinct (map fst kvs) \<and> (\<forall>k v. map_of kvs k = Some v \<longrightarrow> wf_json v)"
  by (auto dest!: map_of_SomeD intro: map_of_is_SomeI)

lemma json_eqv_JArr [simp]: "json_eqv (JArr xs) (JArr ys) \<longleftrightarrow> list_all2 json_eqv xs ys"
  by (auto simp: json_eqv_def list_all2_conv_all_nth all_set_conv_all_nth)

lemma json_eqv_JObj:
  "json_eqv (JObj l) (JObj r) \<longleftrightarrow>
     distinct (map fst l) \<and> distinct (map fst r) \<and>
     (\<forall>k. rel_option json_eqv (map_of l k) (map_of r k))"
proof -
  have split: "rel_option json_eqv x y \<longleftrightarrow> rel_option valuesEqual x y \<and>
      (\<forall>v. x = Some v \<longrightarrow> wf_json v) \<and> (\<forall>w. y = Some w \<longrightarrow> wf_json w)" for x y
    by (cases x; cases y) (auto simp: json_eqv_def)
  show ?thesis
  proof (cases "distinct (map fst l) \<and> distinct (map fst r)")
    case True
    then show ?thesis
      unfolding json_eqv_def wf_json_JObj_iff split
      by (simp only: valuesEqual_JObj all_conj_distrib simp_thms conj_ac)
  next
    case False
    then show ?thesis by (auto simp: json_eqv_def)
  qed
qed

lemma list_all2_eqv_refl [simp]: "\<forall>x \<in> set xs. wf_json x \<Longrightarrow> list_all2 json_eqv xs xs"
  by (auto intro: list.rel_refl_strong)

lemma rel_option_eqv_refl [simp]:
  "\<forall>e \<in> set kvs. wf_json (snd e) \<Longrightarrow> rel_option json_eqv (map_of kvs k) (map_of kvs k)"
  by (auto intro!: option.rel_refl_strong dest!: map_of_SomeD)

lemma json_eqv_cases:
  assumes "json_eqv a b"
  obtains (Scalar) "a = b" and "\<not> isArray a" and "\<not> isRecord a"
    | (Array) xs ys where "a = JArr xs" and "b = JArr ys" and "list_all2 json_eqv xs ys"
    | (Record) l r where "a = JObj l" and "b = JObj r"
proof (cases a)
  case (JArr xs)
  with assms obtain ys where "b = JArr ys" by (cases b) (auto simp: json_eqv_def)
  with JArr assms show ?thesis using Array by simp
next
  case (JObj l)
  with assms obtain r where "b = JObj r" by (cases b) (auto simp: json_eqv_def)
  with JObj show ?thesis by (rule Record)
qed (use assms in \<open>auto simp: json_eqv_def intro: Scalar\<close>)

end
