(* ===== verification/JsonPointer.thy ===== *)
theory JsonPointer
  imports Json
begin

text \<open>
  JSON pointers. The command engine parses them strictly (\<open>decodePointerSegment\<close> and
  \<open>parsePointer\<close> of \<open>workspaceCommand.ts\<close>: a malformed escape is rejected); the
  synchronisation package parses and prints them with \<open>replaceAll\<close> (\<open>jsonValue.ts\<close>). The two
  agree on every pointer the strict parser accepts, and both read back what the printer writes.
\<close>

section \<open>The strict parser\<close>

fun decodePointerSegment :: "string \<Rightarrow> string option" where
  "decodePointerSegment [] = Some []"
| "decodePointerSegment (c # cs) =
     (if c \<noteq> CHR ''~'' then map_option (Cons c) (decodePointerSegment cs)
      else (case cs of
              [] \<Rightarrow> None
            | e # rest \<Rightarrow>
                if e = CHR ''0'' then map_option (Cons (CHR ''~'')) (decodePointerSegment rest)
                else if e = CHR ''1'' then map_option (Cons (CHR ''/'')) (decodePointerSegment rest)
                else None))"

definition parsePointer :: "string \<Rightarrow> string list option" where
  "parsePointer path =
     (if path = [] then Some []
      else if hd path \<noteq> CHR ''/'' then None
      else those (map decodePointerSegment (split_on (CHR ''/'') (tl path))))"

section \<open>The lenient parser and the printer\<close>

text \<open>
  \<open>s.replaceAll(from, to)\<close> for a two-character pattern, and for a one-character pattern:
  leftmost matches, without overlap.
\<close>

fun replace_pair :: "char \<Rightarrow> char \<Rightarrow> string \<Rightarrow> string \<Rightarrow> string" where
  "replace_pair a b to (c # d # cs) =
     (if c = a \<and> d = b then to @ replace_pair a b to cs
      else c # replace_pair a b to (d # cs))"
| "replace_pair a b to cs = cs"

definition replace_char :: "char \<Rightarrow> string \<Rightarrow> string \<Rightarrow> string" where
  "replace_char a to s = concat (map (\<lambda>c. if c = a then to else [c]) s)"

definition escapeJsonPointerSegment :: "string \<Rightarrow> string" where
  "escapeJsonPointerSegment v =
     replace_char (CHR ''/'') ''~1'' (replace_char (CHR ''~'') ''~0'' v)"

definition decodeJsonPointerSegment :: "string \<Rightarrow> string" where
  "decodeJsonPointerSegment v =
     replace_pair (CHR ''~'') (CHR ''0'') ''~'' (replace_pair (CHR ''~'') (CHR ''1'') ''/'' v)"

definition parseJsonPointer :: "string \<Rightarrow> string list option" where
  "parseJsonPointer path =
     (if path = [] then Some []
      else if hd path \<noteq> CHR ''/'' then None
      else Some (map decodeJsonPointerSegment (split_on (CHR ''/'') (tl path))))"

definition appendJsonPointer :: "string \<Rightarrow> string \<Rightarrow> string" where
  "appendJsonPointer path segment = path @ ''/'' @ escapeJsonPointerSegment segment"

definition printJsonPointer :: "string list \<Rightarrow> string" where
  "printJsonPointer segs = foldl appendJsonPointer '''' segs"

section \<open>Round trips\<close>

lemma escape_Nil [simp]: "escapeJsonPointerSegment [] = []"
  by (simp add: escapeJsonPointerSegment_def replace_char_def)

lemma escape_Cons:
  "escapeJsonPointerSegment (c # s) =
     (if c = CHR ''~'' then ''~0'' else if c = CHR ''/'' then ''~1'' else [c]) @
     escapeJsonPointerSegment s"
  by (auto simp: escapeJsonPointerSegment_def replace_char_def)

lemma slash_notin_escape: "CHR ''/'' \<notin> set (escapeJsonPointerSegment s)"
  by (induction s) (auto simp: escape_Cons)

lemma decodePointerSegment_escape [simp]:
  "decodePointerSegment (escapeJsonPointerSegment s) = Some s"
  by (induction s) (auto simp: escape_Cons)

text \<open>Where the strict decoder accepts, the lenient one gives the same segment.\<close>

lemma replace_pair_other [simp]:
  "c \<noteq> a \<Longrightarrow> replace_pair a b to (c # cs) = c # replace_pair a b to cs"
  by (cases cs) auto

lemma decodeJsonPointerSegment_simps [simp]:
  "decodeJsonPointerSegment [] = []"
  "c \<noteq> CHR ''~'' \<Longrightarrow> decodeJsonPointerSegment (c # cs) = c # decodeJsonPointerSegment cs"
  "decodeJsonPointerSegment (CHR ''~'' # CHR ''0'' # cs) = CHR ''~'' # decodeJsonPointerSegment cs"
  "decodeJsonPointerSegment (CHR ''~'' # CHR ''1'' # cs) = CHR ''/'' # decodeJsonPointerSegment cs"
  by (simp_all add: decodeJsonPointerSegment_def)

lemma decode_strict_lenient:
  "decodePointerSegment s = Some d \<Longrightarrow> decodeJsonPointerSegment s = d"
proof (induction s arbitrary: d rule: length_induct)
  case (1 s)
  show ?case
  proof (cases s rule: decodePointerSegment.cases)
    case (2 c cs)
    show ?thesis
    proof (cases "c = CHR ''~''")
      case False
      with 1 2 show ?thesis by auto
    next
      case True
      with 1(2) 2 obtain e rest d' where cs: "cs = e # rest" "e = CHR ''0'' \<or> e = CHR ''1''"
        and d': "decodePointerSegment rest = Some d'"
        by (cases cs) (auto split: if_splits)
      moreover have "decodeJsonPointerSegment rest = d'"
        using 1(1) 2 cs d' by simp
      ultimately show ?thesis using 1(2) 2 True by auto
    qed
  qed (use 1 in auto)
qed

theorem parsePointer_lenient:
  "parsePointer p = Some segs \<Longrightarrow> parseJsonPointer p = Some segs"
proof -
  have "those (map decodePointerSegment ws) = Some ds \<Longrightarrow>
      map decodeJsonPointerSegment ws = ds" for ws ds
    by (induction ws arbitrary: ds)
      (auto split: option.splits simp: decode_strict_lenient)
  then show "parsePointer p = Some segs \<Longrightarrow> parseJsonPointer p = Some segs"
    by (auto simp: parsePointer_def parseJsonPointer_def split: if_splits)
qed

lemma printJsonPointer_snoc:
  "printJsonPointer (segs @ [s]) = appendJsonPointer (printJsonPointer segs) s"
  by (simp add: printJsonPointer_def)

lemma printJsonPointer_Cons:
  "printJsonPointer (s # segs) =
     ''/'' @ join_with ''/'' (map escapeJsonPointerSegment (s # segs))"
proof (induction segs rule: rev_induct)
  case Nil
  then show ?case by (simp add: printJsonPointer_def appendJsonPointer_def)
next
  case (snoc t segs)
  have snoc_join: "ws \<noteq> [] \<Longrightarrow> join_with sep (ws @ [w]) = join_with sep ws @ sep @ w"
    for sep ws w by (induction sep ws rule: join_with.induct) auto
  have "printJsonPointer (s # segs @ [t]) = appendJsonPointer (printJsonPointer (s # segs)) t"
    using printJsonPointer_snoc [of "s # segs" t] by simp
  with snoc show ?case
    using snoc_join [of "map escapeJsonPointerSegment (s # segs)"]
    by (simp add: appendJsonPointer_def)
qed

lemma those_map_Some: "\<forall>x \<in> set xs. f x = Some (g x) \<Longrightarrow> those (map f xs) = Some (map g xs)"
  by (induction xs) auto

theorem parsePointer_print: "parsePointer (printJsonPointer segs) = Some segs"
proof (cases segs)
  case Nil
  then show ?thesis by (simp add: printJsonPointer_def parsePointer_def)
next
  case (Cons s rest)
  have "split_on (CHR ''/'') (join_with ''/'' (map escapeJsonPointerSegment (s # rest))) =
      map escapeJsonPointerSegment (s # rest)"
    using slash_notin_escape by (intro split_on_join) auto
  then show ?thesis
    using those_map_Some [of "s # rest" "decodePointerSegment \<circ> escapeJsonPointerSegment" id]
    by (simp add: Cons printJsonPointer_Cons parsePointer_def del: list.map)
qed

end
