(* ===== verification/JsonPatch.thy ===== *)
theory JsonPatch
  imports JsonPointer
begin

text \<open>
  The patch engine of \<open>packages/workspace/src/workspaceCommand.ts\<close>: reading and changing a JSON
  value at a pointer, and applying the operations of a command. The code clones its input and
  mutates the clone; the model returns the new value. The mutation of a value is the last act of
  \<open>setValue\<close> and \<open>removeValue\<close>, so that a failing call leaves the value as it was, and
  \<open>applyPatchOperations\<close> throws the clone away on failure.
\<close>

section \<open>Operations\<close>

datatype op_kind = OpAdd | OpRemove | OpReplace | OpMove | OpCopy | OpTest

text \<open>\<open>WorkspacePatchOperation\<close>; a missing or undefined member is \<open>None\<close>.\<close>

record patch_op =
  op_kind :: op_kind
  op_path :: string
  op_from :: "string option"
  op_value :: "json option"


text \<open>The pattern \<open>^(?:0|[1-9][0-9]*)$\<close>.\<close>

definition array_index_text :: "string \<Rightarrow> bool" where
  "array_index_text s \<longleftrightarrow>
     s = ''0'' \<or> (s \<noteq> [] \<and> list_all is_digit s \<and> hd s \<noteq> CHR ''0'')"

definition parseArrayIndex :: "string \<Rightarrow> nat \<Rightarrow> bool \<Rightarrow> nat option" where
  "parseArrayIndex segment len allowAppend =
     (if segment = ''-'' then (if allowAppend then Some len else None)
      else if \<not> array_index_text segment then None
      else let index = digits_value segment in
        if index > max_safe_integer then None
        else if allowAppend then (if index \<le> len then Some index else None)
        else (if index < len then Some index else None))"

section \<open>Reading and writing at a pointer\<close>

fun value_at :: "string list \<Rightarrow> json \<Rightarrow> json option" where
  "value_at [] current = Some current"
| "value_at (segment # rest) current =
     (case current of
        JArr xs \<Rightarrow> (case parseArrayIndex segment (length xs) False of
                     None \<Rightarrow> None
                   | Some index \<Rightarrow> value_at rest (xs ! index))
      | JObj kvs \<Rightarrow> (case map_of kvs segment of
                      None \<Rightarrow> None
                    | Some v \<Rightarrow> value_at rest v)
      | _ \<Rightarrow> None)"

definition getValueAtPath :: "json \<Rightarrow> string \<Rightarrow> json option" where
  "getValueAtPath source path =
     (case parsePointer path of None \<Rightarrow> None | Some segments \<Rightarrow> value_at segments source)"

text \<open>
  \<open>resolveParent\<close> walks to the parent of the last segment; the caller then changes the parent
  through the reference it got. Here the change is a function of the parent, and the walk puts
  the changed parent back in its place.
\<close>

fun update_parent :: "string list \<Rightarrow> (json \<Rightarrow> json option) \<Rightarrow> json \<Rightarrow> json option" where
  "update_parent [] change parent = change parent"
| "update_parent (segment # rest) change parent =
     (case parent of
        JArr xs \<Rightarrow> (case parseArrayIndex segment (length xs) False of
                     None \<Rightarrow> None
                   | Some index \<Rightarrow>
                       map_option (\<lambda>v. JArr (xs[index := v])) (update_parent rest change (xs ! index)))
      | JObj kvs \<Rightarrow> (case map_of kvs segment of
                      None \<Rightarrow> None
                    | Some v \<Rightarrow>
                        map_option (\<lambda>v'. JObj (alist_put segment v' kvs)) (update_parent rest change v))
      | _ \<Rightarrow> None)"

definition with_parent :: "string \<Rightarrow> (string \<Rightarrow> json \<Rightarrow> json option) \<Rightarrow> json \<Rightarrow> json option" where
  "with_parent path change source =
     (case parsePointer path of
        None \<Rightarrow> None
      | Some segments \<Rightarrow>
          if segments = [] then None
          else update_parent (butlast segments) (change (last segments)) source)"

datatype set_mode = ModeAdd | ModeReplace

definition splice_insert :: "nat \<Rightarrow> 'a \<Rightarrow> 'a list \<Rightarrow> 'a list" where
  "splice_insert i v xs = take i xs @ v # drop i xs"

definition splice_remove :: "nat \<Rightarrow> 'a list \<Rightarrow> 'a list" where
  "splice_remove i xs = take i xs @ drop (Suc i) xs"

definition set_child :: "set_mode \<Rightarrow> json \<Rightarrow> string \<Rightarrow> json \<Rightarrow> json option" where
  "set_child mode v key parent =
     (case parent of
        JArr xs \<Rightarrow> (case parseArrayIndex key (length xs) (mode = ModeAdd) of
                     None \<Rightarrow> None
                   | Some index \<Rightarrow>
                       if mode = ModeReplace then Some (JArr (xs[index := v]))
                       else Some (JArr (splice_insert index v xs)))
      | JObj kvs \<Rightarrow> if mode = ModeReplace \<and> map_of kvs key = None then None
                    else Some (JObj (alist_put key v kvs))
      | _ \<Rightarrow> None)"

definition remove_child :: "string \<Rightarrow> json \<Rightarrow> json option" where
  "remove_child key parent =
     (case parent of
        JArr xs \<Rightarrow> (case parseArrayIndex key (length xs) False of
                     None \<Rightarrow> None
                   | Some index \<Rightarrow> Some (JArr (splice_remove index xs)))
      | JObj kvs \<Rightarrow> if map_of kvs key = None then None else Some (JObj (alist_del key kvs))
      | _ \<Rightarrow> None)"

definition setValue :: "json \<Rightarrow> string \<Rightarrow> json \<Rightarrow> set_mode \<Rightarrow> json option" where
  "setValue source path v mode = with_parent path (set_child mode v) source"

definition removeValue :: "json \<Rightarrow> string \<Rightarrow> json option" where
  "removeValue source path = with_parent path remove_child source"

section \<open>Applying a patch\<close>

text \<open>One operation: \<open>Inl\<close> is the path the code reports in its failure result.\<close>

definition apply_patch_op :: "json \<Rightarrow> patch_op \<Rightarrow> string + json" where
  "apply_patch_op v op =
     (let failed = Inl (op_path op);
          or_fail = (\<lambda>p r. case r of None \<Rightarrow> Inl p | Some x \<Rightarrow> Inr x)
      in case op_kind op of
        OpAdd \<Rightarrow> (case op_value op of
                    None \<Rightarrow> failed
                  | Some x \<Rightarrow> or_fail (op_path op) (setValue v (op_path op) x ModeAdd))
      | OpReplace \<Rightarrow> (case op_value op of
                    None \<Rightarrow> failed
                  | Some x \<Rightarrow> or_fail (op_path op) (setValue v (op_path op) x ModeReplace))
      | OpTest \<Rightarrow> (case op_value op of
                    None \<Rightarrow> failed
                  | Some x \<Rightarrow> (case getValueAtPath v (op_path op) of
                                 None \<Rightarrow> failed
                               | Some current \<Rightarrow> if valuesEqual current x then Inr v else failed))
      | OpRemove \<Rightarrow> or_fail (op_path op) (removeValue v (op_path op))
      | OpCopy \<Rightarrow> (case op_from op of
                    None \<Rightarrow> failed
                  | Some source \<Rightarrow>
                      if source = [] then failed
                      else (case getValueAtPath v source of
                              None \<Rightarrow> Inl source
                            | Some current \<Rightarrow>
                                or_fail (op_path op) (setValue v (op_path op) current ModeAdd)))
      | OpMove \<Rightarrow> (case op_from op of
                    None \<Rightarrow> failed
                  | Some source \<Rightarrow>
                      if source = [] then failed
                      else (case getValueAtPath v source of
                              None \<Rightarrow> Inl source
                            | Some current \<Rightarrow>
                                (case removeValue v source of
                                   None \<Rightarrow> Inl source
                                 | Some v' \<Rightarrow>
                                     or_fail (op_path op) (setValue v' (op_path op) current ModeAdd)))))"

fun applyPatchOperations :: "json \<Rightarrow> patch_op list \<Rightarrow> string + json" where
  "applyPatchOperations v [] = Inr v"
| "applyPatchOperations v (op # ops) =
     (case apply_patch_op v op of
        Inl path \<Rightarrow> Inl path
      | Inr v' \<Rightarrow> applyPatchOperations v' ops)"

section \<open>Patches respect deep equality\<close>

text \<open>
  Every step of the engine maps deeply equal values to deeply equal values and fails on both or
  on neither, with the same path. Read with one value on both sides this says that the engine
  keeps values well formed.
\<close>

lemma parseArrayIndex_bound:
  "parseArrayIndex s n False = Some i \<Longrightarrow> i < n"
  "parseArrayIndex s n True = Some i \<Longrightarrow> i \<le> n"
  by (auto simp: parseArrayIndex_def Let_def split: if_splits)

lemma value_at_eqv:
  "json_eqv a b \<Longrightarrow> rel_option json_eqv (value_at segs a) (value_at segs b)"
proof (induction segs arbitrary: a b)
  case (Cons s segs)
  from Cons.prems show ?case
  proof (cases rule: json_eqv_cases)
    case (Array xs ys)
    then have len: "length xs = length ys" by (simp add: list_all2_lengthD)
    show ?thesis
    proof (cases "parseArrayIndex s (length ys) False")
      case (Some i)
      then have "json_eqv (xs ! i) (ys ! i)"
        using Array(3) parseArrayIndex_bound(1) by (simp add: list_all2_conv_all_nth)
      then have "rel_option json_eqv (value_at segs (xs ! i)) (value_at segs (ys ! i))"
        by (rule Cons.IH)
      with Array(1,2) len Some show ?thesis by simp
    qed (use Array(1,2) len in simp)
  next
    case (Record l r)
    with Cons.prems have "rel_option json_eqv (map_of l s) (map_of r s)"
      by (simp add: json_eqv_JObj)
    then show ?thesis
      using Record Cons.IH by (cases rule: option.rel_cases) auto
  qed (auto split: json.split)
qed simp

lemma json_eqv_alist_put:
  assumes "json_eqv (JObj l) (JObj r)" and "json_eqv v w"
  shows "json_eqv (JObj (alist_put k v l)) (JObj (alist_put k w r))"
  using assms by (simp add: json_eqv_JObj)

lemma json_eqv_alist_del:
  assumes "json_eqv (JObj l) (JObj r)"
  shows "json_eqv (JObj (alist_del k l)) (JObj (alist_del k r))"
  using assms by (simp add: json_eqv_JObj)

lemma update_parent_eqv:
  assumes "\<And>x y. json_eqv x y \<Longrightarrow> rel_option json_eqv (f x) (g y)" and "json_eqv a b"
  shows "rel_option json_eqv (update_parent segs f a) (update_parent segs g b)"
  using assms(2)
proof (induction segs arbitrary: a b)
  case (Cons s segs)
  from Cons.prems show ?case
  proof (cases rule: json_eqv_cases)
    case (Array xs ys)
    have "rel_option json_eqv (map_option (\<lambda>v. JArr (xs[i := v])) (update_parent segs f (xs ! i)))
        (map_option (\<lambda>v. JArr (ys[i := v])) (update_parent segs g (ys ! i)))"
      if "i < length ys" for i
    proof -
      from that Array have "json_eqv (xs ! i) (ys ! i)" by (simp add: list_all2_conv_all_nth)
      then have "rel_option json_eqv (update_parent segs f (xs ! i)) (update_parent segs g (ys ! i))"
        by (rule Cons.IH)
      then show ?thesis
        using Array that
        by (cases rule: option.rel_cases) (auto intro: list_all2_update_cong)
    qed
    moreover have "length xs = length ys" using Array(3) by (simp add: list_all2_lengthD)
    ultimately show ?thesis
      using Array(1,2) parseArrayIndex_bound(1) [of s "length ys"]
      by (cases "parseArrayIndex s (length ys) False") simp_all
  next
    case (Record l r)
    with Cons.prems have "rel_option json_eqv (map_of l s) (map_of r s)"
      by (simp add: json_eqv_JObj)
    then show ?thesis
    proof (cases rule: option.rel_cases)
      case (Some v w)
      have "rel_option json_eqv (update_parent segs f v) (update_parent segs g w)"
        using Some(3) by (rule Cons.IH)
      then show ?thesis
        using Record Some Cons.prems
        by (cases rule: option.rel_cases) (auto intro: json_eqv_alist_put)
    qed (use Record in auto)
  qed (auto split: json.split)
qed (use assms(1) in auto)

lemma splice_insert_eqv:
  "list_all2 P xs ys \<Longrightarrow> P v w \<Longrightarrow> list_all2 P (splice_insert i v xs) (splice_insert i w ys)"
  by (auto simp: splice_insert_def intro: list_all2_appendI list_all2_takeI list_all2_dropI)

lemma splice_remove_eqv:
  "list_all2 P xs ys \<Longrightarrow> list_all2 P (splice_remove i xs) (splice_remove i ys)"
  by (auto simp: splice_remove_def intro: list_all2_appendI list_all2_takeI list_all2_dropI)

lemma set_child_eqv:
  assumes "json_eqv v w" and "json_eqv x y"
  shows "rel_option json_eqv (set_child mode v key x) (set_child mode w key y)"
  using assms(2)
proof (cases rule: json_eqv_cases)
  case (Array xs ys)
  then have "length xs = length ys" by (simp add: list_all2_lengthD)
  with Array assms(1) show ?thesis
    by (auto simp: set_child_def split: option.split
        intro: list_all2_update_cong splice_insert_eqv)
next
  case (Record l r)
  with assms have "rel_option json_eqv (map_of l key) (map_of r key)"
    by (simp add: json_eqv_JObj)
  then show ?thesis
    using Record assms
    by (cases rule: option.rel_cases) (auto simp: set_child_def intro!: json_eqv_alist_put)
qed (auto simp: set_child_def split: json.split)

lemma remove_child_eqv:
  assumes "json_eqv x y"
  shows "rel_option json_eqv (remove_child key x) (remove_child key y)"
  using assms
proof (cases rule: json_eqv_cases)
  case (Array xs ys)
  then have "length xs = length ys" by (simp add: list_all2_lengthD)
  with Array show ?thesis
    by (auto simp: remove_child_def split: option.split intro: splice_remove_eqv)
next
  case (Record l r)
  with assms have "rel_option json_eqv (map_of l key) (map_of r key)"
    by (simp add: json_eqv_JObj)
  then show ?thesis
    using Record assms
    by (cases rule: option.rel_cases) (auto simp: remove_child_def intro!: json_eqv_alist_del)
qed (auto simp: remove_child_def split: json.split)

lemma setValue_eqv:
  assumes "json_eqv a b" and "json_eqv v w"
  shows "rel_option json_eqv (setValue a path v mode) (setValue b path w mode)"
  using assms by (auto simp: setValue_def with_parent_def split: option.split
      intro!: update_parent_eqv set_child_eqv)

lemma removeValue_eqv:
  assumes "json_eqv a b"
  shows "rel_option json_eqv (removeValue a path) (removeValue b path)"
  using assms by (auto simp: removeValue_def with_parent_def split: option.split
      intro!: update_parent_eqv remove_child_eqv)

lemma getValueAtPath_eqv:
  assumes "json_eqv a b"
  shows "rel_option json_eqv (getValueAtPath a path) (getValueAtPath b path)"
  using assms by (auto simp: getValueAtPath_def split: option.split intro!: value_at_eqv)

text \<open>A patch value is well formed, as every value of the run time is.\<close>

definition wf_op :: "patch_op \<Rightarrow> bool" where
  "wf_op op \<longleftrightarrow> (case op_value op of None \<Rightarrow> True | Some v \<Rightarrow> wf_json v)"

lemma or_fail_eqv:
  "rel_option json_eqv x y \<Longrightarrow>
   rel_sum (=) json_eqv (case x of None \<Rightarrow> Inl p | Some v \<Rightarrow> Inr v)
     (case y of None \<Rightarrow> Inl p | Some v \<Rightarrow> Inr v)"
  by (cases x; cases y) auto

lemma apply_patch_op_eqv:
  assumes "json_eqv a b" and "wf_op op"
  shows "rel_sum (=) json_eqv (apply_patch_op a op) (apply_patch_op b op)"
proof -
  have set_eqv: "rel_sum (=) json_eqv
      (case setValue x (op_path op) v mode of None \<Rightarrow> Inl (op_path op) | Some z \<Rightarrow> Inr z)
      (case setValue y (op_path op) w mode of None \<Rightarrow> Inl (op_path op) | Some z \<Rightarrow> Inr z)"
    if "json_eqv x y" "json_eqv v w" for x y v w mode
    using setValue_eqv [OF that] by (rule or_fail_eqv)
  show ?thesis
  proof (cases "op_kind op")
    case OpMove
    show ?thesis
    proof (cases "op_from op = None \<or> op_from op = Some []")
      case False
      then obtain source where src: "op_from op = Some source" "source \<noteq> []" by auto
      from assms(1) have "rel_option json_eqv (getValueAtPath a source) (getValueAtPath b source)"
        and "rel_option json_eqv (removeValue a source) (removeValue b source)"
        by (rule getValueAtPath_eqv removeValue_eqv)+
      then show ?thesis
        using OpMove src set_eqv
        by (auto simp: apply_patch_op_def Let_def elim!: option.rel_cases)
    qed (use OpMove in \<open>auto simp: apply_patch_op_def Let_def\<close>)
  next
    case OpCopy
    show ?thesis
    proof (cases "op_from op = None \<or> op_from op = Some []")
      case False
      then obtain source where src: "op_from op = Some source" "source \<noteq> []" by auto
      from assms(1) have "rel_option json_eqv (getValueAtPath a source) (getValueAtPath b source)"
        by (rule getValueAtPath_eqv)
      then show ?thesis
        using OpCopy src set_eqv [OF assms(1)]
        by (auto simp: apply_patch_op_def Let_def elim!: option.rel_cases)
    qed (use OpCopy in \<open>auto simp: apply_patch_op_def Let_def\<close>)
  next
    case OpTest
    have "valuesEqual x v \<longleftrightarrow> valuesEqual y v" if "json_eqv x y" "wf_json v" for x y v
      using that by (metis json_eqv_def valuesEqual_sym valuesEqual_trans)
    with OpTest assms show ?thesis
      using getValueAtPath_eqv [OF assms(1), of "op_path op"]
      by (auto simp: apply_patch_op_def Let_def wf_op_def split: option.split
          elim!: option.rel_cases)
  next
    case OpRemove
    with removeValue_eqv [OF assms(1)] show ?thesis
      by (auto simp: apply_patch_op_def Let_def intro!: or_fail_eqv)
  next
    case OpAdd
    with assms show ?thesis
      by (cases "op_value op") (auto simp: apply_patch_op_def Let_def wf_op_def intro!: set_eqv)
  next
    case OpReplace
    with assms show ?thesis
      by (cases "op_value op") (auto simp: apply_patch_op_def Let_def wf_op_def intro!: set_eqv)
  qed
qed

theorem applyPatchOperations_eqv:
  "json_eqv a b \<Longrightarrow> \<forall>op \<in> set ops. wf_op op \<Longrightarrow>
   rel_sum (=) json_eqv (applyPatchOperations a ops) (applyPatchOperations b ops)"
proof (induction ops arbitrary: a b)
  case (Cons op ops)
  from Cons.prems have "rel_sum (=) json_eqv (apply_patch_op a op) (apply_patch_op b op)"
    by (intro apply_patch_op_eqv) auto
  then show ?case
    using Cons by (auto elim!: rel_sum.cases)
qed simp

lemma applyPatchOperations_wf:
  assumes "wf_json a" and "\<forall>op \<in> set ops. wf_op op" and "applyPatchOperations a ops = Inr b"
  shows "wf_json b"
  using applyPatchOperations_eqv [of a a ops] assms by simp

lemma applyPatchOperations_append:
  "applyPatchOperations v (xs @ ys) =
     (case applyPatchOperations v xs of Inl p \<Rightarrow> Inl p | Inr w \<Rightarrow> applyPatchOperations w ys)"
  by (induction xs arbitrary: v) (auto split: sum.split)

section \<open>Reads, writes and their inverses\<close>

lemma value_at_append:
  "value_at (xs @ ys) v = (case value_at xs v of None \<Rightarrow> None | Some w \<Rightarrow> value_at ys w)"
  by (induction xs arbitrary: v) (auto split: json.split option.split)

text \<open>A change of the parent is read back at the parent's pointer.\<close>

lemma update_parent_value_at:
  "update_parent segs f a = Some b \<Longrightarrow>
   \<exists>x y. value_at segs a = Some x \<and> f x = Some y \<and> value_at segs b = Some y"
proof (induction segs arbitrary: a b)
  case (Cons s segs)
  show ?case
  proof (cases a)
    case (JArr xs)
    with Cons.prems obtain i c where i: "parseArrayIndex s (length xs) False = Some i"
      and c: "update_parent segs f (xs ! i) = Some c" and b: "b = JArr (xs[i := c])"
      by (auto split: option.splits)
    from Cons.IH [OF c] i b JArr parseArrayIndex_bound(1) [OF i] show ?thesis by auto
  next
    case (JObj kvs)
    with Cons.prems obtain v c where v: "map_of kvs s = Some v"
      and c: "update_parent segs f v = Some c" and b: "b = JObj (alist_put s c kvs)"
      by (auto split: option.splits)
    from Cons.IH [OF c] v b JObj show ?thesis by auto
  qed (use Cons.prems in auto)
qed auto

lemma value_at_wf: "wf_json a \<Longrightarrow> value_at segs a = Some x \<Longrightarrow> wf_json x"
  using value_at_eqv [of a a segs] by simp

text \<open>
  If the second change undoes the first one on the parent, it undoes it on the whole value.
\<close>

lemma update_parent_inverse:
  assumes "\<And>x y. wf_json x \<Longrightarrow> value_at segs a = Some x \<Longrightarrow> f x = Some y \<Longrightarrow>
      \<exists>x'. g y = Some x' \<and> json_eqv x' x"
    and "wf_json a" and "update_parent segs f a = Some b"
  shows "\<exists>a'. update_parent segs g b = Some a' \<and> json_eqv a' a"
  using assms
proof (induction segs arbitrary: a b)
  case (Cons s segs)
  show ?case
  proof (cases a)
    case (JArr xs)
    with Cons.prems obtain i c where i: "parseArrayIndex s (length xs) False = Some i"
      and c: "update_parent segs f (xs ! i) = Some c" and b: "b = JArr (xs[i := c])"
      by (auto split: option.splits)
    have lt: "i < length xs" using i by (rule parseArrayIndex_bound)
    obtain x' where x': "update_parent segs g c = Some x'" "json_eqv x' (xs ! i)"
      using Cons.IH [of "xs ! i" c] Cons.prems(1,2) JArr i lt c by auto
    have "list_all2 json_eqv (xs[i := x']) (xs[i := xs ! i])"
      using Cons.prems(2) JArr x'(2)
      by (intro list_all2_update_cong) (auto intro: list.rel_refl_strong)
    with b i lt x' JArr show ?thesis by simp
  next
    case (JObj kvs)
    with Cons.prems obtain v c where v: "map_of kvs s = Some v"
      and c: "update_parent segs f v = Some c" and b: "b = JObj (alist_put s c kvs)"
      by (auto split: option.splits)
    obtain x' where x': "update_parent segs g c = Some x'" "json_eqv x' v"
      using Cons.IH [of v c] Cons.prems(1,2) JObj v c wf_json_map_of by auto
    have "json_eqv (JObj (alist_put s x' (alist_put s c kvs))) (JObj kvs)"
      using Cons.prems(2) JObj v x'(2)
      by (auto simp: json_eqv_JObj)
    with b x' JObj show ?thesis by simp
  qed (use Cons.prems in auto)
qed auto

text \<open>The parent of a pointer, and the last segment in it.\<close>

definition parent_at :: "json \<Rightarrow> string \<Rightarrow> json option" where
  "parent_at v path = (case parsePointer path of
     None \<Rightarrow> None | Some segs \<Rightarrow> if segs = [] then None else value_at (butlast segs) v)"

definition last_segment :: "string \<Rightarrow> string" where
  "last_segment path = (case parsePointer path of None \<Rightarrow> [] | Some segs \<Rightarrow> last segs)"

lemma with_parent_inverse:
  assumes "\<And>x y. wf_json x \<Longrightarrow> parent_at a path = Some x \<Longrightarrow> f (last_segment path) x = Some y \<Longrightarrow>
      \<exists>x'. g (last_segment path) y = Some x' \<and> json_eqv x' x"
    and "wf_json a" and "with_parent path f a = Some b"
  shows "\<exists>a'. with_parent path g b = Some a' \<and> json_eqv a' a"
proof -
  from assms(3) obtain segs where segs: "parsePointer path = Some segs" "segs \<noteq> []"
    "update_parent (butlast segs) (f (last segs)) a = Some b"
    by (auto simp: with_parent_def split: option.splits if_splits)
  have "\<exists>a'. update_parent (butlast segs) (g (last segs)) b = Some a' \<and> json_eqv a' a"
    using assms(1) segs(1,2) assms(2) segs(3)
    by (intro update_parent_inverse [where f = "f (last segs)"])
      (auto simp: parent_at_def last_segment_def)
  with segs show ?thesis by (simp add: with_parent_def)
qed

lemma getValueAtPath_parent:
  assumes "parsePointer path = Some segs" and "segs \<noteq> []"
  shows "getValueAtPath v path =
    (case parent_at v path of None \<Rightarrow> None | Some p \<Rightarrow> value_at [last_segment path] p)"
  using assms value_at_append [of "butlast segs" "[last segs]" v]
  by (auto simp: getValueAtPath_def parent_at_def last_segment_def split: option.split)

text \<open>\<open>splice\<close> at one index, there and back.\<close>

lemma splice_remove_insert: "i \<le> length xs \<Longrightarrow> splice_remove i (splice_insert i v xs) = xs"
  by (simp add: splice_remove_def splice_insert_def)

lemma splice_insert_remove: "i < length xs \<Longrightarrow> splice_insert i (xs ! i) (splice_remove i xs) = xs"
  by (simp add: splice_remove_def splice_insert_def min_absorb1 id_take_nth_drop [symmetric])

lemma nth_splice_insert [simp]: "i \<le> length xs \<Longrightarrow> splice_insert i v xs ! i = v"
  by (simp add: splice_insert_def nth_append min_absorb2)

lemma length_splice [simp]:
  "length (splice_insert i v xs) = Suc (length xs)"
  "i < length xs \<Longrightarrow> length (splice_remove i xs) = length xs - 1"
  by (auto simp: splice_insert_def splice_remove_def min_def)

lemma parseArrayIndex_Suc:
  "parseArrayIndex s n True = Some i \<Longrightarrow> s \<noteq> ''-'' \<Longrightarrow> parseArrayIndex s (Suc n) False = Some i"
  "parseArrayIndex s (Suc n) False = Some i \<Longrightarrow> parseArrayIndex s n True = Some i"
  by (auto simp: parseArrayIndex_def Let_def split: if_splits)

text \<open>Replacing and putting the old value back.\<close>

theorem replace_replace_inverse:
  assumes "wf_json a" and "getValueAtPath a path = Some old"
    and "setValue a path v ModeReplace = Some b"
  shows "\<exists>a'. setValue b path old ModeReplace = Some a' \<and> json_eqv a' a"
  unfolding setValue_def
proof (rule with_parent_inverse)
  fix x y
  assume x: "wf_json x" "parent_at a path = Some x"
    and set: "set_child ModeReplace v (last_segment path) x = Some y"
  from x(2) obtain segs where "parsePointer path = Some segs" "segs \<noteq> []"
    by (auto simp: parent_at_def split: option.splits if_splits)
  with assms(2) x(2) have "value_at [last_segment path] x = Some old"
    by (simp add: getValueAtPath_parent)
  with x(1) set show "\<exists>x'. set_child ModeReplace old (last_segment path) y = Some x' \<and> json_eqv x' x"
    by (auto simp: set_child_def json_eqv_JObj split: json.splits option.splits if_splits)
qed (use assms in \<open>simp_all add: setValue_def\<close>)

text \<open>
  Adding and removing again: the added key must be new, and an array position must be given by
  its index (the pointer \<open>-\<close> cannot be removed).
\<close>

theorem add_remove_inverse:
  assumes "wf_json a" and "setValue a path v ModeAdd = Some b"
    and "last_segment path \<noteq> ''-''"
    and "\<And>kvs. parent_at a path = Some (JObj kvs) \<Longrightarrow> map_of kvs (last_segment path) = None"
  shows "\<exists>a'. removeValue b path = Some a' \<and> json_eqv a' a"
  unfolding removeValue_def
proof (rule with_parent_inverse)
  fix x y
  assume x: "wf_json x" "parent_at a path = Some x"
    and set: "set_child ModeAdd v (last_segment path) x = Some y"
  show "\<exists>x'. remove_child (last_segment path) y = Some x' \<and> json_eqv x' x"
  proof (cases x)
    case (JArr xs)
    with set obtain i where i: "parseArrayIndex (last_segment path) (length xs) True = Some i"
      and y: "y = JArr (splice_insert i v xs)"
      by (auto simp: set_child_def split: option.splits)
    have "splice_remove i (splice_insert i v xs) = xs"
      by (rule splice_remove_insert [OF parseArrayIndex_bound(2) [OF i]])
    with y JArr x(1) parseArrayIndex_Suc(1) [OF i assms(3)] show ?thesis
      by (simp add: remove_child_def)
  next
    case (JObj kvs)
    with set x assms(4) show ?thesis
      by (auto simp: set_child_def remove_child_def json_eqv_JObj)
  qed (use set in \<open>auto simp: set_child_def\<close>)
qed (use assms in \<open>simp_all add: setValue_def\<close>)

text \<open>Removing and adding back: an object gets its key back in the last position.\<close>

theorem remove_add_inverse:
  assumes "wf_json a" and "getValueAtPath a path = Some old" and "removeValue a path = Some b"
  shows "\<exists>a'. setValue b path old ModeAdd = Some a' \<and> json_eqv a' a"
  unfolding setValue_def
proof (rule with_parent_inverse)
  fix x y
  assume x: "wf_json x" "parent_at a path = Some x"
    and rm: "remove_child (last_segment path) x = Some y"
  from x(2) obtain segs where "parsePointer path = Some segs" "segs \<noteq> []"
    by (auto simp: parent_at_def split: option.splits if_splits)
  with assms(2) x(2) have old: "value_at [last_segment path] x = Some old"
    by (simp add: getValueAtPath_parent)
  show "\<exists>x'. set_child ModeAdd old (last_segment path) y = Some x' \<and> json_eqv x' x"
  proof (cases x)
    case (JArr xs)
    with rm old obtain i where i: "parseArrayIndex (last_segment path) (length xs) False = Some i"
      and y: "y = JArr (splice_remove i xs)" and o: "old = xs ! i"
      by (auto simp: remove_child_def split: option.splits)
    from i have lt: "i < length xs" by (rule parseArrayIndex_bound)
    then have "Suc (length (splice_remove i xs)) = length xs" by simp
    with i have "parseArrayIndex (last_segment path) (length (splice_remove i xs)) True = Some i"
      by (intro parseArrayIndex_Suc(2)) metis
    with y o lt JArr x(1) show ?thesis
      by (simp add: set_child_def splice_insert_remove)
  next
    case (JObj kvs)
    with rm old x(1) value_at_wf [OF x(1) old] show ?thesis
      by (auto simp: set_child_def remove_child_def json_eqv_JObj split: option.splits)
  qed (use rm in \<open>auto simp: remove_child_def\<close>)
qed (use assms in \<open>simp_all add: removeValue_def\<close>)

text \<open>The value written is the value read.\<close>

theorem getValueAtPath_setValue:
  assumes "setValue a path v mode = Some b" and "last_segment path \<noteq> ''-''"
  shows "getValueAtPath b path = Some v"
proof -
  from assms(1) obtain segs where segs: "parsePointer path = Some segs" "segs \<noteq> []"
    and upd: "update_parent (butlast segs) (set_child mode v (last segs)) a = Some b"
    by (auto simp: setValue_def with_parent_def split: option.splits if_splits)
  from update_parent_value_at [OF upd] obtain x y where
    y: "set_child mode v (last segs) x = Some y" "value_at (butlast segs) b = Some y"
    by blast
  have "value_at [last segs] y = Some v"
  proof (cases x)
    case (JArr xs)
    with y(1) obtain i where i: "parseArrayIndex (last segs) (length xs) (mode = ModeAdd) = Some i"
      by (auto simp: set_child_def split: option.splits)
    show ?thesis
    proof (cases mode)
      case ModeAdd
      with i assms(2) segs have "parseArrayIndex (last segs) (Suc (length xs)) False = Some i"
        by (intro parseArrayIndex_Suc(1)) (auto simp: last_segment_def)
      with JArr y(1) i ModeAdd parseArrayIndex_bound(2) [of "last segs" "length xs" i] show ?thesis
        by (auto simp: set_child_def)
    next
      case ModeReplace
      with JArr y(1) i parseArrayIndex_bound(1) [of "last segs" "length xs" i] show ?thesis
        by (auto simp: set_child_def)
    qed
  qed (use y in \<open>auto simp: set_child_def split: if_splits\<close>)
  with y segs show ?thesis
    by (simp add: getValueAtPath_parent parent_at_def last_segment_def)
qed

end
