(* ===== verification/Contract.thy ===== *)
theory Contract
  imports Json
begin

text \<open>
  \<open>packages/workspace/src/workspaceContractRegistry.ts\<close>: the document types of a workspace, the
  command domain that owns each of them, and the pointers a document patch may touch.
\<close>

section \<open>Document types and command domains\<close>

datatype doc_type =
    PirPage | PirLayout | PirComponent | PirGraph | PirAnimation
  | DesignTokens | DesignTokenResolver | Code | DataSource
  | BehaviorScenario | BehaviorControlProfile | BehaviorFixtureSet
  | VerificationPolicy | VerificationBaselineSet | AgentPolicy | Asset | ProjectConfig

definition WORKSPACE_DOCUMENT_TYPES :: "(string \<times> doc_type) list" where
  "WORKSPACE_DOCUMENT_TYPES =
     [(''pir-page'', PirPage), (''pir-layout'', PirLayout), (''pir-component'', PirComponent),
      (''pir-graph'', PirGraph), (''pir-animation'', PirAnimation),
      (''design-tokens'', DesignTokens), (''design-token-resolver'', DesignTokenResolver),
      (''code'', Code), (''data-source'', DataSource),
      (''behavior-scenario'', BehaviorScenario),
      (''behavior-control-profile'', BehaviorControlProfile),
      (''behavior-fixture-set'', BehaviorFixtureSet),
      (''verification-policy'', VerificationPolicy),
      (''verification-baseline-set'', VerificationBaselineSet),
      (''agent-policy'', AgentPolicy), (''asset'', Asset), (''project-config'', ProjectConfig)]"

text \<open>\<open>isWorkspaceDocumentType\<close>, as the partial reading of a type's text.\<close>

definition doc_type_of_text :: "string \<Rightarrow> doc_type option" where
  "doc_type_of_text s = map_of WORKSPACE_DOCUMENT_TYPES s"

datatype command_domain =
    DomPir | DomWorkspace | DomRoute | DomNodegraph | DomAnimation | DomToken | DomCode
  | DomData | DomBehavior | DomVerification | DomAgent | DomResource

definition isWorkspaceDocumentCommandDomain :: "command_domain \<Rightarrow> bool" where
  "isWorkspaceDocumentCommandDomain d \<longleftrightarrow> d \<noteq> DomWorkspace \<and> d \<noteq> DomRoute"

section \<open>Policies\<close>

text \<open>\<open>WorkspaceDocumentPatchPolicy\<close>: \<open>Roots roots extensionRootPrefixes\<close> or \<open>TopLevel\<close>.\<close>

datatype patch_policy = Roots "string list" "string list" | TopLevel

datatype cardinality = Single | Many

record doc_policy =
  policy_domain :: command_domain
  policy_patch :: patch_policy
  policy_cardinality :: cardinality

definition roots_policy ::
  "command_domain \<Rightarrow> string list \<Rightarrow> string list \<Rightarrow> cardinality \<Rightarrow> doc_policy" where
  "roots_policy domain values extensionRootPrefixes amount =
     \<lparr>policy_domain = domain, policy_patch = Roots values extensionRootPrefixes,
      policy_cardinality = amount\<rparr>"

definition topLevel :: "command_domain \<Rightarrow> doc_policy" where
  "topLevel domain =
     \<lparr>policy_domain = domain, policy_patch = TopLevel, policy_cardinality = Many\<rparr>"

fun getWorkspaceDocumentPolicy :: "doc_type \<Rightarrow> doc_policy" where
  "getWorkspaceDocumentPolicy PirPage = roots_policy DomPir
     [''/ui/graph'', ''/componentContract'', ''/logic'', ''/metadata''] [''/x-''] Many"
| "getWorkspaceDocumentPolicy PirLayout = roots_policy DomPir
     [''/ui/graph'', ''/componentContract'', ''/logic'', ''/metadata''] [''/x-''] Many"
| "getWorkspaceDocumentPolicy PirComponent = roots_policy DomPir
     [''/ui/graph'', ''/componentContract'', ''/logic'', ''/metadata''] [''/x-''] Many"
| "getWorkspaceDocumentPolicy PirGraph = roots_policy DomNodegraph
     [''/nodes'', ''/edges'', ''/publicContract''] [] Many"
| "getWorkspaceDocumentPolicy PirAnimation = roots_policy DomAnimation
     [''/target'', ''/timelines'', ''/compositions'', ''/entryCompositionId'', ''/svgFilters'',
      ''/x-animationEditor''] [] Many"
| "getWorkspaceDocumentPolicy DesignTokens = topLevel DomToken"
| "getWorkspaceDocumentPolicy DesignTokenResolver = topLevel DomToken"
| "getWorkspaceDocumentPolicy Code = roots_policy DomCode
     [''/language'', ''/source'', ''/metadata''] [''/x-''] Many"
| "getWorkspaceDocumentPolicy DataSource = roots_policy DomData
     [''/source'', ''/schemasById'', ''/operationsById'', ''/importProvenanceById''] [] Many"
| "getWorkspaceDocumentPolicy BehaviorScenario = roots_policy DomBehavior
     [''/id'', ''/name'', ''/description'', ''/owner'', ''/criticality'', ''/tags'', ''/entry'',
      ''/steps'', ''/fixtureRefs'', ''/controlProfileRef'', ''/baselineRefs'',
      ''/timeoutPolicy''] [] Many"
| "getWorkspaceDocumentPolicy BehaviorControlProfile = roots_policy DomBehavior
     [''/id'', ''/name'', ''/clock'', ''/timezone'', ''/random'', ''/identifiers'',
      ''/scheduler'', ''/network'', ''/storage'', ''/rendering'', ''/serviceWorker'',
      ''/settle'', ''/budgets''] [] Many"
| "getWorkspaceDocumentPolicy BehaviorFixtureSet = roots_policy DomBehavior
     [''/id'', ''/name'', ''/fixtures''] [] Many"
| "getWorkspaceDocumentPolicy VerificationPolicy = roots_policy DomVerification
     [''/id'', ''/name'', ''/defaultRequirement'', ''/rules'', ''/matrixProfiles'',
      ''/retryPolicies'', ''/exemptions'', ''/budgets'', ''/artifactCapture'', ''/comparison'',
      ''/evidenceRequirements'', ''/baselinePolicy'', ''/retentionRequest''] [] Single"
| "getWorkspaceDocumentPolicy VerificationBaselineSet = roots_policy DomVerification
     [''/id'', ''/name'', ''/entries''] [] Many"
| "getWorkspaceDocumentPolicy AgentPolicy = roots_policy DomAgent
     [''/id'', ''/name'', ''/providerRules'', ''/modelRules'', ''/contextRules'',
      ''/capabilityRules'', ''/approvalRules'', ''/networkRules'', ''/secretRules'',
      ''/budgetCeiling'', ''/verificationRules'', ''/retentionRules'', ''/privacy''] [] Single"
| "getWorkspaceDocumentPolicy Asset = roots_policy DomResource
     [''/mime'', ''/category'', ''/size'', ''/blob'', ''/metadata''] [] Many"
| "getWorkspaceDocumentPolicy ProjectConfig = roots_policy DomResource
     [''/value'', ''/metadata''] [] Many"

definition getWorkspaceDocumentDomain :: "doc_type \<Rightarrow> command_domain" where
  "getWorkspaceDocumentDomain t = policy_domain (getWorkspaceDocumentPolicy t)"

definition getWorkspaceDocumentCardinality :: "doc_type \<Rightarrow> cardinality" where
  "getWorkspaceDocumentCardinality t = policy_cardinality (getWorkspaceDocumentPolicy t)"

definition isPirWorkspaceDocumentType :: "doc_type \<Rightarrow> bool" where
  "isPirWorkspaceDocumentType t \<longleftrightarrow> policy_domain (getWorkspaceDocumentPolicy t) = DomPir"

definition WORKSPACE_COMMAND_NAMESPACE_DOMAIN_RULES :: "(string \<times> command_domain) list" where
  "WORKSPACE_COMMAND_NAMESPACE_DOMAIN_RULES =
     [(''core.nodegraph'', DomNodegraph), (''core.animation'', DomAnimation),
      (''core.design-tokens'', DomToken), (''core.design-token-resolvers'', DomToken),
      (''core.code'', DomCode), (''core.data'', DomData), (''core.behavior'', DomBehavior),
      (''core.verification'', DomVerification), (''core.agent'', DomAgent),
      (''core.resource'', DomResource), (''core.route'', DomRoute),
      (''core.workspace-sync'', DomWorkspace), (''core.workspace'', DomWorkspace),
      (''core.pir'', DomPir)]"

definition resolveWorkspaceCommandNamespaceDomain :: "string \<Rightarrow> command_domain option" where
  "resolveWorkspaceCommandNamespaceDomain namespace =
     map_option snd (find (\<lambda>(pre, _). namespace = pre \<or> starts_with namespace (pre @ ''.''))
       WORKSPACE_COMMAND_NAMESPACE_DOMAIN_RULES)"

definition isWorkspaceDocumentPatchPathAllowed :: "doc_type \<Rightarrow> string \<Rightarrow> bool" where
  "isWorkspaceDocumentPatchPathAllowed t path =
     (if \<not> starts_with path ''/'' \<or> path = ''/'' \<or> path = ''/ui/root'' \<or>
         starts_with path ''/ui/root/'' then False
      else (case policy_patch (getWorkspaceDocumentPolicy t) of
              TopLevel \<Rightarrow> True
            | Roots roots extensionRootPrefixes \<Rightarrow>
                if list_ex (\<lambda>root. path = root \<or> starts_with path (root @ ''/'')) roots then True
                else list_ex (starts_with path) extensionRootPrefixes))"

section \<open>Facts about the tables\<close>

lemma doc_type_of_text_inj:
  "doc_type_of_text s = Some t \<Longrightarrow> doc_type_of_text s' = Some t \<Longrightarrow> s = s'"
proof -
  have "distinct (map snd WORKSPACE_DOCUMENT_TYPES)"
    by (simp add: WORKSPACE_DOCUMENT_TYPES_def)
  then show "doc_type_of_text s = Some t \<Longrightarrow> doc_type_of_text s' = Some t \<Longrightarrow> s = s'"
    by (auto simp: doc_type_of_text_def distinct_map inj_on_def dest!: map_of_SomeD) fastforce
qed

lemma doc_type_of_text_surj: "\<exists>s. doc_type_of_text s = Some t"
proof -
  have "t \<in> snd ` set WORKSPACE_DOCUMENT_TYPES"
    by (cases t) (simp_all add: WORKSPACE_DOCUMENT_TYPES_def)
  moreover have "distinct (map fst WORKSPACE_DOCUMENT_TYPES)"
    by (simp add: WORKSPACE_DOCUMENT_TYPES_def)
  ultimately show ?thesis
    by (auto simp: doc_type_of_text_def intro: map_of_is_SomeI)
qed

text \<open>No document is owned by the workspace or the route domain.\<close>

lemma getWorkspaceDocumentDomain_document:
  "isWorkspaceDocumentCommandDomain (getWorkspaceDocumentDomain t)"
  by (cases t) (simp_all add: isWorkspaceDocumentCommandDomain_def getWorkspaceDocumentDomain_def
      roots_policy_def topLevel_def)

text \<open>A document patch never addresses the whole document, and always by an absolute pointer.\<close>

lemma allowed_path_absolute:
  "isWorkspaceDocumentPatchPathAllowed t path \<Longrightarrow> \<exists>c rest. path = CHR ''/'' # c # rest"
  by (cases path rule: list.exhaust; cases "tl path")
    (auto simp: isWorkspaceDocumentPatchPathAllowed_def starts_with_def split: if_splits)

end
