(* ===== verification/Command.thy ===== *)
theory Command
  imports JsonPatch Contract
begin

text \<open>
  Commands and transactions of \<open>packages/workspace/src/workspaceCommand.ts\<close>: the envelopes, the
  checks that precede a patch, the application of a command to a document or to the whole
  workspace with the proof that its reverse patch restores the original, and the application of
  a transaction as one step.

  A workspace snapshot is a JSON object at run time, and a workspace patch may change it in ways
  its TypeScript type does not describe; the model therefore keeps it as \<^typ>\<open>json\<close>. Reading a
  property of \<open>null\<close> or \<open>undefined\<close> throws: where the code can do that, the result is \<open>Thrown\<close>.
  The content validators of the other packages and \<open>validateWorkspaceSnapshot\<close> are the fields of
  a record that the definitions take as an argument. Issue messages are not modelled.
\<close>

section \<open>Envelopes\<close>

record command_target =
  target_workspaceId :: string
  target_documentId :: "string option"
  target_routeNodeId :: "string option"

record command =
  cmd_id :: string
  cmd_namespace :: string
  cmd_type :: string
  cmd_version :: string
  cmd_issuedAt :: string
  forwardOps :: "patch_op list"
  reverseOps :: "patch_op list"
  cmd_target :: command_target
  cmd_mergeKey :: "string option"
  cmd_label :: "string option"
  domainHint :: "command_domain option"

datatype issue_code =
    InvalidEnvelope | WorkspaceMismatch | DocumentMissing
  | PatchPathForbidden | PatchFailed | ValidationFailed

record issue =
  issue_code :: issue_code
  issue_path :: string
  issue_document :: "string option"

datatype failure = Issues "issue list" | Thrown

record transaction =
  tx_id :: string
  tx_workspaceId :: string
  tx_issuedAt :: string
  tx_commands :: "command list"
  tx_label :: "string option"
  tx_mergeKey :: "string option"

section \<open>Property access on run-time values\<close>

text \<open>\<open>Boolean(value)\<close> for an optional string and for a JSON value.\<close>

definition truthy_text :: "string option \<Rightarrow> bool" where
  "truthy_text s \<longleftrightarrow> s \<noteq> None \<and> s \<noteq> Some ''''"

fun truthy :: "json \<Rightarrow> bool" where
  "truthy JNull = False"
| "truthy (JBool b) = b"
| "truthy (JNum n) = (n \<noteq> 0)"
| "truthy (JStr s) = (s \<noteq> '''')"
| "truthy _ = True"

text \<open>An own property of a value that is an object.\<close>

fun own :: "json \<Rightarrow> string \<Rightarrow> json option" where
  "own (JObj kvs) k = map_of kvs k"
| "own _ k = None"

text \<open>
  \<open>value.k\<close>: the outer \<open>None\<close> is a thrown TypeError, the inner \<open>None\<close> is \<open>undefined\<close>.
\<close>

fun js_prop :: "json option \<Rightarrow> string \<Rightarrow> json option option" where
  "js_prop None k = None"
| "js_prop (Some JNull) k = None"
| "js_prop (Some v) k = Some (own v k)"

text \<open>\<open>value ?? fallback\<close> and \<open>Object.values(value)\<close>.\<close>

fun nullish :: "json option \<Rightarrow> json \<Rightarrow> json" where
  "nullish None d = d"
| "nullish (Some JNull) d = d"
| "nullish (Some v) d = v"

fun object_values :: "json \<Rightarrow> json list" where
  "object_values (JObj kvs) = map snd kvs"
| "object_values (JArr xs) = xs"
| "object_values (JStr s) = map (\<lambda>c. JStr [c]) s"
| "object_values _ = []"

definition docs_of :: "json \<Rightarrow> (string \<times> json) list" where
  "docs_of snapshot = (case own snapshot ''docsById'' of Some (JObj docs) \<Rightarrow> docs | _ \<Rightarrow> [])"

section \<open>Routing a command to its domain\<close>

definition resolveWorkspaceCommandDomain :: "command \<Rightarrow> command_domain" where
  "resolveWorkspaceCommandDomain c =
     (case domainHint c of
        Some d \<Rightarrow> d
      | None \<Rightarrow>
          let namespaceDomain = resolveWorkspaceCommandNamespaceDomain (cmd_namespace c) in
          if namespaceDomain \<noteq> None \<and> namespaceDomain \<noteq> Some DomWorkspace \<and>
             namespaceDomain \<noteq> Some DomPir
          then the namespaceDomain
          else if truthy_text (target_routeNodeId (cmd_target c)) then DomRoute
          else (case namespaceDomain of Some d \<Rightarrow> d | None \<Rightarrow> DomPir))"

definition isAllowedWorkspacePath :: "string \<Rightarrow> bool" where
  "isAllowedWorkspacePath path \<longleftrightarrow>
     path = ''/treeRootId'' \<or> path = ''/activeDocumentId'' \<or> path = ''/activeRouteNodeId'' \<or>
     path = ''/settings'' \<or> starts_with path ''/settings/'' \<or>
     path = ''/treeById'' \<or> starts_with path ''/treeById/'' \<or>
     starts_with path ''/docsById/'' \<or>
     path = ''/routeManifest'' \<or> starts_with path ''/routeManifest/''"

text \<open>\<open>PatchTarget\<close>: the document of a type, or the workspace.\<close>

datatype patch_target = DocumentTarget doc_type | WorkspaceTarget

fun isAllowedPatchPath :: "patch_target \<Rightarrow> string \<Rightarrow> bool" where
  "isAllowedPatchPath (DocumentTarget t) path = isWorkspaceDocumentPatchPathAllowed t path"
| "isAllowedPatchPath WorkspaceTarget path = isAllowedWorkspacePath path"

definition forbidden :: "string \<Rightarrow> issue" where
  "forbidden path = \<lparr>issue_code = PatchPathForbidden, issue_path = path, issue_document = None\<rparr>"

definition validatePatchPaths :: "patch_target \<Rightarrow> patch_op list \<Rightarrow> issue list" where
  "validatePatchPaths t ops =
     concat (map (\<lambda>op.
       (if isAllowedPatchPath t (op_path op) then [] else [forbidden (op_path op)]) @
       (if (op_kind op = OpMove \<or> op_kind op = OpCopy) \<and>
           (\<not> truthy_text (op_from op) \<or> \<not> isAllowedPatchPath t (the (op_from op)))
        then [forbidden (case op_from op of None \<Rightarrow> '''' | Some f \<Rightarrow> f)] else [])) ops)"

definition envelope_issue :: "string \<Rightarrow> issue" where
  "envelope_issue path =
     \<lparr>issue_code = InvalidEnvelope, issue_path = path, issue_document = None\<rparr>"

definition validateEnvelope :: "command \<Rightarrow> issue list" where
  "validateEnvelope c =
     concat (map (\<lambda>(field, value). if js_trim value = [] then [envelope_issue (''/'' @ field)] else [])
       [(''id'', cmd_id c), (''namespace'', cmd_namespace c), (''type'', cmd_type c),
        (''version'', cmd_version c), (''issuedAt'', cmd_issuedAt c),
        (''target/workspaceId'', target_workspaceId (cmd_target c))]) @
     (if forwardOps c = [] \<or> reverseOps c = [] then [envelope_issue ''/forwardOps''] else []) @
     (if truthy_text (target_documentId (cmd_target c)) \<and>
         \<not> isWorkspaceDocumentCommandDomain (resolveWorkspaceCommandDomain c)
      then [\<lparr>issue_code = InvalidEnvelope, issue_path = ''/domainHint'',
             issue_document = target_documentId (cmd_target c)\<rparr>] else [])"

section \<open>Document references of the route manifest\<close>

text \<open>
  \<open>collectRouteDocumentRefs\<close> and \<open>collectRouteManifestDocumentRefs\<close> of
  \<open>packages/router/src/routeCore.ts\<close>, on run-time values; \<open>None\<close> is a thrown TypeError. The
  references are kept as values; the type promises strings.
\<close>

definition add_ref :: "json option \<Rightarrow> json list \<Rightarrow> json list" where
  "add_ref v refs = (case v of Some x \<Rightarrow> if truthy x then set_add x refs else refs | None \<Rightarrow> refs)"

fun collect_bindings :: "json list \<Rightarrow> json list \<Rightarrow> json list option" where
  "collect_bindings [] refs = Some refs"
| "collect_bindings (b # bs) refs =
     (case js_prop (Some b) ''pageDocId'' of
        None \<Rightarrow> None
      | Some p \<Rightarrow> collect_bindings bs (add_ref p refs))"

lemma js_prop_SomeD: "js_prop node k = Some x \<Longrightarrow> \<exists>v. node = Some v"
  by (cases node) auto

lemma children_size:
  assumes "js_prop (Some v) k0 = Some x" and "the (js_prop (Some v) k) = Some (JArr xs)"
  shows "size_list size xs < size v"
proof -
  obtain kvs where v: "v = JObj kvs" and "map_of kvs k = Some (JArr xs)"
    using assms by (cases v) auto
  then have "size (JArr xs) < size v" by (auto dest: map_of_size)
  then show ?thesis by simp
qed

function collectRouteDocumentRefs :: "json option \<Rightarrow> json list \<Rightarrow> json list option"
  and collect_children :: "json list \<Rightarrow> json list \<Rightarrow> json list option" where
  "collectRouteDocumentRefs node refs =
     (case js_prop node ''layoutDocId'' of
        None \<Rightarrow> None
      | Some layout \<Rightarrow>
          (case js_prop node ''pageDocId'' of
             None \<Rightarrow> None
           | Some page \<Rightarrow>
               let refs' = add_ref page (add_ref layout refs) in
               (case collect_bindings
                       (object_values (nullish (the (js_prop node ''outletBindings'')) (JObj []))) refs' of
                  None \<Rightarrow> None
                | Some refs'' \<Rightarrow>
                    (case the (js_prop node ''children'') of
                       None \<Rightarrow> Some refs''
                     | Some JNull \<Rightarrow> Some refs''
                     | Some (JArr children) \<Rightarrow> collect_children children refs''
                     | Some _ \<Rightarrow> None))))"
| "collect_children [] refs = Some refs"
| "collect_children (child # children) refs =
     (case collectRouteDocumentRefs (Some child) refs of
        None \<Rightarrow> None
      | Some refs' \<Rightarrow> collect_children children refs')"
  by pat_completeness auto
termination
  by (relation "measure (case_sum (\<lambda>(n, _). case n of None \<Rightarrow> 0 | Some v \<Rightarrow> Suc (size v))
                                     (\<lambda>(cs, _). size_list size cs + 1))")
    (auto split: option.splits dest: children_size js_prop_SomeD)

definition collect_modules :: "json list \<Rightarrow> json list \<Rightarrow> json list option" where
  "collect_modules ms refs =
     foldl (\<lambda>r m. case r of
                    None \<Rightarrow> None
                  | Some refs \<Rightarrow> (case js_prop (Some m) ''root'' of
                                    None \<Rightarrow> None
                                  | Some rootNode \<Rightarrow> collectRouteDocumentRefs rootNode refs)) (Some refs) ms"

definition collectRouteManifestDocumentRefs :: "json \<Rightarrow> json list option" where
  "collectRouteManifestDocumentRefs manifest =
     (case js_prop (Some manifest) ''root'' of
        None \<Rightarrow> None
      | Some rootNode \<Rightarrow>
          (case collectRouteDocumentRefs rootNode [] of
             None \<Rightarrow> None
           | Some refs \<Rightarrow>
               collect_modules
                 (object_values (nullish (the (js_prop (Some manifest) ''modules'')) (JObj []))) refs))"

definition ref_exists :: "json \<Rightarrow> json \<Rightarrow> bool" where
  "ref_exists snapshot ref =
     (case ref of
        JStr d \<Rightarrow> (case map_of (docs_of snapshot) d of None \<Rightarrow> False | Some doc \<Rightarrow> truthy doc)
      | _ \<Rightarrow> False)"

definition findMissingRouteDocumentRefs :: "json \<Rightarrow> json list option" where
  "findMissingRouteDocumentRefs snapshot =
     (case js_prop (own snapshot ''routeManifest'') ''root'' of
        None \<Rightarrow> None
      | Some rootNode \<Rightarrow>
          if (case rootNode of Some (JObj _) \<Rightarrow> True | Some (JArr _) \<Rightarrow> True | _ \<Rightarrow> False)
          then map_option (filter (\<lambda>r. \<not> ref_exists snapshot r))
                 (collectRouteManifestDocumentRefs (the (own snapshot ''routeManifest'')))
          else Some [])"

section \<open>Content validators\<close>

text \<open>
  The validators of document contents live in other packages and are arguments. The reading of a
  code document is the workspace's own: a language/source wrapper whose metadata the three
  decoders of \<open>@prodivix/authoring\<close> and \<open>@prodivix/server-runtime\<close> accept
  (\<open>workspaceCodeDocument.ts\<close>). \<open>v_snapshot\<close> stands for \<open>validateWorkspaceSnapshot\<close>; \<open>None\<close> is a
  thrown exception.
\<close>

record validators =
  v_pir :: "json \<Rightarrow> bool"
  v_nodegraph :: "json \<Rightarrow> bool"
  v_animation :: "json \<Rightarrow> bool"
  v_lifecycle :: "json option \<Rightarrow> bool"
  v_shader :: "json option \<Rightarrow> string \<Rightarrow> bool"
  v_server :: "json option \<Rightarrow> string \<Rightarrow> bool"
  v_dataSource :: "json \<Rightarrow> string \<Rightarrow> bool"
  v_behavior :: "doc_type \<Rightarrow> json \<Rightarrow> string \<Rightarrow> bool"
  v_agentPolicy :: "json \<Rightarrow> string \<Rightarrow> bool"
  v_tokens :: "json \<Rightarrow> bool"
  v_tokenResolver :: "json \<Rightarrow> bool"
  v_asset :: "json \<Rightarrow> bool"
  v_config :: "json \<Rightarrow> bool"
  v_snapshot :: "json \<Rightarrow> bool option"

definition CODE_ARTIFACT_LANGUAGES :: "string list" where
  "CODE_ARTIFACT_LANGUAGES = [''ts'', ''js'', ''css'', ''scss'', ''glsl'', ''wgsl'', ''expr'']"

definition isWorkspaceCodeDocumentContent :: "validators \<Rightarrow> json \<Rightarrow> bool" where
  "isWorkspaceCodeDocumentContent V content =
     (case content of
        JObj record \<Rightarrow>
          (case (map_of record ''language'', map_of record ''source'') of
             (Some (JStr language), Some (JStr _)) \<Rightarrow>
               language \<in> set CODE_ARTIFACT_LANGUAGES \<and>
               (case map_of record ''metadata'' of None \<Rightarrow> True | Some m \<Rightarrow> isRecord m) \<and>
               v_lifecycle V (map_of record ''metadata'') \<and>
               v_shader V (map_of record ''metadata'') language \<and>
               v_server V (map_of record ''metadata'') language
           | _ \<Rightarrow> False)
      | _ \<Rightarrow> False)"

text \<open>The chain of checks on the patched content: whether one of them refuses it.\<close>

definition content_refused :: "validators \<Rightarrow> doc_type \<Rightarrow> string \<Rightarrow> json \<Rightarrow> bool" where
  "content_refused V documentType documentId v =
     (if isPirWorkspaceDocumentType documentType \<and> \<not> v_pir V v then True
      else if documentType = PirGraph \<and> \<not> v_nodegraph V v then True
      else if documentType = PirAnimation \<and> \<not> v_animation V v then True
      else if documentType = Code \<and> \<not> isWorkspaceCodeDocumentContent V v then True
      else if documentType = DataSource \<and> \<not> v_dataSource V v documentId then True
      else if (documentType = BehaviorScenario \<or> documentType = BehaviorControlProfile \<or>
               documentType = BehaviorFixtureSet \<or> documentType = VerificationPolicy \<or>
               documentType = VerificationBaselineSet) \<and>
              \<not> v_behavior V documentType v documentId then True
      else if documentType = AgentPolicy \<and> \<not> v_agentPolicy V v documentId then True
      else if documentType = DesignTokens \<and> \<not> v_tokens V v then True
      else if documentType = DesignTokenResolver \<and> \<not> v_tokenResolver V v then True
      else if documentType = Asset \<and> \<not> v_asset V v then True
      else if documentType = ProjectConfig \<and> \<not> v_config V v then True
      else False)"

section \<open>Applying a command to a document\<close>

record document_target =
  dt_workspaceId :: string
  dt_documentId :: string
  dt_documentType :: doc_type
  dt_domain :: command_domain

definition one_issue :: "issue_code \<Rightarrow> string \<Rightarrow> string option \<Rightarrow> failure" where
  "one_issue code path doc =
     Issues [\<lparr>issue_code = code, issue_path = path, issue_document = doc\<rparr>]"

definition applyWorkspaceDocumentCommand ::
  "validators \<Rightarrow> json \<Rightarrow> command \<Rightarrow> document_target \<Rightarrow> failure + json" where
  "applyWorkspaceDocumentCommand V content c t =
     (let doc = Some (dt_documentId t);
          envelopeIssues = validateEnvelope c;
          pathIssues = validatePatchPaths (DocumentTarget (dt_documentType t)) (forwardOps c) @
                       validatePatchPaths (DocumentTarget (dt_documentType t)) (reverseOps c)
      in
      if envelopeIssues \<noteq> [] then Inl (Issues envelopeIssues)
      else if target_workspaceId (cmd_target c) \<noteq> dt_workspaceId t
        then Inl (one_issue WorkspaceMismatch ''/target/workspaceId'' doc)
      else if target_documentId (cmd_target c) \<noteq> doc
        then Inl (one_issue DocumentMissing ''/target/documentId'' doc)
      else if dt_domain t \<noteq> getWorkspaceDocumentDomain (dt_documentType t)
        then Inl (one_issue InvalidEnvelope ''/domainHint'' doc)
      else if pathIssues \<noteq> [] then Inl (Issues pathIssues)
      else (case applyPatchOperations content (forwardOps c) of
              Inl path \<Rightarrow> Inl (one_issue PatchFailed path doc)
            | Inr patched \<Rightarrow>
                (case applyPatchOperations patched (reverseOps c) of
                   Inl path \<Rightarrow> Inl (one_issue PatchFailed path doc)
                 | Inr restored \<Rightarrow>
                     if \<not> valuesEqual restored content
                       then Inl (one_issue PatchFailed ''/'' doc)
                     else if content_refused V (dt_documentType t) (dt_documentId t) patched
                       then Inl (one_issue ValidationFailed ''/target/documentId'' doc)
                     else Inr patched)))"

section \<open>Applying a command to the workspace\<close>

definition pointer_issue :: "json \<Rightarrow> issue" where
  "pointer_issue ref =
     (let d = (case ref of JStr s \<Rightarrow> s | _ \<Rightarrow> '''') in
      \<lparr>issue_code = ValidationFailed, issue_path = ''/docsById/'' @ d, issue_document = Some d\<rparr>)"

definition validateWorkspaceTransition :: "validators \<Rightarrow> json \<Rightarrow> issue list option" where
  "validateWorkspaceTransition V after =
     (case findMissingRouteDocumentRefs after of
        None \<Rightarrow> None
      | Some (r # rs) \<Rightarrow> Some (map pointer_issue (r # rs))
      | Some [] \<Rightarrow>
          (case v_snapshot V after of
             None \<Rightarrow> None
           | Some valid \<Rightarrow>
               Some (if valid then []
                     else [\<lparr>issue_code = ValidationFailed, issue_path = ''/'',
                            issue_document = None\<rparr>])))"

text \<open>The document branch: the content of one document is replaced, nothing else.\<close>

definition set_document_content :: "json \<Rightarrow> string \<Rightarrow> json \<Rightarrow> json" where
  "set_document_content snapshot documentId content =
     (case snapshot of
        JObj s \<Rightarrow>
          (case map_of (docs_of snapshot) documentId of
             Some (JObj document) \<Rightarrow>
               JObj (alist_put ''docsById''
                 (JObj (alist_put documentId (JObj (alist_put ''content'' content document))
                    (docs_of snapshot))) s)
           | _ \<Rightarrow> snapshot)
      | _ \<Rightarrow> snapshot)"

definition apply_document_command ::
  "validators \<Rightarrow> json \<Rightarrow> command \<Rightarrow> string \<Rightarrow> failure + json" where
  "apply_document_command V snapshot c documentId =
     (let commandDomain = resolveWorkspaceCommandDomain c in
      case map_of (docs_of snapshot) documentId of
        None \<Rightarrow> Inl (one_issue DocumentMissing ''/target/documentId'' (Some documentId))
      | Some document \<Rightarrow>
          if \<not> truthy document
          then Inl (one_issue DocumentMissing ''/target/documentId'' (Some documentId))
          else (case (own document ''type'', own document ''content'') of
                  (Some (JStr text), Some content) \<Rightarrow>
                    (case doc_type_of_text text of
                       None \<Rightarrow> Inl Thrown
                     | Some documentType \<Rightarrow>
                         (case applyWorkspaceDocumentCommand V content c
                                 \<lparr>dt_workspaceId = target_workspaceId (cmd_target c),
                                  dt_documentId = documentId, dt_documentType = documentType,
                                  dt_domain = (if isWorkspaceDocumentCommandDomain commandDomain
                                               then commandDomain else DomPir)\<rparr> of
                            Inl f \<Rightarrow> Inl f
                          | Inr content' \<Rightarrow>
                              Inr (set_document_content snapshot documentId content')))
                | _ \<Rightarrow> Inl Thrown))"

definition apply_workspace_patch ::
  "validators \<Rightarrow> json \<Rightarrow> command \<Rightarrow> bool \<Rightarrow> failure + json" where
  "apply_workspace_patch V snapshot c validateWorkspaceResult =
     (let pathIssues = validatePatchPaths WorkspaceTarget (forwardOps c) @
                       validatePatchPaths WorkspaceTarget (reverseOps c)
      in
      if pathIssues \<noteq> [] then Inl (Issues pathIssues)
      else (case applyPatchOperations snapshot (forwardOps c) of
              Inl path \<Rightarrow> Inl (one_issue PatchFailed path None)
            | Inr next_snapshot \<Rightarrow>
                (case applyPatchOperations next_snapshot (reverseOps c) of
                   Inl path \<Rightarrow> Inl (one_issue PatchFailed path None)
                 | Inr restored \<Rightarrow>
                     if \<not> valuesEqual restored snapshot
                       then Inl (one_issue PatchFailed ''/'' None)
                     else if \<not> validateWorkspaceResult then Inr next_snapshot
                     else (case validateWorkspaceTransition V next_snapshot of
                             None \<Rightarrow> Inl Thrown
                           | Some [] \<Rightarrow> Inr next_snapshot
                           | Some issues \<Rightarrow> Inl (Issues issues)))))"

definition applyWorkspaceCommandInternal ::
  "validators \<Rightarrow> json \<Rightarrow> command \<Rightarrow> bool \<Rightarrow> failure + json" where
  "applyWorkspaceCommandInternal V snapshot c validateWorkspaceResult =
     (if validateEnvelope c \<noteq> [] then Inl (Issues (validateEnvelope c))
      else if own snapshot ''id'' \<noteq> Some (JStr (target_workspaceId (cmd_target c)))
        then Inl (one_issue WorkspaceMismatch ''/target/workspaceId'' None)
      else if truthy_text (target_documentId (cmd_target c))
        then apply_document_command V snapshot c (the (target_documentId (cmd_target c)))
      else apply_workspace_patch V snapshot c validateWorkspaceResult)"

definition applyWorkspaceCommand :: "validators \<Rightarrow> json \<Rightarrow> command \<Rightarrow> failure + json" where
  "applyWorkspaceCommand V snapshot c = applyWorkspaceCommandInternal V snapshot c True"

section \<open>Transactions\<close>

datatype tx_issue_code = TxInvalidEnvelope | TxWorkspaceMismatch | TxCommandFailed | TxValidationFailed

record tx_issue =
  tx_issue_code :: tx_issue_code
  tx_issue_path :: string
  tx_issue_command :: "(string \<times> nat) option"
  tx_issue_inner :: "issue list"

text \<open>A failed transaction: its issues and the command it failed at, or a thrown exception.\<close>

datatype tx_failure = TxIssues "tx_issue list" "(string \<times> nat) option" | TxThrown

definition tx_envelope_issue :: "string \<Rightarrow> (string \<times> nat) option \<Rightarrow> tx_issue" where
  "tx_envelope_issue path where_at =
     \<lparr>tx_issue_code = TxInvalidEnvelope, tx_issue_path = path, tx_issue_command = where_at,
      tx_issue_inner = []\<rparr>"

fun duplicate_id_issues :: "string list \<Rightarrow> nat \<Rightarrow> command list \<Rightarrow> tx_issue list" where
  "duplicate_id_issues seen index [] = []"
| "duplicate_id_issues seen index (c # cs) =
     (if cmd_id c \<in> set seen
      then [tx_envelope_issue (''/commands/'' @ nat_text index @ ''/id'') (Some (cmd_id c, index))]
      else []) @
     duplicate_id_issues (set_add (cmd_id c) seen) (Suc index) cs"

definition validateTransactionEnvelope :: "transaction \<Rightarrow> tx_issue list" where
  "validateTransactionEnvelope t =
     concat (map (\<lambda>(field, value). if js_trim value = [] then [tx_envelope_issue (''/'' @ field) None]
                                   else [])
       [(''id'', tx_id t), (''workspaceId'', tx_workspaceId t), (''issuedAt'', tx_issuedAt t)]) @
     (if tx_commands t = [] then [tx_envelope_issue ''/commands'' None]
      else duplicate_id_issues [] 0 (tx_commands t))"

fun apply_commands ::
  "validators \<Rightarrow> string \<Rightarrow> json \<Rightarrow> nat \<Rightarrow> command list \<Rightarrow> tx_failure + json" where
  "apply_commands V workspaceId snapshot index [] = Inr snapshot"
| "apply_commands V workspaceId snapshot index (c # cs) =
     (let where_at = Some (cmd_id c, index) in
      if target_workspaceId (cmd_target c) \<noteq> workspaceId
      then Inl (TxIssues [\<lparr>tx_issue_code = TxWorkspaceMismatch,
                           tx_issue_path = ''/commands/'' @ nat_text index @ ''/target/workspaceId'',
                           tx_issue_command = where_at, tx_issue_inner = []\<rparr>] where_at)
      else (case applyWorkspaceCommandInternal V snapshot c False of
              Inl (Issues issues) \<Rightarrow>
                Inl (TxIssues [\<lparr>tx_issue_code = TxCommandFailed,
                                tx_issue_path = ''/commands/'' @ nat_text index,
                                tx_issue_command = where_at, tx_issue_inner = issues\<rparr>] where_at)
            | Inl Thrown \<Rightarrow> Inl TxThrown
            | Inr next_snapshot \<Rightarrow> apply_commands V workspaceId next_snapshot (Suc index) cs))"

definition applyWorkspaceTransaction ::
  "validators \<Rightarrow> json \<Rightarrow> transaction \<Rightarrow> tx_failure + json" where
  "applyWorkspaceTransaction V snapshot t =
     (if validateTransactionEnvelope t \<noteq> [] then Inl (TxIssues (validateTransactionEnvelope t) None)
      else if own snapshot ''id'' \<noteq> Some (JStr (tx_workspaceId t))
        then Inl (TxIssues [\<lparr>tx_issue_code = TxWorkspaceMismatch, tx_issue_path = ''/workspaceId'',
                             tx_issue_command = None, tx_issue_inner = []\<rparr>] None)
      else (case apply_commands V (tx_workspaceId t) snapshot 0 (tx_commands t) of
              Inl f \<Rightarrow> Inl f
            | Inr next_snapshot \<Rightarrow>
                (case validateWorkspaceTransition V next_snapshot of
                   None \<Rightarrow> Inl TxThrown
                 | Some [] \<Rightarrow> Inr next_snapshot
                 | Some issues \<Rightarrow>
                     Inl (TxIssues [\<lparr>tx_issue_code = TxValidationFailed, tx_issue_path = ''/'',
                                     tx_issue_command = None, tx_issue_inner = issues\<rparr>] None))))"

end
