(* ===== verification/CommandLaws.thy ===== *)
theory CommandLaws
  imports Command
begin

text \<open>
  The laws of the command engine: a command respects deep equality of the workspace, a document
  command changes the content of its document and nothing else, a workspace command leaves the
  server-owned members alone, and the reversed command undoes a command.
\<close>

section \<open>Reading properties of equal values\<close>

lemma own_scalar: "\<not> isRecord a \<Longrightarrow> own a k = None"
  by (cases a) auto

lemma own_eqv:
  assumes "json_eqv a b"
  shows "rel_option json_eqv (own a k) (own b k)"
  using assms
  by (cases rule: json_eqv_cases) (use assms in \<open>auto simp: json_eqv_JObj own_scalar\<close>)

lemma own_JStr_eqv:
  "json_eqv a b \<Longrightarrow> own a k = Some (JStr s) \<longleftrightarrow> own b k = Some (JStr s)"
  using own_eqv [of a b k] by (auto simp: json_eqv_def elim!: option.rel_cases)

lemma truthy_eqv: "json_eqv a b \<Longrightarrow> truthy a = truthy b"
  by (erule json_eqv_cases) auto

lemma docs_of_eqv:
  assumes "json_eqv a b"
  shows "json_eqv (JObj (docs_of a)) (JObj (docs_of b))"
  using own_eqv [OF assms, of "''docsById''"]
proof (cases rule: option.rel_cases)
  case (Some v w)
  from Some(3) show ?thesis
    by (cases rule: json_eqv_cases) (use Some in \<open>auto simp: docs_of_def split: json.split\<close>)
qed (simp add: docs_of_def)

lemma doc_eqv:
  "json_eqv a b \<Longrightarrow> rel_option json_eqv (map_of (docs_of a) d) (map_of (docs_of b) d)"
  using docs_of_eqv by (simp add: json_eqv_JObj)

lemma wf_docs_of: "wf_json s \<Longrightarrow> wf_json (JObj (docs_of s))"
  using docs_of_eqv [of s s] by simp

section \<open>Replacing the content of one document\<close>

lemma set_document_content_other:
  "k \<noteq> ''docsById'' \<Longrightarrow> own (set_document_content s d c) k = own s k"
  by (auto simp: set_document_content_def split: json.split option.split)

lemma docs_of_JObj_docsById:
  assumes "map_of (docs_of s) d = Some doc"
  obtains kvs docs where "s = JObj kvs" and "map_of kvs ''docsById'' = Some (JObj docs)"
    and "docs_of s = docs"
  using assms by (cases s) (auto simp: docs_of_def split: option.splits json.splits)

lemma docs_of_set_document_content:
  assumes "map_of (docs_of s) d = Some (JObj doc)"
  shows "docs_of (set_document_content s d c) =
    alist_put d (JObj (alist_put ''content'' c doc)) (docs_of s)"
  using assms
  by (rule docs_of_JObj_docsById) (use assms in \<open>auto simp: set_document_content_def docs_of_def\<close>)

lemma set_document_content_eqv:
  assumes "json_eqv s t" and "json_eqv a b"
  shows "json_eqv (set_document_content s d a) (set_document_content t d b)"
proof -
  have docs: "json_eqv (JObj (docs_of s)) (JObj (docs_of t))"
    using assms(1) by (rule docs_of_eqv)
  from doc_eqv [OF assms(1), of d] show ?thesis
  proof (cases rule: option.rel_cases)
    case None
    with assms(1) show ?thesis by (auto simp: set_document_content_def split: json.split)
  next
    case (Some v w)
    obtain ss tt where st: "s = JObj ss" "t = JObj tt"
      using docs_of_JObj_docsById [OF Some(1)] docs_of_JObj_docsById [OF Some(2)] by metis
    from Some(3) show ?thesis
    proof (cases rule: json_eqv_cases)
      case (Record l r)
      have "json_eqv (JObj (alist_put ''content'' a l)) (JObj (alist_put ''content'' b r))"
        using Some(3) Record assms(2) by (auto intro: json_eqv_alist_put)
      with docs have "json_eqv
          (JObj (alist_put d (JObj (alist_put ''content'' a l)) (docs_of s)))
          (JObj (alist_put d (JObj (alist_put ''content'' b r)) (docs_of t)))"
        by (rule json_eqv_alist_put)
      with assms(1) have "json_eqv
          (JObj (alist_put ''docsById''
             (JObj (alist_put d (JObj (alist_put ''content'' a l)) (docs_of s))) ss))
          (JObj (alist_put ''docsById''
             (JObj (alist_put d (JObj (alist_put ''content'' b r)) (docs_of t))) tt))"
        unfolding st by (rule json_eqv_alist_put)
      then show ?thesis
        using Some Record st by (simp add: set_document_content_def)
    qed (use Some assms(1) in \<open>auto simp: set_document_content_def split: json.split\<close>)
  qed
qed

text \<open>Writing a content that is deeply equal to the current one changes nothing.\<close>

lemma set_document_content_same:
  assumes "wf_json s" and "map_of (docs_of s) d = Some doc" and "own doc ''content'' = Some c"
    and "json_eqv c' c"
  shows "json_eqv (set_document_content s d c') s"
proof -
  obtain kvs where s: "s = JObj kvs" "map_of kvs ''docsById'' = Some (JObj (docs_of s))"
    using docs_of_JObj_docsById [OF assms(2)] by metis
  obtain l where doc: "doc = JObj l" "map_of l ''content'' = Some c"
    using assms(3) by (cases doc) auto
  have wf: "wf_json (JObj (docs_of s))" "wf_json doc"
    using wf_docs_of [OF assms(1)] assms(2) wf_json_map_of by blast+
  have "json_eqv (JObj (alist_put ''content'' c' l)) (JObj l)"
    using wf(2) doc assms(4) by (auto simp: json_eqv_JObj)
  then have "json_eqv (JObj (alist_put d (JObj (alist_put ''content'' c' l)) (docs_of s)))
      (JObj (docs_of s))"
    using wf(1) assms(2) doc by (auto simp: json_eqv_JObj)
  moreover have "set_document_content s d c' = JObj (alist_put ''docsById''
      (JObj (alist_put d (JObj (alist_put ''content'' c' l)) (docs_of s))) kvs)"
    using assms(2) s(1) doc by (simp add: set_document_content_def)
  moreover have "distinct (map fst kvs)" and "\<forall>e \<in> set kvs. wf_json (snd e)"
    using assms(1) s(1) by auto
  ultimately show ?thesis
    using s by (simp add: json_eqv_JObj)
qed

lemma set_document_content_twice:
  assumes "map_of (docs_of s) d = Some (JObj doc)" and "wf_json s" and "wf_json b" and "wf_json a"
  shows "json_eqv (set_document_content (set_document_content s d a) d b) (set_document_content s d b)"
proof -
  obtain kvs where s: "s = JObj kvs" using docs_of_JObj_docsById [OF assms(1)] by metis
  have put2: "alist_put k v (alist_put k w xs) = alist_put k v xs" for k v w and xs :: "(string \<times> json) list"
    by (induction xs) auto
  have "set_document_content (set_document_content s d a) d b = set_document_content s d b"
    using assms(1) s docs_of_set_document_content [OF assms(1), of a]
    by (simp add: set_document_content_def put2)
  moreover have "wf_json (set_document_content s d b)"
    using set_document_content_eqv [of s s b b d] assms by simp
  ultimately show ?thesis by simp
qed

section \<open>What a workspace patch can reach\<close>

definition patchable_members :: "string list" where
  "patchable_members =
     [''treeRootId'', ''activeDocumentId'', ''activeRouteNodeId'', ''settings'', ''treeById'',
      ''docsById'', ''routeManifest'']"

lemma those_Cons_SomeD:
  "those (x # xs) = Some ys \<Longrightarrow> \<exists>z zs. x = Some z \<and> those xs = Some zs \<and> ys = z # zs"
  by (auto split: option.splits)

lemma decodePointerSegment_plain:
  "CHR ''~'' \<notin> set w \<Longrightarrow> decodePointerSegment w = Some w"
  by (induction w) auto

lemma parsePointer_first:
  assumes "CHR ''/'' \<notin> set r" and "CHR ''~'' \<notin> set r"
    and "path = CHR ''/'' # r \<or> starts_with path (CHR ''/'' # r @ ''/'')"
    and "parsePointer path = Some segs"
  shows "segs \<noteq> [] \<and> hd segs = r"
proof -
  from assms(3) obtain rest where "path = CHR ''/'' # r \<or> path = CHR ''/'' # r @ CHR ''/'' # rest"
    by (auto simp: starts_with_def prefix_def)
  then have "\<exists>ws. split_on (CHR ''/'') (tl path) = r # ws"
    using assms(1) by (auto simp: split_on_no_sep split_on_append)
  moreover have "path \<noteq> []" "hd path = CHR ''/''" using assms(3)
    by (auto simp: starts_with_def prefix_def)
  ultimately show ?thesis
    using assms(4) decodePointerSegment_plain [OF assms(2)]
    by (auto simp: parsePointer_def split: option.splits)
qed

lemma allowed_first_segment:
  assumes "isAllowedWorkspacePath path" and "parsePointer path = Some segs"
  shows "segs \<noteq> [] \<and> hd segs \<in> set patchable_members"
proof -
  define P where
    "P r \<longleftrightarrow> path = CHR ''/'' # r \<or> starts_with path (CHR ''/'' # r @ ''/'')" for r
  have "P ''treeRootId'' \<or> P ''activeDocumentId'' \<or> P ''activeRouteNodeId'' \<or> P ''settings'' \<or>
      P ''treeById'' \<or> P ''docsById'' \<or> P ''routeManifest''"
    using assms(1) unfolding isAllowedWorkspacePath_def P_def append.simps by argo
  then have "list_ex P patchable_members"
    unfolding patchable_members_def by simp
  then obtain r where "r \<in> set patchable_members" and "P r"
    unfolding list_ex_iff by blast
  then have "r \<in> set patchable_members"
    and "path = CHR ''/'' # r \<or> starts_with path (CHR ''/'' # r @ ''/'')"
    by (auto simp: P_def)
  moreover from this(1) have "CHR ''/'' \<notin> set r" and "CHR ''~'' \<notin> set r"
    by (auto simp: patchable_members_def)
  ultimately show ?thesis
    using parsePointer_first [OF _ _ _ assms(2)] by metis
qed

lemma update_parent_own:
  assumes "update_parent segs f a = Some b" and "segs \<noteq> []" and "hd segs \<noteq> k"
  shows "own b k = own a k"
  using assms by (cases segs; cases a) (auto split: option.splits)

lemma set_child_own:
  "set_child mode v s a = Some b \<Longrightarrow> s \<noteq> k \<Longrightarrow> own b k = own a k"
  by (cases a) (auto simp: set_child_def split: option.splits if_splits)

lemma remove_child_own:
  "remove_child s a = Some b \<Longrightarrow> s \<noteq> k \<Longrightarrow> own b k = own a k"
  by (cases a) (auto simp: remove_child_def split: option.splits if_splits)

lemma with_parent_own:
  assumes "with_parent path f a = Some b" and "parsePointer path = Some segs" and "hd segs \<noteq> k"
    and "\<And>s x y. f s x = Some y \<Longrightarrow> s \<noteq> k \<Longrightarrow> own y k = own x k"
  shows "own b k = own a k"
proof -
  from assms(1,2) have segs: "segs \<noteq> []"
    and upd: "update_parent (butlast segs) (f (last segs)) a = Some b"
    by (auto simp: with_parent_def split: if_splits)
  show ?thesis
  proof (cases "butlast segs")
    case Nil
    then have "last segs = hd segs" using segs by (cases segs) (auto split: if_splits)
    with Nil upd assms(3,4) show ?thesis by auto
  next
    case (Cons s rest)
    then have "hd (butlast segs) = hd segs" by (cases segs) (auto split: if_splits)
    with Cons upd assms(3) show ?thesis by (intro update_parent_own [OF upd]) auto
  qed
qed

lemma setValue_own:
  assumes "setValue a path v mode = Some b" and "isAllowedWorkspacePath path"
    and "k \<notin> set patchable_members"
  shows "own b k = own a k"
proof -
  from assms(1) obtain segs where "parsePointer path = Some segs"
    by (auto simp: setValue_def with_parent_def split: option.splits)
  then have "hd segs \<noteq> k" using allowed_first_segment [OF assms(2)] assms(3) by blast
  from assms(1) [unfolded setValue_def] \<open>parsePointer path = Some segs\<close> this show ?thesis
    by (rule with_parent_own) (rule set_child_own)
qed

lemma removeValue_own:
  assumes "removeValue a path = Some b" and "isAllowedWorkspacePath path"
    and "k \<notin> set patchable_members"
  shows "own b k = own a k"
proof -
  from assms(1) obtain segs where "parsePointer path = Some segs"
    by (auto simp: removeValue_def with_parent_def split: option.splits)
  then have "hd segs \<noteq> k" using allowed_first_segment [OF assms(2)] assms(3) by blast
  from assms(1) [unfolded removeValue_def] \<open>parsePointer path = Some segs\<close> this show ?thesis
    by (rule with_parent_own) (rule remove_child_own)
qed

definition allowed_op :: "patch_target \<Rightarrow> patch_op \<Rightarrow> bool" where
  "allowed_op t op \<longleftrightarrow> isAllowedPatchPath t (op_path op) \<and>
     (op_kind op = OpMove \<or> op_kind op = OpCopy \<longrightarrow>
        truthy_text (op_from op) \<and> isAllowedPatchPath t (the (op_from op)))"

lemma validatePatchPaths_Nil:
  "validatePatchPaths t ops = [] \<longleftrightarrow> (\<forall>op \<in> set ops. allowed_op t op)"
  by (auto simp: validatePatchPaths_def allowed_op_def)

lemma apply_patch_op_own:
  assumes "apply_patch_op a op = Inr b" and "allowed_op WorkspaceTarget op"
    and "k \<notin> set patchable_members"
  shows "own b k = own a k"
  using assms
  by (cases "op_kind op")
    (auto simp: apply_patch_op_def Let_def allowed_op_def split: option.splits if_splits
      dest!: setValue_own removeValue_own)

lemma applyPatchOperations_own:
  assumes "applyPatchOperations a ops = Inr b" and "\<forall>op \<in> set ops. allowed_op WorkspaceTarget op"
    and "k \<notin> set patchable_members"
  shows "own b k = own a k"
  using assms
proof (induction ops arbitrary: a)
  case (Cons op ops)
  then obtain c where "apply_patch_op a op = Inr c" "applyPatchOperations c ops = Inr b"
    by (auto split: sum.splits)
  with Cons show ?case using apply_patch_op_own [of a op c k] by auto
qed auto

section \<open>Commands respect deep equality\<close>

text \<open>
  The validators of the other packages read JSON values; none depends on the order of object
  keys. This is the hypothesis under which a command is a function of the workspace up to deep
  equality.
\<close>

definition extensional :: "validators \<Rightarrow> bool" where
  "extensional V \<longleftrightarrow>
     (\<forall>a b. json_eqv a b \<longrightarrow>
        v_pir V a = v_pir V b \<and> v_nodegraph V a = v_nodegraph V b \<and>
        v_animation V a = v_animation V b \<and> v_dataSource V a = v_dataSource V b \<and>
        (\<forall>t. v_behavior V t a = v_behavior V t b) \<and> v_agentPolicy V a = v_agentPolicy V b \<and>
        v_tokens V a = v_tokens V b \<and> v_tokenResolver V a = v_tokenResolver V b \<and>
        v_asset V a = v_asset V b \<and> v_config V a = v_config V b \<and>
        v_snapshot V a = v_snapshot V b) \<and>
     (\<forall>x y. rel_option json_eqv x y \<longrightarrow>
        v_lifecycle V x = v_lifecycle V y \<and> v_shader V x = v_shader V y \<and>
        v_server V x = v_server V y)"

definition wf_command :: "command \<Rightarrow> bool" where
  "wf_command c \<longleftrightarrow> (\<forall>op \<in> set (forwardOps c) \<union> set (reverseOps c). wf_op op)"

lemma isRecord_eqv: "json_eqv a b \<Longrightarrow> isRecord a = isRecord b"
  by (erule json_eqv_cases) auto

lemma two_texts:
  "(case (x, y) of (Some (JStr l), Some (JStr s)) \<Rightarrow> P l | _ \<Rightarrow> False) \<longleftrightarrow>
     (\<exists>l s. x = Some (JStr l) \<and> y = Some (JStr s) \<and> P l)"
  by (cases x; cases y) (auto split: json.split)

lemma isWorkspaceCodeDocumentContent_own:
  "isWorkspaceCodeDocumentContent V content \<longleftrightarrow>
     (\<exists>language source. own content ''language'' = Some (JStr language) \<and>
        own content ''source'' = Some (JStr source) \<and> language \<in> set CODE_ARTIFACT_LANGUAGES \<and>
        (case own content ''metadata'' of None \<Rightarrow> True | Some m \<Rightarrow> isRecord m) \<and>
        v_lifecycle V (own content ''metadata'') \<and>
        v_shader V (own content ''metadata'') language \<and>
        v_server V (own content ''metadata'') language)"
proof (cases content)
  case (JObj kvs)
  show ?thesis
    unfolding isWorkspaceCodeDocumentContent_def JObj json.case own.simps two_texts by blast
qed (simp_all add: isWorkspaceCodeDocumentContent_def)

lemma isWorkspaceCodeDocumentContent_eqv:
  assumes "extensional V" and "json_eqv a b"
  shows "isWorkspaceCodeDocumentContent V a = isWorkspaceCodeDocumentContent V b"
proof -
  have m: "rel_option json_eqv (own a ''metadata'') (own b ''metadata'')"
    using assms(2) by (rule own_eqv)
  then have "v_lifecycle V (own a ''metadata'') = v_lifecycle V (own b ''metadata'')"
    "v_shader V (own a ''metadata'') = v_shader V (own b ''metadata'')"
    "v_server V (own a ''metadata'') = v_server V (own b ''metadata'')"
    using assms(1) by (auto simp: extensional_def)
  moreover have "(case own a ''metadata'' of None \<Rightarrow> True | Some m \<Rightarrow> isRecord m) =
      (case own b ''metadata'' of None \<Rightarrow> True | Some m \<Rightarrow> isRecord m)"
    using m by (cases rule: option.rel_cases) (auto dest: isRecord_eqv)
  ultimately show ?thesis
    unfolding isWorkspaceCodeDocumentContent_own own_JStr_eqv [OF assms(2)] by simp
qed

lemma content_refused_eqv:
  assumes "extensional V" and "json_eqv a b"
  shows "content_refused V t d a = content_refused V t d b"
proof -
  have "v_pir V a = v_pir V b \<and> v_nodegraph V a = v_nodegraph V b \<and>
        v_animation V a = v_animation V b \<and> v_dataSource V a = v_dataSource V b \<and>
        (\<forall>t. v_behavior V t a = v_behavior V t b) \<and> v_agentPolicy V a = v_agentPolicy V b \<and>
        v_tokens V a = v_tokens V b \<and> v_tokenResolver V a = v_tokenResolver V b \<and>
        v_asset V a = v_asset V b \<and> v_config V a = v_config V b"
    using assms unfolding extensional_def by blast
  then show ?thesis
    unfolding content_refused_def isWorkspaceCodeDocumentContent_eqv [OF assms] by simp
qed

lemma valuesEqual_eqv:
  assumes "json_eqv a b" and "json_eqv c d"
  shows "valuesEqual a c = valuesEqual b d"
  using assms by (metis json_eqv_def json_eqv_sym json_eqv_trans)

text \<open>
  The step both branches of a command share: patch, restore, compare. On deeply equal values it
  fails at the same path or gives deeply equal results.
\<close>

definition patch_and_restore ::
  "json \<Rightarrow> patch_op list \<Rightarrow> patch_op list \<Rightarrow> string + json" where
  "patch_and_restore v forward reverse =
     (case applyPatchOperations v forward of
        Inl path \<Rightarrow> Inl path
      | Inr patched \<Rightarrow>
          (case applyPatchOperations patched reverse of
             Inl path \<Rightarrow> Inl path
           | Inr restored \<Rightarrow> if valuesEqual restored v then Inr patched else Inl ''/''))"

lemma patch_and_restore_eqv:
  assumes "json_eqv a b" and "\<forall>op \<in> set fs \<union> set rs. wf_op op"
  shows "rel_sum (=) json_eqv (patch_and_restore a fs rs) (patch_and_restore b fs rs)"
proof -
  have "rel_sum (=) json_eqv (applyPatchOperations a fs) (applyPatchOperations b fs)"
    using assms by (intro applyPatchOperations_eqv) auto
  then show ?thesis
  proof (cases rule: rel_sum.cases)
    case (2 p q)
    then have "rel_sum (=) json_eqv (applyPatchOperations p rs) (applyPatchOperations q rs)"
      using assms by (intro applyPatchOperations_eqv) auto
    then show ?thesis
      using 2 valuesEqual_eqv [OF _ assms(1)]
      by (cases rule: rel_sum.cases) (auto simp: patch_and_restore_def)
  qed (auto simp: patch_and_restore_def)
qed

lemma patch_and_restore_undo:
  assumes "wf_json a" and "\<forall>op \<in> set fs \<union> set rs. wf_op op"
    and "patch_and_restore a fs rs = Inr b"
  shows "\<exists>r. patch_and_restore b rs fs = Inr r \<and> json_eqv r a"
proof -
  from assms(3) obtain r where b: "applyPatchOperations a fs = Inr b"
    and r: "applyPatchOperations b rs = Inr r" "valuesEqual r a"
    by (auto simp: patch_and_restore_def split: sum.splits if_splits)
  have "wf_json b" using applyPatchOperations_wf [OF assms(1) _ b] assms(2) by auto
  then have "wf_json r" using applyPatchOperations_wf [OF _ _ r(1)] assms(2) by auto
  then have ra: "json_eqv r a" using r(2) assms(1) by (simp add: json_eqv_def)
  then have "rel_sum (=) json_eqv (applyPatchOperations r fs) (applyPatchOperations a fs)"
    using assms(2) by (intro applyPatchOperations_eqv) auto
  with b obtain b' where "applyPatchOperations r fs = Inr b'" "json_eqv b' b"
    by (auto elim: rel_sum.cases)
  with r ra show ?thesis by (auto simp: patch_and_restore_def json_eqv_def)
qed

definition doc_issues :: "command \<Rightarrow> document_target \<Rightarrow> issue list" where
  "doc_issues c t =
     (let doc = Some (dt_documentId t);
          pathIssues = validatePatchPaths (DocumentTarget (dt_documentType t)) (forwardOps c) @
                       validatePatchPaths (DocumentTarget (dt_documentType t)) (reverseOps c)
      in
      if validateEnvelope c \<noteq> [] then validateEnvelope c
      else if target_workspaceId (cmd_target c) \<noteq> dt_workspaceId t
        then [\<lparr>issue_code = WorkspaceMismatch, issue_path = ''/target/workspaceId'', issue_document = doc\<rparr>]
      else if target_documentId (cmd_target c) \<noteq> doc
        then [\<lparr>issue_code = DocumentMissing, issue_path = ''/target/documentId'', issue_document = doc\<rparr>]
      else if dt_domain t \<noteq> getWorkspaceDocumentDomain (dt_documentType t)
        then [\<lparr>issue_code = InvalidEnvelope, issue_path = ''/domainHint'', issue_document = doc\<rparr>]
      else pathIssues)"

lemma applyWorkspaceDocumentCommand_eq:
  "applyWorkspaceDocumentCommand V content c t =
     (if doc_issues c t \<noteq> [] then Inl (Issues (doc_issues c t))
      else (case patch_and_restore content (forwardOps c) (reverseOps c) of
              Inl path \<Rightarrow> Inl (one_issue PatchFailed path (Some (dt_documentId t)))
            | Inr patched \<Rightarrow>
                if content_refused V (dt_documentType t) (dt_documentId t) patched
                then Inl (one_issue ValidationFailed ''/target/documentId'' (Some (dt_documentId t)))
                else Inr patched))"
  by (auto simp: applyWorkspaceDocumentCommand_def doc_issues_def patch_and_restore_def Let_def
      one_issue_def split: sum.split)

lemma applyWorkspaceDocumentCommand_eqv:
  assumes "extensional V" and "json_eqv a b" and "wf_command c"
  shows "rel_sum (=) json_eqv (applyWorkspaceDocumentCommand V a c t)
    (applyWorkspaceDocumentCommand V b c t)"
  using patch_and_restore_eqv [OF assms(2), of "forwardOps c" "reverseOps c"] assms(3)
    content_refused_eqv [OF assms(1)]
  by (auto simp: applyWorkspaceDocumentCommand_eq wf_command_def elim!: rel_sum.cases)

lemma apply_workspace_patch_eq:
  "apply_workspace_patch V s c False =
     (let pathIssues = validatePatchPaths WorkspaceTarget (forwardOps c) @
                       validatePatchPaths WorkspaceTarget (reverseOps c)
      in if pathIssues \<noteq> [] then Inl (Issues pathIssues)
         else (case patch_and_restore s (forwardOps c) (reverseOps c) of
                 Inl path \<Rightarrow> Inl (one_issue PatchFailed path None)
               | Inr next_snapshot \<Rightarrow> Inr next_snapshot))"
  by (auto simp: apply_workspace_patch_def patch_and_restore_def Let_def split: sum.split)

lemma apply_workspace_patch_eqv:
  assumes "json_eqv a b" and "wf_command c"
  shows "rel_sum (=) json_eqv (apply_workspace_patch V a c False) (apply_workspace_patch V b c False)"
  using patch_and_restore_eqv [OF assms(1), of "forwardOps c" "reverseOps c"] assms(2)
  by (auto simp: apply_workspace_patch_eq Let_def wf_command_def elim!: rel_sum.cases)

text \<open>What a document command sees of a document: its type and its content.\<close>

definition document_view :: "json \<Rightarrow> string \<Rightarrow> (doc_type \<times> json) option option" where
  "document_view snapshot d =
     (case map_of (docs_of snapshot) d of
        None \<Rightarrow> None
      | Some document \<Rightarrow>
          if \<not> truthy document then None
          else Some (case (own document ''type'', own document ''content'') of
                  (Some (JStr text), Some content) \<Rightarrow>
                    (case doc_type_of_text text of None \<Rightarrow> None | Some t \<Rightarrow> Some (t, content))
                | _ \<Rightarrow> None))"

definition target_of :: "command \<Rightarrow> string \<Rightarrow> doc_type \<Rightarrow> document_target" where
  "target_of c d t =
     \<lparr>dt_workspaceId = target_workspaceId (cmd_target c), dt_documentId = d, dt_documentType = t,
      dt_domain = (if isWorkspaceDocumentCommandDomain (resolveWorkspaceCommandDomain c)
                   then resolveWorkspaceCommandDomain c else DomPir)\<rparr>"

lemma apply_document_command_eq:
  "apply_document_command V snapshot c d =
     (case document_view snapshot d of
        None \<Rightarrow> Inl (one_issue DocumentMissing ''/target/documentId'' (Some d))
      | Some None \<Rightarrow> Inl Thrown
      | Some (Some (t, content)) \<Rightarrow>
          (case applyWorkspaceDocumentCommand V content c (target_of c d t) of
             Inl f \<Rightarrow> Inl f
           | Inr content' \<Rightarrow> Inr (set_document_content snapshot d content')))"
  unfolding apply_document_command_def document_view_def target_of_def Let_def
  by (simp split: option.split json.split)

lemma document_view_eqv:
  assumes "json_eqv a b"
  shows "rel_option (rel_option (rel_prod (=) json_eqv)) (document_view a d) (document_view b d)"
  using doc_eqv [OF assms, of d]
proof (cases rule: option.rel_cases)
  case (Some v w)
  have content: "rel_option json_eqv (own v ''content'') (own w ''content'')"
    using Some(3) by (rule own_eqv)
  show ?thesis
  proof (cases "\<exists>t. own v ''type'' = Some (JStr t)")
    case True
    then obtain t where t: "own v ''type'' = Some (JStr t)" "own w ''type'' = Some (JStr t)"
      using own_JStr_eqv [OF Some(3)] by blast
    show ?thesis
      using content Some t truthy_eqv [OF Some(3)]
      by (cases rule: option.rel_cases) (auto simp: document_view_def split: option.split)
  next
    case False
    then have "\<nexists>t. own w ''type'' = Some (JStr t)" using own_JStr_eqv [OF Some(3)] by blast
    with False Some truthy_eqv [OF Some(3)] show ?thesis
      by (simp add: document_view_def split: option.split json.split)
  qed
qed (simp add: document_view_def)

theorem applyWorkspaceCommandInternal_eqv:
  assumes "extensional V" and "json_eqv s t" and "wf_command c"
  shows "rel_sum (=) json_eqv (applyWorkspaceCommandInternal V s c False)
    (applyWorkspaceCommandInternal V t c False)"
proof -
  have "rel_sum (=) json_eqv (apply_document_command V s c d) (apply_document_command V t c d)" for d
    using document_view_eqv [OF assms(2), of d]
  proof (cases rule: option.rel_cases)
    case (Some v w)
    from Some(3) show ?thesis
    proof (cases rule: option.rel_cases)
      case Some': (Some x y)
      then obtain ty m n where xy: "x = (ty, m)" "y = (ty, n)" "json_eqv m n"
        by (cases x; cases y) auto
      from applyWorkspaceDocumentCommand_eqv [OF assms(1) xy(3) assms(3), of "target_of c d ty"]
      show ?thesis
        using Some Some' xy set_document_content_eqv [OF assms(2)]
        by (auto simp: apply_document_command_eq elim!: rel_sum.cases)
    qed (use Some in \<open>auto simp: apply_document_command_eq\<close>)
  qed (auto simp: apply_document_command_eq)
  then show ?thesis
    using own_JStr_eqv [OF assms(2), of "''id''"] apply_workspace_patch_eqv [OF assms(2,3)]
    by (auto simp: applyWorkspaceCommandInternal_def)
qed

lemma applyWorkspaceCommandInternal_unvalidated:
  "applyWorkspaceCommandInternal V s c True = Inr s' \<Longrightarrow>
   applyWorkspaceCommandInternal V s c False = Inr s'"
  by (auto simp: applyWorkspaceCommandInternal_def apply_workspace_patch_def Let_def
      split: sum.splits if_splits option.splits list.splits)

section \<open>Undoing a command\<close>

text \<open>
  A command that swaps the two patches of another one and keeps its target, its namespace, type
  and version. Its own id and time must not be blank.
\<close>

definition reverses :: "command \<Rightarrow> command \<Rightarrow> bool" where
  "reverses c' c \<longleftrightarrow>
     forwardOps c' = reverseOps c \<and> reverseOps c' = forwardOps c \<and>
     cmd_target c' = cmd_target c \<and> cmd_namespace c' = cmd_namespace c \<and>
     cmd_type c' = cmd_type c \<and> cmd_version c' = cmd_version c \<and> domainHint c' = domainHint c \<and>
     js_trim (cmd_id c') \<noteq> [] \<and> js_trim (cmd_issuedAt c') \<noteq> []"

lemma reverses_domain:
  assumes "reverses c' c"
  shows "resolveWorkspaceCommandDomain c' = resolveWorkspaceCommandDomain c"
proof -
  from assms have "cmd_target c' = cmd_target c" "cmd_namespace c' = cmd_namespace c"
    "domainHint c' = domainHint c"
    by (simp_all add: reverses_def)
  then show ?thesis unfolding resolveWorkspaceCommandDomain_def by (simp only:)
qed

lemma validateEnvelope_Nil:
  "validateEnvelope c = [] \<longleftrightarrow>
     js_trim (cmd_id c) \<noteq> [] \<and> js_trim (cmd_namespace c) \<noteq> [] \<and> js_trim (cmd_type c) \<noteq> [] \<and>
     js_trim (cmd_version c) \<noteq> [] \<and> js_trim (cmd_issuedAt c) \<noteq> [] \<and>
     js_trim (target_workspaceId (cmd_target c)) \<noteq> [] \<and>
     forwardOps c \<noteq> [] \<and> reverseOps c \<noteq> [] \<and>
     (truthy_text (target_documentId (cmd_target c)) \<longrightarrow>
        isWorkspaceDocumentCommandDomain (resolveWorkspaceCommandDomain c))"
  by (auto simp: validateEnvelope_def)

lemma reverses_envelope:
  assumes "reverses c' c" and "validateEnvelope c = []"
  shows "validateEnvelope c' = []"
  using assms reverses_domain [OF assms(1)]
  unfolding validateEnvelope_Nil reverses_def by argo

lemma reverses_doc_issues:
  assumes "reverses c' c" and "doc_issues c (target_of c d t) = []"
  shows "doc_issues c' (target_of c' d t) = []"
  using assms reverses_domain [OF assms(1)] reverses_envelope [OF assms(1)]
  by (auto simp: doc_issues_def target_of_def Let_def reverses_def split: if_splits)

text \<open>The content a document command starts from passes the validators of its document.\<close>

definition starts_valid :: "validators \<Rightarrow> json \<Rightarrow> command \<Rightarrow> bool" where
  "starts_valid V s c \<longleftrightarrow>
     (case target_documentId (cmd_target c) of
        None \<Rightarrow> True
      | Some d \<Rightarrow>
          (case document_view s d of
             Some (Some (t, content)) \<Rightarrow> \<not> content_refused V t d content
           | _ \<Rightarrow> True))"

lemma document_view_JObj:
  assumes "document_view s d = Some (Some (t, content))"
  obtains doc ty where "map_of (docs_of s) d = Some (JObj doc)"
    and "map_of doc ''type'' = Some (JStr ty)" and "doc_type_of_text ty = Some t"
    and "map_of doc ''content'' = Some content"
proof -
  from assms obtain v where v: "map_of (docs_of s) d = Some v"
    and "truthy v" and types: "(case (own v ''type'', own v ''content'') of
                  (Some (JStr text), Some content) \<Rightarrow>
                    (case doc_type_of_text text of None \<Rightarrow> None | Some t \<Rightarrow> Some (t, content))
                | _ \<Rightarrow> None) = Some (t, content)"
    by (auto simp: document_view_def split: option.splits if_splits)
  from types obtain ty where "own v ''type'' = Some (JStr ty)"
    and "own v ''content'' = Some content" and "doc_type_of_text ty = Some t"
    by (auto split: option.splits json.splits)
  with v that show thesis by (cases v) auto
qed

lemma document_view_set_content:
  assumes "document_view s d = Some (Some (t, content))"
  shows "document_view (set_document_content s d content') d = Some (Some (t, content'))"
  using assms
  by (rule document_view_JObj) (simp add: document_view_def docs_of_set_document_content)

lemma undo_document_command:
  assumes "extensional V" and "wf_json s" and "wf_command c" and "reverses c' c"
    and "apply_document_command V s c d = Inr s'"
    and "\<And>t content. document_view s d = Some (Some (t, content)) \<Longrightarrow> \<not> content_refused V t d content"
  shows "\<exists>r. apply_document_command V s' c' d = Inr r \<and> json_eqv r s"
proof -
  from assms(5) obtain t a p where view: "document_view s d = Some (Some (t, a))"
    and p: "applyWorkspaceDocumentCommand V a c (target_of c d t) = Inr p"
    and s': "s' = set_document_content s d p"
    by (auto simp: apply_document_command_eq split: option.splits sum.splits prod.splits)
  from p have di: "doc_issues c (target_of c d t) = []"
    and pr: "patch_and_restore a (forwardOps c) (reverseOps c) = Inr p"
    by (auto simp: applyWorkspaceDocumentCommand_eq split: if_splits sum.splits)
  from view obtain doc where doc: "map_of (docs_of s) d = Some (JObj doc)"
    "map_of doc ''content'' = Some a" by (rule document_view_JObj)
  have wf_a: "wf_json a"
    using wf_json_map_of [OF wf_json_map_of [OF wf_docs_of [OF assms(2)] doc(1)] doc(2)] .
  obtain r where r: "patch_and_restore p (reverseOps c) (forwardOps c) = Inr r" "json_eqv r a"
    using patch_and_restore_undo [OF wf_a _ pr] assms(3) by (auto simp: wf_command_def)
  have wf_p: "wf_json p"
    using patch_and_restore_eqv [of a a "forwardOps c" "reverseOps c"] wf_a pr assms(3)
    by (auto simp: wf_command_def)
  have "\<not> content_refused V t d r"
    using content_refused_eqv [OF assms(1) r(2)] assms(6) [OF view] by simp
  then have "applyWorkspaceDocumentCommand V p c' (target_of c' d t) = Inr r"
    using r(1) reverses_doc_issues [OF assms(4) di] assms(4)
    by (simp add: applyWorkspaceDocumentCommand_eq reverses_def target_of_def)
  then have "apply_document_command V s' c' d = Inr (set_document_content s' d r)"
    using document_view_set_content [OF view] s' by (simp add: apply_document_command_eq)
  moreover have "json_eqv (set_document_content s' d r) s"
  proof (rule json_eqv_trans)
    show "json_eqv (set_document_content s' d r) (set_document_content s d r)"
      unfolding s' using doc(1) assms(2) r(2) wf_p
      by (intro set_document_content_twice) (auto simp: json_eqv_def)
    show "json_eqv (set_document_content s d r) s"
      using assms(2) doc r(2) by (intro set_document_content_same) auto
  qed
  ultimately show ?thesis by blast
qed

theorem undo_command:
  assumes "extensional V" and "wf_json s" and "wf_command c" and "reverses c' c"
    and "applyWorkspaceCommandInternal V s c False = Inr s'" and "starts_valid V s c"
  shows "\<exists>r. applyWorkspaceCommandInternal V s' c' False = Inr r \<and> json_eqv r s"
proof (cases "truthy_text (target_documentId (cmd_target c))")
  case True
  then obtain d where d: "target_documentId (cmd_target c) = Some d" by (auto simp: truthy_text_def)
  from assms(5) True d have app: "apply_document_command V s c d = Inr s'"
    by (auto simp: applyWorkspaceCommandInternal_def split: if_splits)
  have "own s' ''id'' = own s ''id''"
    using app by (auto simp: apply_document_command_eq set_document_content_other
        split: option.splits sum.splits prod.splits)
  moreover have "\<not> content_refused V t d content" if "document_view s d = Some (Some (t, content))"
    for t content
    using assms(6) d that by (simp add: starts_valid_def)
  then obtain r where "apply_document_command V s' c' d = Inr r" "json_eqv r s"
    using undo_document_command [OF assms(1-4) app] by blast
  ultimately show ?thesis
    using assms(4,5) True d reverses_envelope [OF assms(4)]
    by (auto simp: applyWorkspaceCommandInternal_def reverses_def split: if_splits)
next
  case False
  with assms(5) have env: "validateEnvelope c = []"
    and wid: "own s ''id'' = Some (JStr (target_workspaceId (cmd_target c)))"
    and app: "apply_workspace_patch V s c False = Inr s'"
    by (auto simp: applyWorkspaceCommandInternal_def split: if_splits)
  then have paths: "validatePatchPaths WorkspaceTarget (forwardOps c) = []"
      "validatePatchPaths WorkspaceTarget (reverseOps c) = []"
    and pr: "patch_and_restore s (forwardOps c) (reverseOps c) = Inr s'"
    by (auto simp: apply_workspace_patch_eq Let_def split: if_splits sum.splits)
  have ops: "\<forall>op \<in> set (forwardOps c) \<union> set (reverseOps c). wf_op op"
    using assms(3) by (simp add: wf_command_def)
  obtain r where r: "patch_and_restore s' (reverseOps c) (forwardOps c) = Inr r" "json_eqv r s"
    using patch_and_restore_undo [OF assms(2) ops pr] by blast
  have "own s' ''id'' = own s ''id''"
    using pr applyPatchOperations_own [of s "forwardOps c" s' "''id''"] paths
    by (auto simp: patch_and_restore_def validatePatchPaths_Nil patchable_members_def
        split: sum.splits if_splits)
  with r paths wid False reverses_envelope [OF assms(4) env] assms(4) show ?thesis
    by (auto simp: applyWorkspaceCommandInternal_def apply_workspace_patch_eq Let_def reverses_def)
qed

section \<open>What a command leaves alone\<close>

lemma apply_document_command_Inr:
  "apply_document_command V s c d = Inr s' \<Longrightarrow>
   \<exists>t a p. document_view s d = Some (Some (t, a)) \<and>
     applyWorkspaceDocumentCommand V a c (target_of c d t) = Inr p \<and>
     s' = set_document_content s d p"
  by (auto simp: apply_document_command_eq split: option.splits sum.splits prod.splits)

text \<open>
  Whatever a command does, the members of the workspace that are not open to patches keep their
  values: its id, its revisions and its operation sequence belong to the server.
\<close>

theorem applyWorkspaceCommandInternal_own:
  assumes "applyWorkspaceCommandInternal V s c b = Inr s'" and "k \<notin> set patchable_members"
  shows "own s' k = own s k"
proof (cases "truthy_text (target_documentId (cmd_target c))")
  case True
  with assms(1) have "apply_document_command V s c (the (target_documentId (cmd_target c))) = Inr s'"
    by (auto simp: applyWorkspaceCommandInternal_def split: if_splits)
  moreover have "k \<noteq> ''docsById''" using assms(2) by (auto simp: patchable_members_def)
  ultimately show ?thesis
    by (auto dest!: apply_document_command_Inr simp: set_document_content_other)
next
  case False
  with assms(1) have "apply_workspace_patch V s c b = Inr s'"
    by (auto simp: applyWorkspaceCommandInternal_def split: if_splits)
  then have "applyPatchOperations s (forwardOps c) = Inr s'"
    and "validatePatchPaths WorkspaceTarget (forwardOps c) = []"
    by (auto simp: apply_workspace_patch_def Let_def
        split: if_splits sum.splits option.splits list.splits)
  then show ?thesis
    using assms(2) by (intro applyPatchOperations_own) (auto simp: validatePatchPaths_Nil)
qed

text \<open>A document command changes the content of its document and nothing else.\<close>

theorem document_command_frame:
  assumes "applyWorkspaceCommandInternal V s c b = Inr s'"
    and "target_documentId (cmd_target c) = Some d" and "d \<noteq> []"
  shows "k \<noteq> ''docsById'' \<Longrightarrow> own s' k = own s k"
    and "e \<noteq> d \<Longrightarrow> map_of (docs_of s') e = map_of (docs_of s) e"
    and "\<exists>doc doc'. map_of (docs_of s) d = Some doc \<and> map_of (docs_of s') d = Some doc' \<and>
           (\<forall>k. k \<noteq> ''content'' \<longrightarrow> own doc' k = own doc k)"
proof -
  from assms have "apply_document_command V s c d = Inr s'"
    by (auto simp: applyWorkspaceCommandInternal_def truthy_text_def split: if_splits)
  then obtain t a p where view: "document_view s d = Some (Some (t, a))"
    and s': "s' = set_document_content s d p"
    using apply_document_command_Inr by blast
  from view obtain doc where doc: "map_of (docs_of s) d = Some (JObj doc)"
    by (rule document_view_JObj)
  show "k \<noteq> ''docsById'' \<Longrightarrow> own s' k = own s k"
    by (simp add: s' set_document_content_other)
  show "e \<noteq> d \<Longrightarrow> map_of (docs_of s') e = map_of (docs_of s) e"
    by (simp add: s' docs_of_set_document_content [OF doc])
  show "\<exists>doc doc'. map_of (docs_of s) d = Some doc \<and> map_of (docs_of s') d = Some doc' \<and>
           (\<forall>k. k \<noteq> ''content'' \<longrightarrow> own doc' k = own doc k)"
    using doc by (simp add: s' docs_of_set_document_content [OF doc])
qed

end
