(* ===== verification/RouteRefs.thy ===== *)
theory RouteRefs
  imports CommandLaws
begin

text \<open>
  What the collection of document references from a route manifest (\<open>collectRouteDocumentRefs\<close>,
  \<open>collectRouteManifestDocumentRefs\<close>, \<open>findMissingRouteDocumentRefs\<close>) computes, as a relation on
  route nodes, and that its verdict does not depend on the order of object keys.
\<close>

section \<open>The document references of a route tree\<close>

text \<open>
  What the reference collection means: which values a node of the route tree refers to, and when
  reading the node throws.
\<close>

inductive route_ref :: "json \<Rightarrow> json \<Rightarrow> bool" where
  layout: "own n ''layoutDocId'' = Some x \<Longrightarrow> truthy x \<Longrightarrow> route_ref n x"
| page: "own n ''pageDocId'' = Some x \<Longrightarrow> truthy x \<Longrightarrow> route_ref n x"
| outlet: "own n ''outletBindings'' = Some bs \<Longrightarrow> b \<in> set (object_values bs) \<Longrightarrow>
    own b ''pageDocId'' = Some x \<Longrightarrow> truthy x \<Longrightarrow> route_ref n x"
| child: "own n ''children'' = Some (JArr cs) \<Longrightarrow> c \<in> set cs \<Longrightarrow> route_ref c x \<Longrightarrow> route_ref n x"

inductive route_throws :: "json \<Rightarrow> bool" where
  null: "route_throws JNull"
| outlet_null: "own n ''outletBindings'' = Some bs \<Longrightarrow> JNull \<in> set (object_values bs) \<Longrightarrow>
    route_throws n"
| children_no_list: "own n ''children'' = Some v \<Longrightarrow> v \<noteq> JNull \<Longrightarrow> \<not> isArray v \<Longrightarrow> route_throws n"
| child_throws: "own n ''children'' = Some (JArr cs) \<Longrightarrow> c \<in> set cs \<Longrightarrow> route_throws c \<Longrightarrow>
    route_throws n"

inductive_cases route_throws_cases: "route_throws n"
inductive_simps route_throws_iff: "route_throws n"
inductive_simps route_ref_iff: "route_ref n x"

lemma js_prop_not_null: "v \<noteq> JNull \<Longrightarrow> js_prop (Some v) k = Some (own v k)"
  by (cases v) auto

lemma set_add_ref:
  "set (add_ref v refs) = set refs \<union> {x. v = Some x \<and> truthy x}"
  by (auto simp: add_ref_def split: option.split)

lemma collect_bindings_spec:
  "JNull \<in> set bs \<Longrightarrow> collect_bindings bs refs = None"
  "JNull \<notin> set bs \<Longrightarrow> \<exists>out. collect_bindings bs refs = Some out \<and>
     set out = set refs \<union> {x. \<exists>b \<in> set bs. own b ''pageDocId'' = Some x \<and> truthy x}"
proof (induction bs arbitrary: refs)
  case (Cons b bs)
  { case 1 then show ?case
      by (cases "b = JNull") (auto simp: js_prop_not_null Cons.IH(1))
  }
  { case 2
    then have "b \<noteq> JNull" "JNull \<notin> set bs" by auto
    with Cons.IH(2) [of "add_ref (own b ''pageDocId'') refs"] show ?case
      by (auto simp: js_prop_not_null set_add_ref)
  }
qed auto

lemma outlet_values:
  "set (object_values (nullish v (JObj []))) = (case v of None \<Rightarrow> {} | Some bs \<Rightarrow> set (object_values bs))"
  by (cases "(v, JNull)" rule: nullish.cases) auto

declare collectRouteDocumentRefs.simps [simp del]

lemma collectRouteDocumentRefs_null:
  "node = None \<or> node = Some JNull \<Longrightarrow> collectRouteDocumentRefs node refs = None"
  by (auto simp: collectRouteDocumentRefs.simps)

lemma collectRouteDocumentRefs_node:
  assumes "n \<noteq> JNull"
  shows "collectRouteDocumentRefs (Some n) refs =
     (case collect_bindings (object_values (nullish (own n ''outletBindings'') (JObj [])))
             (add_ref (own n ''pageDocId'') (add_ref (own n ''layoutDocId'') refs)) of
        None \<Rightarrow> None
      | Some refs'' \<Rightarrow>
          (case own n ''children'' of
             None \<Rightarrow> Some refs''
           | Some JNull \<Rightarrow> Some refs''
           | Some (JArr children) \<Rightarrow> collect_children children refs''
           | Some _ \<Rightarrow> None))"
proof -
  have p: "js_prop (Some n) k = Some (own n k)" for k
    using assms by (rule js_prop_not_null)
  show ?thesis
    unfolding collectRouteDocumentRefs.simps [of "Some n"] p Let_def option.case option.sel ..
qed

lemma isArray_iff: "isArray v \<longleftrightarrow> (\<exists>xs. v = JArr xs)"
  by (cases v) auto

definition node_spec :: "json \<Rightarrow> bool" where
  "node_spec n \<longleftrightarrow> (\<forall>refs.
     (route_throws n \<longrightarrow> collectRouteDocumentRefs (Some n) refs = None) \<and>
     (\<not> route_throws n \<longrightarrow> (\<exists>out. collectRouteDocumentRefs (Some n) refs = Some out \<and>
        set out = set refs \<union> {x. route_ref n x})))"

lemma collect_children_spec:
  assumes "\<forall>c \<in> set cs. node_spec c"
  shows "\<exists>c \<in> set cs. route_throws c \<Longrightarrow> collect_children cs refs = None"
    and "\<forall>c \<in> set cs. \<not> route_throws c \<Longrightarrow> \<exists>out. collect_children cs refs = Some out \<and>
           set out = set refs \<union> {x. \<exists>c \<in> set cs. route_ref c x}"
  using assms
proof (induction cs arbitrary: refs)
  case (Cons c cs)
  { case 1
    then have c: "node_spec c" and cs: "\<forall>c \<in> set cs. node_spec c" by auto
    show ?case
    proof (cases "route_throws c")
      case True
      with c show ?thesis by (simp add: node_spec_def)
    next
      case False
      with 1 have "\<exists>c \<in> set cs. route_throws c" by auto
      from Cons.IH(1) [OF this cs] show ?thesis by (simp split: option.split)
    qed
  }
  { case 2
    then have c: "node_spec c" and cs: "\<forall>c \<in> set cs. node_spec c" by auto
    from 2 have "\<not> route_throws c" by auto
    with c obtain out where out: "collectRouteDocumentRefs (Some c) refs = Some out"
        "set out = set refs \<union> {x. route_ref c x}"
      unfolding node_spec_def by blast
    from 2 have "\<forall>c \<in> set cs. \<not> route_throws c" by auto
    from Cons.IH(2) [OF this cs, of out] out show ?case by auto
  }
qed auto

lemma node_spec: "node_spec n"
proof (induction n rule: measure_induct_rule [where f = size])
  case (less n)
  show ?case
  proof (cases "n = JNull")
    case True
    then show ?thesis
      by (simp add: node_spec_def collectRouteDocumentRefs_null route_throws.null)
  next
    case n: False
    let ?bs = "object_values (nullish (own n ''outletBindings'') (JObj []))"
    have eq: "collectRouteDocumentRefs (Some n) refs =
     (case collect_bindings ?bs
             (add_ref (own n ''pageDocId'') (add_ref (own n ''layoutDocId'') refs)) of
        None \<Rightarrow> None
      | Some refs'' \<Rightarrow>
          (case own n ''children'' of
             None \<Rightarrow> Some refs''
           | Some JNull \<Rightarrow> Some refs''
           | Some (JArr children) \<Rightarrow> collect_children children refs''
           | Some _ \<Rightarrow> None))" for refs
      using n by (rule collectRouteDocumentRefs_node)
    show ?thesis
    proof (cases "JNull \<in> set ?bs")
      case True
      then have "route_throws n"
        unfolding outlet_values by (auto split: option.splits intro: route_throws.outlet_null)
      with True show ?thesis
        by (simp add: node_spec_def eq collect_bindings_spec(1))
    next
      case no_null: False
      define refs' where "refs' refs = set refs \<union> {x. own n ''layoutDocId'' = Some x \<and> truthy x} \<union>
        {x. own n ''pageDocId'' = Some x \<and> truthy x} \<union>
        {x. \<exists>bs b. own n ''outletBindings'' = Some bs \<and> b \<in> set (object_values bs) \<and>
                own b ''pageDocId'' = Some x \<and> truthy x}" for refs
      have outlet: "{x. \<exists>b \<in> set ?bs. own b ''pageDocId'' = Some x \<and> truthy x} =
          {x. \<exists>bs b. own n ''outletBindings'' = Some bs \<and> b \<in> set (object_values bs) \<and>
                own b ''pageDocId'' = Some x \<and> truthy x}"
        unfolding outlet_values by (auto split: option.splits)
      have bind: "\<exists>out. collect_bindings ?bs
             (add_ref (own n ''pageDocId'') (add_ref (own n ''layoutDocId'') refs)) = Some out \<and>
             set out = refs' refs" for refs
        using collect_bindings_spec(2) [OF no_null, of
            "add_ref (own n ''pageDocId'') (add_ref (own n ''layoutDocId'') refs)"]
        by (simp only: set_add_ref refs'_def outlet)
      have no_outlet: "\<not> (\<exists>bs. own n ''outletBindings'' = Some bs \<and> JNull \<in> set (object_values bs))"
        using no_null unfolding outlet_values by (auto split: option.splits)
      show ?thesis
      proof (cases "\<exists>cs. own n ''children'' = Some (JArr cs)")
        case False
        then have thr: "route_throws n \<longleftrightarrow> (\<exists>v. own n ''children'' = Some v \<and> v \<noteq> JNull)"
          using n no_outlet by (subst route_throws_iff) (auto simp: isArray_iff)
        have "{x. route_ref n x} = refs' []"
          using False by (auto simp: route_ref_iff [of n] refs'_def)
        then have "set refs \<union> {x. route_ref n x} = refs' refs" for refs
          by (auto simp: refs'_def)
        moreover have "(case own n ''children'' of None \<Rightarrow> Some r | Some JNull \<Rightarrow> Some r
            | Some (JArr children) \<Rightarrow> collect_children children r | Some _ \<Rightarrow> None) =
            (if route_throws n then None else Some r)" for r
          using False thr by (auto split: option.split json.split)
        ultimately have "collectRouteDocumentRefs (Some n) refs = (if route_throws n then None
            else collect_bindings ?bs
              (add_ref (own n ''pageDocId'') (add_ref (own n ''layoutDocId'') refs)))"
          and "set refs \<union> {x. route_ref n x} = refs' refs" for refs
          unfolding eq using bind [of refs] by auto
        with bind show ?thesis unfolding node_spec_def by simp
      next
        case True
        then obtain cs where cs: "own n ''children'' = Some (JArr cs)" by blast
        then have thr: "route_throws n \<longleftrightarrow> (\<exists>c \<in> set cs. route_throws c)"
          using n no_outlet by (subst route_throws_iff) auto
        have "size c < size n" if "c \<in> set cs" for c
        proof -
          obtain kvs where kvs: "n = JObj kvs" using cs by (cases n) auto
          with cs have "size (JArr cs) < size n" by (auto dest: map_of_size)
          with size_in_JArr [OF that] show ?thesis by simp
        qed
        then have ih: "\<forall>c \<in> set cs. node_spec c" using less.IH by blast
        have "{x. route_ref n x} = refs' [] \<union> {x. \<exists>c \<in> set cs. route_ref c x}"
          using cs by (subst route_ref_iff) (auto simp: refs'_def)
        then have "set refs \<union> {x. route_ref n x} = refs' refs \<union> {x. \<exists>c \<in> set cs. route_ref c x}"
          for refs by (auto simp: refs'_def)
        moreover have "(\<exists>c \<in> set cs. route_throws c) \<longrightarrow>
              collectRouteDocumentRefs (Some n) refs = None"
          and "(\<forall>c \<in> set cs. \<not> route_throws c) \<longrightarrow>
              (\<exists>out. collectRouteDocumentRefs (Some n) refs = Some out \<and>
                 set out = refs' refs \<union> {x. \<exists>c \<in> set cs. route_ref c x})" for refs
        proof -
          obtain mid where "collect_bindings ?bs (add_ref (own n ''pageDocId'')
              (add_ref (own n ''layoutDocId'') refs)) = Some mid" "set mid = refs' refs"
            using bind by blast
          then show "(\<exists>c \<in> set cs. route_throws c) \<longrightarrow>
              collectRouteDocumentRefs (Some n) refs = None"
            and "(\<forall>c \<in> set cs. \<not> route_throws c) \<longrightarrow>
              (\<exists>out. collectRouteDocumentRefs (Some n) refs = Some out \<and>
                 set out = refs' refs \<union> {x. \<exists>c \<in> set cs. route_ref c x})"
            unfolding eq using cs collect_children_spec [OF ih, of mid] by simp_all
        qed
        ultimately show ?thesis by (simp add: node_spec_def thr)
      qed
    qed
  qed
qed

section \<open>The route manifest\<close>

definition manifest_throws :: "json \<Rightarrow> bool" where
  "manifest_throws mf \<longleftrightarrow>
     mf = JNull \<or>
     (case own mf ''root'' of None \<Rightarrow> True | Some r \<Rightarrow> route_throws r) \<or>
     (\<exists>ms. own mf ''modules'' = Some ms \<and>
        (\<exists>m \<in> set (object_values ms).
           m = JNull \<or> (case own m ''root'' of None \<Rightarrow> True | Some r \<Rightarrow> route_throws r)))"

definition manifest_refs :: "json \<Rightarrow> json set" where
  "manifest_refs mf =
     {x. \<exists>r. own mf ''root'' = Some r \<and> route_ref r x} \<union>
     {x. \<exists>ms m r. own mf ''modules'' = Some ms \<and> m \<in> set (object_values ms) \<and>
           own m ''root'' = Some r \<and> route_ref r x}"

lemma collect_root_spec:
  "(case r of None \<Rightarrow> True | Some n \<Rightarrow> route_throws n) \<Longrightarrow> collectRouteDocumentRefs r refs = None"
  "\<not> (case r of None \<Rightarrow> True | Some n \<Rightarrow> route_throws n) \<Longrightarrow>
     \<exists>out. collectRouteDocumentRefs r refs = Some out \<and>
       set out = set refs \<union> {x. \<exists>n. r = Some n \<and> route_ref n x}"
  using node_spec [of "the r"]
  by (cases r; simp add: node_spec_def collectRouteDocumentRefs_null)+

lemma collect_modules_Nil: "collect_modules [] refs = Some refs"
  by (simp add: collect_modules_def)

lemma collect_modules_Cons:
  "collect_modules (m # ms) refs =
     (case js_prop (Some m) ''root'' of
        None \<Rightarrow> None
      | Some r \<Rightarrow> (case collectRouteDocumentRefs r refs of
                    None \<Rightarrow> None | Some refs' \<Rightarrow> collect_modules ms refs'))"
proof -
  have none: "foldl (\<lambda>r m. case r of
                    None \<Rightarrow> None
                  | Some refs \<Rightarrow> (case js_prop (Some m) ''root'' of
                                    None \<Rightarrow> None
                                  | Some rootNode \<Rightarrow> collectRouteDocumentRefs rootNode refs))
      None ms = None" for ms
    by (induction ms) auto
  show ?thesis
    by (simp add: collect_modules_def none split: option.split)
qed

definition module_throws :: "json \<Rightarrow> bool" where
  "module_throws m \<longleftrightarrow>
     m = JNull \<or> (case own m ''root'' of None \<Rightarrow> True | Some r \<Rightarrow> route_throws r)"

lemma collect_modules_spec:
  "\<exists>m \<in> set ms. module_throws m \<Longrightarrow> collect_modules ms refs = None"
  "\<forall>m \<in> set ms. \<not> module_throws m \<Longrightarrow> \<exists>out. collect_modules ms refs = Some out \<and>
     set out = set refs \<union> {x. \<exists>m \<in> set ms. \<exists>r. own m ''root'' = Some r \<and> route_ref r x}"
proof (induction ms arbitrary: refs)
  case (Cons m ms)
  { case 1
    show ?case
    proof (cases "module_throws m")
      case True
      then show ?thesis
        by (cases "m = JNull")
          (simp_all add: collect_modules_Cons module_throws_def js_prop_not_null collect_root_spec(1))
    next
      case False
      with 1 have "\<exists>m \<in> set ms. module_throws m" by auto
      then show ?thesis by (simp add: collect_modules_Cons Cons.IH(1) split: option.split)
    qed
  }
  { case 2
    then have m: "m \<noteq> JNull" "\<not> (case own m ''root'' of None \<Rightarrow> True | Some r \<Rightarrow> route_throws r)"
      and ms: "\<forall>m \<in> set ms. \<not> module_throws m"
      by (auto simp: module_throws_def)
    obtain out where "collectRouteDocumentRefs (own m ''root'') refs = Some out"
        "set out = set refs \<union> {x. \<exists>n. own m ''root'' = Some n \<and> route_ref n x}"
      using collect_root_spec(2) [OF m(2)] by blast
    with Cons.IH(2) [OF ms, of out] show ?case
      using js_prop_not_null [OF m(1)] by (auto simp: collect_modules_Cons)
  }
qed (simp_all add: collect_modules_Nil)

theorem collectRouteManifestDocumentRefs_spec:
  "manifest_throws mf \<Longrightarrow> collectRouteManifestDocumentRefs mf = None"
  "\<not> manifest_throws mf \<Longrightarrow>
     \<exists>out. collectRouteManifestDocumentRefs mf = Some out \<and> set out = manifest_refs mf"
proof -
  let ?ms = "object_values (nullish (own mf ''modules'') (JObj []))"
  have modules: "m \<in> set ?ms \<longleftrightarrow> (\<exists>ms. own mf ''modules'' = Some ms \<and> m \<in> set (object_values ms))" for m
    unfolding outlet_values by (cases "own mf ''modules''") simp_all
  have throws: "manifest_throws mf \<longleftrightarrow> module_throws mf \<or> (\<exists>m \<in> set ?ms. module_throws m)"
    unfolding Bex_def modules manifest_throws_def module_throws_def by blast
  have eq: "collectRouteManifestDocumentRefs mf =
      (case collectRouteDocumentRefs (own mf ''root'') [] of
         None \<Rightarrow> None | Some refs \<Rightarrow> collect_modules ?ms refs)" if "mf \<noteq> JNull"
    unfolding collectRouteManifestDocumentRefs_def js_prop_not_null [OF that] option.case option.sel ..
  show "collectRouteManifestDocumentRefs mf = None" if "manifest_throws mf"
  proof (cases "mf = JNull")
    case False
    show ?thesis
    proof (cases "module_throws mf")
      case True
      then show ?thesis
        using False by (simp add: eq module_throws_def collect_root_spec(1))
    next
      case no: False
      with that have "\<exists>m \<in> set ?ms. module_throws m" by (simp add: throws)
      then show ?thesis by (simp add: eq [OF False] collect_modules_spec(1) split: option.split)
    qed
  qed (simp add: collectRouteManifestDocumentRefs_def)
  show "\<exists>out. collectRouteManifestDocumentRefs mf = Some out \<and> set out = manifest_refs mf"
    if "\<not> manifest_throws mf"
  proof -
    from that have nn: "mf \<noteq> JNull"
      and r: "\<not> (case own mf ''root'' of None \<Rightarrow> True | Some r \<Rightarrow> route_throws r)"
      and ms: "\<forall>m \<in> set ?ms. \<not> module_throws m"
      unfolding throws module_throws_def [of mf] by blast+
    obtain out where "collectRouteDocumentRefs (own mf ''root'') [] = Some out"
        "set out = {x. \<exists>n. own mf ''root'' = Some n \<and> route_ref n x}"
      using collect_root_spec(2) [OF r, of "[]"] by auto
    moreover have "(\<exists>m \<in> set ?ms. \<exists>r. own m ''root'' = Some r \<and> route_ref r x) \<longleftrightarrow>
        (\<exists>ms m r. own mf ''modules'' = Some ms \<and> m \<in> set (object_values ms) \<and>
           own m ''root'' = Some r \<and> route_ref r x)" for x
      unfolding Bex_def modules by blast
    ultimately show ?thesis
      using collect_modules_spec(2) [OF ms, of out] by (simp add: eq [OF nn] manifest_refs_def)
  qed
qed

section \<open>The verdict does not depend on the order of keys\<close>

lemma object_values_JObj:
  "distinct (map fst kvs) \<Longrightarrow> v \<in> set (object_values (JObj kvs)) \<longleftrightarrow> (\<exists>k. map_of kvs k = Some v)"
  by (force dest: map_of_SomeD intro: map_of_is_SomeI)

lemma object_values_eqv:
  assumes "json_eqv a b" and "v \<in> set (object_values a)"
  shows "\<exists>w \<in> set (object_values b). json_eqv v w"
  using assms(1)
proof (cases rule: json_eqv_cases)
  case (Array xs ys)
  with assms(2) show ?thesis
    by (auto simp: list_all2_conv_all_nth in_set_conv_nth) (metis nth_mem)
next
  case (Record l r)
  with assms(1) have "distinct (map fst l)" "distinct (map fst r)"
    and rel: "\<And>k. rel_option json_eqv (map_of l k) (map_of r k)"
    by (auto simp: json_eqv_JObj)
  moreover from this Record assms(2) obtain k where "map_of l k = Some v"
    using object_values_JObj by blast
  then obtain w where "map_of r k = Some w" "json_eqv v w"
    using rel [of k] by (auto simp: option_rel_Some1)
  ultimately show ?thesis
    using Record object_values_JObj [of r w] by blast
next
  case Scalar
  have "wf_json v" using assms(2) Scalar by (cases a) auto
  then have "json_eqv v v" by simp
  with Scalar(1) assms(2) show ?thesis by blast
qed

lemma own_eqv_Some:
  "json_eqv a b \<Longrightarrow> own a k = Some v \<Longrightarrow> \<exists>w. own b k = Some w \<and> json_eqv v w"
  using own_eqv [of a b k] by (auto simp: option_rel_Some1)

lemma json_eqv_JNull: "json_eqv a b \<Longrightarrow> a = JNull \<longleftrightarrow> b = JNull"
  by (erule json_eqv_cases) auto

lemma isArray_eqv: "json_eqv a b \<Longrightarrow> isArray a = isArray b"
  by (erule json_eqv_cases) auto

lemma json_eqv_JArr_left: "json_eqv (JArr xs) w \<Longrightarrow> \<exists>ys. w = JArr ys \<and> list_all2 json_eqv xs ys"
  by (cases w) (auto simp: json_eqv_def list_all2_conv_all_nth all_set_conv_all_nth)

lemma children_eqv:
  assumes "json_eqv n m" and "own n ''children'' = Some (JArr cs)" and "c \<in> set cs"
  shows "\<exists>ds d. own m ''children'' = Some (JArr ds) \<and> d \<in> set ds \<and> json_eqv c d"
proof -
  obtain ds where ds: "own m ''children'' = Some (JArr ds)" "list_all2 json_eqv cs ds"
    using own_eqv_Some [OF assms(1,2)] json_eqv_JArr_left by blast
  from assms(3) obtain i where "i < length cs" "c = cs ! i" by (auto simp: in_set_conv_nth)
  with ds show ?thesis by (metis list_all2_conv_all_nth nth_mem)
qed

lemma route_ref_eqv:
  "route_ref n x \<Longrightarrow> json_eqv n m \<Longrightarrow> \<exists>y. route_ref m y \<and> json_eqv x y"
proof (induction arbitrary: m rule: route_ref.induct)
  case (layout n x)
  then show ?case by (meson own_eqv_Some route_ref.layout truthy_eqv)
next
  case (page n x)
  then show ?case by (meson own_eqv_Some route_ref.page truthy_eqv)
next
  case (outlet n bs b x)
  then obtain bs' where bs': "own m ''outletBindings'' = Some bs'" "json_eqv bs bs'"
    by (meson own_eqv_Some)
  then obtain b' where b': "b' \<in> set (object_values bs')" "json_eqv b b'"
    using object_values_eqv outlet.hyps(2) by blast
  then obtain x' where "own b' ''pageDocId'' = Some x'" "json_eqv x x'"
    using own_eqv_Some outlet.hyps(3) by blast
  with bs' b' outlet.hyps(4) show ?case by (meson route_ref.outlet truthy_eqv)
next
  case (child n cs c x)
  obtain ds d where d: "own m ''children'' = Some (JArr ds)" "d \<in> set ds" "json_eqv c d"
    using children_eqv [OF child.prems child.hyps(1,2)] by blast
  then obtain y where "route_ref d y" "json_eqv x y" using child.IH by blast
  with d show ?case by (meson route_ref.child)
qed

lemma route_throws_eqv: "route_throws n \<Longrightarrow> json_eqv n m \<Longrightarrow> route_throws m"
proof (induction arbitrary: m rule: route_throws.induct)
  case null
  then show ?case using json_eqv_JNull route_throws.null by blast
next
  case (outlet_null n bs)
  obtain bs' where bs': "own m ''outletBindings'' = Some bs'" "json_eqv bs bs'"
    using own_eqv_Some [OF outlet_null.prems outlet_null.hyps(1)] by blast
  then obtain w where "w \<in> set (object_values bs')" "json_eqv JNull w"
    using object_values_eqv outlet_null.hyps(2) by blast
  with bs'(1) json_eqv_JNull [of JNull w] show ?case
    by (intro route_throws.outlet_null) simp_all
next
  case (children_no_list n v)
  obtain w where "own m ''children'' = Some w" "json_eqv v w"
    using own_eqv_Some [OF children_no_list.prems children_no_list.hyps(1)] by blast
  with children_no_list.hyps isArray_eqv [of v w] json_eqv_JNull [of v w] show ?case
    by (intro route_throws.children_no_list [of m w]) simp_all
next
  case (child_throws n cs c)
  obtain ds d where "own m ''children'' = Some (JArr ds)" "d \<in> set ds" "json_eqv c d"
    using children_eqv [OF child_throws.prems child_throws.hyps(1,2)] by blast
  with child_throws.IH show ?case by (meson route_throws.child_throws)
qed

lemma module_throws_eqv: "module_throws m \<Longrightarrow> json_eqv m m' \<Longrightarrow> module_throws m'"
  using own_eqv [of m m' "''root''"] json_eqv_JNull [of m m'] route_throws_eqv
  by (auto simp: module_throws_def split: option.splits)

lemma manifest_throws_modules:
  "manifest_throws mf \<longleftrightarrow> module_throws mf \<or>
     (\<exists>ms. own mf ''modules'' = Some ms \<and> (\<exists>m \<in> set (object_values ms). module_throws m))"
  unfolding manifest_throws_def module_throws_def by blast

lemma manifest_throws_eqv: "manifest_throws a \<Longrightarrow> json_eqv a b \<Longrightarrow> manifest_throws b"
  unfolding manifest_throws_modules
  by (meson module_throws_eqv own_eqv_Some object_values_eqv)

lemma manifest_refs_eqv:
  assumes "x \<in> manifest_refs a" and "json_eqv a b"
  shows "\<exists>y \<in> manifest_refs b. json_eqv x y"
proof -
  consider (top) r where "own a ''root'' = Some r" "route_ref r x"
    | (module) ms m r where "own a ''modules'' = Some ms" "m \<in> set (object_values ms)"
      "own m ''root'' = Some r" "route_ref r x"
    using assms(1) by (auto simp: manifest_refs_def)
  then show ?thesis
  proof cases
    case top
    obtain r' where r': "own b ''root'' = Some r'" "json_eqv r r'"
      using own_eqv_Some [OF assms(2) top(1)] by blast
    with route_ref_eqv [OF top(2)] obtain y where "route_ref r' y" "json_eqv x y" by blast
    with r' show ?thesis unfolding manifest_refs_def by blast
  next
    case module
    obtain ns where ns: "own b ''modules'' = Some ns" "json_eqv ms ns"
      using own_eqv_Some [OF assms(2) module(1)] by blast
    obtain n where n: "n \<in> set (object_values ns)" "json_eqv m n"
      using object_values_eqv [OF ns(2) module(2)] by blast
    obtain r' where r': "own n ''root'' = Some r'" "json_eqv r r'"
      using own_eqv_Some [OF n(2) module(3)] by blast
    obtain y where "route_ref r' y" "json_eqv x y"
      using route_ref_eqv [OF module(4) r'(2)] by blast
    with ns n r' show ?thesis unfolding manifest_refs_def by blast
  qed
qed

lemma ref_exists_eqv:
  assumes "json_eqv s t" and "json_eqv x y"
  shows "ref_exists s x = ref_exists t y"
proof (cases "\<exists>d. x = JStr d")
  case True
  then obtain d where "x = JStr d" "y = JStr d" using assms(2) by (auto simp: json_eqv_def)
  then show ?thesis
    using doc_eqv [OF assms(1), of d]
    by (auto simp: ref_exists_def truthy_eqv elim!: option.rel_cases)
next
  case False
  moreover have "\<not> (\<exists>d. y = JStr d)" using assms(2) False by (auto simp: json_eqv_def)
  ultimately show ?thesis by (auto simp: ref_exists_def split: json.split)
qed

text \<open>When every document reference of the routes resolves.\<close>

definition routes_resolve :: "json \<Rightarrow> bool" where
  "routes_resolve s \<longleftrightarrow>
     (\<exists>mf. own s ''routeManifest'' = Some mf \<and> mf \<noteq> JNull \<and>
        ((\<exists>r. own mf ''root'' = Some r \<and> (isRecord r \<or> isArray r)) \<longrightarrow>
           \<not> manifest_throws mf \<and> (\<forall>x \<in> manifest_refs mf. ref_exists s x)))"

lemma root_shape:
  "(case r of Some (JObj _) \<Rightarrow> True | Some (JArr _) \<Rightarrow> True | _ \<Rightarrow> False) \<longleftrightarrow>
     (\<exists>v. r = Some v \<and> (isRecord v \<or> isArray v))"
  by (auto split: option.splits json.splits)

theorem findMissingRouteDocumentRefs_Nil:
  "findMissingRouteDocumentRefs s = Some [] \<longleftrightarrow> routes_resolve s"
proof (cases "own s ''routeManifest'' = None \<or> own s ''routeManifest'' = Some JNull")
  case True
  then show ?thesis by (auto simp: findMissingRouteDocumentRefs_def routes_resolve_def)
next
  case False
  then obtain mf where mf: "own s ''routeManifest'' = Some mf" "mf \<noteq> JNull" by auto
  have eq: "findMissingRouteDocumentRefs s =
      (if \<exists>v. own mf ''root'' = Some v \<and> (isRecord v \<or> isArray v)
       then map_option (filter (\<lambda>r. \<not> ref_exists s r)) (collectRouteManifestDocumentRefs mf)
       else Some [])"
    unfolding findMissingRouteDocumentRefs_def mf(1) js_prop_not_null [OF mf(2)] option.case
      option.sel root_shape ..
  show ?thesis
  proof (cases "manifest_throws mf")
    case True
    then show ?thesis
      using mf by (auto simp: eq routes_resolve_def collectRouteManifestDocumentRefs_spec(1))
  next
    case no: False
    then obtain out where out: "collectRouteManifestDocumentRefs mf = Some out"
        "set out = manifest_refs mf"
      using collectRouteManifestDocumentRefs_spec(2) by blast
    have "filter (\<lambda>r. \<not> ref_exists s r) out = [] \<longleftrightarrow> (\<forall>x \<in> manifest_refs mf. ref_exists s x)"
      by (simp add: filter_empty_conv out(2) [symmetric])
    with mf no show ?thesis unfolding eq out(1) routes_resolve_def by auto
  qed
qed

theorem routes_resolve_eqv:
  assumes "json_eqv s t" and "routes_resolve s"
  shows "routes_resolve t"
proof -
  obtain mf where mf: "own s ''routeManifest'' = Some mf" "mf \<noteq> JNull"
    and ok: "(\<exists>r. own mf ''root'' = Some r \<and> (isRecord r \<or> isArray r)) \<Longrightarrow>
           \<not> manifest_throws mf \<and> (\<forall>x \<in> manifest_refs mf. ref_exists s x)"
    using assms(2) by (auto simp: routes_resolve_def)
  obtain mg where mg: "own t ''routeManifest'' = Some mg" "json_eqv mf mg"
    using own_eqv_Some [OF assms(1) mf(1)] by blast
  have "\<not> manifest_throws mg \<and> (\<forall>y \<in> manifest_refs mg. ref_exists t y)"
    if root: "own mg ''root'' = Some r'" "isRecord r' \<or> isArray r'" for r'
  proof -
    obtain r where "own mf ''root'' = Some r" "json_eqv r' r"
      using own_eqv_Some [OF json_eqv_sym [OF mg(2)] root(1)] by blast
    with root(2) have fine: "\<not> manifest_throws mf \<and> (\<forall>x \<in> manifest_refs mf. ref_exists s x)"
      using ok isRecord_eqv isArray_eqv by blast
    then have "ref_exists t y" if "y \<in> manifest_refs mg" for y
      using manifest_refs_eqv [OF that json_eqv_sym [OF mg(2)]] ref_exists_eqv [OF assms(1)]
        json_eqv_sym by blast
    with fine manifest_throws_eqv [OF _ json_eqv_sym [OF mg(2)]] show ?thesis by blast
  qed
  with mg mf(2) json_eqv_JNull [OF mg(2)] show ?thesis by (auto simp: routes_resolve_def)
qed

end
