(* ===== verification/TransactionLaws.thy ===== *)
theory TransactionLaws
  imports RouteRefs
begin

text \<open>
  The laws of transactions: a transaction runs its commands in order, stops at the first that
  fails, and its reversal (the reversed commands in reverse order) restores the workspace it
  started from.
\<close>

section \<open>Sequences of commands\<close>

lemma apply_commands_append:
  "apply_commands V w s i (xs @ ys) =
     (case apply_commands V w s i xs of
        Inl f \<Rightarrow> Inl f | Inr m \<Rightarrow> apply_commands V w m (i + length xs) ys)"
  by (induction xs arbitrary: s i) (auto simp: Let_def split: sum.split failure.split)

lemma apply_commands_Cons_Inr:
  "apply_commands V w s i (c # cs) = Inr s' \<longleftrightarrow>
     target_workspaceId (cmd_target c) = w \<and>
     (\<exists>m. applyWorkspaceCommandInternal V s c False = Inr m \<and>
        apply_commands V w m (Suc i) cs = Inr s')"
  by (auto simp: Let_def split: sum.split failure.split)

text \<open>Success and the resulting workspace do not depend on the index the commands start at.\<close>

lemma apply_commands_index:
  "apply_commands V w s i cs = Inr r \<Longrightarrow> apply_commands V w s j cs = Inr r"
proof (induction cs arbitrary: s i j)
  case (Cons c cs)
  then show ?case unfolding apply_commands_Cons_Inr by blast
qed simp

fun starts_valid_all :: "validators \<Rightarrow> json \<Rightarrow> command list \<Rightarrow> bool" where
  "starts_valid_all V s [] = True"
| "starts_valid_all V s (c # cs) =
     (starts_valid V s c \<and>
      (case applyWorkspaceCommandInternal V s c False of
         Inl _ \<Rightarrow> True | Inr m \<Rightarrow> starts_valid_all V m cs))"

lemma applyWorkspaceCommandInternal_wf:
  assumes "extensional V" and "wf_json s" and "wf_command c"
    and "applyWorkspaceCommandInternal V s c False = Inr s'"
  shows "wf_json s'"
  using applyWorkspaceCommandInternal_eqv [OF assms(1) _ assms(3), of s s] assms(2,4) by simp

lemma apply_commands_wf:
  assumes "extensional V" and "\<forall>c \<in> set cs. wf_command c"
  shows "wf_json s \<Longrightarrow> apply_commands V w s i cs = Inr s' \<Longrightarrow> wf_json s'"
  using assms(2)
proof (induction cs arbitrary: s i)
  case (Cons c cs)
  then obtain m where m: "applyWorkspaceCommandInternal V s c False = Inr m"
      "apply_commands V w m (Suc i) cs = Inr s'"
    unfolding apply_commands_Cons_Inr by blast
  have "wf_json m"
    using applyWorkspaceCommandInternal_wf [OF assms(1) Cons.prems(1) _ m(1)] Cons.prems(3) by simp
  then show ?case using m(2) Cons.prems(3) by (intro Cons.IH) auto
qed simp

theorem undo_commands:
  assumes "extensional V" and "wf_json s" and "\<forall>c \<in> set cs. wf_command c"
    and "list_all2 reverses cs' cs" and "apply_commands V w s i cs = Inr s'"
    and "starts_valid_all V s cs"
  shows "\<exists>r. apply_commands V w s' j (rev cs') = Inr r \<and> json_eqv r s"
  using assms(2-6)
proof (induction cs arbitrary: s i cs')
  case Nil
  then show ?case by simp
next
  case (Cons c cs)
  from Cons.prems(3) obtain c' ds where cs': "cs' = c' # ds"
    and rc: "reverses c' c" and rds: "list_all2 reverses ds cs"
    by (cases cs') auto
  from Cons.prems(4) obtain m where w: "target_workspaceId (cmd_target c) = w"
    and m: "applyWorkspaceCommandInternal V s c False = Inr m"
    and s': "apply_commands V w m (Suc i) cs = Inr s'"
    unfolding apply_commands_Cons_Inr by blast
  have wfc: "wf_command c" "\<forall>c \<in> set cs. wf_command c" using Cons.prems(2) by auto
  have wfm: "wf_json m"
    using applyWorkspaceCommandInternal_wf [OF assms(1) Cons.prems(1) wfc(1) m] .
  have sv: "starts_valid V s c" "starts_valid_all V m cs" using Cons.prems(5) m by auto
  obtain r1 where r1: "apply_commands V w s' j (rev ds) = Inr r1" "json_eqv r1 m"
    using Cons.IH [OF wfm wfc(2) rds s' sv(2)] by blast
  obtain r where r: "applyWorkspaceCommandInternal V m c' False = Inr r" "json_eqv r s"
    using undo_command [OF assms(1) Cons.prems(1) wfc(1) rc m sv(1)] by blast
  have "wf_command c'" using wfc(1) rc by (auto simp: wf_command_def reverses_def)
  from applyWorkspaceCommandInternal_eqv [OF assms(1) r1(2) this] r
  obtain r2 where r2: "applyWorkspaceCommandInternal V r1 c' False = Inr r2" "json_eqv r2 r"
    by (auto elim: rel_sum.cases)
  have "target_workspaceId (cmd_target c') = w" using rc w by (simp add: reverses_def)
  with r1(1) r2(1) have "apply_commands V w s' j (rev cs') = Inr r2"
    unfolding cs' by (simp add: apply_commands_append)
  with r2(2) r(2) show ?case by (blast intro: json_eqv_trans)
qed

section \<open>Accepted workspaces\<close>

definition accepted :: "validators \<Rightarrow> json \<Rightarrow> bool" where
  "accepted V s \<longleftrightarrow> validateWorkspaceTransition V s = Some []"

lemma accepted_iff: "accepted V s \<longleftrightarrow> routes_resolve s \<and> v_snapshot V s = Some True"
  unfolding accepted_def validateWorkspaceTransition_def findMissingRouteDocumentRefs_Nil [symmetric]
  by (cases "findMissingRouteDocumentRefs s") (auto split: list.split option.split)

lemma accepted_eqv:
  assumes "extensional V" and "json_eqv s t"
  shows "accepted V s = accepted V t"
proof -
  have "v_snapshot V s = v_snapshot V t" using assms unfolding extensional_def by blast
  moreover have "routes_resolve s = routes_resolve t"
    using assms(2) routes_resolve_eqv json_eqv_sym by blast
  ultimately show ?thesis by (simp add: accepted_iff)
qed

text \<open>A transaction that succeeds ran all its commands and its result is accepted.\<close>

theorem applyWorkspaceTransaction_Inr:
  "applyWorkspaceTransaction V s t = Inr s' \<longleftrightarrow>
     validateTransactionEnvelope t = [] \<and> own s ''id'' = Some (JStr (tx_workspaceId t)) \<and>
     apply_commands V (tx_workspaceId t) s 0 (tx_commands t) = Inr s' \<and> accepted V s'"
  unfolding applyWorkspaceTransaction_def accepted_def
  by (auto split: sum.splits option.splits list.splits)

text \<open>The envelope of the reversal: the same workspace, fresh ids.\<close>

lemma duplicate_id_issues_Nil:
  "duplicate_id_issues seen i cs = [] \<longleftrightarrow>
     distinct (map cmd_id cs) \<and> set seen \<inter> cmd_id ` set cs = {}"
  by (induction cs arbitrary: seen i) auto

lemma validateTransactionEnvelope_Nil:
  "validateTransactionEnvelope t = [] \<longleftrightarrow>
     js_trim (tx_id t) \<noteq> [] \<and> js_trim (tx_workspaceId t) \<noteq> [] \<and> js_trim (tx_issuedAt t) \<noteq> [] \<and>
     tx_commands t \<noteq> [] \<and> distinct (map cmd_id (tx_commands t))"
  by (auto simp: validateTransactionEnvelope_def duplicate_id_issues_Nil)

definition reverses_transaction :: "transaction \<Rightarrow> transaction \<Rightarrow> bool" where
  "reverses_transaction t' t \<longleftrightarrow>
     tx_workspaceId t' = tx_workspaceId t \<and> js_trim (tx_id t') \<noteq> [] \<and>
     js_trim (tx_issuedAt t') \<noteq> [] \<and> distinct (map cmd_id (tx_commands t')) \<and>
     list_all2 reverses (rev (tx_commands t')) (tx_commands t)"

lemma apply_commands_own:
  assumes "apply_commands V w s i cs = Inr s'" and "k \<notin> set patchable_members"
  shows "own s' k = own s k"
  using assms(1)
proof (induction cs arbitrary: s i)
  case (Cons c cs)
  then obtain m where m: "applyWorkspaceCommandInternal V s c False = Inr m"
      "apply_commands V w m (Suc i) cs = Inr s'"
    unfolding apply_commands_Cons_Inr by blast
  have "own m k = own s k" using m(1) assms(2) by (rule applyWorkspaceCommandInternal_own)
  with Cons.IH [OF m(2)] show ?case by simp
qed simp

theorem undo_transaction:
  assumes "extensional V" and "wf_json s" and "\<forall>c \<in> set (tx_commands t). wf_command c"
    and "applyWorkspaceTransaction V s t = Inr s'" and "reverses_transaction t' t"
    and "starts_valid_all V s (tx_commands t)" and "accepted V s"
  shows "\<exists>r. applyWorkspaceTransaction V s' t' = Inr r \<and> json_eqv r s"
proof -
  let ?w = "tx_workspaceId t"
  from assms(4) have env: "validateTransactionEnvelope t = []"
    and id: "own s ''id'' = Some (JStr ?w)"
    and app: "apply_commands V ?w s 0 (tx_commands t) = Inr s'"
    by (auto simp: applyWorkspaceTransaction_Inr)
  from assms(5) have rev: "list_all2 reverses (rev (tx_commands t')) (tx_commands t)"
    by (simp add: reverses_transaction_def)
  obtain r where r: "apply_commands V ?w s' 0 (tx_commands t') = Inr r" "json_eqv r s"
    using undo_commands [OF assms(1-3) rev app assms(6), of 0] by auto
  have "own s' ''id'' = own s ''id''"
    using app by (rule apply_commands_own) (simp add: patchable_members_def)
  moreover have "accepted V r" using accepted_eqv [OF assms(1) r(2)] assms(7) by simp
  moreover have "validateTransactionEnvelope t' = []"
    using env assms(5) list_all2_lengthD [OF rev]
    by (auto simp: validateTransactionEnvelope_Nil reverses_transaction_def)
  ultimately show ?thesis
    using r id assms(5) by (auto simp: applyWorkspaceTransaction_Inr reverses_transaction_def)
qed

end
