(* ===== verification/Operation.thy ===== *)
theory Operation
  imports TransactionLaws
begin

text \<open>
  Workspace operations and their history scopes (\<open>packages/workspace/src/workspaceOperation.ts\<close>):
  an operation is a command or a transaction with its causal links; its scope is the document,
  the routes or the workspace it belongs to. Where the code returns its argument unchanged (by
  identity), the model returns an equal value.
\<close>

section \<open>Operations\<close>

datatype operation_body = CommandBody command | TransactionBody transaction

record operation =
  op_body :: operation_body
  undoOf :: "string option"
  redoOf :: "string option"
  sourceOperationIds :: "string list option"

datatype scope =
    DocumentScope string string command_domain
  | WorkspaceScope string
  | RouteScope string

fun scope_workspaceId :: "scope \<Rightarrow> string" where
  "scope_workspaceId (DocumentScope w _ _) = w"
| "scope_workspaceId (WorkspaceScope w) = w"
| "scope_workspaceId (RouteScope w) = w"

fun scope_kind :: "scope \<Rightarrow> nat" where
  "scope_kind (DocumentScope _ _ _) = 0"
| "scope_kind (WorkspaceScope _) = 1"
| "scope_kind (RouteScope _) = 2"

definition is_workspace_scope :: "scope \<Rightarrow> bool" where
  "is_workspace_scope s \<longleftrightarrow> (case s of WorkspaceScope _ \<Rightarrow> True | _ \<Rightarrow> False)"

definition getWorkspaceOperationId :: "operation \<Rightarrow> string" where
  "getWorkspaceOperationId op =
     (case op_body op of CommandBody c \<Rightarrow> cmd_id c | TransactionBody t \<Rightarrow> tx_id t)"

definition getWorkspaceOperationIssuedAt :: "operation \<Rightarrow> string" where
  "getWorkspaceOperationIssuedAt op =
     (case op_body op of CommandBody c \<Rightarrow> cmd_issuedAt c | TransactionBody t \<Rightarrow> tx_issuedAt t)"

definition getWorkspaceOperationMergeKey :: "operation \<Rightarrow> string option" where
  "getWorkspaceOperationMergeKey op =
     (case op_body op of CommandBody c \<Rightarrow> cmd_mergeKey c | TransactionBody t \<Rightarrow> tx_mergeKey t)"

definition getWorkspaceOperationCommands :: "operation \<Rightarrow> command list" where
  "getWorkspaceOperationCommands op =
     (case op_body op of CommandBody c \<Rightarrow> [c] | TransactionBody t \<Rightarrow> tx_commands t)"

definition getWorkspaceOperationSourceIds :: "operation \<Rightarrow> string list" where
  "getWorkspaceOperationSourceIds op =
     (case sourceOperationIds op of Some ids \<Rightarrow> ids | None \<Rightarrow> [getWorkspaceOperationId op])"

definition plain_operation :: "operation_body \<Rightarrow> operation" where
  "plain_operation b =
     \<lparr>op_body = b, undoOf = None, redoOf = None, sourceOperationIds = None\<rparr>"

definition createWorkspaceCommandOperation :: "command \<Rightarrow> operation" where
  "createWorkspaceCommandOperation c = plain_operation (CommandBody c)"

definition createWorkspaceTransactionOperation :: "transaction \<Rightarrow> operation" where
  "createWorkspaceTransactionOperation t = plain_operation (TransactionBody t)"

section \<open>Scopes\<close>

definition resolveWorkspaceCommandScope :: "command \<Rightarrow> scope" where
  "resolveWorkspaceCommandScope c =
     (let domain = resolveWorkspaceCommandDomain c; t = cmd_target c in
      if truthy_text (target_documentId t) \<and> isWorkspaceDocumentCommandDomain domain
      then DocumentScope (target_workspaceId t) (the (target_documentId t)) domain
      else if domain = DomRoute \<or> truthy_text (target_routeNodeId t)
      then RouteScope (target_workspaceId t)
      else WorkspaceScope (target_workspaceId t))"

definition workspaceHistoryScopesEqual :: "scope \<Rightarrow> scope \<Rightarrow> bool" where
  "workspaceHistoryScopesEqual left right =
     (if scope_kind left \<noteq> scope_kind right \<or> scope_workspaceId left \<noteq> scope_workspaceId right
      then False
      else case (left, right) of
        (DocumentScope _ d k, DocumentScope _ d' k') \<Rightarrow> d = d' \<and> k = k'
      | _ \<Rightarrow> True)"

definition dedupeWorkspaceHistoryScopes :: "scope list \<Rightarrow> scope list" where
  "dedupeWorkspaceHistoryScopes scopes =
     map snd (filter (\<lambda>(index, s). findIndex (workspaceHistoryScopesEqual s) scopes = Some index)
       (List.enumerate 0 scopes))"

definition resolveWorkspaceOperationAffectedScopes :: "operation \<Rightarrow> scope list" where
  "resolveWorkspaceOperationAffectedScopes op =
     dedupeWorkspaceHistoryScopes
       (map resolveWorkspaceCommandScope (getWorkspaceOperationCommands op))"

definition operation_workspaceId :: "operation \<Rightarrow> string" where
  "operation_workspaceId op =
     (case op_body op of
        CommandBody c \<Rightarrow> target_workspaceId (cmd_target c)
      | TransactionBody t \<Rightarrow> tx_workspaceId t)"

definition resolveWorkspaceOperationScope :: "operation \<Rightarrow> scope" where
  "resolveWorkspaceOperationScope op =
     (case resolveWorkspaceOperationAffectedScopes op of
        firstScope # rest \<Rightarrow>
          if list_all (workspaceHistoryScopesEqual firstScope) (firstScope # rest) then firstScope
          else WorkspaceScope (operation_workspaceId op)
      | [] \<Rightarrow> WorkspaceScope (operation_workspaceId op))"

section \<open>Affected documents\<close>

text \<open>
  The patterns \<open>^/docsById/([^/]+)\<close> and \<open>^/docsById/([^/]+)$\<close>: the segment they capture.
\<close>

definition docs_path_segment :: "string \<Rightarrow> string option" where
  "docs_path_segment path =
     (if starts_with path ''/docsById/''
      then (let seg = takeWhile (\<lambda>c. c \<noteq> CHR ''/'') (drop 10 path) in
            if seg = [] then None else Some seg)
      else None)"

definition whole_docs_path_segment :: "string \<Rightarrow> string option" where
  "whole_docs_path_segment path =
     (if starts_with path ''/docsById/'' \<and> CHR ''/'' \<notin> set (drop 10 path)
      then docs_path_segment path else None)"

definition collectDocumentIdsFromCommand :: "command \<Rightarrow> string list" where
  "collectDocumentIdsFromCommand c =
     (let start = (if truthy_text (target_documentId (cmd_target c))
                   then [the (target_documentId (cmd_target c))] else [])
      in foldl (\<lambda>ids op. case docs_path_segment (op_path op) of
                 None \<Rightarrow> ids | Some seg \<Rightarrow> set_add (decodeJsonPointerSegment seg) ids)
           start (forwardOps c @ reverseOps c))"

definition collectWorkspaceOperationDocumentIds :: "operation \<Rightarrow> string list" where
  "collectWorkspaceOperationDocumentIds op =
     js_set (concat (map collectDocumentIdsFromCommand (getWorkspaceOperationCommands op)))"

text \<open>A missing document is \<open>undefined\<close>, which equals only itself.\<close>

fun optional_values_equal :: "json option \<Rightarrow> json option \<Rightarrow> bool" where
  "optional_values_equal (Some v) (Some w) = jsonValuesEqual v w"
| "optional_values_equal x y = (x = y)"

definition collectChangedWorkspaceDocumentIds :: "json \<Rightarrow> json \<Rightarrow> string list" where
  "collectChangedWorkspaceDocumentIds before after =
     filter (\<lambda>d. \<not> optional_values_equal (map_of (docs_of before) d) (map_of (docs_of after) d))
       (js_set (map fst (docs_of before) @ map fst (docs_of after)))"

section \<open>Confirmation\<close>

definition confirmed_op :: "json \<Rightarrow> string list \<Rightarrow> patch_op \<Rightarrow> patch_op" where
  "confirmed_op confirmedSnapshot confirmedDocumentIds op =
     (if op_kind op \<noteq> OpAdd \<and> op_kind op \<noteq> OpReplace then op
      else case whole_docs_path_segment (op_path op) of
        None \<Rightarrow> op
      | Some seg \<Rightarrow>
          (let documentId = decodeJsonPointerSegment seg in
           case map_of (docs_of confirmedSnapshot) documentId of
             None \<Rightarrow> op
           | Some document \<Rightarrow>
               if documentId = [] \<or> documentId \<notin> set confirmedDocumentIds \<or> \<not> truthy document then op
               else op\<lparr>op_value := Some document\<rparr>))"

definition reconcileConfirmedWorkspaceCommand ::
  "json \<Rightarrow> string list \<Rightarrow> command \<Rightarrow> command" where
  "reconcileConfirmedWorkspaceCommand confirmedSnapshot confirmedDocumentIds c =
     (if truthy_text (target_documentId (cmd_target c)) \<or> confirmedDocumentIds = [] then c
      else c\<lparr>forwardOps := map (confirmed_op confirmedSnapshot confirmedDocumentIds) (forwardOps c)\<rparr>)"

definition reconcileWorkspaceOperationConfirmation ::
  "operation \<Rightarrow> json \<Rightarrow> string list \<Rightarrow> operation" where
  "reconcileWorkspaceOperationConfirmation op confirmedSnapshot confirmedDocumentIds =
     (let reconcile = reconcileConfirmedWorkspaceCommand confirmedSnapshot confirmedDocumentIds in
      case op_body op of
        CommandBody c \<Rightarrow> op\<lparr>op_body := CommandBody (reconcile c)\<rparr>
      | TransactionBody t \<Rightarrow>
          op\<lparr>op_body := TransactionBody (t\<lparr>tx_commands := map reconcile (tx_commands t)\<rparr>)\<rparr>)"

section \<open>Facts about scopes\<close>

lemma workspaceHistoryScopesEqual_eq [simp]: "workspaceHistoryScopesEqual s t \<longleftrightarrow> s = t"
  by (cases s; cases t) (auto simp: workspaceHistoryScopesEqual_def)

lemma set_dedupe: "set (dedupeWorkspaceHistoryScopes scopes) = set scopes"
proof -
  have "s \<in> set (dedupeWorkspaceHistoryScopes scopes)" if s: "s \<in> set scopes" for s
  proof -
    from s obtain i where i: "findIndex (workspaceHistoryScopesEqual s) scopes = Some i"
      by (cases "findIndex (workspaceHistoryScopesEqual s) scopes") (auto simp: findIndex_None)
    then have "i < length scopes" "scopes ! i = s" by (auto simp: findIndex_Some)
    then have "(i, s) \<in> set (List.enumerate 0 scopes)"
      by (simp add: in_set_enumerate_eq)
    with i show ?thesis by (force simp: dedupeWorkspaceHistoryScopes_def)
  qed
  then show ?thesis
    by (auto simp: dedupeWorkspaceHistoryScopes_def in_set_enumerate_eq)
qed

lemma distinct_dedupe: "distinct (dedupeWorkspaceHistoryScopes scopes)"
  unfolding dedupeWorkspaceHistoryScopes_def distinct_map
proof
  show "distinct (filter (\<lambda>(index, s). findIndex (workspaceHistoryScopesEqual s) scopes = Some index)
      (List.enumerate 0 scopes))"
    by (simp add: distinct_enumerate)
qed (auto simp: inj_on_def)

text \<open>
  The scope of an operation: a document or the routes only where that is the one scope of all its
  commands.
\<close>

theorem operation_scope_single:
  assumes "\<not> is_workspace_scope (resolveWorkspaceOperationScope op)"
  shows "resolveWorkspaceOperationAffectedScopes op = [resolveWorkspaceOperationScope op]"
proof (cases "resolveWorkspaceOperationAffectedScopes op")
  case Nil
  then show ?thesis
    using assms by (simp add: resolveWorkspaceOperationScope_def is_workspace_scope_def)
next
  case (Cons s rest)
  have "distinct (s # rest)"
    using distinct_dedupe Cons by (metis resolveWorkspaceOperationAffectedScopes_def)
  moreover have "list_all (workspaceHistoryScopesEqual s) (s # rest)"
    using assms Cons
    by (auto simp: resolveWorkspaceOperationScope_def is_workspace_scope_def split: if_splits)
  ultimately have "rest = []" by (cases rest) auto
  with Cons show ?thesis by (simp add: resolveWorkspaceOperationScope_def)
qed

end
