(* ===== verification/Canonical.thy ===== *)
theory Canonical
  imports Json "HOL-Library.Word"
begin

unbundle bit_operations_syntax

text \<open>
  The canonical encodings of \<open>packages/shared/src/canonical\<close>: the order of strings by code point
  (\<open>codePointOrder.ts\<close>) and bounded canonical base64 (\<open>canonicalBase64.ts\<close>). A code unit of the
  model is below 256, so it is its own code point and no surrogate occurs.
\<close>

section \<open>The order of strings\<close>

text \<open>
  The loop compares position by position; the final difference of the lengths is that of the
  remainders, the compared prefixes being of one length.
\<close>

fun compareUnicodeCodePoints :: "string \<Rightarrow> string \<Rightarrow> int" where
  "compareUnicodeCodePoints (x # xs) (y # ys) =
     (let difference = of_char x - of_char y in
      if difference \<noteq> 0 then difference else compareUnicodeCodePoints xs ys)"
| "compareUnicodeCodePoints xs ys = int (length xs) - int (length ys)"

lemma compareUnicodeCodePoints_self [simp]: "compareUnicodeCodePoints xs xs = 0"
  by (induction xs) auto

lemma compareUnicodeCodePoints_neg:
  "compareUnicodeCodePoints xs ys = - compareUnicodeCodePoints ys xs"
  by (induction xs ys rule: compareUnicodeCodePoints.induct) (auto simp: Let_def)

lemma compareUnicodeCodePoints_zero: "compareUnicodeCodePoints xs ys = 0 \<longleftrightarrow> xs = ys"
  by (induction xs ys rule: compareUnicodeCodePoints.induct) (auto simp: Let_def)

lemma compareUnicodeCodePoints_trans:
  "compareUnicodeCodePoints xs ys \<le> 0 \<Longrightarrow> compareUnicodeCodePoints ys zs \<le> 0 \<Longrightarrow>
   compareUnicodeCodePoints xs zs \<le> 0"
proof (induction xs arbitrary: ys zs)
  case Nil
  then show ?case by (cases zs) auto
next
  case (Cons x xs)
  then show ?case by (cases ys; cases zs) (auto simp: Let_def split: if_splits)
qed

lemma consistent_code_points: "consistent compareUnicodeCodePoints"
  unfolding consistent_def
proof (intro conjI allI impI)
  fix l r show "sgn (compareUnicodeCodePoints l r) = - sgn (compareUnicodeCodePoints r l)"
    by (subst compareUnicodeCodePoints_neg) (simp add: sgn_if)
qed (rule compareUnicodeCodePoints_trans)

interpretation code_point: comparator "\<lambda>_. True" compareUnicodeCodePoints
  by (rule consistent_comparator [OF consistent_code_points])

section \<open>Base64\<close>

definition base64Digit :: "char \<Rightarrow> int" where
  "base64Digit c =
     (let code = of_char c in
      if 65 \<le> code \<and> code \<le> 90 then code - 65
      else if 97 \<le> code \<and> code \<le> 122 then code - 97 + 26
      else if 48 \<le> code \<and> code \<le> 57 then code - 48 + 52
      else if code = 43 then 62
      else if code = 47 then 63
      else -1)"

definition base64_padding :: "string \<Rightarrow> nat" where
  "base64_padding v =
     (if length v > 0 \<and> v ! (length v - 1) = CHR ''=''
      then (if v ! (length v - 2) = CHR ''='' then 2 else 1) else 0)"

definition decodedByteLength :: "string \<Rightarrow> int" where
  "decodedByteLength v =
     (if v = [] then 0 else (int (length v) div 4) * 3 - int (base64_padding v))"

definition isCanonicalBase64Text :: "json \<Rightarrow> js_number \<Rightarrow> bool" where
  "isCanonicalBase64Text value maximumBytes =
     (case (value, maximumBytes) of
        (JStr v, Finite maximum) \<Rightarrow>
          (let byteLength = decodedByteLength v;
               padding = base64_padding v;
               contentLength = length v - padding
           in
           if \<not> isSafeInteger maximumBytes \<or> maximum < 0 \<or> length v mod 4 \<noteq> 0 then False
           else if \<not> isSafeInteger (Finite (of_int byteLength)) \<or> of_int byteLength > maximum then False
           else if \<not> list_all (\<lambda>c. 0 \<le> base64Digit c) (take contentLength v) then False
           else if \<not> list_all (\<lambda>c. c = CHR ''='') (drop contentLength v) then False
           else if padding = 2
             then contentLength \<ge> 2 \<and> base64Digit (v ! (contentLength - 1)) AND 15 = 0
           else if padding = 1
             then contentLength \<ge> 3 \<and> base64Digit (v ! (contentLength - 1)) AND 3 = 0
           else True)
      | _ \<Rightarrow> False)"

text \<open>The loop of the decoder; a byte is what \<open>Uint8Array\<close> stores, the value modulo 256.\<close>

fun decode_groups :: "string \<Rightarrow> 8 word list" where
  "decode_groups (c1 # c2 # c3 # c4 # rest) =
     (let first = base64Digit c1;
          second = base64Digit c2;
          third = (if c3 = CHR ''='' then 0 else base64Digit c3);
          fourth = (if c4 = CHR ''='' then 0 else base64Digit c4)
      in [word_of_int (push_bit 2 first OR drop_bit 4 second)] @
         (if c3 \<noteq> CHR ''='' then [word_of_int (push_bit 4 (second AND 15) OR drop_bit 2 third)] else []) @
         (if c4 \<noteq> CHR ''='' then [word_of_int (push_bit 6 (third AND 3) OR fourth)] else []) @
         decode_groups rest)"
| "decode_groups _ = []"

definition decodeCanonicalBase64 :: "json \<Rightarrow> js_number \<Rightarrow> 8 word list option" where
  "decodeCanonicalBase64 value maximumBytes =
     (if \<not> isCanonicalBase64Text value maximumBytes then None
      else case value of JStr v \<Rightarrow> Some (decode_groups v) | _ \<Rightarrow> None)"

section \<open>The encoding the decoder inverts\<close>

definition base64_char :: "int \<Rightarrow> char" where
  "base64_char d =
     (if d < 26 then char_of (d + 65) else if d < 52 then char_of (d - 26 + 97)
      else if d < 62 then char_of (d - 52 + 48) else if d = 62 then CHR ''+'' else CHR ''/'')"

fun base64_encode :: "int list \<Rightarrow> string" where
  "base64_encode [] = []"
| "base64_encode [x] = [base64_char (x div 4), base64_char (x mod 4 * 16), CHR ''='', CHR ''='']"
| "base64_encode [x, y] =
     [base64_char (x div 4), base64_char (x mod 4 * 16 + y div 16), base64_char (y mod 16 * 4),
      CHR ''='']"
| "base64_encode (x # y # z # rest) =
     [base64_char (x div 4), base64_char (x mod 4 * 16 + y div 16),
      base64_char (y mod 16 * 4 + z div 64), base64_char (z mod 64)] @ base64_encode rest"

lemma char_less_256: "(of_char c :: int) < 256" "0 \<le> (of_char c :: int)"
proof -
  have "of_char c = (of_nat (of_char c :: nat) :: int)" by (simp only: of_nat_of_char)
  moreover have "(of_char c :: nat) < 256" by (rule nat_of_char_less_256)
  ultimately show "(of_char c :: int) < 256" "0 \<le> (of_char c :: int)" by linarith+
qed

lemma base64Digit_range: "base64Digit c < 64"
  by (auto simp: base64Digit_def Let_def)

lemma of_char_eqD: "of_char c = (n :: int) \<Longrightarrow> c = char_of n"
  using char_of_char [where 'a = int, of c] by simp

lemma base64_char_digit:
  assumes "0 \<le> base64Digit c"
  shows "base64_char (base64Digit c) = c"
proof -
  have "CHR ''+'' = char_of (43 :: int)" "CHR ''/'' = char_of (47 :: int)"
    by (simp_all add: char_of_def)
  then show ?thesis
    using assms
    by (auto simp: base64Digit_def base64_char_def Let_def dest: of_char_eqD split: if_splits)
qed

lemma base64Digit_pad [simp]: "base64Digit (CHR ''='') = -1"
  by (simp add: base64Digit_def)

lemma shift_or:
  assumes "0 \<le> (a :: int)" and "0 \<le> b" and "b < 2 ^ n"
  shows "push_bit n a OR b = a * 2 ^ n + b"
proof -
  have "push_bit n a AND take_bit n b = 0"
    by (rule bit_eqI) (auto simp: bit_simps)
  then have "push_bit n a AND b = 0" using assms by (simp add: take_bit_int_eq_self)
  then show ?thesis by (simp add: disjunctive_add_eq_or [symmetric] push_bit_eq_mult)
qed

text \<open>One full group, in arithmetic.\<close>

lemma group_bytes:
  assumes "0 \<le> a" "a < 64" "0 \<le> b" "b < 64" "0 \<le> c" "c < 64" "0 \<le> d" "d < (64 :: int)"
  shows "push_bit 2 a OR drop_bit 4 b = a * 4 + b div 16"
    and "push_bit 4 (b AND 15) OR drop_bit 2 c = b mod 16 * 16 + c div 4"
    and "push_bit 6 (c AND 3) OR d = c mod 4 * 64 + d"
proof -
  have m: "b AND 15 = b mod 16" "c AND 3 = c mod 4"
    using take_bit_eq_mask [of 4 b] take_bit_eq_mask [of 2 c]
    by (simp_all add: take_bit_eq_mod mask_eq_exp_minus_1)
  show "push_bit 2 a OR drop_bit 4 b = a * 4 + b div 16"
    using assms shift_or [of a "b div 16" 2] by (simp add: drop_bit_eq_div)
  show "push_bit 4 (b AND 15) OR drop_bit 2 c = b mod 16 * 16 + c div 4"
    using assms shift_or [of "b mod 16" "c div 4" 4] by (simp add: drop_bit_eq_div m)
  show "push_bit 6 (c AND 3) OR d = c mod 4 * 64 + d"
    using assms shift_or [of "c mod 4" d 6] by (simp add: m)
qed

text \<open>
  The check group by group: full groups of digits, and a last group that may be padded, with the
  unused low bits of its last digit zero.
\<close>

definition text_ok :: "string \<Rightarrow> bool" where
  "text_ok v \<longleftrightarrow>
     (let padding = base64_padding v; n = length v - padding in
      length v mod 4 = 0 \<and> list_all (\<lambda>c. 0 \<le> base64Digit c) (take n v) \<and>
      list_all (\<lambda>c. c = CHR ''='') (drop n v) \<and>
      (padding = 2 \<longrightarrow> base64Digit (v ! (n - 1)) AND 15 = 0) \<and>
      (padding = 1 \<longrightarrow> base64Digit (v ! (n - 1)) AND 3 = 0))"

lemma isCanonicalBase64Text_ok:
  "isCanonicalBase64Text (JStr v) m \<Longrightarrow> text_ok v"
  by (cases m) (auto simp: isCanonicalBase64Text_def text_ok_def Let_def split: if_splits)

fun groups_ok :: "string \<Rightarrow> bool" where
  "groups_ok [] = True"
| "groups_ok [a, b, c, d] =
     (0 \<le> base64Digit a \<and> 0 \<le> base64Digit b \<and>
      (if d = CHR ''=''
       then (if c = CHR ''='' then base64Digit b AND 15 = 0
             else 0 \<le> base64Digit c \<and> base64Digit c AND 3 = 0)
       else 0 \<le> base64Digit c \<and> 0 \<le> base64Digit d))"
| "groups_ok (a # b # c # d # rest) =
     (0 \<le> base64Digit a \<and> 0 \<le> base64Digit b \<and> 0 \<le> base64Digit c \<and> 0 \<le> base64Digit d \<and>
      groups_ok rest)"
| "groups_ok _ = False"

lemma text_ok_last_group:
  assumes "text_ok [a, b, c, d]"
  shows "groups_ok [a, b, c, d]"
proof -
  have pad: "base64_padding [a, b, c, d] =
      (if d = CHR ''='' then (if c = CHR ''='' then 2 else 1) else 0)"
    by (simp add: base64_padding_def)
  consider (two) "base64_padding [a, b, c, d] = 2" "d = CHR ''=''" "c = CHR ''=''"
    | (one) "base64_padding [a, b, c, d] = 1" "d = CHR ''=''" "c \<noteq> CHR ''=''"
    | (full) "base64_padding [a, b, c, d] = 0" "d \<noteq> CHR ''=''"
    unfolding pad by (cases "d = CHR ''=''"; cases "c = CHR ''=''") simp_all
  then show ?thesis
  proof cases
    case two
    with assms show ?thesis unfolding text_ok_def Let_def two(1) by simp
  next
    case one
    with assms show ?thesis unfolding text_ok_def Let_def one(1) by simp
  next
    case full
    with assms show ?thesis unfolding text_ok_def Let_def full(1) by simp
  qed
qed

lemma base64_padding_le: "base64_padding v \<le> 2"
  by (simp add: base64_padding_def)

lemma text_ok_next_group:
  assumes "text_ok (a # b # c # d # rest)" and "rest \<noteq> []"
  shows "0 \<le> base64Digit a \<and> 0 \<le> base64Digit b \<and> 0 \<le> base64Digit c \<and> 0 \<le> base64Digit d \<and>
    text_ok rest"
proof -
  have "length rest mod 4 = 0"
    using assms(1) by (simp add: text_ok_def Let_def mod_Suc split: if_splits)
  then have len: "4 \<le> length rest" using assms(2) by (cases "length rest < 4") auto
  then obtain e f g h t where rest: "rest = e # f # g # h # t"
    by (auto simp: Suc_le_length_iff numeral_eq_Suc)
  have pad: "base64_padding (a # b # c # d # rest) = base64_padding rest"
    using rest by (simp add: base64_padding_def)
  let ?n = "length rest - base64_padding rest"
  have n: "length (a # b # c # d # rest) - base64_padding rest = Suc (Suc (Suc (Suc ?n)))"
    and n2: "2 \<le> ?n"
    using base64_padding_le [of rest] len by simp_all
  have nth: "(a # b # c # d # rest) ! (Suc (Suc (Suc (Suc ?n))) - 1) = rest ! (?n - 1)"
    using n2 by (cases ?n) auto
  show ?thesis
    using assms(1) \<open>length rest mod 4 = 0\<close>
    unfolding text_ok_def Let_def pad n nth by simp
qed

lemma text_ok_groups: "text_ok v \<Longrightarrow> groups_ok v"
proof (induction v rule: groups_ok.induct)
  case (2 a b c d)
  then show ?case by (rule text_ok_last_group)
next
  case (3 a b c d e es)
  then show ?case using text_ok_next_group [of a b c d "e # es"] by simp
qed (auto simp: text_ok_def Let_def)

lemma uint_byte: "0 \<le> x \<Longrightarrow> x < 256 \<Longrightarrow> uint (word_of_int x :: 8 word) = x"
  by (simp add: uint_word_of_int)

lemma digit_parts:
  assumes "0 \<le> a" "a < 64" "0 \<le> b" "b < 64" "0 \<le> c" "c < 64" "0 \<le> d" "d < (64 :: int)"
  shows "(a * 4 + b div 16) div 4 = a"
    and "(a * 4 + b div 16) mod 4 * 16 + (b mod 16 * 16 + c div 4) div 16 = b"
    and "(b mod 16 * 16 + c div 4) mod 16 * 4 + (c mod 4 * 64 + d) div 64 = c"
    and "(c mod 4 * 64 + d) mod 64 = d"
    and "b mod 16 = 0 \<Longrightarrow> (a * 4 + b div 16) mod 4 * 16 = b"
    and "c mod 4 = 0 \<Longrightarrow> (b mod 16 * 16 + c div 4) mod 16 * 4 = c"
proof -
  have pack: "(x * k + q) div k = x" "(x * k + q) mod k = q" if "0 \<le> q" "q < k" for x k q :: int
    using that by simp_all
  have "0 \<le> b mod 16" "b mod 16 < 16" "0 \<le> b div 16" "b div 16 < 4"
    "0 \<le> c mod 4" "c mod 4 < 4" "0 \<le> c div 4" "c div 4 < 16"
    using assms by (auto simp: pos_imp_zdiv_nonneg_iff)
  note parts = this
  note p1 = pack [OF parts(3,4), of a] and p2 = pack [OF parts(7,8), of "b mod 16"]
    and p3 = pack [OF assms(7,8), of "c mod 4"]
  show "(a * 4 + b div 16) div 4 = a" by (rule p1)
  show "(a * 4 + b div 16) mod 4 * 16 + (b mod 16 * 16 + c div 4) div 16 = b"
    unfolding p1 p2 by simp
  show "(b mod 16 * 16 + c div 4) mod 16 * 4 + (c mod 4 * 64 + d) div 64 = c"
    unfolding p2 p3 by simp
  show "(c mod 4 * 64 + d) mod 64 = d" by (rule p3)
  show "b mod 16 = 0 \<Longrightarrow> (a * 4 + b div 16) mod 4 * 16 = b"
    unfolding p1 by (simp add: mod_eq_0_iff_dvd)
  show "c mod 4 = 0 \<Longrightarrow> (b mod 16 * 16 + c div 4) mod 16 * 4 = c"
    unfolding p2 by (simp add: mod_eq_0_iff_dvd)
qed

lemma not_pad: "0 \<le> base64Digit c \<Longrightarrow> c \<noteq> CHR ''=''"
  by auto

lemma and_low: "(b :: int) AND 15 = b mod 16" "(b :: int) AND 3 = b mod 4"
  using take_bit_eq_mask [of 4 b] take_bit_eq_mask [of 2 b]
  by (simp_all add: take_bit_eq_mod mask_eq_exp_minus_1)

text \<open>The three shapes of a group, decoded to byte values.\<close>

lemma group_uint:
  assumes "0 \<le> a" "a < 64" "0 \<le> b" "b < 64" "0 \<le> c" "c < 64" "0 \<le> d" "d < (64 :: int)"
  shows "uint (word_of_int (push_bit 2 a OR drop_bit 4 b) :: 8 word) = a * 4 + b div 16"
    and "uint (word_of_int (push_bit 4 (b AND 15) OR drop_bit 2 c) :: 8 word) =
           b mod 16 * 16 + c div 4"
    and "uint (word_of_int (push_bit 6 (c AND 3) OR d) :: 8 word) = c mod 4 * 64 + d"
proof -
  have "b mod 16 < 16" "c mod 4 < 4" "b div 16 < 4" "c div 4 < 16" "0 \<le> b mod 16" "0 \<le> c mod 4"
    "0 \<le> b div 16" "0 \<le> c div 4"
    using assms by presburger+
  then have "0 \<le> a * 4 + b div 16" "a * 4 + b div 16 < 256"
    "0 \<le> b mod 16 * 16 + c div 4" "b mod 16 * 16 + c div 4 < 256"
    "0 \<le> c mod 4 * 64 + d" "c mod 4 * 64 + d < 256"
    using assms by linarith+
  then show "uint (word_of_int (push_bit 2 a OR drop_bit 4 b) :: 8 word) = a * 4 + b div 16"
    and "uint (word_of_int (push_bit 4 (b AND 15) OR drop_bit 2 c) :: 8 word) =
           b mod 16 * 16 + c div 4"
    and "uint (word_of_int (push_bit 6 (c AND 3) OR d) :: 8 word) = c mod 4 * 64 + d"
    unfolding group_bytes [OF assms] by (simp_all only: uint_byte)
qed

lemma decode_two:
  "decode_groups [a, b, CHR ''='', CHR ''=''] =
     [word_of_int (push_bit 2 (base64Digit a) OR drop_bit 4 (base64Digit b))]"
  by (simp add: Let_def)

lemma decode_one:
  "c \<noteq> CHR ''='' \<Longrightarrow> decode_groups [a, b, c, CHR ''=''] =
     [word_of_int (push_bit 2 (base64Digit a) OR drop_bit 4 (base64Digit b)),
      word_of_int (push_bit 4 (base64Digit b AND 15) OR drop_bit 2 (base64Digit c))]"
  by (simp add: Let_def)

lemma decode_three:
  "c \<noteq> CHR ''='' \<Longrightarrow> d \<noteq> CHR ''='' \<Longrightarrow> decode_groups [a, b, c, d] =
     [word_of_int (push_bit 2 (base64Digit a) OR drop_bit 4 (base64Digit b)),
      word_of_int (push_bit 4 (base64Digit b AND 15) OR drop_bit 2 (base64Digit c)),
      word_of_int (push_bit 6 (base64Digit c AND 3) OR base64Digit d)]"
  by (simp add: Let_def)

lemma decode_last_group:
  assumes "groups_ok [a, b, c, d]"
  shows "base64_encode (map uint (decode_groups [a, b, c, d])) = [a, b, c, d]"
proof -
  have ab: "0 \<le> base64Digit a" "0 \<le> base64Digit b" using assms by auto
  have z: "(0 :: int) \<le> 0" "(0 :: int) < 64" by simp_all
  consider (two) "d = CHR ''=''" "c = CHR ''=''" "base64Digit b mod 16 = 0"
    | (one) "d = CHR ''=''" "0 \<le> base64Digit c" "base64Digit c mod 4 = 0"
    | (full) "0 \<le> base64Digit c" "0 \<le> base64Digit d"
    using assms by (auto simp: and_low split: if_splits)
  then show ?thesis
  proof cases
    case two
    note u = group_uint [OF ab(1) base64Digit_range ab(2) base64Digit_range, OF z z]
      and p = digit_parts [OF ab(1) base64Digit_range ab(2) base64Digit_range, OF z z]
    have eq: "map uint (decode_groups [a, b, c, d]) = [base64Digit a * 4 + base64Digit b div 16]"
      unfolding two decode_two list.map u(1) ..
    show ?thesis
      unfolding eq base64_encode.simps p(1) p(5) [OF two(3)]
        ab [THEN base64_char_digit] by (simp add: two)
  next
    case one
    note u = group_uint [OF ab(1) base64Digit_range ab(2) base64Digit_range one(2) base64Digit_range, OF z]
      and p = digit_parts [OF ab(1) base64Digit_range ab(2) base64Digit_range one(2) base64Digit_range, OF z]
    have eq: "map uint (decode_groups [a, b, c, d]) = [base64Digit a * 4 + base64Digit b div 16,
        base64Digit b mod 16 * 16 + base64Digit c div 4]"
      unfolding one(1) decode_one [OF not_pad [OF one(2)]] list.map u(1,2) ..
    show ?thesis
      unfolding eq base64_encode.simps p(1,2) p(6) [OF one(3)]
        ab [THEN base64_char_digit] base64_char_digit [OF one(2)] by (simp add: one)
  next
    case full
    note u = group_uint [OF ab(1) base64Digit_range ab(2) base64Digit_range full(1) base64Digit_range
        full(2) base64Digit_range]
      and p = digit_parts [OF ab(1) base64Digit_range ab(2) base64Digit_range full(1) base64Digit_range
        full(2) base64Digit_range]
    have eq: "map uint (decode_groups [a, b, c, d]) = [base64Digit a * 4 + base64Digit b div 16,
        base64Digit b mod 16 * 16 + base64Digit c div 4, base64Digit c mod 4 * 64 + base64Digit d]"
      unfolding decode_three [OF not_pad [OF full(1)] not_pad [OF full(2)]] list.map u ..
    show ?thesis
      unfolding eq base64_encode.simps p(1-4) full [THEN base64_char_digit]
        ab [THEN base64_char_digit] by simp
  qed
qed

lemma decode_groups_append:
  "decode_groups (a # b # c # d # rest) = decode_groups [a, b, c, d] @ decode_groups rest"
  by (simp add: Let_def)

lemma decode_full_group:
  "0 \<le> base64Digit c \<Longrightarrow> 0 \<le> base64Digit d \<Longrightarrow> \<exists>x y z. decode_groups [a, b, c, d] = [x, y, z]"
  using not_pad by (simp add: Let_def)

declare decode_groups.simps [simp del]

theorem base64_round_trip:
  "groups_ok v \<Longrightarrow> base64_encode (map uint (decode_groups v)) = v"
proof (induction v rule: groups_ok.induct)
  case (2 a b c d)
  then show ?case by (rule decode_last_group)
next
  case (3 a b c d e es)
  then have g: "0 \<le> base64Digit a" "0 \<le> base64Digit b" "0 \<le> base64Digit c" "0 \<le> base64Digit d"
    and ih: "base64_encode (map uint (decode_groups (e # es))) = e # es"
    by auto
  obtain x y z where xyz: "decode_groups [a, b, c, d] = [x, y, z]"
    using decode_full_group [OF g(3,4)] by blast
  have "groups_ok [a, b, c, d]" using g not_pad by simp
  from decode_last_group [OF this] ih show ?case
    unfolding decode_groups_append [of a b c d "e # es"] xyz by simp
qed (simp_all add: decode_groups.simps)

text \<open>The decoder fills exactly the buffer it allocates.\<close>

lemma decodedByteLength_last:
  "decodedByteLength [a, b, c, d] =
     (if d = CHR ''='' then (if c = CHR ''='' then 1 else 2) else 3)"
  by (simp add: decodedByteLength_def base64_padding_def)

lemma decodedByteLength_next:
  assumes "2 \<le> length rest"
  shows "decodedByteLength (a # b # c # d # rest) = 3 + decodedByteLength rest"
proof -
  from assms obtain e f t where "rest = e # f # t"
    by (auto simp: Suc_le_length_iff numeral_2_eq_2)
  then have "base64_padding (a # b # c # d # rest) = base64_padding rest" "rest \<noteq> []"
    by (simp_all add: base64_padding_def)
  then show ?thesis by (simp add: decodedByteLength_def)
qed

lemma groups_ok_length: "groups_ok v \<Longrightarrow> v \<noteq> [] \<Longrightarrow> 4 \<le> length v"
  by (induction v rule: groups_ok.induct) auto

theorem length_decode_groups:
  "groups_ok v \<Longrightarrow> int (length (decode_groups v)) = decodedByteLength v"
proof (induction v rule: groups_ok.induct)
  case (2 a b c d)
  then show ?case
    unfolding decodedByteLength_last
    by (cases "c = CHR ''=''"; cases "d = CHR ''=''") (simp_all add: decode_two decode_one decode_three)
next
  case (3 a b c d e es)
  then have g: "0 \<le> base64Digit c" "0 \<le> base64Digit d" "groups_ok (e # es)"
    and ih: "int (length (decode_groups (e # es))) = decodedByteLength (e # es)"
    by auto
  obtain x y z where "decode_groups [a, b, c, d] = [x, y, z]"
    using decode_full_group [OF g(1,2)] by blast
  then show ?case
    using ih decodedByteLength_next [of "e # es" a b c d] groups_ok_length [OF g(3)]
    unfolding decode_groups_append [of a b c d "e # es"] by simp
qed (simp_all add: decode_groups.simps decodedByteLength_def)

lemma decodeCanonicalBase64_Some:
  assumes "decodeCanonicalBase64 value m = Some bs"
  obtains v where "value = JStr v" and "groups_ok v" and "bs = decode_groups v"
    and "of_int (decodedByteLength v) \<le> (case m of Finite q \<Rightarrow> q | NotFinite \<Rightarrow> 0)"
proof -
  from assms have ok: "isCanonicalBase64Text value m"
    by (auto simp: decodeCanonicalBase64_def split: if_splits)
  then obtain v q where vq: "value = JStr v" "m = Finite q"
    by (auto simp: isCanonicalBase64Text_def split: json.splits js_number.splits)
  have "groups_ok v" using ok vq isCanonicalBase64Text_ok text_ok_groups by blast
  moreover have "of_int (decodedByteLength v) \<le> q"
    using ok unfolding vq isCanonicalBase64Text_def by (auto simp: Let_def split: if_splits)
  moreover have "bs = decode_groups v" using assms ok vq by (simp add: decodeCanonicalBase64_def)
  ultimately show thesis using that vq by simp
qed

end
