(* ===== verification/Route.thy ===== *)
theory Route
  imports Canonical
begin

text \<open>
  The route core of \<open>packages/router/src/routeCore.ts\<close>: paths and segments, the route tree and its
  edits, the composition of mounted route modules, and the matching of a path against the tree.
  An optional member of a TypeScript type is an option; \<open>children ?? []\<close> is \<open>kids\<close>. An object used
  as a map of parameters is an association list (\<open>__proto__\<close> as a parameter name is not modelled).
  Messages of issues are not modelled.
\<close>

section \<open>Data\<close>

record outlet_binding =
  ob_outletNodeId :: string
  ob_pageDocId :: "string option"

record code_reference =
  artifactId :: string
  exportName :: "string option"
  symbolId :: "string option"

record route_runtime =
  loaderRef :: "code_reference option"
  actionRef :: "code_reference option"
  guardRef :: "code_reference option"

datatype route_node = RouteNode
  (node_id: string)
  (segment: "string option")
  (node_index: "bool option")
  (layoutDocId: "string option")
  (pageDocId: "string option")
  (outletNodeId: "string option")
  (outletBindings: "(string \<times> outlet_binding) list option")
  (runtime: "route_runtime option")
  (children: "route_node list option")

record route_module =
  moduleId :: string
  module_version :: string
  module_root :: route_node

record route_mount =
  mountId :: string
  moduleRef :: string
  mountPath :: "string option"
  parentRouteNodeId :: "string option"

record route_manifest =
  manifest_version :: string
  manifest_root :: route_node
  manifest_modules :: "(string \<times> route_module) list option"
  manifest_mounts :: "route_mount list option"

text \<open>\<open>node.children ?? []\<close>.\<close>

definition kids :: "route_node \<Rightarrow> route_node list" where
  "kids n = or_else (children n) []"

definition set_node_id :: "string \<Rightarrow> route_node \<Rightarrow> route_node" where
  "set_node_id v n = RouteNode v (segment n) (node_index n) (layoutDocId n) (pageDocId n)
     (outletNodeId n) (outletBindings n) (runtime n) (children n)"

definition set_segment :: "string option \<Rightarrow> bool option \<Rightarrow> route_node \<Rightarrow> route_node" where
  "set_segment s i n = RouteNode (node_id n) s i (layoutDocId n) (pageDocId n)
     (outletNodeId n) (outletBindings n) (runtime n) (children n)"

definition set_children :: "route_node list \<Rightarrow> route_node \<Rightarrow> route_node" where
  "set_children cs n = RouteNode (node_id n) (segment n) (node_index n) (layoutDocId n) (pageDocId n)
     (outletNodeId n) (outletBindings n) (runtime n) (Some cs)"

lemma set_children_simps [simp]:
  "node_id (set_children cs n) = node_id n" "kids (set_children cs n) = cs"
  "segment (set_children cs n) = segment n" "node_index (set_children cs n) = node_index n"
  by (simp_all add: set_children_def kids_def)

lemma size_kids: "size_list size (kids n) < size n"
  by (cases n; cases "children n") (auto simp: kids_def)

lemma size_kid [termination_simp]: "c \<in> set (kids n) \<Longrightarrow> size c < size n"
  using size_kids [of n] size_list_estimation' [of c "kids n" "size c" size] by auto

section \<open>Paths and segments\<close>

definition trimSlashes :: "string \<Rightarrow> string" where
  "trimSlashes v =
     rev (dropWhile (\<lambda>c. c = CHR ''/'') (rev (dropWhile (\<lambda>c. c = CHR ''/'') v)))"

definition normalizeRoutePath :: "string \<Rightarrow> string" where
  "normalizeRoutePath value =
     (let trimmed = js_trim value in
      if trimmed = [] then ''/''
      else let withoutHash = hd (split_on (CHR ''#'') trimmed);
               withoutQuery = hd (split_on (CHR ''?'') withoutHash);
               pieces = filter (\<lambda>p. p \<noteq> []) (map js_trim (split_on (CHR ''/'') withoutQuery))
           in if pieces \<noteq> [] then ''/'' @ join_with ''/'' pieces else ''/'')"

definition splitPath :: "string \<Rightarrow> string list" where
  "splitPath value =
     (let normalized = normalizeRoutePath value in
      if normalized = ''/'' then [] else split_on (CHR ''/'') (drop 1 normalized))"

datatype segment_error =
    EmptyPart | WildcardNotLast | NamedWildcardNeedsName | DynamicNeedsName
  | CatchAllNeedsName | CatchAllNotLast

datatype segment_validation =
    SegmentOk string "string list" bool
  | SegmentError string segment_error

definition ends_with :: "string \<Rightarrow> string \<Rightarrow> bool" where
  "ends_with s p \<longleftrightarrow> suffix p s"

fun normalize_pieces ::
  "string \<Rightarrow> string list \<Rightarrow> string list \<Rightarrow> bool \<Rightarrow> segment_validation" where
  "normalize_pieces seg [] params wildcard = SegmentOk seg params wildcard"
| "normalize_pieces seg (piece # rest) params wildcard =
     (if piece = [] then SegmentError seg EmptyPart
      else if piece = ''*'' then
        (if rest \<noteq> [] then SegmentError seg WildcardNotLast
         else normalize_pieces seg rest params True)
      else if starts_with piece ''*'' then
        (let name = drop 1 piece in
         if name = [] then SegmentError seg NamedWildcardNeedsName
         else if rest \<noteq> [] then SegmentError seg WildcardNotLast
         else normalize_pieces seg rest (set_add name params) True)
      else if starts_with piece '':'' then
        (let name = drop 1 piece in
         if name = [] then SegmentError seg DynamicNeedsName
         else normalize_pieces seg rest (set_add name params) wildcard)
      else if starts_with piece ''[...'' \<and> ends_with piece '']'' then
        (let name = butlast (drop 4 piece) in
         if name = [] then SegmentError seg CatchAllNeedsName
         else if rest \<noteq> [] then SegmentError seg CatchAllNotLast
         else normalize_pieces seg rest (set_add name params) True)
      else if starts_with piece ''['' \<and> ends_with piece '']'' then
        (let name = butlast (drop 1 piece) in
         if name = [] then SegmentError seg DynamicNeedsName
         else normalize_pieces seg rest (set_add name params) wildcard)
      else normalize_pieces seg rest params wildcard)"

definition normalizeRouteSegment :: "string option \<Rightarrow> segment_validation" where
  "normalizeRouteSegment input =
     (let seg = trimSlashes (js_trim (or_else input '''')) in
      if seg = [] then SegmentOk '''' [] False
      else normalize_pieces seg (split_on (CHR ''/'') seg) [] False)"

definition isIndexRouteNode :: "route_node \<Rightarrow> bool" where
  "isIndexRouteNode n \<longleftrightarrow> node_index n = Some True"

definition buildRoutePath :: "string \<Rightarrow> route_node \<Rightarrow> string" where
  "buildRoutePath parentPath n =
     (let normalizedParent = normalizeRoutePath parentPath in
      if isIndexRouteNode n then normalizedParent
      else let seg = trimSlashes (or_else (segment n) '''') in
        if seg = [] then normalizedParent
        else normalizeRoutePath
          (if normalizedParent = ''/'' then seg else normalizedParent @ ''/'' @ seg))"

definition getRouteLabel :: "route_node \<Rightarrow> string \<Rightarrow> string" where
  "getRouteLabel n path =
     (if isIndexRouteNode n then ''(index)''
      else let seg = js_trim (or_else (segment n) '''') in if seg \<noteq> [] then seg else path)"

section \<open>The tree\<close>

record manifest_item =
  item_id :: string
  item_path :: string
  item_depth :: nat
  item_label :: string
  item_node :: route_node
  item_parentId :: "string option"

fun flatten_node :: "route_node \<Rightarrow> string \<Rightarrow> nat \<Rightarrow> string option \<Rightarrow> manifest_item list" where
  "flatten_node n parentPath depth parentId =
     (let currentPath = buildRoutePath parentPath n in
      (if node_id n \<noteq> ''root''
       then [\<lparr>item_id = node_id n, item_path = currentPath, item_depth = depth,
              item_label = getRouteLabel n currentPath, item_node = n, item_parentId = parentId\<rparr>]
       else []) @
      concat (map (\<lambda>child. flatten_node child currentPath (Suc depth) (Some (node_id n))) (kids n)))"

definition flattenRouteManifest :: "route_manifest \<Rightarrow> manifest_item list" where
  "flattenRouteManifest m = flatten_node (manifest_root m) ''/'' 0 None"

fun updateRouteNodeById ::
  "route_node \<Rightarrow> string \<Rightarrow> (route_node \<Rightarrow> route_node) \<Rightarrow> route_node" where
  "updateRouteNodeById n nodeId updater =
     (if node_id n = nodeId then updater n
      else if kids n = [] then n
      else set_children (map (\<lambda>child. updateRouteNodeById child nodeId updater) (kids n)) n)"

fun removeRouteNodeById :: "route_node \<Rightarrow> string \<Rightarrow> route_node \<times> route_node option" where
  "removeRouteNodeById n nodeId =
     (if kids n = [] then (n, None)
      else case find (\<lambda>child. node_id child = nodeId) (kids n) of
        Some removedDirect \<Rightarrow>
          (set_children (filter (\<lambda>child. node_id child \<noteq> nodeId) (kids n)) n, Some removedDirect)
      | None \<Rightarrow>
          (let results = map (\<lambda>child. removeRouteNodeById child nodeId) (kids n);
               removed = foldl (\<lambda>r res. if snd res \<noteq> None then snd res else r) None results
           in (set_children (map fst results) n, removed)))"

record parent_info =
  info_node :: route_node
  info_parent :: "route_node option"
  info_index :: int

function findRouteNodeParentInfo ::
  "route_node \<Rightarrow> string \<Rightarrow> route_node option \<Rightarrow> int \<Rightarrow> parent_info option"
  and find_parent_info_kids ::
  "route_node list \<Rightarrow> string \<Rightarrow> route_node \<Rightarrow> int \<Rightarrow> parent_info option" where
  "findRouteNodeParentInfo n nodeId parent index =
     (if node_id n = nodeId
      then Some \<lparr>info_node = n, info_parent = parent, info_index = index\<rparr>
      else find_parent_info_kids (kids n) nodeId n 0)"
| "find_parent_info_kids [] nodeId parent childIndex = None"
| "find_parent_info_kids (c # cs) nodeId parent childIndex =
     (case findRouteNodeParentInfo c nodeId (Some parent) childIndex of
        Some matched \<Rightarrow> Some matched
      | None \<Rightarrow> find_parent_info_kids cs nodeId parent (childIndex + 1))"
  by pat_completeness auto
termination
  by (relation "measure (case_sum (\<lambda>(n, _). Suc (size n)) (\<lambda>(cs, _). Suc (size_list size cs)))")
    (auto simp: size_kids)

function findRouteNodeById :: "route_node \<Rightarrow> string \<Rightarrow> route_node option"
  and find_node_kids :: "route_node list \<Rightarrow> string \<Rightarrow> route_node option" where
  "findRouteNodeById n nodeId =
     (if node_id n = nodeId then Some n else find_node_kids (kids n) nodeId)"
| "find_node_kids [] nodeId = None"
| "find_node_kids (c # cs) nodeId =
     (case findRouteNodeById c nodeId of
        Some matched \<Rightarrow> Some matched
      | None \<Rightarrow> find_node_kids cs nodeId)"
  by pat_completeness auto
termination
  by (relation "measure (case_sum (\<lambda>(n, _). Suc (size n)) (\<lambda>(cs, _). Suc (size_list size cs)))")
    (auto simp: size_kids)

definition insertRouteNodeIntoParent ::
  "route_node \<Rightarrow> string \<Rightarrow> route_node \<Rightarrow> int option \<Rightarrow> route_node" where
  "insertRouteNodeIntoParent r parentNodeId routeNode index =
     updateRouteNodeById r parentNodeId (\<lambda>target.
       let cs = kids target;
           insertIndex = (case index of
             Some i \<Rightarrow> nat (max 0 (min i (int (length cs)))) | None \<Rightarrow> length cs)
       in set_children (take insertIndex cs @ [routeNode] @ drop insertIndex cs) target)"

definition moveRouteNodeById ::
  "route_node \<Rightarrow> string \<Rightarrow> string \<Rightarrow> int option \<Rightarrow> route_node \<times> route_node option" where
  "moveRouteNodeById r routeNodeId parentNodeId index =
     (if routeNodeId = node_id r then (r, None)
      else if routeNodeId = parentNodeId then (r, None)
      else case findRouteNodeParentInfo r routeNodeId None (-1) of
        None \<Rightarrow> (r, None)
      | Some currentInfo \<Rightarrow>
          if info_parent currentInfo = None then (r, None)
          else if findRouteNodeById (info_node currentInfo) parentNodeId \<noteq> None then (r, None)
          else (case removeRouteNodeById r routeNodeId of
                  (_, None) \<Rightarrow> (r, None)
                | (rest, Some removed) \<Rightarrow>
                    if findRouteNodeById rest parentNodeId = None then (r, None)
                    else (insertRouteNodeIntoParent rest parentNodeId removed index, Some removed)))"

function hasRouteNodeId :: "route_node \<Rightarrow> string \<Rightarrow> bool" where
  "hasRouteNodeId n nodeId \<longleftrightarrow>
     node_id n = nodeId \<or> list_ex (\<lambda>child. hasRouteNodeId child nodeId) (kids n)"
  by pat_completeness auto
termination by (relation "measure (size \<circ> fst)") (auto simp: size_kid)

section \<open>Mounted modules\<close>

record module_trace =
  trace_moduleId :: string
  trace_mountId :: string
  trace_sourceRouteNodeId :: string
  trace_hostRouteNodeId :: string
  trace_path :: string

datatype skip_reason = MissingModule | MissingParent | InvalidMountPath

definition createMountedRouteNodeId :: "route_mount \<Rightarrow> route_node \<Rightarrow> string" where
  "createMountedRouteNodeId mount n = mountId mount @ '':'' @ node_id n"

text \<open>The clone and the trace entries it pushes, in the order of the pushes.\<close>

fun cloneMountedRouteNode ::
  "route_module \<Rightarrow> route_mount \<Rightarrow> string option \<Rightarrow> string \<Rightarrow> route_node \<Rightarrow>
   route_node \<times> module_trace list" where
  "cloneMountedRouteNode m mount path parentPath n =
     (let hostRouteNodeId = createMountedRouteNodeId mount n;
          mountedNode = set_node_id hostRouteNodeId
            (if path \<noteq> None then set_segment path (Some False) n else n);
          currentPath = buildRoutePath parentPath mountedNode;
          clones = map (\<lambda>child. cloneMountedRouteNode m mount None currentPath child) (kids n)
      in (set_children (map fst clones) mountedNode,
          \<lparr>trace_moduleId = moduleId m, trace_mountId = mountId mount,
           trace_sourceRouteNodeId = node_id n, trace_hostRouteNodeId = hostRouteNodeId,
           trace_path = currentPath\<rparr> # concat (map snd clones)))"

record compose_state =
  c_root :: route_node
  c_paths :: "(string \<times> string) list"
  c_trace :: "module_trace list"
  c_skipped :: "(string \<times> skip_reason) list"

definition set_paths :: "manifest_item list \<Rightarrow> (string \<times> string) list \<Rightarrow> (string \<times> string) list" where
  "set_paths items paths = foldl (\<lambda>m i. alist_put (item_id i) (item_path i) m) paths items"

definition compose_mount :: "route_manifest \<Rightarrow> compose_state \<Rightarrow> route_mount \<Rightarrow> compose_state" where
  "compose_mount manifest st mount =
     (let skip = (\<lambda>reason. st\<lparr>c_skipped := c_skipped st @ [(mountId mount, reason)]\<rparr>) in
      case map_of (or_else (manifest_modules manifest) []) (moduleRef mount) of
        None \<Rightarrow> skip MissingModule
      | Some m \<Rightarrow>
          (let given = js_trim (or_else (parentRouteNodeId mount) '''');
               parentId = (if given \<noteq> [] then given else node_id (manifest_root manifest))
           in
           if findRouteNodeById (c_root st) parentId = None then skip MissingParent
           else
             (let path = js_trim (or_else (mountPath mount) '''');
                  normalized = (if path = [] then Inr None
                    else case normalizeRouteSegment (Some path) of
                           SegmentOk seg _ _ \<Rightarrow> Inr (Some seg)
                         | SegmentError _ e \<Rightarrow> Inl e)
              in case normalized of
                   Inl _ \<Rightarrow> skip InvalidMountPath
                 | Inr mountSegment \<Rightarrow>
                     (let parentPath = or_else (map_of (c_paths st) parentId) ''/'';
                          (mountedNode, trace) =
                            cloneMountedRouteNode m mount mountSegment parentPath (module_root m)
                      in st\<lparr>c_root := insertRouteNodeIntoParent (c_root st) parentId mountedNode None,
                            c_paths := set_paths
                              (flatten_node mountedNode parentPath 0 (Some parentId)) (c_paths st),
                            c_trace := c_trace st @ trace\<rparr>))))"

definition composeRouteManifestWithModules :: "route_manifest \<Rightarrow> route_manifest \<times> compose_state" where
  "composeRouteManifestWithModules manifest =
     (let st0 = \<lparr>c_root = manifest_root manifest,
                 c_paths = alist_put (node_id (manifest_root manifest)) ''/''
                   (set_paths (flattenRouteManifest manifest) []),
                 c_trace = [], c_skipped = []\<rparr>;
          st = foldl (compose_mount manifest) st0 (or_else (manifest_mounts manifest) [])
      in (manifest\<lparr>manifest_root := c_root st\<rparr>, st))"

function match_chain_walk :: "string \<Rightarrow> route_node \<Rightarrow> route_node list \<Rightarrow> route_node list option"
  and match_chain_kids :: "string \<Rightarrow> route_node list \<Rightarrow> route_node list \<Rightarrow> route_node list option"
  where
  "match_chain_walk routeNodeId n chain =
     (if node_id n = routeNodeId then Some (chain @ [n])
      else match_chain_kids routeNodeId (kids n) (chain @ [n]))"
| "match_chain_kids routeNodeId [] nextChain = None"
| "match_chain_kids routeNodeId (c # cs) nextChain =
     (case match_chain_walk routeNodeId c nextChain of
        Some matched \<Rightarrow> Some matched
      | None \<Rightarrow> match_chain_kids routeNodeId cs nextChain)"
  by pat_completeness auto
termination
  by (relation "measure (case_sum (\<lambda>(_, n, _). Suc (size n)) (\<lambda>(_, cs, _). Suc (size_list size cs)))")
    (auto simp: size_kids)

definition resolveRouteMatchChain :: "route_manifest \<Rightarrow> string \<Rightarrow> route_node list" where
  "resolveRouteMatchChain manifest routeNodeId =
     or_else (match_chain_walk routeNodeId (manifest_root manifest) []) []"

section \<open>Segment matchers\<close>

datatype matcher_kind = StaticPiece | DynamicPiece | WildcardPiece

definition piece_matcher :: "string \<Rightarrow> matcher_kind \<times> string" where
  "piece_matcher piece =
     (if piece = ''*'' \<or> starts_with piece ''*'' then (WildcardPiece, piece)
      else if starts_with piece '':'' then (DynamicPiece, drop 1 piece)
      else if starts_with piece ''[...'' \<and> ends_with piece '']''
        then (WildcardPiece, butlast (drop 4 piece))
      else if starts_with piece ''['' \<and> ends_with piece '']''
        then (DynamicPiece, butlast (drop 1 piece))
      else (StaticPiece, piece))"

definition createSegmentMatchersFromSegment :: "string option \<Rightarrow> (matcher_kind \<times> string) list" where
  "createSegmentMatchersFromSegment seg =
     (case normalizeRouteSegment seg of
        SegmentError _ _ \<Rightarrow> []
      | SegmentOk s _ _ \<Rightarrow> if s = [] then [] else map piece_matcher (split_on (CHR ''/'') s))"

definition createSegmentMatchers :: "route_node \<Rightarrow> (matcher_kind \<times> string) list" where
  "createSegmentMatchers n =
     (if isIndexRouteNode n then [] else createSegmentMatchersFromSegment (segment n))"

definition toRelativeSegments :: "string \<Rightarrow> string list" where
  "toRelativeSegments value =
     foldl (\<lambda>acc seg. if seg = ''.'' then acc else if seg = ''..'' then butlast acc else acc @ [seg])
       [] (filter (\<lambda>s. s \<noteq> []) (map js_trim (split_on (CHR ''/'') value)))"

record pattern_match =
  pm_score :: int
  pm_matchedPath :: string
  pm_exact :: bool
  pm_consumedCount :: nat
  pm_staticCount :: nat
  pm_paramCount :: nat
  pm_wildcard :: bool

text \<open>The loop over the matchers: the index, the counts and the wildcard flag at its end.\<close>

fun pattern_loop ::
  "(matcher_kind \<times> string) list \<Rightarrow> string list \<Rightarrow> nat \<Rightarrow> nat \<Rightarrow> nat \<Rightarrow>
   (nat \<times> nat \<times> nat \<times> bool) option" where
  "pattern_loop [] current i staticCount paramCount = Some (i, staticCount, paramCount, False)"
| "pattern_loop ((kind, value) # ms) current i staticCount paramCount =
     (if kind = WildcardPiece then Some (length current, staticCount, paramCount, True)
      else if i \<ge> length current then None
      else if kind = DynamicPiece then pattern_loop ms current (Suc i) staticCount (Suc paramCount)
      else if value \<noteq> current ! i then None
      else pattern_loop ms current (Suc i) (Suc staticCount) paramCount)"

definition matchPatternFromIndex :: "string list \<Rightarrow> string list \<Rightarrow> nat \<Rightarrow> pattern_match option" where
  "matchPatternFromIndex patternSegments currentSegments startIndex =
     (let matchers = createSegmentMatchersFromSegment (Some (join_with ''/'' patternSegments)) in
      if matchers = [] then None
      else case pattern_loop matchers currentSegments startIndex 0 0 of
        None \<Rightarrow> None
      | Some (currentIndex, staticCount, paramCount, wildcard) \<Rightarrow>
          (let exact = (currentIndex = length currentSegments);
               consumedCount = currentIndex - startIndex;
               matchedPath = (if currentIndex > 0
                 then ''/'' @ join_with ''/'' (take currentIndex currentSegments) else ''/'')
           in Some \<lparr>pm_score = (if exact then 10000 else 0) + int staticCount * 220 +
                      int paramCount * 120 + int consumedCount * 10 +
                      (if wildcard then -120 else 0),
                    pm_matchedPath = matchedPath, pm_exact = exact,
                    pm_consumedCount = consumedCount, pm_staticCount = staticCount,
                    pm_paramCount = paramCount, pm_wildcard = wildcard\<rparr>))"

definition matchRoutePattern :: "string \<Rightarrow> string \<Rightarrow> pattern_match option" where
  "matchRoutePattern routePath currentPath =
     (let trimmedRoutePath = js_trim routePath;
          currentSegments = splitPath currentPath;
          isAbsolute = starts_with trimmedRoutePath ''/'';
          patternSegments = (if isAbsolute then splitPath trimmedRoutePath
                             else toRelativeSegments trimmedRoutePath);
          startIndexes = (if isAbsolute then [0] else [0..<Suc (length currentSegments)])
      in
      if trimmedRoutePath = [] then None
      else if patternSegments = [] then None
      else foldl (\<lambda>best startIndex.
             case matchPatternFromIndex patternSegments currentSegments startIndex of
               None \<Rightarrow> best
             | Some matched \<Rightarrow>
                 (let next = matched\<lparr>pm_score := pm_score matched +
                        (if isAbsolute then 0 else int startIndex * 30)\<rparr>
                  in case best of
                       None \<Rightarrow> Some next
                     | Some b \<Rightarrow> if pm_score next > pm_score b then Some next else best))
           None startIndexes)"

section \<open>Matching a path against the tree\<close>

type_synonym params = "(string \<times> string) list"

record node_match =
  nm_matched :: bool
  nm_consumed :: nat
  nm_params :: params

definition no_match :: node_match where
  "no_match = \<lparr>nm_matched = False, nm_consumed = 0, nm_params = []\<rparr>"

fun match_node_loop ::
  "(matcher_kind \<times> string) list \<Rightarrow> string list \<Rightarrow> nat \<Rightarrow> params \<Rightarrow> node_match" where
  "match_node_loop [] segments consumed ps =
     \<lparr>nm_matched = True, nm_consumed = consumed, nm_params = ps\<rparr>"
| "match_node_loop ((kind, value) # ms) segments consumed ps =
     (if kind = WildcardPiece then
        (let name = (if value = ''*'' then ''*''
                     else if starts_with value ''*'' then drop 1 value else value)
         in \<lparr>nm_matched = True, nm_consumed = length segments,
             nm_params = alist_put (if name = [] then ''*'' else name)
               (join_with ''/'' (drop consumed segments)) ps\<rparr>)
      else if consumed \<ge> length segments \<or> segments ! consumed = [] then no_match
      else if kind = StaticPiece \<and> value \<noteq> segments ! consumed then no_match
      else match_node_loop ms segments (Suc consumed)
        (if kind = DynamicPiece then alist_put value (segments ! consumed) ps else ps))"

definition matchNodeSegments :: "route_node \<Rightarrow> string list \<Rightarrow> node_match" where
  "matchNodeSegments n segments =
     (if isIndexRouteNode n
      then \<lparr>nm_matched = (segments = []), nm_consumed = 0, nm_params = []\<rparr>
      else let matchers = createSegmentMatchers n in
        if matchers = [] then \<lparr>nm_matched = True, nm_consumed = 0, nm_params = []\<rparr>
        else match_node_loop matchers segments 0 [])"

definition matcher_rank :: "matcher_kind \<times> string \<Rightarrow> int" where
  "matcher_rank m = (case fst m of StaticPiece \<Rightarrow> 3 | DynamicPiece \<Rightarrow> 2 | WildcardPiece \<Rightarrow> 1)"

text \<open>The first difference of two lists of kinds, a missing kind counting as zero.\<close>

fun kinds_difference :: "int list \<Rightarrow> int list \<Rightarrow> int" where
  "kinds_difference [] [] = 0"
| "kinds_difference (l # ls) [] = (if 0 - l \<noteq> 0 then 0 - l else kinds_difference ls [])"
| "kinds_difference [] (r # rs) = (if r - 0 \<noteq> 0 then r - 0 else kinds_difference [] rs)"
| "kinds_difference (l # ls) (r # rs) = (if r - l \<noteq> 0 then r - l else kinds_difference ls rs)"

definition compare_siblings :: "route_node \<Rightarrow> route_node \<Rightarrow> int" where
  "compare_siblings left right =
     (let leftIsIndex = isIndexRouteNode left;
          rightIsIndex = isIndexRouteNode right;
          leftKinds = map matcher_rank (createSegmentMatchers left);
          rightKinds = map matcher_rank (createSegmentMatchers right);
          difference = kinds_difference leftKinds rightKinds;
          lengths = int (length rightKinds) - int (length leftKinds)
      in
      if leftIsIndex \<noteq> rightIsIndex then (if leftIsIndex then 1 else -1)
      else if difference \<noteq> 0 then difference
      else if lengths \<noteq> 0 then lengths
      else compareUnicodeCodePoints (node_id left) (node_id right))"

type_synonym chain = "(route_node \<times> params) list"

text \<open>The comparison of ids by code units, \<open>left.id < right.id ? -1 : left.id > right.id ? 1 : 0\<close>.\<close>

definition compare_ids :: "route_node \<Rightarrow> route_node \<Rightarrow> int" where
  "compare_ids left right =
     (if node_id left < node_id right then -1 else if node_id left > node_id right then 1 else 0)"

definition pathless :: "route_node \<Rightarrow> bool" where
  "pathless n \<longleftrightarrow> \<not> isIndexRouteNode n \<and> length (createSegmentMatchers n) = 0"

function completeEmptyRouteChain :: "route_node \<Rightarrow> chain \<Rightarrow> string list \<Rightarrow> chain" where
  "completeEmptyRouteChain parent chain visited =
     (if node_id parent \<in> set visited then chain
      else case find isIndexRouteNode (kids parent) of
        Some indexChild \<Rightarrow> chain @ [(indexChild, [])]
      | None \<Rightarrow>
          (case sort_by compare_ids (filter pathless (kids parent)) of
             [] \<Rightarrow> chain
           | pathlessChild # _ \<Rightarrow>
               completeEmptyRouteChain pathlessChild (chain @ [(pathlessChild, [])])
                 (set_add (node_id parent) visited)))"
  by pat_completeness auto
termination
proof (relation "measure (\<lambda>(n, _). size n)")
  fix parent chain visited pathlessChild rest
  assume "sort_by compare_ids (filter pathless (kids parent)) = pathlessChild # rest"
  then have "pathlessChild \<in> set (sort_by compare_ids (filter pathless (kids parent)))" by simp
  then show "((pathlessChild, chain @ [(pathlessChild, [])], set_add (node_id parent) visited),
      parent, chain, visited) \<in> measure (\<lambda>(n, _). size n)"
    by (simp add: size_kid)
qed simp

lemma size_list_insort_by: "size_list f (insort_by cmp x xs) = Suc (f x + size_list f xs)"
  by (induction xs) auto

lemma size_list_sort_by [simp]: "size_list f (sort_by cmp xs) = size_list f xs"
  by (induction xs) (auto simp: size_list_insort_by)

function matchChildren :: "route_node \<Rightarrow> string list \<Rightarrow> chain \<Rightarrow> chain option"
  and match_ranked :: "route_node list \<Rightarrow> string list \<Rightarrow> chain \<Rightarrow> chain option" where
  "matchChildren parent segments chain =
     match_ranked (sort_by compare_siblings (kids parent)) segments chain"
| "match_ranked [] segments chain = None"
| "match_ranked (child # rest) segments chain =
     (let result = matchNodeSegments child segments in
      if \<not> nm_matched result then match_ranked rest segments chain
      else
        (let remaining = drop (nm_consumed result) segments;
             chain' = chain @ [(child, nm_params result)]
         in if remaining = [] then Some (completeEmptyRouteChain child chain' [])
            else case matchChildren child remaining chain' of
                   Some nested \<Rightarrow> Some nested
                 | None \<Rightarrow> match_ranked rest segments chain))"
  by pat_completeness auto
termination
  by (relation "measure (case_sum (\<lambda>(n, _). Suc (size n)) (\<lambda>(cs, _). Suc (size_list size cs)))")
    (auto simp: size_kids)

definition matchRouteManifestEntries :: "route_manifest \<Rightarrow> string \<Rightarrow> chain" where
  "matchRouteManifestEntries manifest path =
     (let segments = splitPath path; r = manifest_root manifest in
      if segments = [] then completeEmptyRouteChain r [(r, [])] []
      else or_else (matchChildren r segments [(r, [])]) [])"

definition matchRouteManifest :: "route_manifest \<Rightarrow> string \<Rightarrow> route_node list" where
  "matchRouteManifest manifest path = map fst (matchRouteManifestEntries manifest path)"

record resolved_match =
  rm_routeNodeId :: string
  rm_path :: string
  rm_params :: params
  rm_node :: route_node
  rm_layoutDocId :: "string option"
  rm_pageDocId :: "string option"
  rm_outletNodeId :: "string option"

text \<open>\<open>...(value ? { value } : {})\<close>: an empty string is left out.\<close>

definition nonempty_text :: "string option \<Rightarrow> string option" where
  "nonempty_text v = (if v = Some '''' then None else v)"

fun resolve_chain :: "(string \<times> string) list \<Rightarrow> params \<Rightarrow> chain \<Rightarrow> resolved_match list" where
  "resolve_chain flattened accumulated [] = []"
| "resolve_chain flattened accumulated ((n, ps) # rest) =
     (let accumulated' = foldl (\<lambda>m (k, v). alist_put k v m) accumulated ps in
      \<lparr>rm_routeNodeId = node_id n, rm_path = or_else (map_of flattened (node_id n)) ''/'',
       rm_params = accumulated', rm_node = n, rm_layoutDocId = nonempty_text (layoutDocId n),
       rm_pageDocId = nonempty_text (pageDocId n), rm_outletNodeId = nonempty_text (outletNodeId n)\<rparr>
      # resolve_chain flattened accumulated' rest)"

definition toResolvedRouteMatchChain :: "route_manifest \<Rightarrow> chain \<Rightarrow> resolved_match list" where
  "toResolvedRouteMatchChain manifest chain =
     (let flattened = alist_put (node_id (manifest_root manifest)) ''/''
            (set_paths (flattenRouteManifest manifest) [])
      in resolve_chain flattened [] chain)"

definition matchRouteManifestResolved :: "route_manifest \<Rightarrow> string \<Rightarrow> resolved_match list" where
  "matchRouteManifestResolved manifest path =
     toResolvedRouteMatchChain manifest (matchRouteManifestEntries manifest path)"

section \<open>Locations and navigation\<close>

datatype search_value = One string | Several "string list"

record route_location =
  loc_path :: string
  loc_searchParams :: "(string \<times> search_value) list"
  loc_hash :: "string option"

text \<open>
  \<open>decodeURIComponent\<close> decodes UTF-8, whose code points exceed the characters of the model; it is
  an argument, \<open>None\<close> where it throws.
\<close>

definition decodeSearchPart :: "(string \<Rightarrow> string option) \<Rightarrow> string \<Rightarrow> string" where
  "decodeSearchPart decodeURIComponent value =
     (let normalized = map (\<lambda>c. if c = CHR ''+'' then CHR '' '' else c) value in
      or_else (decodeURIComponent normalized) normalized)"

text \<open>The text before and after the first occurrence of a character.\<close>

definition cut_at :: "char \<Rightarrow> string \<Rightarrow> string \<times> string option" where
  "cut_at d s =
     (takeWhile (\<lambda>c. c \<noteq> d) s,
      (case dropWhile (\<lambda>c. c \<noteq> d) s of [] \<Rightarrow> None | _ # rest \<Rightarrow> Some rest))"

definition add_search_entry ::
  "(string \<Rightarrow> string option) \<Rightarrow> (string \<times> search_value) list \<Rightarrow> string \<Rightarrow>
   (string \<times> search_value) list" where
  "add_search_entry decodeURIComponent ps entry =
     (if entry = [] then ps
      else let key = decodeSearchPart decodeURIComponent (fst (cut_at (CHR ''='') entry));
               value = decodeSearchPart decodeURIComponent (or_else (snd (cut_at (CHR ''='') entry)) '''')
        in case map_of ps key of
             None \<Rightarrow> alist_put key (One value) ps
           | Some (Several vs) \<Rightarrow> alist_put key (Several (vs @ [value])) ps
           | Some (One v) \<Rightarrow> alist_put key (Several [v, value]) ps)"

definition parseRouteLocation :: "(string \<Rightarrow> string option) \<Rightarrow> string \<Rightarrow> route_location" where
  "parseRouteLocation decodeURIComponent value =
     (let trimmed = js_trim value;
          (beforeHash, afterHash) = cut_at (CHR ''#'') trimmed;
          hash = (case afterHash of None \<Rightarrow> None | Some h \<Rightarrow> if js_trim h \<noteq> [] then Some h else None);
          (beforeQuery, query) = cut_at (CHR ''?'') beforeHash
      in \<lparr>loc_path = normalizeRoutePath beforeQuery,
          loc_searchParams = foldl (add_search_entry decodeURIComponent) []
            (split_on (CHR ''&'') (or_else query '''')),
          loc_hash = hash\<rparr>)"

record runtime_context =
  rc_currentPath :: string
  rc_matchedPath :: string
  rc_params :: params
  rc_searchParams :: "(string \<times> search_value) list"
  rc_hash :: "string option"
  rc_matchChain :: "resolved_match list"
  rc_activeRouteNodeId :: "string option"

definition at_last :: "'a list \<Rightarrow> 'a option" where
  "at_last xs = (if xs = [] then None else Some (last xs))"

definition toRouteNodeEntries :: "route_node list \<Rightarrow> chain" where
  "toRouteNodeEntries ns = map (\<lambda>n. (n, [])) ns"

definition resolveRouteRuntimeContext ::
  "(string \<Rightarrow> string option) \<Rightarrow> route_manifest \<Rightarrow> string option \<Rightarrow> string option \<Rightarrow>
   runtime_context" where
  "resolveRouteRuntimeContext decodeURIComponent manifest currentPath routeNodeId =
     (let location = parseRouteLocation decodeURIComponent (or_else currentPath ''/'');
          by_id = (\<lambda>i. toResolvedRouteMatchChain manifest
                     (toRouteNodeEntries (resolveRouteMatchChain manifest i)));
          pathMatchedChain = matchRouteManifestResolved manifest (loc_path location);
          exactPathRouteNodeId =
            (if length pathMatchedChain > 0 then None
             else map_option item_id
               (find (\<lambda>item. item_path item = loc_path location) (flattenRouteManifest manifest)));
          matchChain1 = (case nonempty_text exactPathRouteNodeId of
                           None \<Rightarrow> pathMatchedChain | Some i \<Rightarrow> by_id i);
          requested = js_trim (or_else routeNodeId '''');
          matchChain = (if requested \<noteq> [] \<and>
                           map_option rm_routeNodeId (at_last pathMatchedChain) \<noteq> Some requested
                        then by_id requested else matchChain1);
          activeRoute = at_last (filter (\<lambda>item. rm_routeNodeId item \<noteq> node_id (manifest_root manifest))
                          matchChain)
      in \<lparr>rc_currentPath = loc_path location,
          rc_matchedPath = (if matchChain \<noteq> [] then loc_path location else ''/''),
          rc_params = (case activeRoute of None \<Rightarrow> [] | Some r \<Rightarrow> rm_params r),
          rc_searchParams = loc_searchParams location, rc_hash = loc_hash location,
          rc_matchChain = matchChain,
          rc_activeRouteNodeId = nonempty_text (map_option rm_routeNodeId activeRoute)\<rparr>)"

definition resolveRouteNodePath :: "route_manifest \<Rightarrow> string \<Rightarrow> string option" where
  "resolveRouteNodePath manifest routeNodeId =
     (if node_id (manifest_root manifest) = routeNodeId then Some ''/''
      else map_option item_path
        (find (\<lambda>item. item_id item = routeNodeId) (flattenRouteManifest manifest)))"

definition resolveRelativeRoutePath :: "string \<Rightarrow> string \<Rightarrow> string" where
  "resolveRelativeRoutePath currentPath targetPath =
     (let trimmed = js_trim targetPath in
      if trimmed = [] then normalizeRoutePath currentPath
      else if starts_with trimmed ''?'' \<or> starts_with trimmed ''#''
        then normalizeRoutePath currentPath @ trimmed
      else if starts_with trimmed ''/'' then trimmed
      else
        (let is_suffix = (\<lambda>c. c = CHR ''?'' \<or> c = CHR ''#'');
             pathPart = takeWhile (\<lambda>c. \<not> is_suffix c) trimmed;
             rest = dropWhile (\<lambda>c. \<not> is_suffix c) trimmed;
             segments = foldl (\<lambda>acc seg. if seg = ''.'' then acc
                                         else if seg = ''..'' then butlast acc else acc @ [seg])
               (splitPath currentPath)
               (filter (\<lambda>s. s \<noteq> []) (map js_trim (split_on (CHR ''/'') pathPart)))
         in (if segments \<noteq> [] then ''/'' @ join_with ''/'' segments else ''/'') @ rest))"

text \<open>\<open>routeNavigation.ts\<close>.\<close>

datatype link_kind = External | Internal

definition getNavigateLinkKind :: "string \<Rightarrow> link_kind option" where
  "getNavigateLinkKind target =
     (if starts_with target ''https://'' \<or> starts_with target ''http://'' then Some External
      else if starts_with target ''/'' \<or> starts_with target ''#'' \<or> starts_with target ''?''
        then Some Internal
      else None)"

definition isSafeNavigateTo :: "string \<Rightarrow> bool" where
  "isSafeNavigateTo target \<longleftrightarrow> getNavigateLinkKind target \<noteq> None"

text \<open>The pattern \<open>^[a-z][a-z0-9+.-]*:\<close>, without case.\<close>

definition is_letter :: "char \<Rightarrow> bool" where
  "is_letter c \<longleftrightarrow> (let n = (of_char c :: nat) in (65 \<le> n \<and> n \<le> 90) \<or> (97 \<le> n \<and> n \<le> 122))"

definition has_scheme :: "string \<Rightarrow> bool" where
  "has_scheme s \<longleftrightarrow>
     s \<noteq> [] \<and> is_letter (hd s) \<and>
     (let rest = dropWhile (\<lambda>c. is_letter c \<or> is_digit c \<or> c \<in> set ''+.-'') (tl s)
      in rest \<noteq> [] \<and> hd rest = CHR '':'')"

datatype navigation_result =
    NavExternal string
  | NavInternal runtime_context
  | NavUnmatched string

definition resolveNavigateTarget ::
  "(string \<Rightarrow> string option) \<Rightarrow> route_manifest \<Rightarrow> string \<Rightarrow> string option \<Rightarrow> string option \<Rightarrow>
   string option \<Rightarrow> navigation_result" where
  "resolveNavigateTarget decodeURIComponent manifest currentPath to_text target_path target_routeNodeId =
     (let routeNodeId = js_trim (or_else target_routeNodeId '''');
          rawPath = js_trim (or_else target_path (or_else to_text ''''))
      in
      if routeNodeId \<noteq> [] then
        (case resolveRouteNodePath manifest routeNodeId of
           None \<Rightarrow> NavUnmatched currentPath
         | Some path \<Rightarrow>
             if path = [] then NavUnmatched currentPath
             else NavInternal (resolveRouteRuntimeContext decodeURIComponent manifest (Some path)
                    (Some routeNodeId)))
      else if rawPath = [] then NavUnmatched currentPath
      else if getNavigateLinkKind rawPath = Some External then NavExternal rawPath
      else if has_scheme (takeWhile (\<lambda>c. c \<noteq> CHR ''?'' \<and> c \<noteq> CHR ''#'') rawPath) \<and>
              \<not> starts_with rawPath ''/'' then NavUnmatched rawPath
      else
        (let path = resolveRelativeRoutePath currentPath rawPath;
             runtimeContext = resolveRouteRuntimeContext decodeURIComponent manifest (Some path) None
         in
         if rc_matchChain runtimeContext = [] then
           (let normalizedPath = loc_path (parseRouteLocation decodeURIComponent path) in
            case find (\<lambda>item. item_path item = normalizedPath) (flattenRouteManifest manifest) of
              Some exactRoute \<Rightarrow>
                NavInternal (resolveRouteRuntimeContext decodeURIComponent manifest
                  (Some normalizedPath) (Some (item_id exactRoute)))
            | None \<Rightarrow> NavUnmatched normalizedPath)
         else NavInternal runtimeContext))"

record resolved_outlet =
  ro_routeNodeId :: string
  ro_outletName :: string
  ro_outletNodeId :: string
  ro_pageDocId :: "string option"

fun outlet_of_chain :: "string \<Rightarrow> route_node list \<Rightarrow> resolved_outlet option" where
  "outlet_of_chain name [] = None"
| "outlet_of_chain name (n # ns) =
     (case map_of (or_else (outletBindings n) []) name of
        Some binding \<Rightarrow>
          if js_trim (ob_outletNodeId binding) \<noteq> []
          then Some \<lparr>ro_routeNodeId = node_id n, ro_outletName = name,
                     ro_outletNodeId = ob_outletNodeId binding, ro_pageDocId = ob_pageDocId binding\<rparr>
          else if name = ''default'' \<and> js_trim (or_else (outletNodeId n) '''') \<noteq> []
          then Some \<lparr>ro_routeNodeId = node_id n, ro_outletName = name,
                     ro_outletNodeId = the (outletNodeId n), ro_pageDocId = pageDocId n\<rparr>
          else outlet_of_chain name ns
      | None \<Rightarrow>
          if name = ''default'' \<and> js_trim (or_else (outletNodeId n) '''') \<noteq> []
          then Some \<lparr>ro_routeNodeId = node_id n, ro_outletName = name,
                     ro_outletNodeId = the (outletNodeId n), ro_pageDocId = pageDocId n\<rparr>
          else outlet_of_chain name ns)"

text \<open>The loop runs from the last node of the chain to the first.\<close>

definition resolveOutletBinding :: "route_node list \<Rightarrow> string \<Rightarrow> resolved_outlet option" where
  "resolveOutletBinding chain outletName =
     outlet_of_chain (if js_trim outletName = [] then ''default'' else js_trim outletName) (rev chain)"

text \<open>\<open>routeCodec.ts\<close>: the route a workspace shows.\<close>

definition resolveDefaultActiveRouteNodeId :: "route_manifest \<Rightarrow> string" where
  "resolveDefaultActiveRouteNodeId manifest =
     (case kids (manifest_root manifest) of
        [] \<Rightarrow> node_id (manifest_root manifest) | c # _ \<Rightarrow> node_id c)"

definition resolveActiveRouteNodeId :: "route_manifest \<Rightarrow> string option list \<Rightarrow> string" where
  "resolveActiveRouteNodeId manifest candidateIds =
     (let composedManifest = fst (composeRouteManifestWithModules manifest) in
      case find (\<lambda>v. js_trim (or_else v '''') \<noteq> [] \<and>
                     hasRouteNodeId (manifest_root composedManifest) (js_trim (or_else v '''')))
             candidateIds of
        Some (Some candidate) \<Rightarrow> js_trim candidate
      | _ \<Rightarrow> resolveDefaultActiveRouteNodeId composedManifest)"

section \<open>Validation\<close>

datatype route_issue_code =
  RTE_1001 | RTE_1002 | RTE_1010 | RTE_2001 | RTE_2010 | RTE_2011

record route_issue =
  ri_code :: route_issue_code
  ri_routeNodeId :: string
  ri_artifactId :: "string option"

definition route_issue :: "route_issue_code \<Rightarrow> route_node \<Rightarrow> string option \<Rightarrow> route_issue" where
  "route_issue code n a = \<lparr>ri_code = code, ri_routeNodeId = node_id n, ri_artifactId = a\<rparr>"

definition routeDuplicateKey :: "route_node \<Rightarrow> string" where
  "routeDuplicateKey n =
     (if isIndexRouteNode n then ''__index__''
      else case normalizeRouteSegment (segment n) of
             SegmentOk s _ _ \<Rightarrow> s
           | SegmentError _ _ \<Rightarrow> ''__invalid__:'' @ node_id n)"

definition missing_document_issue ::
  "(string \<Rightarrow> bool) option \<Rightarrow> route_node \<Rightarrow> string option \<Rightarrow> route_issue list" where
  "missing_document_issue documentExists n d =
     (case (documentExists, nonempty_text d) of
        (Some exists, Some documentId) \<Rightarrow>
          if exists documentId then [] else [route_issue RTE_2001 n None]
      | _ \<Rightarrow> [])"

definition runtime_refs :: "route_node \<Rightarrow> code_reference list" where
  "runtime_refs n =
     (case runtime n of
        None \<Rightarrow> []
      | Some r \<Rightarrow> List.map_filter (\<lambda>x. x) [loaderRef r, actionRef r, guardRef r])"

definition runtime_issues ::
  "(string \<Rightarrow> bool) option \<Rightarrow> route_node \<Rightarrow> route_issue list" where
  "runtime_issues codeArtifactExists n =
     concat (map (\<lambda>ref.
       if js_trim (artifactId ref) = [] then [route_issue RTE_2010 n None]
       else (case codeArtifactExists of
               Some exists \<Rightarrow>
                 if exists (artifactId ref) then []
                 else [route_issue RTE_2011 n (Some (artifactId ref))]
             | None \<Rightarrow> []))
       (runtime_refs n))"

text \<open>The checks of one node; then its children in order, each after its own sibling check.\<close>

definition node_issues ::
  "(string \<Rightarrow> bool) option \<Rightarrow> (string \<Rightarrow> bool) option \<Rightarrow> route_node \<Rightarrow> route_issue list" where
  "node_issues documentExists codeArtifactExists n =
     (if isIndexRouteNode n \<and> js_trim (or_else (segment n) '''') \<noteq> []
      then [route_issue RTE_1002 n None] else []) @
     (if \<not> isIndexRouteNode n \<and>
         (case normalizeRouteSegment (segment n) of SegmentError _ _ \<Rightarrow> True | _ \<Rightarrow> False)
      then [route_issue RTE_1010 n None] else []) @
     missing_document_issue documentExists n (pageDocId n) @
     missing_document_issue documentExists n (layoutDocId n) @
     runtime_issues codeArtifactExists n"

function walk_route ::
  "(string \<Rightarrow> bool) option \<Rightarrow> (string \<Rightarrow> bool) option \<Rightarrow> route_node \<Rightarrow> route_issue list"
  and walk_siblings ::
  "(string \<Rightarrow> bool) option \<Rightarrow> (string \<Rightarrow> bool) option \<Rightarrow> string list \<Rightarrow> route_node list \<Rightarrow>
   route_issue list" where
  "walk_route documentExists codeArtifactExists n =
     node_issues documentExists codeArtifactExists n @
     walk_siblings documentExists codeArtifactExists [] (kids n)"
| "walk_siblings documentExists codeArtifactExists siblingKeys [] = []"
| "walk_siblings documentExists codeArtifactExists siblingKeys (child # rest) =
     (let key = routeDuplicateKey child in
      (if key \<in> set siblingKeys then [route_issue RTE_1001 child None] else []) @
      walk_route documentExists codeArtifactExists child @
      walk_siblings documentExists codeArtifactExists (set_add key siblingKeys) rest)"
  by pat_completeness auto
termination
  by (relation "measure (case_sum (\<lambda>(_, _, n). Suc (size n)) (\<lambda>(_, _, _, cs). Suc (size_list size cs)))")
    (auto simp: size_kids)

definition validateRouteManifest ::
  "route_manifest \<Rightarrow> (string \<Rightarrow> bool) option \<Rightarrow> (string \<Rightarrow> bool) option \<Rightarrow> route_issue list" where
  "validateRouteManifest manifest documentExists codeArtifactExists =
     walk_route documentExists codeArtifactExists (manifest_root manifest) @
     concat (map (\<lambda>(_, m). walk_route documentExists codeArtifactExists (module_root m))
       (or_else (manifest_modules manifest) []))"

end
