(* ===== verification/RouteLaws.thy ===== *)
theory RouteLaws
  imports Route
begin

text \<open>
  The laws of the route core: the ranking of siblings is a consistent comparator, the matcher is
  sound and complete and follows the ranking, paths are in normal form, and the edits of the tree
  keep its nodes.
\<close>

section \<open>The ranking of siblings\<close>

lemma kinds_difference_neg: "kinds_difference l r = - kinds_difference r l"
  by (induction l r rule: kinds_difference.induct) auto

lemma kinds_difference_Nil_neg:
  "kinds_difference l [] = - kinds_difference [] l"
  by (rule kinds_difference_neg)

lemma kinds_difference_trans:
  "kinds_difference l r \<le> 0 \<Longrightarrow> kinds_difference r s \<le> 0 \<Longrightarrow> kinds_difference l s \<le> 0"
proof (induction l r arbitrary: s rule: kinds_difference.induct)
  case (2 l ls)
  then show ?case by (cases s) (auto split: if_splits)
next
  case (3 r rs)
  then show ?case by (cases s) (auto split: if_splits)
next
  case (4 l ls r rs)
  then show ?case by (cases s) (auto split: if_splits)
qed simp

definition index_difference :: "route_node \<Rightarrow> route_node \<Rightarrow> int" where
  "index_difference l r =
     (if isIndexRouteNode l = isIndexRouteNode r then 0 else if isIndexRouteNode l then 1 else -1)"

definition sibling_kinds :: "route_node \<Rightarrow> int list" where
  "sibling_kinds n = map matcher_rank (createSegmentMatchers n)"

lemma compare_siblings_or:
  "compare_siblings = or_compare index_difference
     (or_compare (\<lambda>l r. kinds_difference (sibling_kinds l) (sibling_kinds r))
       (or_compare (\<lambda>l r. int (length (sibling_kinds r)) - int (length (sibling_kinds l)))
         (\<lambda>l r. compareUnicodeCodePoints (node_id l) (node_id r))))"
  by (auto simp: compare_siblings_def or_compare_def index_difference_def sibling_kinds_def Let_def
      fun_eq_iff)

lemma consistent_index: "consistent index_difference"
  by (auto simp: consistent_def index_difference_def)

lemma consistent_kinds: "consistent kinds_difference"
  unfolding consistent_def
proof (intro conjI allI impI)
  fix l r show "sgn (kinds_difference l r) = - sgn (kinds_difference r l)"
    by (subst kinds_difference_neg) (simp add: sgn_if)
qed (rule kinds_difference_trans)

lemma consistent_lengths: "consistent (\<lambda>(a :: int list) b. int (length b) - int (length a))"
  unfolding consistent_def by (auto simp: sgn_if)

lemma consistent_siblings: "consistent compare_siblings"
  unfolding compare_siblings_or
  by (intro consistent_or consistent_index consistent_map [OF consistent_kinds]
      consistent_map [OF consistent_code_points] consistent_map [OF consistent_lengths])

interpretation siblings: comparator "\<lambda>_. True" compare_siblings
  by (rule consistent_comparator [OF consistent_siblings])

section \<open>Matching\<close>

text \<open>
  The specification of a match: some branch below the node consumes the whole path. It says
  nothing of the order in which the matcher tries the branches.
\<close>

definition rest_after :: "route_node \<Rightarrow> string list \<Rightarrow> string list" where
  "rest_after c segs = drop (nm_consumed (matchNodeSegments c segs)) segs"

inductive consumes :: "route_node \<Rightarrow> string list \<Rightarrow> bool" where
  here: "nm_matched (matchNodeSegments c segs) \<Longrightarrow> rest_after c segs = [] \<Longrightarrow> consumes c segs"
| below: "nm_matched (matchNodeSegments c segs) \<Longrightarrow> rest_after c segs \<noteq> [] \<Longrightarrow> d \<in> set (kids c) \<Longrightarrow>
    consumes d (rest_after c segs) \<Longrightarrow> consumes c segs"

inductive_cases consumes_cases: "consumes c segs"
inductive_simps consumes_iff: "consumes c segs"

declare matchChildren.simps [simp del]

lemma match_ranked_Cons:
  "match_ranked (c # cs) segs ch =
     (if \<not> nm_matched (matchNodeSegments c segs) then match_ranked cs segs ch
      else let ch' = ch @ [(c, nm_params (matchNodeSegments c segs))] in
        if rest_after c segs = [] then Some (completeEmptyRouteChain c ch' [])
        else case matchChildren c (rest_after c segs) ch' of
               Some nested \<Rightarrow> Some nested | None \<Rightarrow> match_ranked cs segs ch)"
  by (simp add: Let_def rest_after_def split: option.split)

declare match_ranked.simps(2) [simp del]

theorem matchChildren_complete:
  "matchChildren parent segs ch \<noteq> None \<longleftrightarrow> (\<exists>c \<in> set (kids parent). consumes c segs)"
  "match_ranked cs segs ch \<noteq> None \<longleftrightarrow> (\<exists>c \<in> set cs. consumes c segs)"
proof (induction parent segs ch and cs segs ch rule: matchChildren_match_ranked.induct)
  case (1 parent segs ch)
  then show ?case by (simp add: matchChildren.simps)
next
  case (3 child rest segs ch)
  let ?m = "nm_matched (matchNodeSegments child segs)"
  let ?ch = "ch @ [(child, nm_params (matchNodeSegments child segs))]"
  consider (no) "\<not> ?m" | (ends) "?m" "rest_after child segs = []"
    | (more) "?m" "rest_after child segs \<noteq> []" by blast
  then show ?case
  proof cases
    case no
    then have "\<not> consumes child segs" by (auto elim: consumes_cases)
    with no 3(1) show ?thesis by (simp add: match_ranked_Cons)
  next
    case ends
    then have "consumes child segs" by (rule consumes.here)
    with ends show ?thesis by (simp add: match_ranked_Cons Let_def)
  next
    case more
    then have iff: "consumes child segs \<longleftrightarrow> (\<exists>d \<in> set (kids child). consumes d (rest_after child segs))"
      by (subst consumes_iff) auto
    from 3(2) [OF refl] more have "matchChildren child (rest_after child segs) ?ch \<noteq> None \<longleftrightarrow>
        (\<exists>d \<in> set (kids child). consumes d (rest_after child segs))"
      by (simp add: rest_after_def)
    moreover from 3(3) [OF refl] more have "matchChildren child (rest_after child segs) ?ch = None \<Longrightarrow>
        match_ranked rest segs ch \<noteq> None \<longleftrightarrow> (\<exists>c \<in> set rest. consumes c segs)"
      by (simp add: rest_after_def)
    ultimately show ?thesis
      using more iff
      by (cases "matchChildren child (rest_after child segs) ?ch") (auto simp: match_ranked_Cons Let_def)
  qed
qed simp

text \<open>A chain descends the tree: each node is a child of the one before it.\<close>

definition linked :: "chain \<Rightarrow> bool" where
  "linked ch \<longleftrightarrow> successively (\<lambda>a b. fst b \<in> set (kids (fst a))) ch"

lemma linked_snoc:
  "ch \<noteq> [] \<Longrightarrow> linked (ch @ [(c, ps)]) \<longleftrightarrow> linked ch \<and> c \<in> set (kids (fst (last ch)))"
  by (auto simp: linked_def successively_append_iff)

lemma completeEmptyRouteChain_linked:
  "ch \<noteq> [] \<Longrightarrow> linked ch \<Longrightarrow> fst (last ch) = parent \<Longrightarrow>
   linked (completeEmptyRouteChain parent ch visited) \<and>
   prefix ch (completeEmptyRouteChain parent ch visited)"
proof (induction parent ch visited rule: completeEmptyRouteChain.induct)
  case (1 parent ch visited)
  show ?case
  proof (cases "node_id parent \<in> set visited")
    case True
    with 1 show ?thesis by simp
  next
    case fresh: False
    show ?thesis
    proof (cases "find isIndexRouteNode (kids parent)")
      case (Some c)
      then have "c \<in> set (kids parent)" by (auto simp: find_Some_iff)
      with 1 fresh Some show ?thesis by (simp add: linked_snoc)
    next
      case None
      show ?thesis
      proof (cases "sort_by compare_ids (filter pathless (kids parent))")
        case Nil
        with 1 fresh None show ?thesis by simp
      next
        case (Cons c cs)
        then have "c \<in> set (sort_by compare_ids (filter pathless (kids parent)))" by simp
        then have c: "c \<in> set (kids parent)" by simp
        let ?next = "ch @ [(c, [])]"
        have "linked (completeEmptyRouteChain c ?next (set_add (node_id parent) visited)) \<and>
            prefix ?next (completeEmptyRouteChain c ?next (set_add (node_id parent) visited))"
          using 1 fresh None Cons c by (intro 1(1)) (auto simp: linked_snoc)
        with fresh None Cons show ?thesis by (auto dest: append_prefixD)
      qed
    qed
  qed
qed

theorem matchChildren_linked:
  "matchChildren parent segs ch = Some out \<Longrightarrow> ch \<noteq> [] \<Longrightarrow> linked ch \<Longrightarrow> fst (last ch) = parent \<Longrightarrow>
     linked out \<and> prefix ch out"
  "match_ranked cs segs ch = Some out \<Longrightarrow> ch \<noteq> [] \<Longrightarrow> linked ch \<Longrightarrow>
     set cs \<subseteq> set (kids (fst (last ch))) \<Longrightarrow> linked out \<and> prefix ch out"
proof (induction parent segs ch and cs segs ch arbitrary: out and out
    rule: matchChildren_match_ranked.induct)
  case (1 parent segs ch)
  from 1(2) have "match_ranked (sort_by compare_siblings (kids parent)) segs ch = Some out"
    by (simp add: matchChildren.simps)
  then show ?case using 1(3-5) by (intro 1(1)) auto
next
  case (3 child rest segs ch)
  let ?m = "nm_matched (matchNodeSegments child segs)"
  let ?ch = "ch @ [(child, nm_params (matchNodeSegments child segs))]"
  have next_linked: "linked ?ch" using 3(5-7) by (simp add: linked_snoc)
  have rest: "linked out \<and> prefix ch out" if "match_ranked rest segs ch = Some out"
    and "?m \<Longrightarrow> rest_after child segs \<noteq> [] \<and> matchChildren child (rest_after child segs) ?ch = None"
  proof (cases ?m)
    case True
    then show ?thesis
      using 3(5-7) that by (intro 3(3) [OF refl]) (auto simp: rest_after_def)
  next
    case False
    then show ?thesis using 3(5-7) that(1) by (intro 3(1) [OF refl]) auto
  qed
  show ?case
  proof (cases "?m \<and> rest_after child segs = []")
    case True
    then have "out = completeEmptyRouteChain child ?ch []"
      using 3(4) by (simp add: match_ranked_Cons Let_def)
    then show ?thesis
      using completeEmptyRouteChain_linked [OF _ next_linked, of child "[]"]
      by (auto dest: append_prefixD)
  next
    case no_end: False
    show ?thesis
    proof (cases "?m \<and> matchChildren child (rest_after child segs) ?ch \<noteq> None")
      case True
      then have "matchChildren child (rest_after child segs) ?ch = Some out"
        using 3(4) no_end by (auto simp: match_ranked_Cons Let_def)
      then have "linked out \<and> prefix ?ch out"
        using True no_end next_linked by (intro 3(2) [OF refl]) (auto simp: rest_after_def)
      then show ?thesis by (auto dest: append_prefixD)
    next
      case False
      then have "match_ranked rest segs ch = Some out"
        using 3(4) no_end by (simp add: match_ranked_Cons Let_def split: if_splits)
      then show ?thesis using False no_end by (intro rest) auto
    qed
  qed
qed simp

text \<open>The branch taken is the first in the ranking among those that consume the path.\<close>

lemma match_ranked_first:
  "match_ranked cs segs ch = Some out \<Longrightarrow>
   \<exists>pre c post. cs = pre @ c # post \<and> consumes c segs \<and> (\<forall>d \<in> set pre. \<not> consumes d segs) \<and>
     match_ranked [c] segs ch = Some out"
proof (induction cs)
  case (Cons c cs)
  show ?case
  proof (cases "match_ranked [c] segs ch")
    case None
    then have no: "\<not> consumes c segs" using matchChildren_complete(2) [of "[c]" segs ch] by simp
    from None have "match_ranked (c # cs) segs ch = match_ranked cs segs ch"
      by (auto simp: match_ranked_Cons Let_def split: if_splits option.splits)
    then obtain pre d post where "cs = pre @ d # post" "consumes d segs"
      "\<forall>d \<in> set pre. \<not> consumes d segs" "match_ranked [d] segs ch = Some out"
      using Cons by auto
    with no show ?thesis by (intro exI [of _ "c # pre"] exI [of _ d] exI [of _ post]) auto
  next
    case (Some out')
    then have "consumes c segs" using matchChildren_complete(2) [of "[c]" segs ch] by simp
    moreover have "match_ranked (c # cs) segs ch = Some out'"
      using Some by (auto simp: match_ranked_Cons Let_def split: if_splits option.splits)
    ultimately show ?thesis using Some Cons.prems by fastforce
  qed
qed simp

lemma completeEmptyRouteChain_nth:
  assumes "ch \<noteq> []" "linked ch" "fst (last ch) = parent" "i < length ch"
  shows "completeEmptyRouteChain parent ch visited ! i = ch ! i"
    and "length ch \<le> length (completeEmptyRouteChain parent ch visited)"
  using completeEmptyRouteChain_linked [OF assms(1-3), of visited] assms(4)
  by (auto simp: prefix_def nth_append)

theorem matchChildren_best:
  assumes "matchChildren parent segs ch = Some out" and "ch \<noteq> []" and "linked ch"
    and "fst (last ch) = parent"
  shows "\<exists>c ps. prefix (ch @ [(c, ps)]) out \<and> c \<in> set (kids parent) \<and> consumes c segs \<and>
    (\<forall>d \<in> set (kids parent). consumes d segs \<longrightarrow> compare_siblings c d \<le> 0)"
proof -
  from assms(1) have "match_ranked (sort_by compare_siblings (kids parent)) segs ch = Some out"
    by (simp add: matchChildren.simps)
  then obtain pre c post where split: "sort_by compare_siblings (kids parent) = pre @ c # post"
    and c: "consumes c segs" and pre: "\<forall>d \<in> set pre. \<not> consumes d segs"
    and out: "match_ranked [c] segs ch = Some out"
    using match_ranked_first by blast
  have set: "set (kids parent) = set (pre @ c # post)"
    by (simp only: split [symmetric] set_sort_by)
  have "sorted_wrt (\<lambda>a b. compare_siblings a b \<le> 0) (pre @ c # post)"
    using siblings.sorted_sort_by [of "kids parent"] by (simp add: split)
  then have "compare_siblings c d \<le> 0" if "d \<in> set (c # post)" for d
    using that siblings.refl by (auto simp: sorted_wrt_append)
  then have "\<forall>d \<in> set (kids parent). consumes d segs \<longrightarrow> compare_siblings c d \<le> 0"
    using set pre by auto
  moreover have ck: "c \<in> set (kids parent)" using set by simp
  moreover have "prefix (ch @ [(c, nm_params (matchNodeSegments c segs))]) out"
  proof -
    let ?ch = "ch @ [(c, nm_params (matchNodeSegments c segs))]"
    have l: "linked ?ch" using assms(2-4) ck by (simp add: linked_snoc)
    from out consider "out = completeEmptyRouteChain c ?ch []"
      | "matchChildren c (rest_after c segs) ?ch = Some out"
      by (auto simp: match_ranked_Cons Let_def split: if_splits option.splits)
    then show ?thesis
      using completeEmptyRouteChain_linked [OF _ l, of c "[]"] matchChildren_linked(1) [OF _ _ l]
      by cases auto
  qed
  ultimately show ?thesis using c by blast
qed

section \<open>Paths in normal form\<close>

lemma dropWhile_hd: "dropWhile P s \<noteq> [] \<Longrightarrow> \<not> P (hd (dropWhile P s))"
  by (induction s) auto

lemma js_trim_ends:
  assumes "js_trim s \<noteq> []"
  shows "\<not> js_space (hd (js_trim s))" and "\<not> js_space (last (js_trim s))"
proof -
  let ?d = "dropWhile js_space s"
  let ?r = "dropWhile js_space (rev ?d)"
  have r: "?r \<noteq> []" using assms unfolding js_trim_def by (simp only: rev_is_Nil_conv not_False_eq_True)
  then show "\<not> js_space (last (js_trim s))"
    using dropWhile_hd [OF r] by (simp add: js_trim_def last_rev)
  obtain t where "rev ?d = t @ ?r" by (metis takeWhile_dropWhile_id)
  then have "?d = rev ?r @ rev t" by (metis rev_append rev_rev_ident)
  moreover have "?d \<noteq> []"
  proof
    assume "?d = []"
    then have "?r = []" by (simp only: rev.simps dropWhile.simps)
    with r show False by contradiction
  qed
  ultimately have "hd (rev ?r) = hd ?d" using r by (metis hd_append2 rev_is_Nil_conv)
  then show "\<not> js_space (hd (js_trim s))"
    using dropWhile_hd [OF \<open>?d \<noteq> []\<close>] by (simp add: js_trim_def)
qed

lemma js_trim_id:
  assumes "s \<noteq> []" and "\<not> js_space (hd s)" and "\<not> js_space (last s)"
  shows "js_trim s = s"
proof -
  have "dropWhile js_space s = s" using assms by (cases s) auto
  moreover have "dropWhile js_space (rev s) = rev s"
    using assms by (cases s rule: rev_cases) auto
  ultimately show ?thesis by (simp add: js_trim_def)
qed

lemma js_trim_idem [simp]: "js_trim (js_trim s) = js_trim s"
  using js_trim_id [of "js_trim s"] js_trim_ends [of s] by (cases "js_trim s = []") auto

lemma set_js_trim: "set (js_trim s) \<subseteq> set s"
  by (auto simp: js_trim_def dest!: set_dropWhileD)

lemma set_split_on: "w \<in> set (split_on d s) \<Longrightarrow> set w \<subseteq> set s - {d}"
proof (induction d s arbitrary: w rule: split_on.induct)
  case (2 d c cs)
  show ?case
  proof (cases "split_on d cs")
    case (Cons a list)
    then have "set a \<subseteq> set cs - {d}" "\<forall>w \<in> set list. set w \<subseteq> set cs - {d}"
      using 2 by (cases "c = d"; auto)+
    then show ?thesis using 2(3) Cons by (auto split: if_splits)
  qed simp
qed auto

definition path_pieces :: "string \<Rightarrow> string list" where
  "path_pieces v =
     filter (\<lambda>p. p \<noteq> []) (map js_trim (split_on (CHR ''/'')
       (hd (split_on (CHR ''?'') (hd (split_on (CHR ''#'') (js_trim v)))))))"

lemma normalizeRoutePath_pieces:
  "normalizeRoutePath v =
     (if path_pieces v = [] then ''/'' else ''/'' @ join_with ''/'' (path_pieces v))"
  by (cases "js_trim v = []") (auto simp: normalizeRoutePath_def path_pieces_def Let_def)

lemma path_pieces_props:
  assumes "p \<in> set (path_pieces v)"
  shows "p \<noteq> []" "js_trim p = p" "CHR ''/'' \<notin> set p" "CHR ''?'' \<notin> set p" "CHR ''#'' \<notin> set p"
proof -
  let ?a = "hd (split_on (CHR ''#'') (js_trim v))"
  let ?b = "hd (split_on (CHR ''?'') ?a)"
  have a: "set ?a \<subseteq> set (js_trim v) - {CHR ''#''}" by (rule set_split_on) simp
  have b: "set ?b \<subseteq> set ?a - {CHR ''?''}" by (rule set_split_on) simp
  obtain w where w: "w \<in> set (split_on (CHR ''/'') ?b)" "p = js_trim w" "p \<noteq> []"
    using assms by (auto simp: path_pieces_def)
  have "set p \<subseteq> set ?b - {CHR ''/''}"
    using set_split_on [OF w(1)] set_js_trim [of w] w(2) by blast
  with a b w show "p \<noteq> []" "js_trim p = p" "CHR ''/'' \<notin> set p" "CHR ''?'' \<notin> set p"
    "CHR ''#'' \<notin> set p" by auto
qed

lemma set_join_with: "set (join_with sep ws) \<subseteq> set sep \<union> \<Union> (set ` set ws)"
  by (induction sep ws rule: join_with.induct) auto

lemma last_join_with:
  "ws \<noteq> [] \<Longrightarrow> last ws \<noteq> [] \<Longrightarrow> join_with sep ws \<noteq> [] \<and> last (join_with sep ws) = last (last ws)"
  by (induction sep ws rule: join_with.induct) auto

lemma path_pieces_join:
  assumes "ps \<noteq> []" and "\<forall>p \<in> set ps. p \<noteq> [] \<and> js_trim p = p \<and> CHR ''/'' \<notin> set p \<and>
      CHR ''?'' \<notin> set p \<and> CHR ''#'' \<notin> set p"
  shows "path_pieces (''/'' @ join_with ''/'' ps) = ps"
proof -
  let ?v = "''/'' @ join_with ''/'' ps"
  have l: "last ps \<in> set ps" using assms(1) by simp
  then have "last ps \<noteq> []" "\<not> js_space (last (last ps))"
    using assms(2) js_trim_ends(2) [of "last ps"] by auto
  then have "js_trim ?v = ?v"
    using last_join_with [OF assms(1), of "''/''"] by (intro js_trim_id) (auto simp: js_space_def)
  moreover have "CHR ''?'' \<notin> set ?v" "CHR ''#'' \<notin> set ?v"
    using assms(2) set_join_with [of "''/''" ps] by auto
  moreover have "split_on (CHR ''/'') (join_with ''/'' ps) = ps"
    using assms by (intro split_on_join) auto
  moreover have "map js_trim ps = ps" "filter (\<lambda>p. p \<noteq> []) ps = ps"
    using assms(2) by (auto intro: map_idI)
  ultimately show ?thesis by (simp add: path_pieces_def split_on_no_sep)
qed

theorem normalizeRoutePath_idem: "normalizeRoutePath (normalizeRoutePath v) = normalizeRoutePath v"
proof (cases "path_pieces v = []")
  case True
  then show ?thesis
    by (simp add: normalizeRoutePath_pieces) (simp add: path_pieces_def js_trim_def js_space_def)
next
  case False
  then have "path_pieces (''/'' @ join_with ''/'' (path_pieces v)) = path_pieces v"
    using path_pieces_props by (intro path_pieces_join) auto
  with False show ?thesis by (simp add: normalizeRoutePath_pieces)
qed

text \<open>\<open>splitPath\<close> gives the pieces of the path.\<close>

theorem splitPath_pieces: "splitPath v = path_pieces v"
proof (cases "path_pieces v = []")
  case True
  then show ?thesis by (simp add: splitPath_def normalizeRoutePath_pieces)
next
  case False
  then have "split_on (CHR ''/'') (join_with ''/'' (path_pieces v)) = path_pieces v"
    using path_pieces_props by (intro split_on_join) auto
  moreover have "join_with ''/'' (path_pieces v) \<noteq> []"
    using last_join_with [OF False] path_pieces_props(1) False by (metis last_in_set)
  ultimately show ?thesis using False by (simp add: splitPath_def normalizeRoutePath_pieces)
qed

section \<open>Edits of the tree\<close>

text \<open>The ids of a tree, in the order of a walk from its root.\<close>

fun node_ids :: "route_node \<Rightarrow> string list" where
  "node_ids n = node_id n # concat (map node_ids (kids n))"

declare node_ids.simps [simp del] updateRouteNodeById.simps [simp del]
  removeRouteNodeById.simps [simp del] findRouteNodeById.simps [simp del]
  findRouteNodeParentInfo.simps [simp del] hasRouteNodeId.simps [simp del]

definition below_ids :: "route_node \<Rightarrow> string list" where
  "below_ids n = concat (map node_ids (kids n))"

lemma node_ids_below: "node_ids n = node_id n # below_ids n"
  by (simp add: node_ids.simps [of n] below_ids_def)

lemma node_id_in_node_ids [simp]: "node_id n \<in> set (node_ids n)"
  by (simp add: node_ids_below [of n])

lemma node_ids_set_children [simp]:
  "node_ids (set_children cs n) = node_id n # concat (map node_ids cs)"
  by (simp add: node_ids_below [of "set_children cs n"] below_ids_def)

lemma find_middle: "\<forall>x \<in> set us. \<not> P x \<Longrightarrow> P c \<Longrightarrow> find P (us @ c # vs) = Some c"
  by (induction us) auto

lemma below_ids_set_children [simp]: "below_ids (set_children cs n) = concat (map node_ids cs)"
  by (simp add: below_ids_def)

lemma node_induct [case_names Node]:
  assumes "\<And>n. (\<And>c. c \<in> set (kids n) \<Longrightarrow> P c) \<Longrightarrow> P n"
  shows "P n"
proof (induction n rule: measure_induct_rule [where f = size])
  case (less n)
  show ?case by (rule assms) (rule less, rule size_kid)
qed

lemma set_node_ids:
  "i \<in> set (node_ids n) \<longleftrightarrow> node_id n = i \<or> (\<exists>c \<in> set (kids n). i \<in> set (node_ids c))"
  unfolding node_ids_below [of n] below_ids_def [of n] by auto

theorem findRouteNodeById_iff: "findRouteNodeById n i \<noteq> None \<longleftrightarrow> i \<in> set (node_ids n)"
proof (induction n rule: node_induct)
  case (Node n)
  have kids: "find_node_kids cs i \<noteq> None \<longleftrightarrow> (\<exists>c \<in> set cs. findRouteNodeById c i \<noteq> None)" for cs
    by (induction cs) (auto split: option.split)
  show ?case
    unfolding findRouteNodeById.simps [of n] set_node_ids [of i n] using kids [of "kids n"] Node by auto
qed

lemma hasRouteNodeId_iff: "hasRouteNodeId n i \<longleftrightarrow> i \<in> set (node_ids n)"
proof (induction n rule: node_induct)
  case (Node n)
  then show ?case
    unfolding hasRouteNodeId.simps [of n] set_node_ids [of i n] list_ex_iff by auto
qed

lemma updateRouteNodeById_absent:
  "i \<notin> set (node_ids n) \<Longrightarrow> updateRouteNodeById n i f = n"
proof (induction n rule: node_induct)
  case (Node n)
  then have "node_id n \<noteq> i" and "map (\<lambda>c. updateRouteNodeById c i f) (kids n) = kids n"
    by (auto simp: node_ids_below [of n] below_ids_def [of n] intro: map_idI)
  moreover have "kids n \<noteq> [] \<Longrightarrow> set_children (kids n) n = n"
    by (cases n; cases "children n") (auto simp: set_children_def kids_def)
  ultimately show ?case by (simp add: updateRouteNodeById.simps)
qed

lemma distinct_concat_split:
  assumes "distinct (concat (map f xs))" and "y \<in> set (concat (map f xs))"
  obtains us c vs where "xs = us @ c # vs" and "y \<in> set (f c)"
    and "\<forall>x \<in> set us. y \<notin> set (f x)" and "\<forall>x \<in> set vs. y \<notin> set (f x)"
proof -
  from assms(2) obtain c where c: "c \<in> set xs" "y \<in> set (f c)" by auto
  then obtain us vs where "xs = us @ c # vs" by (meson split_list)
  with assms(1) c(2) show thesis by (intro that) auto
qed

text \<open>Where the ids are distinct, an update changes the one node it names.\<close>

lemma updateRouteNodeById_mset:
  assumes "\<And>m. node_id m = i \<Longrightarrow> mset (node_ids (f m)) = mset (node_ids m) + add"
  shows "distinct (node_ids n) \<Longrightarrow> i \<in> set (node_ids n) \<Longrightarrow>
    mset (node_ids (updateRouteNodeById n i f)) = mset (node_ids n) + add"
proof (induction n rule: node_induct)
  case (Node n)
  show ?case
  proof (cases "node_id n = i")
    case True
    then show ?thesis by (simp add: updateRouteNodeById.simps assms)
  next
    case False
    with Node.prems have "distinct (concat (map node_ids (kids n)))"
      and "i \<in> set (concat (map node_ids (kids n)))"
      by (simp_all add: node_ids_below [of n] below_ids_def [of n])
    then obtain us c vs where split: "kids n = us @ c # vs" and c: "i \<in> set (node_ids c)"
      and out: "\<forall>x \<in> set us. i \<notin> set (node_ids x)" "\<forall>x \<in> set vs. i \<notin> set (node_ids x)"
      by (rule distinct_concat_split)
    let ?u = "\<lambda>c. updateRouteNodeById c i f"
    have "map ?u us = us" "map ?u vs = vs"
      using out by (auto simp: updateRouteNodeById_absent intro: map_idI)
    then have "updateRouteNodeById n i f = set_children (us @ ?u c # vs) n"
      using False split by (simp add: updateRouteNodeById.simps)
    moreover have "mset (node_ids (?u c)) = mset (node_ids c) + add"
      using Node split c by (intro Node.IH) (auto simp: node_ids_below [of n] below_ids_def [of n])
    ultimately show ?thesis
      using split by (simp add: node_ids_below [of n] below_ids_def [of n])
  qed
qed

lemma mset_node_ids_insert_kid:
  "mset (node_ids (set_children (take k (kids m) @ [x] @ drop k (kids m)) m)) =
     mset (node_ids m) + mset (node_ids x)"
proof -
  have "mset (concat (map node_ids (take k (kids m)))) + mset (concat (map node_ids (drop k (kids m)))) =
      mset (concat (map node_ids (kids m)))"
    by (metis append_take_drop_id concat_append map_append mset_append)
  then show ?thesis by (simp add: node_ids_below [of m] below_ids_def [of m] ac_simps node_ids_below [of "set_children cs m" for cs])
qed

theorem insertRouteNodeIntoParent_mset:
  assumes "distinct (node_ids r)" and "p \<in> set (node_ids r)"
  shows "mset (node_ids (insertRouteNodeIntoParent r p x index)) =
    mset (node_ids r) + mset (node_ids x)"
  unfolding insertRouteNodeIntoParent_def Let_def
  using assms by (intro updateRouteNodeById_mset mset_node_ids_insert_kid)

lemma removeRouteNodeById_absent:
  "i \<notin> set (below_ids n) \<Longrightarrow> removeRouteNodeById n i = (n, None)"
proof (induction n rule: node_induct)
  case (Node n)
  show ?case
  proof (cases "kids n = []")
    case True
    then show ?thesis by (simp add: removeRouteNodeById.simps)
  next
    case False
    have direct: "find (\<lambda>c. node_id c = i) (kids n) = None"
      using Node.prems by (auto simp: find_None_iff below_ids_def [of n])
    have "removeRouteNodeById c i = (c, None)" if "c \<in> set (kids n)" for c
      using Node.prems that by (intro Node.IH) (auto simp: below_ids_def [of n] node_ids_below [of c])
    then have rs: "map (\<lambda>c. removeRouteNodeById c i) (kids n) = map (\<lambda>c. (c, None)) (kids n)"
      by simp
    have "foldl (\<lambda>r res. if snd res \<noteq> None then snd res else r) None
        (map (\<lambda>c. (c, None)) cs) = (None :: route_node option)" for cs :: "route_node list"
      by (induction cs) auto
    moreover have "set_children (kids n) n = n"
      using False by (cases n; cases "children n") (auto simp: set_children_def kids_def)
    ultimately show ?thesis
      using False direct by (subst removeRouteNodeById.simps) (simp add: rs comp_def Let_def)
  qed
qed

text \<open>Removing a node takes its whole subtree out and nothing else.\<close>

lemma remove_direct:
  assumes "kids n = us @ c # vs" and "node_id c = i" and "\<forall>x \<in> set us \<union> set vs. node_id x \<noteq> i"
  shows "removeRouteNodeById n i = (set_children (us @ vs) n, Some c)"
proof -
  have "find (\<lambda>x. node_id x = i) (us @ c # vs) = Some c"
    using assms(2,3) by (intro find_middle) auto
  moreover have "filter (\<lambda>x. node_id x \<noteq> i) (us @ c # vs) = us @ vs"
    using assms(2,3) by (simp add: filter_id_conv)
  moreover have "us @ c # vs \<noteq> []" by simp
  ultimately show ?thesis
    unfolding removeRouteNodeById.simps [of n] assms(1) by (simp only: if_False option.case)
qed

lemma keep_removed:
  "foldl (\<lambda>r res. if snd res \<noteq> None then snd res else r) r (map (\<lambda>x. (x, None)) xs) =
     (r :: route_node option)"
  by (induction xs arbitrary: r) auto

lemma remove_nested:
  assumes "kids n = us @ c # vs" and "\<forall>x \<in> set (us @ c # vs). node_id x \<noteq> i"
    and "removeRouteNodeById c i = (c', Some m)"
    and "\<forall>x \<in> set us \<union> set vs. removeRouteNodeById x i = (x, None)"
  shows "removeRouteNodeById n i = (set_children (us @ c' # vs) n, Some m)"
proof -
  have find: "find (\<lambda>x. node_id x = i) (us @ c # vs) = None"
    using assms(2) unfolding find_None_iff by blast
  have "map (\<lambda>x. removeRouteNodeById x i) us = map (\<lambda>x. (x, None)) us"
    "map (\<lambda>x. removeRouteNodeById x i) vs = map (\<lambda>x. (x, None)) vs"
    using assms(4) by simp_all
  then have results: "map (\<lambda>x. removeRouteNodeById x i) (us @ c # vs) =
      map (\<lambda>x. (x, None)) us @ (c', Some m) # map (\<lambda>x. (x, None)) vs"
    by (simp only: map_append list.map assms(3))
  have ne: "(us @ c # vs = []) = False" by simp
  have fold: "foldl (\<lambda>r res. if snd res \<noteq> None then snd res else r) None
      (map (\<lambda>x. (x, None)) us @ (c', Some m) # map (\<lambda>x. (x, None)) vs) = Some m"
    by (simp add: keep_removed [simplified])
  show ?thesis
    unfolding removeRouteNodeById.simps [of n] assms(1) ne if_False find option.case Let_def results fold
    by (simp add: comp_def)
qed

theorem removeRouteNodeById_mset:
  "distinct (node_ids n) \<Longrightarrow> i \<in> set (below_ids n) \<Longrightarrow>
   \<exists>n' m. removeRouteNodeById n i = (n', Some m) \<and> node_id m = i \<and> node_id n' = node_id n \<and>
     mset (node_ids n) = mset (node_ids n') + mset (node_ids m)"
proof (induction n rule: node_induct)
  case (Node n)
  have "distinct (concat (map node_ids (kids n)))" and "i \<in> set (concat (map node_ids (kids n)))"
    using Node.prems by (simp_all add: node_ids_below [of n] below_ids_def [of n])
  then obtain us c vs where split: "kids n = us @ c # vs" and c: "i \<in> set (node_ids c)"
    and out: "\<forall>x \<in> set us. i \<notin> set (node_ids x)" "\<forall>x \<in> set vs. i \<notin> set (node_ids x)"
    by (rule distinct_concat_split)
  have other: "\<forall>x \<in> set us \<union> set vs. node_id x \<noteq> i"
    using out node_id_in_node_ids by (metis Un_iff)
  have ids: "mset (node_ids n) = add_mset (node_id n)
      (mset (concat (map node_ids us)) + mset (node_ids c) + mset (concat (map node_ids vs)))"
    by (simp add: node_ids_below [of n] below_ids_def [of n] split)
  show ?case
  proof (cases "node_id c = i")
    case True
    have "mset (node_ids n) = mset (node_ids (set_children (us @ vs) n)) + mset (node_ids c)"
      unfolding ids by simp
    with remove_direct [OF split True other] True show ?thesis
      by (intro exI conjI) (assumption | simp)+
  next
    case False
    have b: "i \<in> set (below_ids c)" using c False by (simp add: node_ids_below [of c])
    have d: "distinct (node_ids c)"
      using \<open>distinct (concat (map node_ids (kids n)))\<close> by (simp add: split)
    have k: "c \<in> set (kids n)" by (simp add: split)
    obtain c' m where rc: "removeRouteNodeById c i = (c', Some m)" "node_id m = i"
      "mset (node_ids c) = mset (node_ids c') + mset (node_ids m)"
      using Node.IH [OF k d b] by (elim exE conjE)
    have "\<forall>x \<in> set us \<union> set vs. removeRouteNodeById x i = (x, None)"
    proof
      fix x assume "x \<in> set us \<union> set vs"
      then have "i \<notin> set (below_ids x)" using out by (auto simp: node_ids_below [of x])
      then show "removeRouteNodeById x i = (x, None)" by (rule removeRouteNodeById_absent)
    qed
    moreover have "\<forall>x \<in> set (us @ c # vs). node_id x \<noteq> i" using other False by auto
    ultimately have "removeRouteNodeById n i = (set_children (us @ c' # vs) n, Some m)"
      using remove_nested [OF split _ rc(1)] by blast
    moreover have "mset (node_ids n) =
        mset (node_ids (set_children (us @ c' # vs) n)) + mset (node_ids m)"
      unfolding ids rc(3) by simp
    ultimately show ?thesis using rc(2) by (intro exI conjI) (assumption | simp)+
  qed
qed

text \<open>A move permutes the nodes: none is lost, none is duplicated.\<close>

theorem moveRouteNodeById_mset:
  assumes "distinct (node_ids r)"
  shows "mset (node_ids (fst (moveRouteNodeById r i p index))) = mset (node_ids r)"
proof (cases "i \<in> set (below_ids r)")
  case True
  then obtain r' m where rm: "removeRouteNodeById r i = (r', Some m)"
    "mset (node_ids r) = mset (node_ids r') + mset (node_ids m)"
    using removeRouteNodeById_mset [OF assms] by blast
  have d: "distinct (node_ids r')"
    using assms rm(2) by (metis distinct_append mset_append mset_eq_imp_distinct_iff)
  show ?thesis
  proof (cases "findRouteNodeById r' p = None")
    case True
    then show ?thesis by (simp add: moveRouteNodeById_def rm(1) split: option.split)
  next
    case False
    then have "p \<in> set (node_ids r')" using findRouteNodeById_iff by blast
    then have "mset (node_ids (insertRouteNodeIntoParent r' p m index)) = mset (node_ids r)"
      using insertRouteNodeIntoParent_mset [OF d] rm(2) by simp
    with False show ?thesis by (simp add: moveRouteNodeById_def rm(1) split: option.split)
  qed
next
  case False
  then show ?thesis
    by (simp add: moveRouteNodeById_def removeRouteNodeById_absent split: option.split)
qed

section \<open>Composition of modules\<close>

lemma find_item_in: "find P xs = Some x \<Longrightarrow> x \<in> set xs \<and> P x"
  by (auto simp: find_Some_iff)

theorem resolveActiveRouteNodeId_exists:
  "hasRouteNodeId (manifest_root (fst (composeRouteManifestWithModules m)))
     (resolveActiveRouteNodeId m candidateIds)"
proof -
  let ?c = "fst (composeRouteManifestWithModules m)"
  have "hasRouteNodeId (manifest_root ?c) (resolveDefaultActiveRouteNodeId ?c)"
  proof (cases "kids (manifest_root ?c)")
    case (Cons c cs)
    then have "node_id c \<in> set (node_ids (manifest_root ?c))"
      unfolding set_node_ids [of "node_id c" "manifest_root ?c"] by auto
    with Cons show ?thesis by (simp add: resolveDefaultActiveRouteNodeId_def hasRouteNodeId_iff)
  qed (simp add: resolveDefaultActiveRouteNodeId_def hasRouteNodeId_iff)
  then show ?thesis
    unfolding resolveActiveRouteNodeId_def Let_def
    by (auto split: option.split dest!: find_item_in)
qed

lemma updateRouteNodeById_grows:
  assumes "\<And>m. set (node_ids m) \<subseteq> set (node_ids (f m))"
  shows "set (node_ids n) \<subseteq> set (node_ids (updateRouteNodeById n i f))"
proof (induction n rule: node_induct)
  case (Node n)
  show ?case
  proof (cases "node_id n = i \<or> kids n = []")
    case True
    then show ?thesis using assms by (auto simp: updateRouteNodeById.simps [of n])
  next
    case False
    then have "updateRouteNodeById n i f =
        set_children (map (\<lambda>c. updateRouteNodeById c i f) (kids n)) n"
      by (simp add: updateRouteNodeById.simps [of n])
    moreover have "set (node_ids n) = insert (node_id n) (\<Union>c \<in> set (kids n). set (node_ids c))"
      by (simp add: node_ids_below [of n] below_ids_def [of n])
    ultimately show ?thesis using Node by auto
  qed
qed

lemma updateRouteNodeById_adds:
  assumes "\<And>m. node_id m = i \<Longrightarrow> X \<subseteq> set (node_ids (f m))" and "i \<in> set (node_ids n)"
  shows "X \<subseteq> set (node_ids (updateRouteNodeById n i f))"
  using assms(2)
proof (induction n rule: node_induct)
  case (Node n)
  show ?case
  proof (cases "node_id n = i")
    case True
    then show ?thesis using assms(1) by (simp add: updateRouteNodeById.simps [of n])
  next
    case False
    then obtain c where c: "c \<in> set (kids n)" "i \<in> set (node_ids c)"
      using Node.prems unfolding set_node_ids [of i n] by blast
    then have "updateRouteNodeById n i f =
        set_children (map (\<lambda>c. updateRouteNodeById c i f) (kids n)) n"
      using False by (auto simp: updateRouteNodeById.simps [of n])
    then show ?thesis using Node.IH [OF c] c(1) by auto
  qed
qed

lemma set_node_ids_insert_kid:
  "set (node_ids (set_children (take k (kids m) @ [x] @ drop k (kids m)) m)) =
     set (node_ids m) \<union> set (node_ids x)"
  using arg_cong [OF mset_node_ids_insert_kid [of k m x], of set_mset] by simp

lemma insertRouteNodeIntoParent_set:
  assumes "p \<in> set (node_ids r)"
  shows "set (node_ids r) \<union> set (node_ids x) \<subseteq>
    set (node_ids (insertRouteNodeIntoParent r p x index))"
proof -
  have "set (node_ids r) \<subseteq> set (node_ids (insertRouteNodeIntoParent r p x index))"
    unfolding insertRouteNodeIntoParent_def Let_def
    by (rule updateRouteNodeById_grows) (simp only: set_node_ids_insert_kid Un_upper1)
  moreover have "set (node_ids x) \<subseteq> set (node_ids (insertRouteNodeIntoParent r p x index))"
    unfolding insertRouteNodeIntoParent_def Let_def using assms
    by (intro updateRouteNodeById_adds) (simp only: set_node_ids_insert_kid Un_upper2)
  ultimately show ?thesis by simp
qed

text \<open>The trace of a mount names exactly the nodes of the clone, in the order of the walk.\<close>

lemma set_children_id [simp]:
  "node_id (set_node_id i n) = i" "kids (set_node_id i n) = kids n"
  "node_id (set_segment s b n) = node_id n" "kids (set_segment s b n) = kids n"
  by (simp_all add: set_node_id_def set_segment_def kids_def)

declare cloneMountedRouteNode.simps [simp del]

lemma cloneMountedRouteNode_trace:
  "map trace_hostRouteNodeId (snd (cloneMountedRouteNode m mount path parentPath n)) =
     node_ids (fst (cloneMountedRouteNode m mount path parentPath n))"
proof (induction n arbitrary: path parentPath rule: node_induct)
  case (Node n)
  let ?current = "buildRoutePath parentPath (set_node_id (createMountedRouteNodeId mount n)
      (if path \<noteq> None then set_segment path (Some False) n else n))"
  let ?clone = "cloneMountedRouteNode m mount None ?current"
  have "map (\<lambda>c. map trace_hostRouteNodeId (snd (?clone c))) (kids n) =
      map (\<lambda>c. node_ids (fst (?clone c))) (kids n)"
    using Node by (intro map_cong refl)
  then have "map trace_hostRouteNodeId (concat (map snd (map ?clone (kids n)))) =
      concat (map node_ids (map fst (map ?clone (kids n))))"
    unfolding map_concat map_map comp_def by (rule arg_cong)
  then show ?case
    unfolding cloneMountedRouteNode.simps [of m mount path parentPath n] Let_def fst_conv snd_conv
      node_ids_set_children list.map by simp
qed

definition traced_ok :: "compose_state \<Rightarrow> bool" where
  "traced_ok st \<longleftrightarrow> trace_hostRouteNodeId ` set (c_trace st) \<subseteq> set (node_ids (c_root st))"

lemma compose_mount_cases:
  obtains (skip) reason where "compose_mount manifest st mount =
      st\<lparr>c_skipped := c_skipped st @ [(mountId mount, reason)]\<rparr>"
    | (mounted) parentId m path parentPath paths where "parentId \<in> set (node_ids (c_root st))"
      "compose_mount manifest st mount = st\<lparr>
         c_root := insertRouteNodeIntoParent (c_root st) parentId
           (fst (cloneMountedRouteNode m mount path parentPath (module_root m))) None,
         c_paths := paths,
         c_trace := c_trace st @ snd (cloneMountedRouteNode m mount path parentPath (module_root m))\<rparr>"
proof (cases "map_of (or_else (manifest_modules manifest) []) (moduleRef mount)")
  case None
  then show thesis by (intro skip [of MissingModule]) (simp add: compose_mount_def Let_def)
next
  case (Some m)
  define parentId where "parentId = (if js_trim (or_else (parentRouteNodeId mount) '''') \<noteq> []
    then js_trim (or_else (parentRouteNodeId mount) '''') else node_id (manifest_root manifest))"
  define normalized where "normalized = (let path = js_trim (or_else (mountPath mount) '''') in
     if path = [] then Inr None
     else case normalizeRouteSegment (Some path) of
            SegmentOk seg _ _ \<Rightarrow> Inr (Some seg) | SegmentError _ e \<Rightarrow> Inl e)"
  have eq: "compose_mount manifest st mount =
      (if findRouteNodeById (c_root st) parentId = None
       then st\<lparr>c_skipped := c_skipped st @ [(mountId mount, MissingParent)]\<rparr>
       else case normalized of
         Inl _ \<Rightarrow> st\<lparr>c_skipped := c_skipped st @ [(mountId mount, InvalidMountPath)]\<rparr>
       | Inr path \<Rightarrow>
           (case cloneMountedRouteNode m mount path (or_else (map_of (c_paths st) parentId) ''/'')
                   (module_root m) of
              (mountedNode, trace) \<Rightarrow> st\<lparr>
                c_root := insertRouteNodeIntoParent (c_root st) parentId mountedNode None,
                c_paths := set_paths (flatten_node mountedNode
                  (or_else (map_of (c_paths st) parentId) ''/'') 0 (Some parentId)) (c_paths st),
                c_trace := c_trace st @ trace\<rparr>))"
    unfolding compose_mount_def parentId_def normalized_def Let_def Some option.case ..
  show thesis
  proof (cases "findRouteNodeById (c_root st) parentId = None")
    case True
    show thesis by (rule skip [of MissingParent]) (simp only: eq True if_True refl)
  next
    case found: False
    then have p: "parentId \<in> set (node_ids (c_root st))" using findRouteNodeById_iff by blast
    show thesis
    proof (cases normalized)
      case (Inl e)
      show thesis
        by (rule skip [of InvalidMountPath]) (simp only: eq found if_False Inl sum.case)
    next
      case (Inr path)
      show thesis
        by (rule mounted [OF p]) (simp only: eq found if_False Inr sum.case case_prod_beta)
    qed
  qed
qed

lemma compose_mount_grows:
  "set (node_ids (c_root st)) \<subseteq> set (node_ids (c_root (compose_mount manifest st mount)))"
proof (cases rule: compose_mount_cases [of manifest st mount])
  case (mounted parentId m path parentPath paths)
  then show ?thesis
    using insertRouteNodeIntoParent_set [OF mounted(1)] by (simp add: mounted(2))
qed simp

lemma compose_mount_traced:
  assumes "traced_ok st"
  shows "traced_ok (compose_mount manifest st mount)"
proof (cases rule: compose_mount_cases [of manifest st mount])
  case (mounted parentId m path parentPath paths)
  let ?clone = "cloneMountedRouteNode m mount path parentPath (module_root m)"
  have "trace_hostRouteNodeId ` set (snd ?clone) = set (node_ids (fst ?clone))"
    using arg_cong [OF cloneMountedRouteNode_trace, of set m mount path parentPath "module_root m"] by simp
  then show ?thesis
    using assms insertRouteNodeIntoParent_set [OF mounted(1), of "fst ?clone" None]
    unfolding mounted(2) traced_ok_def by (simp add: image_Un) blast
qed (use assms in \<open>simp add: traced_ok_def\<close>)

text \<open>
  The composition keeps every node of the host tree, and every node its trace reports is a node of
  the composed tree.
\<close>

theorem composeRouteManifestWithModules_nodes:
  assumes "composeRouteManifestWithModules manifest = (composed, st)"
  shows "set (node_ids (manifest_root manifest)) \<subseteq> set (node_ids (manifest_root composed)) \<and>
    trace_hostRouteNodeId ` set (c_trace st) \<subseteq> set (node_ids (manifest_root composed))"
proof -
  have "set (node_ids (c_root s)) \<subseteq> set (node_ids (c_root (foldl (compose_mount manifest) s ms))) \<and>
      (traced_ok s \<longrightarrow> traced_ok (foldl (compose_mount manifest) s ms))" for s ms
  proof (induction ms arbitrary: s)
    case (Cons m ms)
    from Cons [of "compose_mount manifest s m"] compose_mount_grows [of s manifest m]
      compose_mount_traced [of s manifest m]
    show ?case by (auto simp only: foldl_Cons)
  qed simp
  note inv = this
  let ?s = "\<lparr>c_root = manifest_root manifest,
      c_paths = alist_put (node_id (manifest_root manifest)) ''/''
        (set_paths (flattenRouteManifest manifest) []), c_trace = [], c_skipped = []\<rparr>"
  have st: "st = foldl (compose_mount manifest) ?s (or_else (manifest_mounts manifest) [])"
    and root: "manifest_root composed = c_root st"
    using assms by (auto simp: composeRouteManifestWithModules_def Let_def)
  have "traced_ok ?s" by (simp add: traced_ok_def)
  with inv [of ?s "or_else (manifest_mounts manifest) []"] show ?thesis
    unfolding root st traced_ok_def by simp
qed

end
