(* ===== verification/History.thy ===== *)
theory History
  imports Operation RouteLaws
begin

text \<open>
  The undo and redo history of a workspace: the replay of an operation in one direction
  (\<open>packages/workspace/src/workspaceHistoryReplay.ts\<close>) and the two stacks with their scopes,
  barriers, bounds and merging (\<open>packages/workspace/src/workspaceHistory.ts\<close>).

  The replay reads typed members of the snapshot (the active selection, the documents, the route
  manifest). A member that its type declares as a string and that is none counts as absent; the
  route manifest is read into the typed tree of the router by \<open>manifest_of_json\<close>.
\<close>

section \<open>Typed reading of a snapshot\<close>

definition text_member :: "json \<Rightarrow> string \<Rightarrow> string option" where
  "text_member v k = (case own v k of Some (JStr s) \<Rightarrow> Some s | _ \<Rightarrow> None)"

definition entries_of :: "json option \<Rightarrow> (string \<times> json) list option" where
  "entries_of v = (case v of Some (JObj kvs) \<Rightarrow> Some kvs | _ \<Rightarrow> None)"

definition items_of :: "json option \<Rightarrow> json list option" where
  "items_of v = (case v of Some (JArr xs) \<Rightarrow> Some xs | _ \<Rightarrow> None)"

definition outlet_of_json :: "json \<Rightarrow> outlet_binding" where
  "outlet_of_json v =
     \<lparr>ob_outletNodeId = or_else (text_member v ''outletNodeId'') '''',
      ob_pageDocId = text_member v ''pageDocId''\<rparr>"

definition code_reference_of_json :: "json \<Rightarrow> code_reference" where
  "code_reference_of_json v =
     \<lparr>artifactId = or_else (text_member v ''artifactId'') '''',
      exportName = text_member v ''exportName'', symbolId = text_member v ''symbolId''\<rparr>"

definition runtime_of_json :: "json \<Rightarrow> route_runtime" where
  "runtime_of_json v =
     \<lparr>loaderRef = map_option code_reference_of_json (own v ''loaderRef''),
      actionRef = map_option code_reference_of_json (own v ''actionRef''),
      guardRef = map_option code_reference_of_json (own v ''guardRef'')\<rparr>"

lemma items_size: "items_of (own v k) = Some xs \<Longrightarrow> x \<in> set xs \<Longrightarrow> size x < size v"
  using size_in_JArr [of x xs]
  by (cases v) (auto simp: items_of_def dest!: map_of_size split: option.splits json.splits)

function node_of_json :: "json \<Rightarrow> route_node" where
  "node_of_json v = RouteNode
     (or_else (text_member v ''id'') '''') (text_member v ''segment'')
     (case own v ''index'' of Some (JBool b) \<Rightarrow> Some b | _ \<Rightarrow> None)
     (text_member v ''layoutDocId'') (text_member v ''pageDocId'') (text_member v ''outletNodeId'')
     (map_option (map (\<lambda>(k, b). (k, outlet_of_json b))) (entries_of (own v ''outletBindings'')))
     (map_option runtime_of_json (own v ''runtime''))
     (case items_of (own v ''children'') of
        None \<Rightarrow> None | Some xs \<Rightarrow> Some (map node_of_json xs))"
  by pat_completeness auto
termination by (relation "measure size") (auto intro: items_size)

definition module_of_json :: "json \<Rightarrow> route_module" where
  "module_of_json v =
     \<lparr>moduleId = or_else (text_member v ''moduleId'') '''',
      module_version = or_else (text_member v ''version'') '''',
      module_root = node_of_json (case own v ''root'' of Some r \<Rightarrow> r | None \<Rightarrow> JNull)\<rparr>"

definition mount_of_json :: "json \<Rightarrow> route_mount" where
  "mount_of_json v =
     \<lparr>mountId = or_else (text_member v ''mountId'') '''',
      moduleRef = or_else (text_member v ''moduleRef'') '''',
      mountPath = text_member v ''mountPath'',
      parentRouteNodeId = text_member v ''parentRouteNodeId''\<rparr>"

definition manifest_of_json :: "json option \<Rightarrow> route_manifest" where
  "manifest_of_json v =
     (let m = (case v of Some x \<Rightarrow> x | None \<Rightarrow> JNull) in
      \<lparr>manifest_version = or_else (text_member m ''version'') '''',
       manifest_root = node_of_json (case own m ''root'' of Some r \<Rightarrow> r | None \<Rightarrow> JNull),
       manifest_modules =
         map_option (map (\<lambda>(k, x). (k, module_of_json x))) (entries_of (own m ''modules'')),
       manifest_mounts = map_option (map mount_of_json) (items_of (own m ''mounts''))\<rparr>)"

section \<open>Replay\<close>

datatype direction = Undo | Redo

datatype id_role = OperationRole | CommandRole

record id_context =
  ctx_direction :: direction
  ctx_role :: id_role
  ctx_sourceOperationId :: string
  ctx_sequence :: nat
  ctx_commandIndex :: "nat option"

text \<open>
  The options of a replay: the id factory, what the clock returned, and the text of the current
  date, which the code reads where no clock is given.
\<close>

record execution_options =
  idFactory :: "(id_context \<Rightarrow> string) option"
  clock_text :: "string option"
  date_text :: string

definition direction_text :: "direction \<Rightarrow> string" where
  "direction_text d = (case d of Undo \<Rightarrow> ''undo'' | Redo \<Rightarrow> ''redo'')"

definition defaultOperationIdFactory :: "id_context \<Rightarrow> string" where
  "defaultOperationIdFactory ctx =
     ctx_sourceOperationId ctx @ '':'' @ direction_text (ctx_direction ctx) @ '':'' @
     nat_text (ctx_sequence ctx) @
     (if ctx_role ctx = CommandRole
      then '':command:'' @ nat_text (case ctx_commandIndex ctx of Some i \<Rightarrow> i | None \<Rightarrow> 0) else '''')"

definition freshOperationId :: "execution_options \<Rightarrow> id_context \<Rightarrow> string" where
  "freshOperationId options = (case idFactory options of
     Some f \<Rightarrow> f | None \<Rightarrow> defaultOperationIdFactory)"

definition isWholeDocumentAdd :: "patch_op \<Rightarrow> bool" where
  "isWholeDocumentAdd op \<longleftrightarrow>
     op_kind op = OpAdd \<and>
     (let segments = split_on (CHR ''/'') (op_path op) in
      length segments = 3 \<and> segments ! 0 = '''' \<and> segments ! 1 = ''docsById'' \<and> segments ! 2 \<noteq> '''')"

definition rebase_op :: "patch_op \<Rightarrow> patch_op" where
  "rebase_op op =
     (if \<not> isWholeDocumentAdd op then op
      else case op_value op of
        Some (JObj kvs) \<Rightarrow>
          op\<lparr>op_value := Some (JObj (alist_del ''updatedAt''
               (alist_put ''metaRev'' (JNum 1) (alist_put ''contentRev'' (JNum 1) kvs))))\<rparr>
      | _ \<Rightarrow> op)"

definition rebaseRecreatedDocumentIdentity :: "patch_op list \<Rightarrow> patch_op list" where
  "rebaseRecreatedDocumentIdentity ops = map rebase_op ops"

definition cloneCommandForDirection :: "command \<Rightarrow> string \<Rightarrow> string \<Rightarrow> bool \<Rightarrow> command" where
  "cloneCommandForDirection c new_id new_issuedAt reverse =
     c\<lparr>cmd_id := new_id, cmd_issuedAt := new_issuedAt,
       forwardOps := (if reverse then rebaseRecreatedDocumentIdentity (reverseOps c)
                      else forwardOps c),
       reverseOps := (if reverse then forwardOps c
                      else rebaseRecreatedDocumentIdentity (reverseOps c))\<rparr>"

definition createDirectionalWorkspaceOperation ::
  "operation \<Rightarrow> direction \<Rightarrow> nat \<Rightarrow> string \<Rightarrow> execution_options \<Rightarrow> operation" where
  "createDirectionalWorkspaceOperation source direction sequence causalOperationId options =
     (let sourceId = getWorkspaceOperationId source;
          new_issuedAt = (case clock_text options of Some t \<Rightarrow> t | None \<Rightarrow> date_text options);
          reverse = (direction = Undo);
          fresh = (\<lambda>role index. freshOperationId options
            \<lparr>ctx_direction = direction, ctx_role = role, ctx_sourceOperationId = sourceId,
             ctx_sequence = sequence, ctx_commandIndex = index\<rparr>);
          body = (case op_body source of
            CommandBody c \<Rightarrow>
              CommandBody (cloneCommandForDirection c (fresh OperationRole None) new_issuedAt reverse)
          | TransactionBody t \<Rightarrow>
              TransactionBody (t\<lparr>tx_id := fresh OperationRole None, tx_issuedAt := new_issuedAt,
                tx_commands := map (\<lambda>(commandIndex, c).
                    cloneCommandForDirection c (fresh CommandRole (Some commandIndex)) new_issuedAt reverse)
                  (List.enumerate 0 (if reverse then rev (tx_commands t) else tx_commands t))\<rparr>))
      in \<lparr>op_body = body,
          undoOf = (if reverse then Some causalOperationId else None),
          redoOf = (if reverse then None else Some causalOperationId),
          sourceOperationIds = Some (getWorkspaceOperationSourceIds source)\<rparr>)"

section \<open>The selection during a replay\<close>

text \<open>\<open>SelectionValue\<close>: the member is present with a value, or absent.\<close>

datatype selection_value = Present string | Absent

definition selectionValueFromReverseOperation :: "command \<Rightarrow> string \<Rightarrow> selection_value option" where
  "selectionValueFromReverseOperation c path =
     (if \<not> list_ex (\<lambda>op. op_path op = path) (forwardOps c) then None
      else case find (\<lambda>op. op_path op = path) (rev (reverseOps c)) of
        None \<Rightarrow> None
      | Some op \<Rightarrow>
          if op_kind op = OpRemove then Some Absent
          else if op_kind op = OpAdd \<or> op_kind op = OpReplace
          then (case op_value op of Some (JStr s) \<Rightarrow> Some (Present s) | _ \<Rightarrow> None)
          else None)"

record selection_baseline =
  base_document :: "selection_value option"
  base_route :: "selection_value option"

definition first_some :: "('a \<Rightarrow> 'b option) \<Rightarrow> 'a list \<Rightarrow> 'b option" where
  "first_some f xs = foldl (\<lambda>r x. if r \<noteq> None then r else f x) None xs"

definition resolveSelectionBaseline :: "operation \<Rightarrow> selection_baseline" where
  "resolveSelectionBaseline op =
     \<lparr>base_document = first_some (\<lambda>c. selectionValueFromReverseOperation c ''/activeDocumentId'')
        (getWorkspaceOperationCommands op),
      base_route = first_some (\<lambda>c. selectionValueFromReverseOperation c ''/activeRouteNodeId'')
        (getWorkspaceOperationCommands op)\<rparr>"

definition set_member :: "string \<Rightarrow> json option \<Rightarrow> json \<Rightarrow> json" where
  "set_member k v snapshot =
     (case snapshot of
        JObj kvs \<Rightarrow> JObj (case v of Some x \<Rightarrow> alist_put k x kvs | None \<Rightarrow> alist_del k kvs)
      | _ \<Rightarrow> snapshot)"

definition align_member :: "string \<Rightarrow> selection_value option \<Rightarrow> json \<Rightarrow> json" where
  "align_member k v snapshot =
     (case v of
        None \<Rightarrow> snapshot
      | Some (Present s) \<Rightarrow> set_member k (Some (JStr s)) snapshot
      | Some Absent \<Rightarrow> set_member k None snapshot)"

definition alignSelectionForOperation :: "json \<Rightarrow> selection_baseline \<Rightarrow> json" where
  "alignSelectionForOperation snapshot baseline =
     align_member ''activeRouteNodeId'' (base_route baseline)
       (align_member ''activeDocumentId'' (base_document baseline) snapshot)"

text \<open>\<open>resolveCanonicalWorkspaceDocumentId.ts\<close>.\<close>

definition resolveCanonicalWorkspaceDocumentId :: "json list \<Rightarrow> string option" where
  "resolveCanonicalWorkspaceDocumentId documents =
     (let is_page = (\<lambda>d. text_member d ''type'' = Some ''pir-page'');
          path_of = (\<lambda>d. js_trim (or_else (text_member d ''path'') ''''));
          id_of = (\<lambda>f. case f of None \<Rightarrow> None | Some d \<Rightarrow> text_member d ''id'');
          canonicalRootPage = find (\<lambda>d. is_page d \<and> path_of d = ''/pir.json'') documents;
          rootPage = find (\<lambda>d. is_page d \<and> (path_of d = ''/'' \<or> path_of d = '''')) documents
      in if documents = [] then None
         else if truthy_text (id_of canonicalRootPage) then id_of canonicalRootPage
         else if truthy_text (id_of rootPage) then id_of rootPage
         else id_of (find is_page documents))"

definition live_document :: "json \<Rightarrow> string option \<Rightarrow> bool" where
  "live_document snapshot d \<longleftrightarrow>
     truthy_text d \<and>
     (case map_of (docs_of snapshot) (the d) of None \<Rightarrow> False | Some doc \<Rightarrow> truthy doc)"

definition restoreSelection :: "json \<Rightarrow> json \<Rightarrow> selection_baseline \<Rightarrow> json" where
  "restoreSelection snapshot requested baseline =
     (let requestedDocument = text_member requested ''activeDocumentId'';
          currentDocument = text_member snapshot ''activeDocumentId'';
          activeDocumentId =
            (if live_document snapshot requestedDocument then requestedDocument
             else if live_document snapshot currentDocument then currentDocument
             else resolveCanonicalWorkspaceDocumentId (map snd (docs_of snapshot)));
          manifest = manifest_of_json (own snapshot ''routeManifest'');
          restored = (if base_document baseline = None then snapshot
            else if truthy_text activeDocumentId
              then set_member ''activeDocumentId'' (Some (JStr (the activeDocumentId))) snapshot
            else set_member ''activeDocumentId'' None snapshot)
      in if base_route baseline = None then restored
         else set_member ''activeRouteNodeId''
           (Some (JStr (resolveActiveRouteNodeId manifest
              [text_member requested ''activeRouteNodeId'', text_member snapshot ''activeRouteNodeId'',
               Some (resolveDefaultActiveRouteNodeId manifest)]))) restored)"

datatype replay_failure = CommandFailed failure | TransactionFailed tx_failure

definition apply_operation :: "validators \<Rightarrow> json \<Rightarrow> operation_body \<Rightarrow> replay_failure + json" where
  "apply_operation V snapshot body =
     (case body of
        CommandBody c \<Rightarrow> map_sum CommandFailed (\<lambda>x. x) (applyWorkspaceCommand V snapshot c)
      | TransactionBody t \<Rightarrow>
          map_sum TransactionFailed (\<lambda>x. x) (applyWorkspaceTransaction V snapshot t))"

definition applyWorkspaceOperationForHistory ::
  "validators \<Rightarrow> json \<Rightarrow> operation \<Rightarrow> replay_failure + json" where
  "applyWorkspaceOperationForHistory V snapshot op =
     (let baseline = resolveSelectionBaseline op;
          aligned = alignSelectionForOperation snapshot baseline
      in case apply_operation V aligned (op_body op) of
           Inl f \<Rightarrow> Inl f
         | Inr result \<Rightarrow> Inr (restoreSelection result snapshot baseline))"

section \<open>The two stacks\<close>

definition DEFAULT_WORKSPACE_HISTORY_MAX_ENTRIES :: nat where
  "DEFAULT_WORKSPACE_HISTORY_MAX_ENTRIES = 80"

definition DEFAULT_WORKSPACE_HISTORY_MERGE_WINDOW_MS :: nat where
  "DEFAULT_WORKSPACE_HISTORY_MERGE_WINDOW_MS = 750"

record history_entry =
  entry_id :: string
  entry_operation :: operation
  entry_scope :: scope
  affectedScopes :: "scope list"
  isBarrier :: bool
  appliedAt :: string
  recordedSequence :: nat
  lastAppliedOperationId :: string
  undoneBy :: "string option"

record history_state =
  undoStack :: "history_entry list"
  redoStack :: "history_entry list"
  maxEntries :: nat
  mergeWindowMs :: nat
  history_sequence :: nat

definition normalize_count :: "nat \<Rightarrow> js_number option \<Rightarrow> nat" where
  "normalize_count fallback value =
     (case value of
        None \<Rightarrow> fallback | Some NotFinite \<Rightarrow> fallback | Some (Finite q) \<Rightarrow> nat (max 0 (js_trunc q)))"

definition normalizeMaxEntries :: "js_number option \<Rightarrow> nat" where
  "normalizeMaxEntries = normalize_count DEFAULT_WORKSPACE_HISTORY_MAX_ENTRIES"

definition normalizeMergeWindow :: "js_number option \<Rightarrow> nat" where
  "normalizeMergeWindow = normalize_count DEFAULT_WORKSPACE_HISTORY_MERGE_WINDOW_MS"

definition boundHistoryEntries :: "history_entry list \<Rightarrow> nat \<Rightarrow> history_entry list" where
  "boundHistoryEntries entries limit = (if limit = 0 then [] else slice_last limit entries)"

definition scopesOverlap :: "scope \<Rightarrow> scope \<Rightarrow> bool" where
  "scopesOverlap left right =
     (if scope_workspaceId left \<noteq> scope_workspaceId right then False
      else if is_workspace_scope left \<or> is_workspace_scope right then True
      else workspaceHistoryScopesEqual left right)"

definition entryAffectsScope :: "history_entry \<Rightarrow> scope \<Rightarrow> bool" where
  "entryAffectsScope e s = list_ex (\<lambda>a. scopesOverlap a s) (affectedScopes e)"

definition entriesOverlap :: "history_entry \<Rightarrow> history_entry \<Rightarrow> bool" where
  "entriesOverlap left right =
     list_ex (\<lambda>l. list_ex (\<lambda>r. scopesOverlap l r) (affectedScopes right)) (affectedScopes left)"

datatype lookup = Found nat history_entry | Blocked | Missing

text \<open>
  The search runs from the last entry to the first; \<open>blocked\<close> holds the indexes of the scopes that
  may not be crossed any more, \<open>later\<close> the entries already passed.
\<close>

fun find_entry_loop ::
  "scope list \<Rightarrow> (nat \<times> history_entry) list \<Rightarrow> nat list \<Rightarrow> history_entry list \<Rightarrow> bool \<Rightarrow> lookup"
  where
  "find_entry_loop scopes [] blocked later barrier = (if barrier then Blocked else Missing)"
| "find_entry_loop scopes ((index, e) # rest) blocked later barrier =
     (let candidates = filter (\<lambda>(i, s). i \<notin> set blocked \<and> workspaceHistoryScopesEqual (entry_scope e) s)
            (List.enumerate 0 scopes);
          crosses = is_workspace_scope (entry_scope e) \<and> list_ex (entriesOverlap e) later
      in
      if candidates \<noteq> [] \<and> \<not> crosses then Found index e
      else
        (let blocked1 = (if candidates \<noteq> [] then set_add (fst (hd candidates)) blocked else blocked);
             barrier1 = (barrier \<or> candidates \<noteq> []);
             newly = map fst (filter (\<lambda>(i, s). i \<notin> set blocked1 \<and> isBarrier e \<and> entryAffectsScope e s)
               (List.enumerate 0 scopes))
         in find_entry_loop scopes rest (blocked1 @ newly) (later @ [e]) (barrier1 \<or> newly \<noteq> [])))"

definition findHistoryEntry :: "history_entry list \<Rightarrow> scope list \<Rightarrow> lookup" where
  "findHistoryEntry entries selector =
     find_entry_loop (dedupeWorkspaceHistoryScopes selector) (rev (List.enumerate 0 entries)) [] [] False"

definition removeEntryAt :: "history_entry list \<Rightarrow> nat \<Rightarrow> history_entry list" where
  "removeEntryAt entries index =
     map snd (filter (\<lambda>(i, e). i \<noteq> index) (List.enumerate 0 entries))"

definition createHistoryEntry :: "operation \<Rightarrow> string option \<Rightarrow> nat \<Rightarrow> history_entry" where
  "createHistoryEntry op applied sequence =
     (let s = resolveWorkspaceOperationScope op in
      \<lparr>entry_id = getWorkspaceOperationId op, entry_operation = op, entry_scope = s,
       affectedScopes = resolveWorkspaceOperationAffectedScopes op,
       isBarrier = is_workspace_scope s,
       appliedAt = (case applied of Some t \<Rightarrow> t | None \<Rightarrow> getWorkspaceOperationIssuedAt op),
       recordedSequence = sequence, lastAppliedOperationId = getWorkspaceOperationId op,
       undoneBy = None\<rparr>)"

definition hasUniqueCommandIds :: "operation list \<Rightarrow> bool" where
  "hasUniqueCommandIds operations =
     (let ids = concat (map (\<lambda>op. map cmd_id (getWorkspaceOperationCommands op)) operations) in
      length (js_set ids) = length ids)"

definition operation_label :: "operation \<Rightarrow> string option" where
  "operation_label op =
     (case op_body op of CommandBody c \<Rightarrow> cmd_label c | TransactionBody t \<Rightarrow> tx_label t)"

definition merged_operation_id :: "string list \<Rightarrow> string" where
  "merged_operation_id ids =
     ''history:merge:'' @ join_with ''|'' (map (\<lambda>i. nat_text (length i) @ '':'' @ i) ids)"

definition mergeWorkspaceOperations :: "operation \<Rightarrow> operation \<Rightarrow> operation" where
  "mergeWorkspaceOperations first latest =
     (let ids = js_set (getWorkspaceOperationSourceIds first @ getWorkspaceOperationSourceIds latest) in
      \<lparr>op_body = TransactionBody
         \<lparr>tx_id = merged_operation_id ids,
          tx_workspaceId = operation_workspaceId first,
          tx_issuedAt = getWorkspaceOperationIssuedAt latest,
          tx_commands = getWorkspaceOperationCommands first @ getWorkspaceOperationCommands latest,
          tx_label = (case operation_label latest of Some l \<Rightarrow> Some l | None \<Rightarrow> operation_label first),
          tx_mergeKey = getWorkspaceOperationMergeKey latest\<rparr>,
       undoOf = None, redoOf = None, sourceOperationIds = Some ids\<rparr>)"

text \<open>
  \<open>Date.parse\<close> leaves the texts it accepts beyond the ISO format to the implementation; it is an
  argument, \<open>None\<close> where it gives no finite time.
\<close>

definition tryMergeHistoryEntries ::
  "(string \<Rightarrow> rat option) \<Rightarrow> history_entry \<Rightarrow> history_entry \<Rightarrow> nat \<Rightarrow> history_entry option" where
  "tryMergeHistoryEntries date_parse first latest window =
     (let firstMergeKey = getWorkspaceOperationMergeKey (entry_operation first);
          latestMergeKey = getWorkspaceOperationMergeKey (entry_operation latest);
          withinMergeWindow = (window > 0 \<and>
            (case (date_parse (appliedAt first), date_parse (appliedAt latest)) of
               (Some a, Some b) \<Rightarrow> b \<ge> a \<and> b - a \<le> of_nat window
             | _ \<Rightarrow> False))
      in
      if \<not> truthy_text firstMergeKey \<or> firstMergeKey \<noteq> latestMergeKey \<or> \<not> withinMergeWindow \<or>
         recordedSequence first \<noteq> recordedSequence latest \<or>
         \<not> workspaceHistoryScopesEqual (entry_scope first) (entry_scope latest) \<or>
         \<not> hasUniqueCommandIds [entry_operation first, entry_operation latest]
      then None
      else Some (createHistoryEntry
        (mergeWorkspaceOperations (entry_operation first) (entry_operation latest))
        (Some (appliedAt latest)) (recordedSequence latest)))"

definition createWorkspaceHistoryState :: "js_number option \<Rightarrow> js_number option \<Rightarrow> history_state" where
  "createWorkspaceHistoryState limit window =
     \<lparr>undoStack = [], redoStack = [], maxEntries = normalizeMaxEntries limit,
      mergeWindowMs = normalizeMergeWindow window, history_sequence = 0\<rparr>"

definition setWorkspaceHistoryLimit :: "history_state \<Rightarrow> js_number \<Rightarrow> history_state" where
  "setWorkspaceHistoryLimit h limit =
     (let normalizedLimit = normalizeMaxEntries (Some limit) in
      h\<lparr>undoStack := (if normalizedLimit = 0 then [] else slice_last normalizedLimit (undoStack h)),
        redoStack := (if normalizedLimit = 0 then [] else slice_last normalizedLimit (redoStack h)),
        maxEntries := normalizedLimit\<rparr>)"

definition setWorkspaceHistoryMergeWindow :: "history_state \<Rightarrow> js_number \<Rightarrow> history_state" where
  "setWorkspaceHistoryMergeWindow h window = h\<lparr>mergeWindowMs := normalizeMergeWindow (Some window)\<rparr>"

record record_options =
  opt_appliedAt :: "string option"
  opt_maxEntries :: "js_number option"
  opt_mergeWindowMs :: "js_number option"

definition recordWorkspaceOperation ::
  "(string \<Rightarrow> rat option) \<Rightarrow> history_state \<Rightarrow> operation \<Rightarrow> record_options \<Rightarrow> history_state" where
  "recordWorkspaceOperation date_parse h op options =
     (let limit = (case opt_maxEntries options of
            None \<Rightarrow> maxEntries h | Some v \<Rightarrow> normalizeMaxEntries (Some v));
          window = (case opt_mergeWindowMs options of
            None \<Rightarrow> mergeWindowMs h | Some v \<Rightarrow> normalizeMergeWindow (Some v));
          nextEntry = createHistoryEntry op (opt_appliedAt options) (history_sequence h);
          mergedEntry = (if undoStack h = [] then None
            else tryMergeHistoryEntries date_parse (last (undoStack h)) nextEntry window);
          nextUndoStack = (case mergedEntry of
            Some m \<Rightarrow> butlast (undoStack h) @ [m] | None \<Rightarrow> undoStack h @ [nextEntry]);
          entry = (case mergedEntry of Some m \<Rightarrow> m | None \<Rightarrow> nextEntry);
          nextRedoStack = filter (\<lambda>r. \<not> entriesOverlap r entry) (redoStack h)
      in \<lparr>undoStack = boundHistoryEntries nextUndoStack limit,
          redoStack = boundHistoryEntries nextRedoStack limit,
          maxEntries = limit, mergeWindowMs = window, history_sequence = history_sequence h\<rparr>)"

definition found_entry :: "lookup \<Rightarrow> history_entry option" where
  "found_entry l = (case l of Found _ e \<Rightarrow> Some e | _ \<Rightarrow> None)"

definition selectUndoWorkspaceHistoryEntry :: "history_state \<Rightarrow> scope list \<Rightarrow> history_entry option"
  where
  "selectUndoWorkspaceHistoryEntry h scopes = found_entry (findHistoryEntry (undoStack h) scopes)"

definition selectRedoWorkspaceHistoryEntry :: "history_state \<Rightarrow> scope list \<Rightarrow> history_entry option"
  where
  "selectRedoWorkspaceHistoryEntry h scopes = found_entry (findHistoryEntry (redoStack h) scopes)"

definition canUndoWorkspaceHistory :: "history_state \<Rightarrow> scope list \<Rightarrow> bool" where
  "canUndoWorkspaceHistory h scopes \<longleftrightarrow> selectUndoWorkspaceHistoryEntry h scopes \<noteq> None"

definition canRedoWorkspaceHistory :: "history_state \<Rightarrow> scope list \<Rightarrow> bool" where
  "canRedoWorkspaceHistory h scopes \<longleftrightarrow> selectRedoWorkspaceHistoryEntry h scopes \<noteq> None"

section \<open>Undo and redo\<close>

datatype history_issue =
  EntryNotFound | BarrierBlocked | OperationFailed replay_failure

record history_result =
  res_snapshot :: json
  res_history :: history_state
  res_entry :: history_entry
  res_appliedOperation :: operation
  res_affectedDocumentIds :: "string list"

definition undoWorkspaceHistory ::
  "validators \<Rightarrow> json \<Rightarrow> history_state \<Rightarrow> scope list \<Rightarrow> execution_options \<Rightarrow>
   history_issue + history_result" where
  "undoWorkspaceHistory V snapshot h scopes options =
     (case findHistoryEntry (undoStack h) scopes of
        Blocked \<Rightarrow> Inl BarrierBlocked
      | Missing \<Rightarrow> Inl EntryNotFound
      | Found index entry \<Rightarrow>
          (let sequence = Suc (history_sequence h);
               appliedOperation = createDirectionalWorkspaceOperation (entry_operation entry) Undo
                 sequence (lastAppliedOperationId entry) options
           in case applyWorkspaceOperationForHistory V snapshot appliedOperation of
                Inl f \<Rightarrow> Inl (OperationFailed f)
              | Inr result \<Rightarrow>
                  (let movedEntry = entry\<lparr>undoneBy := Some (getWorkspaceOperationId appliedOperation)\<rparr>
                   in Inr \<lparr>res_snapshot = result,
                           res_history = h\<lparr>undoStack := removeEntryAt (undoStack h) index,
                             redoStack := boundHistoryEntries (redoStack h @ [movedEntry]) (maxEntries h),
                             history_sequence := sequence\<rparr>,
                           res_entry = movedEntry, res_appliedOperation = appliedOperation,
                           res_affectedDocumentIds =
                             collectChangedWorkspaceDocumentIds snapshot result\<rparr>)))"

definition redoWorkspaceHistory ::
  "validators \<Rightarrow> json \<Rightarrow> history_state \<Rightarrow> scope list \<Rightarrow> execution_options \<Rightarrow>
   history_issue + history_result" where
  "redoWorkspaceHistory V snapshot h scopes options =
     (case findHistoryEntry (redoStack h) scopes of
        Blocked \<Rightarrow> Inl BarrierBlocked
      | Missing \<Rightarrow> Inl EntryNotFound
      | Found index entry \<Rightarrow>
          (let sequence = Suc (history_sequence h);
               appliedOperation = createDirectionalWorkspaceOperation (entry_operation entry) Redo
                 sequence (or_else (undoneBy entry) (getWorkspaceOperationId (entry_operation entry)))
                 options
           in case applyWorkspaceOperationForHistory V snapshot appliedOperation of
                Inl f \<Rightarrow> Inl (OperationFailed f)
              | Inr result \<Rightarrow>
                  (let movedEntry = entry\<lparr>
                         lastAppliedOperationId := getWorkspaceOperationId appliedOperation,
                         undoneBy := None\<rparr>
                   in Inr \<lparr>res_snapshot = result,
                           res_history = h\<lparr>
                             undoStack := boundHistoryEntries (undoStack h @ [movedEntry]) (maxEntries h),
                             redoStack := removeEntryAt (redoStack h) index,
                             history_sequence := sequence\<rparr>,
                           res_entry = movedEntry, res_appliedOperation = appliedOperation,
                           res_affectedDocumentIds =
                             collectChangedWorkspaceDocumentIds snapshot result\<rparr>)))"

end
