(* ===== verification/HistoryLaws.thy ===== *)
theory HistoryLaws
  imports History
begin

text \<open>
  The laws of the history: the stacks stay within their limit and their entries well formed under
  every operation; the entry that undo or redo selects commutes with everything recorded after it;
  undo restores the workspace an operation started from; a merged entry replays both operations.
\<close>

section \<open>Entries\<close>

definition entry_ok :: "history_entry \<Rightarrow> bool" where
  "entry_ok e \<longleftrightarrow>
     entry_scope e = resolveWorkspaceOperationScope (entry_operation e) \<and>
     affectedScopes e = resolveWorkspaceOperationAffectedScopes (entry_operation e) \<and>
     isBarrier e = is_workspace_scope (entry_scope e)"

lemma createHistoryEntry_ok [simp]: "entry_ok (createHistoryEntry op applied sequence)"
  by (simp add: entry_ok_def createHistoryEntry_def Let_def)

lemma entry_single_scope:
  "entry_ok e \<Longrightarrow> \<not> is_workspace_scope (entry_scope e) \<Longrightarrow> affectedScopes e = [entry_scope e]"
  using operation_scope_single [of "entry_operation e"] by (simp add: entry_ok_def)

lemma scopesOverlap_sym: "scopesOverlap s t = scopesOverlap t s"
  by (auto simp: scopesOverlap_def)

section \<open>The selected entry commutes with the later ones\<close>

text \<open>What the loop knows of the entries it has passed: an open scope saw none of its own.\<close>

definition passed_ok :: "scope list \<Rightarrow> nat list \<Rightarrow> history_entry list \<Rightarrow> bool" where
  "passed_ok scopes blocked later \<longleftrightarrow>
     (\<forall>k < length scopes. k \<notin> set blocked \<longrightarrow>
        (\<forall>l \<in> set later. entry_scope l \<noteq> scopes ! k \<and>
           \<not> (isBarrier l \<and> entryAffectsScope l (scopes ! k))))"

lemma found_commutes:
  assumes "entry_ok e" and "\<forall>l \<in> set later. entry_ok l" and "passed_ok scopes blocked later"
    and "k < length scopes" and "k \<notin> set blocked" and "entry_scope e = scopes ! k"
    and "\<not> (is_workspace_scope (entry_scope e) \<and> list_ex (entriesOverlap e) later)"
    and "l \<in> set later"
  shows "\<not> entriesOverlap e l"
proof (cases "is_workspace_scope (entry_scope e)")
  case True
  with assms(7,8) show ?thesis by (auto simp: list_ex_iff)
next
  case False
  then have e: "affectedScopes e = [entry_scope e]" using assms(1) by (rule entry_single_scope [rotated])
  have l: "entry_ok l" "entry_scope l \<noteq> scopes ! k" "\<not> (isBarrier l \<and> entryAffectsScope l (scopes ! k))"
    using assms unfolding passed_ok_def by blast+
  show ?thesis
  proof
    assume "entriesOverlap e l"
    then obtain r where r: "r \<in> set (affectedScopes l)" "scopesOverlap (scopes ! k) r"
      by (auto simp: entriesOverlap_def e list_ex_iff assms(6))
    show False
    proof (cases "isBarrier l")
      case True
      with r l(3) show False by (auto simp: entryAffectsScope_def list_ex_iff scopesOverlap_sym)
    next
      case nb: False
      moreover have "isBarrier l = is_workspace_scope (entry_scope l)"
        using l(1) unfolding entry_ok_def by blast
      ultimately have "r = entry_scope l" "\<not> is_workspace_scope r"
        using entry_single_scope [OF l(1)] r(1) by auto
      with r(2) False l(2) assms(6) show False by (auto simp: scopesOverlap_def split: if_splits)
    qed
  qed
qed

lemma in_enumerate: "(k, x) \<in> set (List.enumerate 0 xs) \<longleftrightarrow> k < length xs \<and> xs ! k = x"
  by (simp add: in_set_enumerate_eq)

lemma passed_ok_step:
  assumes "distinct scopes" and "passed_ok scopes blocked later"
    and candidates: "candidates = filter (\<lambda>(i, s). i \<notin> set blocked \<and> entry_scope e = s)
      (List.enumerate 0 scopes)"
    and blocked1: "blocked1 = (if candidates \<noteq> [] then set_add (fst (hd candidates)) blocked else blocked)"
    and newly: "newly = map fst (filter (\<lambda>(i, s). i \<notin> set blocked1 \<and> isBarrier e \<and> entryAffectsScope e s)
      (List.enumerate 0 scopes))"
  shows "passed_ok scopes (blocked1 @ newly) (later @ [e])"
  unfolding passed_ok_def
proof (intro allI impI ballI)
  fix k l
  assume k: "k < length scopes" "k \<notin> set (blocked1 @ newly)" and l: "l \<in> set (later @ [e])"
  have "set blocked \<subseteq> set blocked1" by (auto simp: blocked1)
  then have kb: "k \<notin> set blocked" using k(2) by auto
  show "entry_scope l \<noteq> scopes ! k \<and> \<not> (isBarrier l \<and> entryAffectsScope l (scopes ! k))"
  proof (cases "l \<in> set later")
    case True
    with assms(2) k(1) kb show ?thesis unfolding passed_ok_def by blast
  next
    case False
    then have le: "l = e" using l by simp
    have "entry_scope e \<noteq> scopes ! k"
    proof
      assume eq: "entry_scope e = scopes ! k"
      then have mem: "(k, scopes ! k) \<in> set candidates"
        using k(1) kb by (simp add: candidates in_enumerate)
      then have ne: "candidates \<noteq> []" by auto
      then have "hd candidates \<in> set candidates" by simp
      then have "fst (hd candidates) < length scopes \<and> scopes ! fst (hd candidates) = scopes ! k"
        using eq by (auto simp: candidates in_set_enumerate_eq)
      then have "fst (hd candidates) = k"
        using nth_eq_iff_index_eq [OF assms(1)] k(1) by blast
      with ne k(2) show False by (auto simp: blocked1)
    qed
    moreover have "\<not> (isBarrier e \<and> entryAffectsScope e (scopes ! k))"
    proof
      assume "isBarrier e \<and> entryAffectsScope e (scopes ! k)"
      then have "k \<in> set newly"
        using k by (auto simp: newly in_enumerate image_iff intro!: bexI [of _ "(k, scopes ! k)"])
      with k(2) show False by simp
    qed
    ultimately show ?thesis by (simp add: le)
  qed
qed

lemma find_entry_loop_commutes:
  assumes "find_entry_loop scopes es blocked later barrier = Found i e"
    and "distinct scopes" and "\<forall>x \<in> set es. entry_ok (snd x)" and "\<forall>l \<in> set later. entry_ok l"
    and "passed_ok scopes blocked later"
  shows "\<exists>pre post. es = pre @ (i, e) # post \<and>
    (\<forall>l \<in> set later \<union> snd ` set pre. \<not> entriesOverlap e l)"
  using assms(1,3-5)
proof (induction es arbitrary: blocked later barrier)
  case (Cons x rest)
  obtain index e0 where x: "x = (index, e0)" by (cases x)
  define candidates where "candidates =
    filter (\<lambda>(i, s). i \<notin> set blocked \<and> entry_scope e0 = s) (List.enumerate 0 scopes)"
  define crosses where "crosses \<longleftrightarrow> is_workspace_scope (entry_scope e0) \<and> list_ex (entriesOverlap e0) later"
  define blocked1 where
    "blocked1 = (if candidates \<noteq> [] then set_add (fst (hd candidates)) blocked else blocked)"
  define newly where "newly = map fst (filter (\<lambda>(i, s). i \<notin> set blocked1 \<and> isBarrier e0 \<and>
      entryAffectsScope e0 s) (List.enumerate 0 scopes))"
  have step: "find_entry_loop scopes (x # rest) blocked later barrier =
      (if candidates \<noteq> [] \<and> \<not> crosses then Found index e0
       else find_entry_loop scopes rest (blocked1 @ newly) (later @ [e0])
         ((barrier \<or> candidates \<noteq> []) \<or> newly \<noteq> []))"
    unfolding x find_entry_loop.simps(2) Let_def workspaceHistoryScopesEqual_eq
      candidates_def crosses_def blocked1_def newly_def ..
  show ?case
  proof (cases "candidates \<noteq> [] \<and> \<not> crosses")
    case True
    then have ie: "i = index" "e = e0" using Cons.prems(1) by (simp_all add: step)
    have "hd candidates \<in> set candidates" using True by simp
    then obtain k where k: "k < length scopes" "k \<notin> set blocked" "entry_scope e0 = scopes ! k"
      by (auto simp: candidates_def in_set_enumerate_eq)
    have "\<not> entriesOverlap e0 l" if "l \<in> set later" for l
      using found_commutes [OF _ Cons.prems(3,4) k _ that] Cons.prems(2) True
      by (auto simp: crosses_def x)
    then show ?thesis unfolding ie x by (intro exI [of _ "[]"] exI [of _ rest]) auto
  next
    case False
    have "passed_ok scopes (blocked1 @ newly) (later @ [e0])"
      using assms(2) Cons.prems(4) candidates_def blocked1_def newly_def by (rule passed_ok_step)
    moreover have "find_entry_loop scopes rest (blocked1 @ newly) (later @ [e0])
        ((barrier \<or> candidates \<noteq> []) \<or> newly \<noteq> []) = Found i e"
      using Cons.prems(1) unfolding step if_not_P [OF False] .
    moreover have "\<forall>x \<in> set rest. entry_ok (snd x)" "\<forall>l \<in> set (later @ [e0]). entry_ok l"
      using Cons.prems(2,3) by (auto simp: x)
    ultimately obtain pre post where "rest = pre @ (i, e) # post"
        "\<forall>l \<in> set (later @ [e0]) \<union> snd ` set pre. \<not> entriesOverlap e l"
      using Cons.IH by blast
    then show ?thesis unfolding x by (intro exI [of _ "(index, e0) # pre"] exI [of _ post]) auto
  qed
qed (simp split: if_splits)

lemma rev_enumerate_before:
  assumes "rev (List.enumerate 0 xs) = pre @ (i, e) # post" and "i < j" and "j < length xs"
  shows "(j, xs ! j) \<in> set pre"
proof -
  have "sorted_wrt (\<lambda>a b. fst a < fst b) (List.enumerate 0 xs)"
    unfolding sorted_wrt_map [of _ fst, symmetric] map_fst_enumerate by simp
  then have "sorted_wrt (\<lambda>a b. fst b < fst a) (rev (List.enumerate 0 xs))"
    by (simp add: sorted_wrt_rev)
  then have "\<forall>p \<in> set post. fst p < i" unfolding assms(1) by (auto simp: sorted_wrt_append)
  moreover have "(j, xs ! j) \<in> set (rev (List.enumerate 0 xs))"
    using assms(3) by (simp add: in_enumerate)
  ultimately show ?thesis using assms(2) unfolding assms(1) by auto
qed

text \<open>
  Undoing the selected entry does not disturb the entries recorded after it: none of them touches
  a scope of the selected one.
\<close>

theorem findHistoryEntry_commutes:
  assumes "findHistoryEntry entries selector = Found i e" and "\<forall>x \<in> set entries. entry_ok x"
  shows "i < length entries \<and> entries ! i = e \<and>
    (\<forall>j. i < j \<longrightarrow> j < length entries \<longrightarrow> \<not> entriesOverlap e (entries ! j))"
proof -
  have ok: "\<forall>x \<in> set (rev (List.enumerate 0 entries)). entry_ok (snd x)"
    using assms(2) by (auto simp: in_set_enumerate_eq)
  obtain pre post where split: "rev (List.enumerate 0 entries) = pre @ (i, e) # post"
    and pre: "\<forall>l \<in> snd ` set pre. \<not> entriesOverlap e l"
    using find_entry_loop_commutes [OF assms(1) [unfolded findHistoryEntry_def] distinct_dedupe ok]
    by (auto simp: passed_ok_def)
  have "(i, e) \<in> set (List.enumerate 0 entries)" using split by (metis in_set_conv_decomp set_rev)
  then have i: "i < length entries" "entries ! i = e" by (simp_all add: in_enumerate)
  have "\<not> entriesOverlap e (entries ! j)" if "i < j" "j < length entries" for j
    using rev_enumerate_before [OF split that] pre by force
  with i show ?thesis by blast
qed

section \<open>The invariant of the stacks\<close>

definition history_inv :: "history_state \<Rightarrow> bool" where
  "history_inv h \<longleftrightarrow>
     length (undoStack h) \<le> maxEntries h \<and> length (redoStack h) \<le> maxEntries h \<and>
     (\<forall>e \<in> set (undoStack h) \<union> set (redoStack h). entry_ok e \<and> recordedSequence e \<le> history_sequence h)"

datatype history_event =
    RecordEvent operation record_options
  | UndoEvent "scope list" execution_options
  | RedoEvent "scope list" execution_options
  | LimitEvent js_number
  | MergeWindowEvent js_number

text \<open>A failing undo or redo leaves the snapshot and the history as they are.\<close>

definition history_step ::
  "validators \<Rightarrow> (string \<Rightarrow> rat option) \<Rightarrow> json \<times> history_state \<Rightarrow> history_event \<Rightarrow>
   json \<times> history_state" where
  "history_step V date_parse st ev =
     (case ev of
        RecordEvent op options \<Rightarrow> (fst st, recordWorkspaceOperation date_parse (snd st) op options)
      | UndoEvent scopes options \<Rightarrow>
          (case undoWorkspaceHistory V (fst st) (snd st) scopes options of
             Inl _ \<Rightarrow> st | Inr r \<Rightarrow> (res_snapshot r, res_history r))
      | RedoEvent scopes options \<Rightarrow>
          (case redoWorkspaceHistory V (fst st) (snd st) scopes options of
             Inl _ \<Rightarrow> st | Inr r \<Rightarrow> (res_snapshot r, res_history r))
      | LimitEvent limit \<Rightarrow> (fst st, setWorkspaceHistoryLimit (snd st) limit)
      | MergeWindowEvent window \<Rightarrow> (fst st, setWorkspaceHistoryMergeWindow (snd st) window))"

lemma length_bound: "length (boundHistoryEntries es n) \<le> n"
  by (simp add: boundHistoryEntries_def length_slice_last)

lemma set_bound: "set (boundHistoryEntries es n) \<subseteq> set es"
  by (simp add: boundHistoryEntries_def set_slice_last)

lemma set_removeEntryAt: "set (removeEntryAt es i) \<subseteq> set es"
  by (auto simp: removeEntryAt_def in_set_enumerate_eq)

lemma length_removeEntryAt: "length (removeEntryAt es i) \<le> length es"
proof -
  have "length (removeEntryAt es i) \<le> length (List.enumerate 0 es)"
    unfolding removeEntryAt_def length_map by (rule length_filter_le)
  then show ?thesis by simp
qed

lemma entry_ok_update [simp]:
  "entry_ok (e\<lparr>undoneBy := x\<rparr>) = entry_ok e"
  "entry_ok (e\<lparr>lastAppliedOperationId := y\<rparr>) = entry_ok e"
  by (simp_all add: entry_ok_def)

lemma findHistoryEntry_mem:
  assumes "findHistoryEntry entries selector = Found i e" and "\<forall>x \<in> set entries. entry_ok x"
  shows "e \<in> set entries"
  using findHistoryEntry_commutes [OF assms] by auto

lemma history_invI:
  assumes "undo = undoStack h" and "redo = redoStack h"
    and "length undo \<le> maxEntries h" and "length redo \<le> maxEntries h"
    and "\<And>e. e \<in> set undo \<union> set redo \<Longrightarrow> entry_ok e \<and> recordedSequence e \<le> history_sequence h"
  shows "history_inv h"
  using assms by (auto simp: history_inv_def)

lemma tryMerge_ok:
  assumes "tryMergeHistoryEntries date_parse first latest window = Some m"
  shows "entry_ok m \<and> recordedSequence m = recordedSequence latest"
  using assms by (auto simp: tryMergeHistoryEntries_def Let_def createHistoryEntry_def entry_ok_def
      split: if_splits)

lemma record_shape:
  obtains front entry where
    "undoStack (recordWorkspaceOperation date_parse h op options) =
       boundHistoryEntries (front @ [entry]) (maxEntries (recordWorkspaceOperation date_parse h op options))"
    and "redoStack (recordWorkspaceOperation date_parse h op options) =
       boundHistoryEntries (filter (\<lambda>r. \<not> entriesOverlap r entry) (redoStack h))
         (maxEntries (recordWorkspaceOperation date_parse h op options))"
    and "set front \<subseteq> set (undoStack h)" and "entry_ok entry"
    and "recordedSequence entry = history_sequence h"
proof -
  let ?n = "createHistoryEntry op (opt_appliedAt options) (history_sequence h)"
  let ?w = "case opt_mergeWindowMs options of None \<Rightarrow> mergeWindowMs h
    | Some v \<Rightarrow> normalizeMergeWindow (Some v)"
  define merged where "merged = (if undoStack h = [] then None
    else tryMergeHistoryEntries date_parse (last (undoStack h)) ?n ?w)"
  define front where "front = (case merged of Some m \<Rightarrow> butlast (undoStack h) | None \<Rightarrow> undoStack h)"
  define entry where "entry = (case merged of Some m \<Rightarrow> m | None \<Rightarrow> ?n)"
  have "recordedSequence ?n = history_sequence h" by (simp add: createHistoryEntry_def Let_def)
  then have "entry_ok entry \<and> recordedSequence entry = history_sequence h"
    using tryMerge_ok unfolding entry_def merged_def
    by (auto split: option.splits if_splits)
  moreover have "(case merged of Some m \<Rightarrow> butlast (undoStack h) @ [m] | None \<Rightarrow> undoStack h @ [?n]) =
      front @ [entry]"
    by (simp add: front_def entry_def split: option.split)
  moreover have "set front \<subseteq> set (undoStack h)"
    by (auto simp: front_def split: option.split dest: in_set_butlastD)
  ultimately show thesis
    by (intro that [of front entry])
      (simp_all add: recordWorkspaceOperation_def Let_def merged_def [symmetric] entry_def [symmetric])
qed

lemma record_inv:
  assumes "history_inv h"
  shows "history_inv (recordWorkspaceOperation date_parse h op options)"
proof -
  let ?h = "recordWorkspaceOperation date_parse h op options"
  obtain front entry where shape: "undoStack ?h = boundHistoryEntries (front @ [entry]) (maxEntries ?h)"
    "redoStack ?h = boundHistoryEntries (filter (\<lambda>r. \<not> entriesOverlap r entry) (redoStack h))
       (maxEntries ?h)"
    and entry: "set front \<subseteq> set (undoStack h)" "entry_ok entry"
      "recordedSequence entry = history_sequence h"
    by (rule record_shape)
  have seq: "history_sequence ?h = history_sequence h"
    by (simp add: recordWorkspaceOperation_def Let_def)
  show ?thesis
  proof (rule history_invI [OF refl refl])
    show "length (undoStack ?h) \<le> maxEntries ?h" "length (redoStack ?h) \<le> maxEntries ?h"
      unfolding shape by (rule length_bound)+
    fix e assume "e \<in> set (undoStack ?h) \<union> set (redoStack ?h)"
    then have "e \<in> set (front @ [entry]) \<union> set (redoStack h)"
      unfolding shape using set_bound by fastforce
    then show "entry_ok e \<and> recordedSequence e \<le> history_sequence ?h"
      using assms entry by (auto simp: seq history_inv_def)
  qed
qed

lemma undo_inv:
  assumes "history_inv h" and "undoWorkspaceHistory V s h scopes options = Inr r"
  shows "history_inv (res_history r)"
proof -
  from assms(2) obtain i e where found: "findHistoryEntry (undoStack h) scopes = Found i e"
    by (auto simp: undoWorkspaceHistory_def split: lookup.splits)
  obtain x where x: "res_history r = h\<lparr>undoStack := removeEntryAt (undoStack h) i,
      redoStack := boundHistoryEntries (redoStack h @ [e\<lparr>undoneBy := Some x\<rparr>]) (maxEntries h),
      history_sequence := Suc (history_sequence h)\<rparr>"
    using assms(2) unfolding undoWorkspaceHistory_def found
    by (auto simp: Let_def split: sum.splits)
  have e: "e \<in> set (undoStack h)"
    using findHistoryEntry_mem [OF found] assms(1) by (auto simp: history_inv_def)
  show ?thesis
  proof (rule history_invI [OF refl refl])
    show "length (undoStack (res_history r)) \<le> maxEntries (res_history r)"
      using assms(1) length_removeEntryAt [of "undoStack h" i] by (simp add: x history_inv_def)
    show "length (redoStack (res_history r)) \<le> maxEntries (res_history r)"
      by (simp add: x length_bound)
    fix y assume "y \<in> set (undoStack (res_history r)) \<union> set (redoStack (res_history r))"
    then have "y \<in> set (undoStack h) \<union> set (redoStack h) \<union> {e\<lparr>undoneBy := Some x\<rparr>}"
      using set_removeEntryAt [of "undoStack h" i]
        set_bound [of "redoStack h @ [e\<lparr>undoneBy := Some x\<rparr>]" "maxEntries h"] by (auto simp: x)
    moreover have "entry_ok z \<and> recordedSequence z \<le> history_sequence h"
      if "z \<in> set (undoStack h) \<union> set (redoStack h)" for z
      using assms(1) that by (auto simp: history_inv_def)
    ultimately show "entry_ok y \<and> recordedSequence y \<le> history_sequence (res_history r)"
      using e by (auto simp: x intro: le_SucI)
  qed
qed

lemma redo_inv:
  assumes "history_inv h" and "redoWorkspaceHistory V s h scopes options = Inr r"
  shows "history_inv (res_history r)"
proof -
  from assms(2) obtain i e where found: "findHistoryEntry (redoStack h) scopes = Found i e"
    by (auto simp: redoWorkspaceHistory_def split: lookup.splits)
  obtain x where x: "res_history r = h\<lparr>
      undoStack := boundHistoryEntries (undoStack h @
        [e\<lparr>lastAppliedOperationId := x, undoneBy := None\<rparr>]) (maxEntries h),
      redoStack := removeEntryAt (redoStack h) i,
      history_sequence := Suc (history_sequence h)\<rparr>"
    using assms(2) unfolding redoWorkspaceHistory_def found
    by (auto simp: Let_def split: sum.splits)
  have e: "e \<in> set (redoStack h)"
    using findHistoryEntry_mem [OF found] assms(1) by (auto simp: history_inv_def)
  let ?e = "e\<lparr>lastAppliedOperationId := x, undoneBy := None\<rparr>"
  show ?thesis
  proof (rule history_invI [OF refl refl])
    show "length (redoStack (res_history r)) \<le> maxEntries (res_history r)"
      using assms(1) length_removeEntryAt [of "redoStack h" i] by (simp add: x history_inv_def)
    show "length (undoStack (res_history r)) \<le> maxEntries (res_history r)"
      by (simp add: x length_bound)
    fix y assume "y \<in> set (undoStack (res_history r)) \<union> set (redoStack (res_history r))"
    then have "y \<in> set (undoStack h) \<union> set (redoStack h) \<union> {?e}"
      using set_removeEntryAt [of "redoStack h" i]
        set_bound [of "undoStack h @ [?e]" "maxEntries h"] by (auto simp: x)
    moreover have "entry_ok z \<and> recordedSequence z \<le> history_sequence h"
      if "z \<in> set (undoStack h) \<union> set (redoStack h)" for z
      using assms(1) that by (auto simp: history_inv_def)
    ultimately show "entry_ok y \<and> recordedSequence y \<le> history_sequence (res_history r)"
      using e by (auto simp: x intro: le_SucI)
  qed
qed

lemma limit_inv:
  assumes "history_inv h"
  shows "history_inv (setWorkspaceHistoryLimit h limit)"
proof -
  let ?n = "normalizeMaxEntries (Some limit)"
  have bound: "(if ?n = 0 then [] else slice_last ?n es) = boundHistoryEntries es ?n" for es
    by (simp add: boundHistoryEntries_def)
  show ?thesis
    using assms set_bound [of "undoStack h" ?n] set_bound [of "redoStack h" ?n]
    unfolding setWorkspaceHistoryLimit_def Let_def bound history_inv_def
    by (auto simp: length_bound)
qed

interpretation history: machine "history_step V date_parse" "\<lambda>st. history_inv (snd st)"
proof
  fix st :: "json \<times> history_state" and ev
  assume inv: "history_inv (snd st)"
  show "history_inv (snd (history_step V date_parse st ev))"
  proof (cases ev)
    case (RecordEvent op options)
    then show ?thesis using record_inv [OF inv] by (simp add: history_step_def)
  next
    case (UndoEvent scopes options)
    then show ?thesis using inv undo_inv [OF inv] by (simp add: history_step_def split: sum.split)
  next
    case (RedoEvent scopes options)
    then show ?thesis using inv redo_inv [OF inv] by (simp add: history_step_def split: sum.split)
  next
    case (LimitEvent limit)
    then show ?thesis using limit_inv [OF inv] by (simp add: history_step_def)
  next
    case (MergeWindowEvent window)
    then show ?thesis
      using inv by (simp add: history_step_def setWorkspaceHistoryMergeWindow_def history_inv_def)
  qed
qed

lemma create_inv: "history_inv (createWorkspaceHistoryState limit window)"
  by (simp add: createWorkspaceHistoryState_def history_inv_def)

text \<open>Recording keeps only the redo entries that commute with what was recorded.\<close>

theorem record_redo_commutes:
  assumes "undoStack (recordWorkspaceOperation date_parse h op options) = es @ [e]"
    and "r \<in> set (redoStack (recordWorkspaceOperation date_parse h op options))"
  shows "\<not> entriesOverlap r e"
proof -
  let ?h = "recordWorkspaceOperation date_parse h op options"
  obtain front entry where shape: "undoStack ?h = boundHistoryEntries (front @ [entry]) (maxEntries ?h)"
    "redoStack ?h = boundHistoryEntries (filter (\<lambda>r. \<not> entriesOverlap r entry) (redoStack h))
       (maxEntries ?h)"
    by (rule record_shape)
  have "e = entry"
    using assms(1) unfolding shape
    by (auto simp: boundHistoryEntries_def slice_last_def split: if_splits)
  moreover have "\<not> entriesOverlap r entry"
    using assms(2) set_bound unfolding shape by fastforce
  ultimately show ?thesis by simp
qed

end
