(* ===== verification/ReplayLaws.thy ===== *)
theory ReplayLaws
  imports HistoryLaws
begin

text \<open>
  Undo and redo as inverses. For an operation whose reverse patches neither recreate a whole
  document nor change the active selection, undoing its entry restores the workspace it started
  from and redoing it gives the workspace it produced, up to the order of object keys.
\<close>

section \<open>Directional operations\<close>

text \<open>The reverse patches do not recreate a document and do not touch the selection.\<close>

definition plain_reverse :: "command \<Rightarrow> bool" where
  "plain_reverse c \<longleftrightarrow> (\<forall>op \<in> set (reverseOps c).
     \<not> isWholeDocumentAdd op \<and> op_path op \<noteq> ''/activeDocumentId'' \<and>
     op_path op \<noteq> ''/activeRouteNodeId'')"

lemma rebase_plain: "plain_reverse c \<Longrightarrow> rebaseRecreatedDocumentIdentity (reverseOps c) = reverseOps c"
  by (auto simp: rebaseRecreatedDocumentIdentity_def plain_reverse_def rebase_op_def intro: map_idI)

text \<open>The default ids and a time that is not blank.\<close>

definition default_options :: "execution_options \<Rightarrow> bool" where
  "default_options options \<longleftrightarrow>
     idFactory options = None \<and>
     js_trim (case clock_text options of Some t \<Rightarrow> t | None \<Rightarrow> date_text options) \<noteq> []"

definition directional_id :: "operation \<Rightarrow> direction \<Rightarrow> nat \<Rightarrow> nat option \<Rightarrow> string" where
  "directional_id op direction sequence index =
     defaultOperationIdFactory
       \<lparr>ctx_direction = direction, ctx_role = (if index = None then OperationRole else CommandRole),
        ctx_sourceOperationId = getWorkspaceOperationId op, ctx_sequence = sequence,
        ctx_commandIndex = index\<rparr>"

lemma directional_id_not_blank:
  "js_trim (getWorkspaceOperationId op) \<noteq> [] \<Longrightarrow> js_trim (directional_id op direction sequence index) \<noteq> []"
  by (simp add: directional_id_def defaultOperationIdFactory_def js_trim_append_not_blank)

lemma directional_id_inj:
  "directional_id op direction sequence (Some i) = directional_id op direction sequence (Some j) \<longleftrightarrow> i = j"
  by (simp add: directional_id_def defaultOperationIdFactory_def)

definition options_time :: "execution_options \<Rightarrow> string" where
  "options_time options = (case clock_text options of Some t \<Rightarrow> t | None \<Rightarrow> date_text options)"

lemma directional_body:
  assumes "default_options options"
  shows "op_body (createDirectionalWorkspaceOperation op direction sequence causal options) =
    (case op_body op of
       CommandBody c \<Rightarrow> CommandBody (cloneCommandForDirection c (directional_id op direction sequence None)
         (options_time options) (direction = Undo))
     | TransactionBody t \<Rightarrow> TransactionBody (t\<lparr>
         tx_id := directional_id op direction sequence None, tx_issuedAt := options_time options,
         tx_commands := map (\<lambda>(i, c). cloneCommandForDirection c
             (directional_id op direction sequence (Some i)) (options_time options) (direction = Undo))
           (List.enumerate 0 (if direction = Undo then rev (tx_commands t) else tx_commands t))\<rparr>))"
  using assms
  by (simp add: createDirectionalWorkspaceOperation_def Let_def freshOperationId_def default_options_def
      directional_id_def options_time_def split: operation_body.split)

text \<open>A redone command is the recorded one with a fresh id and time.\<close>

definition reissues :: "command \<Rightarrow> command \<Rightarrow> bool" where
  "reissues c' c \<longleftrightarrow> (\<exists>i t. js_trim i \<noteq> [] \<and> js_trim t \<noteq> [] \<and> c' = c\<lparr>cmd_id := i, cmd_issuedAt := t\<rparr>)"

lemma clone_undo_reverses:
  assumes "plain_reverse c" and "js_trim i \<noteq> []" and "js_trim t \<noteq> []"
  shows "reverses (cloneCommandForDirection c i t True) c"
  using assms by (simp add: reverses_def cloneCommandForDirection_def rebase_plain)

lemma clone_redo_reissues:
  assumes "plain_reverse c" and "js_trim i \<noteq> []" and "js_trim t \<noteq> []"
  shows "reissues (cloneCommandForDirection c i t False) c"
  unfolding reissues_def
  by (intro exI [of _ i] exI [of _ t]) (simp add: assms cloneCommandForDirection_def rebase_plain)

lemma reissues_apply:
  assumes "reissues c' c" and "applyWorkspaceCommandInternal V s c b = Inr r"
  shows "applyWorkspaceCommandInternal V s c' b = Inr r"
proof -
  obtain i t where it: "js_trim i \<noteq> []" "js_trim t \<noteq> []" "c' = c\<lparr>cmd_id := i, cmd_issuedAt := t\<rparr>"
    using assms(1) by (auto simp: reissues_def)
  have fields: "cmd_target c' = cmd_target c" "cmd_namespace c' = cmd_namespace c"
    "domainHint c' = domainHint c"
    by (simp_all add: it(3))
  have dom: "resolveWorkspaceCommandDomain c' = resolveWorkspaceCommandDomain c"
    unfolding resolveWorkspaceCommandDomain_def fields ..
  have env: "validateEnvelope c' = []" if "validateEnvelope c = []"
    using that it dom unfolding validateEnvelope_Nil by simp
  have target: "target_of c' d ty = target_of c d ty" for d ty
    unfolding target_of_def dom by (simp add: it(3))
  have issues: "doc_issues c' (target_of c' d ty) = []" if "doc_issues c (target_of c d ty) = []" for d ty
    using that env unfolding target by (auto simp: doc_issues_def Let_def it(3) split: if_splits)
  have doc: "apply_document_command V s c' d = Inr r" if "apply_document_command V s c d = Inr r" for d r
  proof -
    obtain ty a p where p: "document_view s d = Some (Some (ty, a))"
      "applyWorkspaceDocumentCommand V a c (target_of c d ty) = Inr p" "r = set_document_content s d p"
      using apply_document_command_Inr [OF \<open>apply_document_command V s c d = Inr r\<close>] by blast
    then have "applyWorkspaceDocumentCommand V a c' (target_of c' d ty) = Inr p"
      using issues unfolding applyWorkspaceDocumentCommand_eq
      by (auto simp: it(3) target split: if_splits sum.splits) (simp add: target_of_def)+
    then show ?thesis using p by (simp add: apply_document_command_eq)
  qed
  have ops: "forwardOps c' = forwardOps c" "reverseOps c' = reverseOps c" by (simp_all add: it(3))
  have patch: "apply_workspace_patch V s c' b = apply_workspace_patch V s c b"
    unfolding apply_workspace_patch_def ops ..
  show ?thesis
    using assms(2) env doc patch
    by (auto simp: applyWorkspaceCommandInternal_def it(3) split: if_splits)
qed

section \<open>Replays that leave the selection alone\<close>

definition selection_free :: "command \<Rightarrow> bool" where
  "selection_free c \<longleftrightarrow>
     selectionValueFromReverseOperation c ''/activeDocumentId'' = None \<and>
     selectionValueFromReverseOperation c ''/activeRouteNodeId'' = None"

lemma first_some_None: "\<forall>x \<in> set xs. f x = None \<Longrightarrow> first_some f xs = None"
proof -
  have "foldl (\<lambda>r x. if r \<noteq> None then r else f x) None xs = None" if "\<forall>x \<in> set xs. f x = None"
    using that by (induction xs) auto
  then show "\<forall>x \<in> set xs. f x = None \<Longrightarrow> first_some f xs = None" by (simp add: first_some_def)
qed

lemma replay_selection_free:
  assumes "\<forall>c \<in> set (getWorkspaceOperationCommands op). selection_free c"
  shows "applyWorkspaceOperationForHistory V s op = apply_operation V s (op_body op)"
proof -
  have "resolveSelectionBaseline op = \<lparr>base_document = None, base_route = None\<rparr>"
    using assms by (simp add: resolveSelectionBaseline_def first_some_None selection_free_def)
  then show ?thesis
    by (simp add: applyWorkspaceOperationForHistory_def alignSelectionForOperation_def
        align_member_def restoreSelection_def Let_def split: sum.split)
qed

lemma find_rev_None: "\<forall>x \<in> set xs. \<not> P x \<Longrightarrow> find P (rev xs) = None"
  by (simp add: find_None_iff)

lemma clone_selection_free:
  assumes "plain_reverse c"
  shows "selection_free (cloneCommandForDirection c i t reverse)"
proof (cases reverse)
  case True
  then show ?thesis
    using assms
    by (auto simp: selection_free_def selectionValueFromReverseOperation_def cloneCommandForDirection_def
        rebase_plain plain_reverse_def list_ex_iff)
next
  case False
  have "find (\<lambda>op. op_path op = p) (rev (reverseOps c)) = None"
    if "p = ''/activeDocumentId'' \<or> p = ''/activeRouteNodeId''" for p
    by (rule find_rev_None) (use assms that in \<open>auto simp: plain_reverse_def\<close>)
  then show ?thesis
    using False
    by (simp add: selection_free_def selectionValueFromReverseOperation_def cloneCommandForDirection_def
        rebase_plain assms)
qed

lemma enumerate_mem: "(i, c) \<in> set (List.enumerate k xs) \<Longrightarrow> c \<in> set xs"
  unfolding enumerate_eq_zip by (rule set_zip_rightD)

lemma enumerate_Nil_iff [simp]: "List.enumerate k xs = [] \<longleftrightarrow> xs = []"
  by (cases xs) auto

lemma directional_selection_free:
  assumes "default_options options" and "\<forall>c \<in> set (getWorkspaceOperationCommands op). plain_reverse c"
  shows "\<forall>c \<in> set (getWorkspaceOperationCommands
           (createDirectionalWorkspaceOperation op direction sequence causal options)). selection_free c"
  using assms(2)
  by (auto simp: getWorkspaceOperationCommands_def directional_body [OF assms(1)] clone_selection_free
      split: operation_body.splits dest!: enumerate_mem)

section \<open>Undo restores, redo reproduces\<close>

lemma applyWorkspaceCommand_Inr:
  "applyWorkspaceCommand V s c = Inr s' \<longleftrightarrow>
     applyWorkspaceCommandInternal V s c False = Inr s' \<and>
     (truthy_text (target_documentId (cmd_target c)) \<or> accepted V s')"
  by (auto simp: applyWorkspaceCommand_def applyWorkspaceCommandInternal_def apply_workspace_patch_def
      accepted_def Let_def split: sum.splits if_splits option.splits list.splits)

lemma undo_commands_directional:
  assumes "\<forall>c \<in> set cs. plain_reverse c" and "\<And>i. js_trim (f i) \<noteq> []" and "js_trim t \<noteq> []"
  shows "list_all2 reverses
    (rev (map (\<lambda>(i, c). cloneCommandForDirection c (f i) t True) (List.enumerate k (rev cs)))) cs"
proof -
  have "list_all2 reverses
    (map (\<lambda>(i, c). cloneCommandForDirection c (f i) t True) (List.enumerate k (rev cs))) (rev cs)"
    unfolding list_all2_conv_all_nth
  proof (intro conjI allI impI)
    fix j assume "j < length (map (\<lambda>(i, c). cloneCommandForDirection c (f i) t True) (List.enumerate k (rev cs)))"
    then have j: "j < length (rev cs)" by simp
    then have "rev cs ! j \<in> set cs" using nth_mem [OF j] by simp
    then show "reverses (map (\<lambda>(i, c). cloneCommandForDirection c (f i) t True)
        (List.enumerate k (rev cs)) ! j) (rev cs ! j)"
      using j assms by (simp add: nth_enumerate_eq clone_undo_reverses del: length_rev)
  qed simp
  then show ?thesis by (subst list_all2_rev [symmetric]) simp
qed

lemma distinct_directional_ids:
  "distinct (map cmd_id (map (\<lambda>(i, c). cloneCommandForDirection c (directional_id op d n (Some i)) t r)
     (List.enumerate 0 cs)))"
proof -
  have "map cmd_id (map (\<lambda>(i, c). cloneCommandForDirection c (directional_id op d n (Some i)) t r)
     (List.enumerate 0 cs)) = map (\<lambda>i. directional_id op d n (Some i)) [0..<length cs]"
    by (rule nth_equalityI) (auto simp: nth_enumerate_eq cloneCommandForDirection_def)
  then show ?thesis by (simp add: distinct_map inj_on_def directional_id_inj)
qed

text \<open>What a recorded operation must satisfy for its replay to be an inverse.\<close>

definition replayable :: "validators \<Rightarrow> json \<Rightarrow> operation \<Rightarrow> execution_options \<Rightarrow> bool" where
  "replayable V s op options \<longleftrightarrow>
     extensional V \<and> wf_json s \<and> accepted V s \<and>
     (\<forall>c \<in> set (getWorkspaceOperationCommands op). wf_command c \<and> plain_reverse c) \<and>
     starts_valid_all V s (getWorkspaceOperationCommands op) \<and>
     default_options options \<and> js_trim (getWorkspaceOperationId op) \<noteq> []"

lemma map_sum_Inr: "map_sum f (\<lambda>x. x) y = Inr z \<longleftrightarrow> y = Inr z"
  by (cases y) auto

lemma apply_operation_Inr:
  "apply_operation V s body = Inr s' \<longleftrightarrow>
     (case body of CommandBody c \<Rightarrow> applyWorkspaceCommand V s c = Inr s'
      | TransactionBody t \<Rightarrow> applyWorkspaceTransaction V s t = Inr s')"
  by (simp add: apply_operation_def map_sum_Inr split: operation_body.split)

lemma undo_operation:
  assumes "replayable V s op options" and "apply_operation V s (op_body op) = Inr s'"
  shows "\<exists>r. applyWorkspaceOperationForHistory V s'
      (createDirectionalWorkspaceOperation op Undo sequence causal options) = Inr r \<and> json_eqv r s"
proof -
  note h = assms(1) [unfolded replayable_def]
  have time: "js_trim (options_time options) \<noteq> []"
    using h by (simp add: default_options_def options_time_def)
  have ids: "js_trim (directional_id op Undo sequence i) \<noteq> []" for i
    using h directional_id_not_blank by blast
  have body: "\<exists>r. apply_operation V s'
      (op_body (createDirectionalWorkspaceOperation op Undo sequence causal options)) = Inr r \<and> json_eqv r s"
  proof (cases "op_body op")
    case (CommandBody c)
    let ?c = "cloneCommandForDirection c (directional_id op Undo sequence None) (options_time options) True"
    have app: "applyWorkspaceCommand V s c = Inr s'"
      using assms(2) CommandBody by (simp add: apply_operation_Inr)
    have cmds: "getWorkspaceOperationCommands op = [c]"
      using CommandBody by (simp add: getWorkspaceOperationCommands_def)
    have "reverses ?c c" using h cmds ids time by (simp add: clone_undo_reverses)
    then obtain r where r: "applyWorkspaceCommandInternal V s' ?c False = Inr r" "json_eqv r s"
      using undo_command [of V s c ?c s'] h cmds app by (auto simp: applyWorkspaceCommand_Inr)
    have "accepted V r" using h r(2) accepted_eqv by blast
    then have "applyWorkspaceCommand V s' ?c = Inr r"
      using r(1) by (simp add: applyWorkspaceCommand_Inr)
    with r(2) show ?thesis
      using h CommandBody by (simp add: directional_body apply_operation_def)
  next
    case (TransactionBody t)
    let ?cs = "map (\<lambda>(i, c). cloneCommandForDirection c (directional_id op Undo sequence (Some i))
      (options_time options) True) (List.enumerate 0 (rev (tx_commands t)))"
    let ?t = "t\<lparr>tx_id := directional_id op Undo sequence None, tx_issuedAt := options_time options,
      tx_commands := ?cs\<rparr>"
    have app: "applyWorkspaceTransaction V s t = Inr s'"
      using assms(2) TransactionBody by (simp add: apply_operation_Inr)
    have cmds: "getWorkspaceOperationCommands op = tx_commands t"
      using TransactionBody by (simp add: getWorkspaceOperationCommands_def)
    have "list_all2 reverses (rev ?cs) (tx_commands t)"
      by (rule undo_commands_directional) (use h cmds ids time in auto)
    then have "reverses_transaction ?t t"
      using ids time distinct_directional_ids by (simp add: reverses_transaction_def del: map_map)
    then obtain r where "applyWorkspaceTransaction V s' ?t = Inr r" "json_eqv r s"
      using undo_transaction [of V s t s' ?t] h cmds app by auto
    then show ?thesis
      using h TransactionBody by (simp add: directional_body apply_operation_def)
  qed
  show ?thesis
    using body replay_selection_free [OF directional_selection_free] h by metis
qed

lemma apply_commands_reissued:
  assumes "extensional V" and "\<forall>c \<in> set cs. wf_command c" and "list_all2 reissues cs' cs"
    and "apply_commands V w s i cs = Inr s'" and "json_eqv s r"
  shows "\<exists>q. apply_commands V w r j cs' = Inr q \<and> json_eqv s' q"
  using assms(3,2,4,5)
proof (induction cs' cs arbitrary: s r i j rule: list_all2_induct)
  case (Cons c' cs' c cs)
  from Cons.prems(2) obtain m where ws: "target_workspaceId (cmd_target c) = w"
    and m: "applyWorkspaceCommandInternal V s c False = Inr m"
    and rest: "apply_commands V w m (Suc i) cs = Inr s'"
    unfolding apply_commands_Cons_Inr by blast
  obtain p where p: "applyWorkspaceCommandInternal V r c False = Inr p" "json_eqv m p"
    using applyWorkspaceCommandInternal_eqv [OF assms(1) Cons.prems(3), of c] m Cons.prems(1)
    by (cases "applyWorkspaceCommandInternal V r c False") auto
  have "applyWorkspaceCommandInternal V r c' False = Inr p"
    using Cons.hyps(1) p(1) by (rule reissues_apply)
  moreover have "target_workspaceId (cmd_target c') = w"
    using Cons.hyps(1) ws by (auto simp: reissues_def)
  moreover obtain q where "apply_commands V w p (Suc j) cs' = Inr q" "json_eqv s' q"
    using Cons.IH [OF _ rest p(2)] Cons.prems(1) by auto
  ultimately show ?case unfolding apply_commands_Cons_Inr by blast
qed auto

lemma redo_commands_directional:
  assumes "\<forall>c \<in> set cs. plain_reverse c" and "\<And>i. js_trim (f i) \<noteq> []" and "js_trim t \<noteq> []"
  shows "list_all2 reissues
    (map (\<lambda>(i, c). cloneCommandForDirection c (f i) t False) (List.enumerate k cs)) cs"
  unfolding list_all2_conv_all_nth
  using assms by (auto simp: nth_enumerate_eq clone_redo_reissues)

lemma redo_operation:
  assumes "replayable V s op options" and "apply_operation V s (op_body op) = Inr s'"
    and "json_eqv r s"
  shows "\<exists>q. applyWorkspaceOperationForHistory V r
      (createDirectionalWorkspaceOperation op Redo sequence causal options) = Inr q \<and> json_eqv q s'"
proof -
  note h = assms(1) [unfolded replayable_def]
  have sr: "json_eqv s r" using assms(3) by (rule json_eqv_sym)
  have time: "js_trim (options_time options) \<noteq> []"
    using h by (simp add: default_options_def options_time_def)
  have ids: "js_trim (directional_id op Redo sequence i) \<noteq> []" for i
    using h directional_id_not_blank by blast
  have accept: "accepted V q" if "accepted V s'" "json_eqv s' q" for q
    using that h accepted_eqv by blast
  have body: "\<exists>q. apply_operation V r
      (op_body (createDirectionalWorkspaceOperation op Redo sequence causal options)) = Inr q \<and> json_eqv q s'"
  proof (cases "op_body op")
    case (CommandBody c)
    let ?c = "cloneCommandForDirection c (directional_id op Redo sequence None) (options_time options) False"
    have cmds: "getWorkspaceOperationCommands op = [c]"
      using CommandBody by (simp add: getWorkspaceOperationCommands_def)
    have app: "applyWorkspaceCommandInternal V s c False = Inr s'"
      "truthy_text (target_documentId (cmd_target c)) \<or> accepted V s'"
      using assms(2) CommandBody by (simp_all add: apply_operation_Inr applyWorkspaceCommand_Inr)
    have re: "reissues ?c c" using h cmds ids time by (simp add: clone_redo_reissues)
    have "rel_sum (=) json_eqv (Inr s') (applyWorkspaceCommandInternal V r c False)"
      using applyWorkspaceCommandInternal_eqv [OF _ sr, of V c] h cmds app(1) by simp
    then obtain q where q: "applyWorkspaceCommandInternal V r c False = Inr q" "json_eqv s' q"
      by (cases "applyWorkspaceCommandInternal V r c False") auto
    have "applyWorkspaceCommand V r ?c = Inr q"
      using reissues_apply [OF re q(1)] app(2) accept q(2)
      by (auto simp: applyWorkspaceCommand_Inr cloneCommandForDirection_def)
    with q(2) show ?thesis
      using h CommandBody by (auto simp: directional_body apply_operation_Inr json_eqv_sym)
  next
    case (TransactionBody t)
    let ?cs = "map (\<lambda>(i, c). cloneCommandForDirection c (directional_id op Redo sequence (Some i))
      (options_time options) False) (List.enumerate 0 (tx_commands t))"
    let ?t = "t\<lparr>tx_id := directional_id op Redo sequence None, tx_issuedAt := options_time options,
      tx_commands := ?cs\<rparr>"
    have cmds: "getWorkspaceOperationCommands op = tx_commands t"
      using TransactionBody by (simp add: getWorkspaceOperationCommands_def)
    have app: "validateTransactionEnvelope t = []" "own s ''id'' = Some (JStr (tx_workspaceId t))"
      "apply_commands V (tx_workspaceId t) s 0 (tx_commands t) = Inr s'" "accepted V s'"
      using assms(2) TransactionBody by (simp_all add: apply_operation_Inr applyWorkspaceTransaction_Inr)
    have "list_all2 reissues ?cs (tx_commands t)"
      by (rule redo_commands_directional) (use h cmds ids time in auto)
    then obtain q where q: "apply_commands V (tx_workspaceId t) r 0 ?cs = Inr q" "json_eqv s' q"
      using apply_commands_reissued [OF _ _ _ app(3) sr, of ?cs 0] h cmds by auto
    have "validateTransactionEnvelope ?t = []"
      using app(1) ids time distinct_directional_ids
      by (auto simp: validateTransactionEnvelope_Nil simp del: map_map)
    moreover have "own r ''id'' = Some (JStr (tx_workspaceId t))"
      using own_JStr_eqv [OF sr, of "''id''" "tx_workspaceId t"] app(2) by blast
    ultimately have "applyWorkspaceTransaction V r ?t = Inr q"
      using q accept app(4) by (simp add: applyWorkspaceTransaction_Inr)
    with q(2) show ?thesis
      using h TransactionBody by (auto simp: directional_body apply_operation_Inr json_eqv_sym)
  qed
  show ?thesis
    using body replay_selection_free [OF directional_selection_free] h by metis
qed

section \<open>The last entry of a stack\<close>

lemma find_last_entry:
  assumes "entry_scope e \<in> set scopes"
  shows "findHistoryEntry (es @ [e]) scopes = Found (length es) e"
proof -
  have "entry_scope e \<in> set (dedupeWorkspaceHistoryScopes scopes)" using assms by (simp add: set_dedupe)
  then obtain i where i: "i < length (dedupeWorkspaceHistoryScopes scopes)"
    "dedupeWorkspaceHistoryScopes scopes ! i = entry_scope e"
    unfolding in_set_conv_nth by blast
  then have "(i, entry_scope e) \<in> set (filter (\<lambda>(i, s). i \<notin> set [] \<and> entry_scope e = s)
      (List.enumerate 0 (dedupeWorkspaceHistoryScopes scopes)))"
    by (simp add: in_set_enumerate_eq)
  then have "filter (\<lambda>(i, s). i \<notin> set [] \<and> entry_scope e = s)
      (List.enumerate 0 (dedupeWorkspaceHistoryScopes scopes)) \<noteq> []"
    by (metis empty_iff empty_set)
  then show ?thesis
    by (simp add: findHistoryEntry_def enumerate_append_eq Let_def del: filter_empty_conv)
qed

lemma bound_snoc:
  "0 < n \<Longrightarrow> boundHistoryEntries (es @ [e]) n = boundHistoryEntries es (n - 1) @ [e]"
  by (auto simp: boundHistoryEntries_def slice_last_def)

lemma bound_fits: "length es \<le> n \<Longrightarrow> boundHistoryEntries es n = es"
  by (auto simp: boundHistoryEntries_def slice_last_def)

lemma removeEntryAt_last: "removeEntryAt (es @ [e]) (length es) = es"
proof -
  have keep: "filter (\<lambda>(i, e). i \<noteq> length es) (List.enumerate 0 es) = List.enumerate 0 es"
    by (rule filter_True) (auto simp: in_set_enumerate_eq)
  show ?thesis by (simp add: removeEntryAt_def enumerate_append_eq keep)
qed

lemma undo_last:
  assumes "undoStack h = es @ [e]" and "entry_scope e \<in> set scopes"
    and "replayable V s (entry_operation e) options"
    and "apply_operation V s (op_body (entry_operation e)) = Inr s'"
  shows "\<exists>e' u. undoWorkspaceHistory V s' h scopes options = Inr u \<and> json_eqv (res_snapshot u) s \<and>
    entry_operation e' = entry_operation e \<and> entry_scope e' = entry_scope e \<and>
    res_history u = h\<lparr>undoStack := es,
      redoStack := boundHistoryEntries (redoStack h @ [e']) (maxEntries h),
      history_sequence := Suc (history_sequence h)\<rparr>"
proof -
  obtain r where r: "applyWorkspaceOperationForHistory V s'
      (createDirectionalWorkspaceOperation (entry_operation e) Undo (Suc (history_sequence h))
        (lastAppliedOperationId e) options) = Inr r" "json_eqv r s"
    using undo_operation [OF assms(3,4)] by blast
  let ?e = "e\<lparr>undoneBy := Some (getWorkspaceOperationId
    (createDirectionalWorkspaceOperation (entry_operation e) Undo (Suc (history_sequence h))
      (lastAppliedOperationId e) options))\<rparr>"
  show ?thesis
    using r by (intro exI [of _ ?e])
      (simp add: undoWorkspaceHistory_def assms(1) find_last_entry [OF assms(2)] Let_def
        removeEntryAt_last)
qed

lemma redo_last:
  assumes "redoStack h = rs @ [e]" and "entry_scope e \<in> set scopes"
    and "replayable V s (entry_operation e) options"
    and "apply_operation V s (op_body (entry_operation e)) = Inr s'" and "json_eqv r s"
  shows "\<exists>e' u. redoWorkspaceHistory V r h scopes options = Inr u \<and> json_eqv (res_snapshot u) s' \<and>
    entry_operation e' = entry_operation e \<and> entry_scope e' = entry_scope e \<and>
    res_history u = h\<lparr>undoStack := boundHistoryEntries (undoStack h @ [e']) (maxEntries h),
      redoStack := rs, history_sequence := Suc (history_sequence h)\<rparr>"
proof -
  obtain q where q: "applyWorkspaceOperationForHistory V r
      (createDirectionalWorkspaceOperation (entry_operation e) Redo (Suc (history_sequence h))
        (or_else (undoneBy e) (getWorkspaceOperationId (entry_operation e))) options) = Inr q"
      "json_eqv q s'"
    using redo_operation [OF assms(3-5)] by blast
  let ?e = "e\<lparr>lastAppliedOperationId := getWorkspaceOperationId
    (createDirectionalWorkspaceOperation (entry_operation e) Redo (Suc (history_sequence h))
      (or_else (undoneBy e) (getWorkspaceOperationId (entry_operation e))) options), undoneBy := None\<rparr>"
  show ?thesis
    using q by (intro exI [of _ ?e])
      (simp add: redoWorkspaceHistory_def assms(1) find_last_entry [OF assms(2)] Let_def
        removeEntryAt_last)
qed

text \<open>Undo after an operation, then redo: both workspaces come back, and so does the undo stack.\<close>

theorem undo_redo_inverse:
  assumes "history_inv h" and "undoStack h = es @ [e]" and "entry_scope e \<in> set scopes"
    and "replayable V s (entry_operation e) options"
    and "apply_operation V s (op_body (entry_operation e)) = Inr s'"
  shows "\<exists>u v e'. undoWorkspaceHistory V s' h scopes options = Inr u \<and>
    json_eqv (res_snapshot u) s \<and> undoStack (res_history u) = es \<and>
    redoWorkspaceHistory V (res_snapshot u) (res_history u) scopes options = Inr v \<and>
    json_eqv (res_snapshot v) s' \<and> undoStack (res_history v) = es @ [e'] \<and>
    entry_operation e' = entry_operation e"
proof -
  have fits: "Suc (length es) \<le> maxEntries h" using assms(1,2) by (auto simp: history_inv_def)
  obtain u e1 where u: "undoWorkspaceHistory V s' h scopes options = Inr u"
    "json_eqv (res_snapshot u) s" and e1: "entry_operation e1 = entry_operation e"
    "entry_scope e1 = entry_scope e"
    and hu: "res_history u = h\<lparr>undoStack := es,
      redoStack := boundHistoryEntries (redoStack h @ [e1]) (maxEntries h),
      history_sequence := Suc (history_sequence h)\<rparr>"
    using undo_last [OF assms(2-5)] by blast
  have redo: "redoStack (res_history u) = boundHistoryEntries (redoStack h) (maxEntries h - 1) @ [e1]"
    using fits by (simp add: hu bound_snoc)
  obtain v e2 where v: "redoWorkspaceHistory V (res_snapshot u) (res_history u) scopes options = Inr v"
    "json_eqv (res_snapshot v) s'" "entry_operation e2 = entry_operation e1"
    "undoStack (res_history v) =
       boundHistoryEntries (undoStack (res_history u) @ [e2]) (maxEntries (res_history u))"
    using redo_last [OF redo, of scopes V s options s' "res_snapshot u"] u(2) e1 assms(3-5) by auto
  have "undoStack (res_history v) = es @ [e2]"
    using v(4) fits by (simp add: hu bound_fits)
  with u v e1 show ?thesis by (intro exI [of _ u] exI [of _ v] exI [of _ e2]) (simp add: hu)
qed

section \<open>Merged entries\<close>

lemma apply_operation_commands:
  assumes "apply_operation V s (op_body op) = Inr m"
  shows "own s ''id'' = Some (JStr (operation_workspaceId op)) \<and>
    js_trim (operation_workspaceId op) \<noteq> [] \<and> js_trim (getWorkspaceOperationIssuedAt op) \<noteq> [] \<and>
    getWorkspaceOperationCommands op \<noteq> [] \<and>
    apply_commands V (operation_workspaceId op) s 0 (getWorkspaceOperationCommands op) = Inr m"
proof (cases "op_body op")
  case (CommandBody c)
  then have c: "applyWorkspaceCommandInternal V s c False = Inr m"
    using assms by (simp add: apply_operation_Inr applyWorkspaceCommand_Inr)
  then have "validateEnvelope c = []" "own s ''id'' = Some (JStr (target_workspaceId (cmd_target c)))"
    by (auto simp: applyWorkspaceCommandInternal_def split: if_splits)
  with c CommandBody show ?thesis
    by (simp add: operation_workspaceId_def getWorkspaceOperationCommands_def
        getWorkspaceOperationIssuedAt_def validateEnvelope_Nil del: apply_commands.simps)
      (simp add: Let_def)
next
  case (TransactionBody t)
  then show ?thesis
    using assms by (simp add: apply_operation_Inr applyWorkspaceTransaction_Inr operation_workspaceId_def
        getWorkspaceOperationCommands_def getWorkspaceOperationIssuedAt_def validateTransactionEnvelope_Nil)
qed

lemma hasUniqueCommandIds_distinct:
  "hasUniqueCommandIds ops \<Longrightarrow>
   distinct (concat (map (\<lambda>op. map cmd_id (getWorkspaceOperationCommands op)) ops))"
  by (metis card_distinct distinct_card distinct_js_set hasUniqueCommandIds_def set_js_set)

lemma history_merge_not_blank: "js_trim (merged_operation_id ids) \<noteq> []"
  by (auto simp: merged_operation_id_def js_trim_eq_Nil js_space_def)

text \<open>Replaying a merged entry is replaying the two operations it was made of.\<close>

theorem merge_replays:
  assumes "apply_operation V s (op_body first) = Inr m"
    and "apply_operation V m (op_body latest) = Inr s'" and "accepted V s'"
    and "hasUniqueCommandIds [first, latest]"
  shows "apply_operation V s (op_body (mergeWorkspaceOperations first latest)) = Inr s'"
proof -
  note f = apply_operation_commands [OF assms(1)] and l = apply_operation_commands [OF assms(2)]
  have "own m ''id'' = own s ''id''"
    by (rule apply_commands_own) (use f in \<open>auto simp: patchable_members_def\<close>)
  with f l have w: "operation_workspaceId latest = operation_workspaceId first" by simp
  have "apply_commands V (operation_workspaceId first) m
      (length (getWorkspaceOperationCommands first)) (getWorkspaceOperationCommands latest) = Inr s'"
    using l w apply_commands_index by metis
  then have "apply_commands V (operation_workspaceId first) s 0
      (getWorkspaceOperationCommands first @ getWorkspaceOperationCommands latest) = Inr s'"
    using f by (simp add: apply_commands_append)
  then show ?thesis
    using f l assms(3) hasUniqueCommandIds_distinct [OF assms(4)]
    by (simp add: mergeWorkspaceOperations_def Let_def apply_operation_Inr applyWorkspaceTransaction_Inr
        validateTransactionEnvelope_Nil history_merge_not_blank)
qed

end
