(* ===== verification/WorkspaceProperties.thy ===== *)
theory WorkspaceProperties
  imports ReplayLaws
begin

text \<open>
  The properties of commands, transactions and the local history (\<open>workspaceCommand.ts\<close>,
  \<open>workspaceOperation.ts\<close>, \<open>workspaceHistory.ts\<close>, \<open>workspaceHistoryReplay.ts\<close>). The lemmas they rest
  on are those of \<open>CommandLaws\<close>, \<open>RouteRefs\<close>, \<open>TransactionLaws\<close>, \<open>HistoryLaws\<close> and \<open>ReplayLaws\<close>; the
  small workspace, whose only document is a code document, is for the witnesses.
\<close>

section \<open>A small workspace\<close>

definition sample_validators :: validators where
  "sample_validators =
     \<lparr>v_pir = (\<lambda>_. True), v_nodegraph = (\<lambda>_. True), v_animation = (\<lambda>_. True),
      v_lifecycle = (\<lambda>_. True), v_shader = (\<lambda>_ _. True), v_server = (\<lambda>_ _. True),
      v_dataSource = (\<lambda>_ _. True), v_behavior = (\<lambda>_ _ _. True), v_agentPolicy = (\<lambda>_ _. True),
      v_tokens = (\<lambda>_. True), v_tokenResolver = (\<lambda>_. True), v_asset = (\<lambda>_. True),
      v_config = (\<lambda>_. True), v_snapshot = (\<lambda>_. Some True)\<rparr>"

definition sample_workspace :: "string \<Rightarrow> json" where
  "sample_workspace source =
     JObj [(''id'', JStr ''w''), (''workspaceRev'', JNum 1),
           (''docsById'', JObj [(''c'', JObj [(''id'', JStr ''c''), (''type'', JStr ''code''),
              (''content'', JObj [(''language'', JStr ''ts''), (''source'', JStr source)])])]),
           (''routeManifest'', JObj [(''root'', JObj [(''id'', JStr ''root'')])])]"

definition sample_command :: "string \<Rightarrow> string \<Rightarrow> string \<Rightarrow> command" where
  "sample_command i old_source new_source =
     \<lparr>cmd_id = i, cmd_namespace = ''core.code'', cmd_type = ''source.update'', cmd_version = ''1.0'',
      cmd_issuedAt = ''t'',
      forwardOps = [\<lparr>op_kind = OpReplace, op_path = ''/source'', op_from = None,
                      op_value = Some (JStr new_source)\<rparr>],
      reverseOps = [\<lparr>op_kind = OpReplace, op_path = ''/source'', op_from = None,
                      op_value = Some (JStr old_source)\<rparr>],
      cmd_target = \<lparr>target_workspaceId = ''w'', target_documentId = Some ''c'',
                    target_routeNodeId = None\<rparr>,
      cmd_mergeKey = Some ''typing'', cmd_label = None, domainHint = Some DomCode\<rparr>"

definition sample_transaction :: transaction where
  "sample_transaction =
     \<lparr>tx_id = ''tx'', tx_workspaceId = ''w'', tx_issuedAt = ''t'',
      tx_commands = [sample_command ''1'' ''a'' ''b'', sample_command ''2'' ''b'' ''c''],
      tx_label = None, tx_mergeKey = None\<rparr>"

definition sample_history :: "operation \<Rightarrow> history_state" where
  "sample_history op = recordWorkspaceOperation (\<lambda>_. None) (createWorkspaceHistoryState None None) op
     \<lparr>opt_appliedAt = None, opt_maxEntries = None, opt_mergeWindowMs = None\<rparr>"


lemma sample_extensional: "extensional sample_validators"
  by (simp add: extensional_def sample_validators_def)

lemma sample_wf:
  "wf_json (sample_workspace ''a'')" "wf_command (sample_command ''1'' ''a'' ''b'')"
  "wf_command (sample_command ''2'' ''b'' ''c'')"
  by code_simp+


lemma sample_command_runs:
  "applyWorkspaceCommandInternal sample_validators (sample_workspace ''a'')
     (sample_command ''1'' ''a'' ''b'') False = Inr (sample_workspace ''b'')"
  by code_simp

lemma sample_transaction_runs:
  "applyWorkspaceTransaction sample_validators (sample_workspace ''a'') sample_transaction =
     Inr (sample_workspace ''c'')"
  by code_simp

abbreviation sample_operation :: operation where
  "sample_operation \<equiv> createWorkspaceTransactionOperation sample_transaction"


section \<open>Undo and redo\<close>



section \<open>The stacks\<close>

text \<open>C10. The entry undo selects commutes with everything recorded after it: no later entry of the undo
  stack touches a scope it touches. Undoing it out of order therefore cannot clobber later work.\<close>

theorem undo_selection_commutes:
  assumes "history_inv h" and "findHistoryEntry (undoStack h) scopes = Found i e"
  shows "undoStack h ! i = e \<and> i < length (undoStack h) \<and>
    (\<forall>j. i < j \<and> j < length (undoStack h) \<longrightarrow> \<not> entriesOverlap e (undoStack h ! j))"
proof -
  have "\<forall>x \<in> set (undoStack h). entry_ok x" using assms(1) by (simp add: history_inv_def)
  with findHistoryEntry_commutes [OF assms(2)] show ?thesis by blast
qed

theorem undo_selection_commutes_witness:
  "\<exists>i e. findHistoryEntry (undoStack (sample_history sample_operation))
       [RouteScope ''w'', DocumentScope ''w'' ''c'' DomCode] = Found i e \<and>
     undoStack (sample_history sample_operation) ! i = e"
proof -
  have inv: "history_inv (sample_history sample_operation)"
    unfolding sample_history_def by (rule record_inv [OF create_inv])
  have "findHistoryEntry (undoStack (sample_history sample_operation))
       [RouteScope ''w'', DocumentScope ''w'' ''c'' DomCode] =
     Found 0 (createHistoryEntry sample_operation None 0)"
    by code_simp
  with undo_selection_commutes [OF inv this] show ?thesis by blast
qed

text \<open>C11. The invariant of the history holds after every sequence of recordings, undos, redos and
  changes of the limit or of the merge window: both stacks stay within the limit, the scopes of
  every entry are those of its operation and an entry is a barrier exactly when its scope is the
  workspace, and no entry carries a sequence number from the future.\<close>

theorem history_reachable_inv:
  "history_inv (snd (foldl (history_step V date_parse)
     (snapshot, createWorkspaceHistoryState limit window) events))"
  by (rule history.run_inv) (simp add: create_inv)

text \<open>Recording an operation keeps on the redo stack only entries that commute with the entry now
  on top of the undo stack, merged or not.\<close>

theorem record_prunes_redo:
  assumes "undoStack (recordWorkspaceOperation date_parse h op options) = es @ [e]"
    and "r \<in> set (redoStack (recordWorkspaceOperation date_parse h op options))"
  shows "\<not> entriesOverlap r e"
  using assms by (rule record_redo_commutes)

definition sample_route_entry :: history_entry where
  "sample_route_entry = createHistoryEntry (createWorkspaceCommandOperation
     ((sample_command ''r'' ''a'' ''b'')\<lparr>cmd_target := \<lparr>target_workspaceId = ''w'',
        target_documentId = None, target_routeNodeId = Some ''root''\<rparr>\<rparr>)) None 0"

theorem record_prunes_redo_witness:
  "\<not> entriesOverlap sample_route_entry (createHistoryEntry sample_operation None 0)"
proof -
  let ?h = "(createWorkspaceHistoryState None None)\<lparr>redoStack := [sample_route_entry]\<rparr>"
  let ?o = "\<lparr>opt_appliedAt = None, opt_maxEntries = None, opt_mergeWindowMs = None\<rparr>"
  have "undoStack (recordWorkspaceOperation (\<lambda>_. None) ?h sample_operation ?o) =
      [] @ [createHistoryEntry sample_operation None 0]"
    "sample_route_entry \<in> set (redoStack (recordWorkspaceOperation (\<lambda>_. None) ?h sample_operation ?o))"
    by code_simp+
  then show ?thesis by (rule record_prunes_redo)
qed



section \<open>Commands and transactions\<close>

text \<open>A transaction commits only a workspace that passes the checks: every document the route
  manifest and its modules refer to exists, and \<open>validateWorkspaceSnapshot\<close> accepts it.\<close>

theorem transaction_result_accepted:
  assumes "applyWorkspaceTransaction V s t = Inr s'"
  shows "routes_resolve s' \<and> v_snapshot V s' = Some True"
  using assms by (simp add: applyWorkspaceTransaction_Inr accepted_iff)

theorem transaction_result_accepted_witness: "routes_resolve (sample_workspace ''c'')"
  using transaction_result_accepted [OF sample_transaction_runs] by blast

text \<open>C12. Members the server owns (the workspace id, its revisions, the operation sequence and every
  other member outside the patchable roots) come out of a transaction unchanged.\<close>

theorem transaction_keeps_owned_members:
  assumes "applyWorkspaceTransaction V s t = Inr s'" and "k \<notin> set patchable_members"
  shows "own s' k = own s k"
  using assms by (auto simp: applyWorkspaceTransaction_Inr intro: apply_commands_own)

theorem transaction_keeps_owned_members_witness:
  "own (sample_workspace ''c'') ''workspaceRev'' = own (sample_workspace ''a'') ''workspaceRev''"
  by (rule transaction_keeps_owned_members [OF sample_transaction_runs])
    (simp add: patchable_members_def)

text \<open>C13. A command that names a document changes the content of that document and nothing else: not
  another document, not another member of the workspace, not another member of the document.\<close>

theorem document_command_changes_content_only:
  assumes "applyWorkspaceCommandInternal V s c b = Inr s'"
    and "target_documentId (cmd_target c) = Some d" and "d \<noteq> []"
  shows "(\<forall>k. k \<noteq> ''docsById'' \<longrightarrow> own s' k = own s k) \<and>
    (\<forall>e. e \<noteq> d \<longrightarrow> map_of (docs_of s') e = map_of (docs_of s) e) \<and>
    (\<exists>doc doc'. map_of (docs_of s) d = Some doc \<and> map_of (docs_of s') d = Some doc' \<and>
       (\<forall>k. k \<noteq> ''content'' \<longrightarrow> own doc' k = own doc k))"
  using document_command_frame [OF assms] by blast

theorem document_command_changes_content_only_witness:
  "own (sample_workspace ''b'') ''routeManifest'' = own (sample_workspace ''a'') ''routeManifest''"
  using document_command_changes_content_only [OF sample_command_runs, of "''c''"]
  by (simp add: sample_command_def)

text \<open>Applying a command is a function of the workspace up to the order of object keys: on two
  equal workspaces it fails in the same way or gives equal workspaces. The validators of the other
  packages are assumed to have the same property.\<close>

theorem command_respects_equality:
  assumes "extensional V" and "json_eqv s t" and "wf_command c"
  shows "rel_sum (=) json_eqv (applyWorkspaceCommandInternal V s c False)
    (applyWorkspaceCommandInternal V t c False)"
  using assms by (rule applyWorkspaceCommandInternal_eqv)

theorem command_respects_equality_witness:
  "rel_sum (=) json_eqv
     (applyWorkspaceCommandInternal sample_validators (sample_workspace ''a'')
        (sample_command ''1'' ''a'' ''b'') False)
     (applyWorkspaceCommandInternal sample_validators (sample_workspace ''a'')
        (sample_command ''1'' ''a'' ''b'') False)"
  by (rule command_respects_equality [OF sample_extensional _ sample_wf(2)]) (simp add: sample_wf)

section \<open>Where the code fails\<close>

text \<open>C35. A patch that removes or nulls \<open>/routeManifest\<close> passes the path checks, and the validation of
  the result then reads a member of \<open>undefined\<close> or \<open>null\<close>: the command throws a \<open>TypeError\<close> where it
  should return an issue.\<close>

theorem missing_manifest_throws:
  assumes "own s ''routeManifest'' = None \<or> own s ''routeManifest'' = Some JNull"
  shows "validateWorkspaceTransition V s = None"
proof -
  have "js_prop (own s ''routeManifest'') ''root'' = None" using assms by auto
  then show ?thesis by (simp add: validateWorkspaceTransition_def findMissingRouteDocumentRefs_def)
qed

definition remove_manifest :: command where
  "remove_manifest = (sample_command ''1'' '''' '''')\<lparr>
     cmd_target := \<lparr>target_workspaceId = ''w'', target_documentId = None, target_routeNodeId = None\<rparr>,
     domainHint := Some DomWorkspace,
     forwardOps := [\<lparr>op_kind = OpRemove, op_path = ''/routeManifest'', op_from = None, op_value = None\<rparr>],
     reverseOps := [\<lparr>op_kind = OpAdd, op_path = ''/routeManifest'', op_from = None,
        op_value = own (sample_workspace ''a'') ''routeManifest''\<rparr>]\<rparr>"

theorem missing_manifest_throws_witness:
  "applyWorkspaceCommand sample_validators (sample_workspace ''a'') remove_manifest = Inl Thrown"
proof -
  let ?s = "case sample_workspace ''a'' of JObj kvs \<Rightarrow> JObj (alist_del ''routeManifest'' kvs) | v \<Rightarrow> v"
  have "applyWorkspaceCommandInternal sample_validators (sample_workspace ''a'') remove_manifest False =
      Inr ?s" and gone: "own ?s ''routeManifest'' = None"
    by code_simp+
  moreover have "validateWorkspaceTransition sample_validators ?s = None"
    using missing_manifest_throws gone by blast
  moreover have "\<not> truthy_text (target_documentId (cmd_target remove_manifest))"
    by code_simp
  ultimately show ?thesis
    by (auto simp: applyWorkspaceCommand_def applyWorkspaceCommandInternal_def apply_workspace_patch_def
        Let_def split: if_splits sum.splits)
qed




end
