(* ===== verification/RouteProperties.thy ===== *)
theory RouteProperties
  imports RouteLaws
begin

text \<open>
  The properties of the route core (\<open>packages/router/src/routeCore.ts\<close>): matching and ranking,
  the edits of the route tree, the composition of modules and the choice of the active route.
  The lemmas they rest on are those of \<open>RouteLaws\<close>; the small manifest is for the witnesses.
\<close>

section \<open>A small manifest\<close>

definition plain_node :: "string \<Rightarrow> string option \<Rightarrow> route_node list \<Rightarrow> route_node" where
  "plain_node i s cs =
     RouteNode i s None None None None None None (if cs = [] then None else Some cs)"

definition sample_tree :: route_node where
  "sample_tree = plain_node ''root'' None
     [plain_node ''any'' (Some '':slug'') [],
      plain_node ''blog'' (Some ''blog'') [plain_node ''post'' (Some '':id'') []]]"

definition sample_manifest :: route_manifest where
  "sample_manifest = \<lparr>manifest_version = ''1'', manifest_root = sample_tree,
     manifest_modules = None, manifest_mounts = None\<rparr>"

section \<open>Matching\<close>

lemma match_nonempty:
  assumes "matchChildren r segs [(r, [])] = Some out"
  shows "prefix [(r, [])] out"
  using matchChildren_linked(1) [OF assms] by (simp add: linked_def)

lemma complete_nonempty: "completeEmptyRouteChain r [(r, [])] [] \<noteq> []"
  using completeEmptyRouteChain_linked [of "[(r, [])]" r "[]"] by (auto simp: linked_def)

text \<open>C28. A path has a match exactly when it is the root path or some branch of the route tree
  consumes all its segments, piece by piece. The matcher's ranking of siblings and its backtracking
  therefore lose no route.\<close>

theorem route_match_complete:
  "matchRouteManifest m path \<noteq> [] \<longleftrightarrow>
     splitPath path = [] \<or> (\<exists>c \<in> set (kids (manifest_root m)). consumes c (splitPath path))"
proof (cases "splitPath path = []")
  case True
  then show ?thesis
    using complete_nonempty [of "manifest_root m"]
    by (simp add: matchRouteManifest_def matchRouteManifestEntries_def Let_def
        del: completeEmptyRouteChain.simps)
next
  case False
  have "matchRouteManifest m path \<noteq> [] \<longleftrightarrow>
      matchChildren (manifest_root m) (splitPath path) [(manifest_root m, [])] \<noteq> None"
    using False match_nonempty
    by (fastforce simp: matchRouteManifest_def matchRouteManifestEntries_def Let_def or_else_def
        split: option.splits)
  with False show ?thesis by (simp only: matchChildren_complete(1)) simp
qed

text \<open>Where a path matches below the root, the first step of the match is a child of the root
  that consumes the whole path and that no other such child precedes in the ranking of siblings
  (index routes last, static before dynamic before wildcard pieces, longer segments first, then the
  code point order of the ids).\<close>

theorem route_match_best:
  assumes "splitPath path \<noteq> []" and "matchRouteManifest m path \<noteq> []"
  shows "\<exists>c rest. matchRouteManifest m path = manifest_root m # c # rest \<and>
    c \<in> set (kids (manifest_root m)) \<and> consumes c (splitPath path) \<and>
    (\<forall>d. d \<in> set (kids (manifest_root m)) \<and> consumes d (splitPath path) \<longrightarrow> compare_siblings c d \<le> 0)"
proof -
  let ?r = "manifest_root m"
  obtain out where out: "matchChildren ?r (splitPath path) [(?r, [])] = Some out"
    "matchRouteManifest m path = map fst out"
    using assms by (cases "matchChildren ?r (splitPath path) [(?r, [])]")
      (auto simp: matchRouteManifest_def matchRouteManifestEntries_def Let_def)
  have "linked [(?r, [])]" by (simp add: linked_def)
  then obtain c ps where c: "prefix ([(?r, [])] @ [(c, ps)]) out" "c \<in> set (kids ?r)"
    "consumes c (splitPath path)"
    "\<forall>d \<in> set (kids ?r). consumes d (splitPath path) \<longrightarrow> compare_siblings c d \<le> 0"
    using matchChildren_best [OF out(1)] by auto
  from c(1) obtain rest where "map fst out = ?r # c # rest" by (auto simp: prefix_def)
  with c out(2) show ?thesis by auto
qed

theorem route_match_best_witness:
  "\<exists>c rest. matchRouteManifest sample_manifest ''/blog/7'' = sample_tree # c # rest \<and>
     c \<in> set (kids sample_tree) \<and> consumes c (splitPath ''/blog/7'')"
proof -
  have "splitPath ''/blog/7'' \<noteq> []" "matchRouteManifest sample_manifest ''/blog/7'' \<noteq> []"
    by code_simp+
  from route_match_best [OF this] show ?thesis by (auto simp: sample_manifest_def)
qed

text \<open>The siblings the matcher tries are sorted by its ranking. The comparison reads kinds, lengths
  and ids one after the other, and it is total and transitive, so the ranking does not depend on
  the order in which the manifest lists the siblings, up to entries that compare equal.\<close>

theorem siblings_ranked:
  "sorted_wrt (\<lambda>a b. compare_siblings a b \<le> 0) (sort_by compare_siblings (kids n))"
  by (rule siblings.sorted_sort_by) simp

section \<open>Paths\<close>

text \<open>Normalising a path twice is normalising it once, whatever the text: blanks, doubled and
  trailing slashes, a query or a fragment.\<close>

theorem route_path_normal_form: "normalizeRoutePath (normalizeRoutePath v) = normalizeRoutePath v"
  by (rule normalizeRoutePath_idem)

text \<open>Splitting a path gives its pieces between slashes, trimmed and without the blank ones,
  with the query and the fragment cut off first: the normal form computed and split again by the
  code loses and adds nothing.\<close>

theorem route_path_pieces: "splitPath v = path_pieces v"
  by (rule splitPath_pieces)

section \<open>Editing the tree\<close>

text \<open>Moving a node with its subtree permutes the tree: no node is lost and none is duplicated,
  also when the move is refused (an unknown node or parent, a move below itself, the root).\<close>

theorem move_permutes:
  assumes "distinct (node_ids r)"
  shows "mset (node_ids (fst (moveRouteNodeById r i p index))) = mset (node_ids r)"
  using assms by (rule moveRouteNodeById_mset)

theorem move_permutes_witness:
  "mset (node_ids (fst (moveRouteNodeById sample_tree ''post'' ''any'' (Some 0)))) =
     mset [''root'', ''any'', ''blog'', ''post'']"
proof -
  have "distinct (node_ids sample_tree)" "node_ids sample_tree = [''root'', ''any'', ''blog'', ''post'']"
    by code_simp+
  with move_permutes [of sample_tree "''post''" "''any''" "Some 0"] show ?thesis by simp
qed

text \<open>Removing a node below the root takes out that node with its whole subtree and nothing else.\<close>

theorem remove_subtree:
  assumes "distinct (node_ids n)" and "i \<in> set (below_ids n)"
  shows "\<exists>n' m. removeRouteNodeById n i = (n', Some m) \<and> node_id m = i \<and> node_id n' = node_id n \<and>
     mset (node_ids n) = mset (node_ids n') + mset (node_ids m)"
  using assms by (rule removeRouteNodeById_mset)

theorem remove_subtree_witness:
  "\<exists>n' m. removeRouteNodeById sample_tree ''blog'' = (n', Some m) \<and>
     mset (node_ids sample_tree) = mset (node_ids n') + mset (node_ids m)"
proof -
  have "distinct (node_ids sample_tree)" "''blog'' \<in> set (below_ids sample_tree)" by code_simp+
  from remove_subtree [OF this] show ?thesis by blast
qed

section \<open>Modules and the active route\<close>

text \<open>Composing a manifest with its modules keeps every node of the host, and every node the
  trace reports as mounted is a node of the composed tree.\<close>

theorem compose_keeps_nodes:
  "set (node_ids (manifest_root manifest)) \<subseteq>
     set (node_ids (manifest_root (fst (composeRouteManifestWithModules manifest)))) \<and>
   trace_hostRouteNodeId ` set (c_trace (snd (composeRouteManifestWithModules manifest))) \<subseteq>
     set (node_ids (manifest_root (fst (composeRouteManifestWithModules manifest))))"
  by (rule composeRouteManifestWithModules_nodes) simp

text \<open>The active route the workspace settles on always exists in the composed manifest, whatever
  the candidates are.\<close>

theorem active_route_exists:
  "hasRouteNodeId (manifest_root (fst (composeRouteManifestWithModules m)))
     (resolveActiveRouteNodeId m candidateIds)"
  by (rule resolveActiveRouteNodeId_exists)

end
