(* ===== verification/DataProperties.thy ===== *)
theory DataProperties
  imports JsonPatch JsonPointer Canonical Operation "HOL-Library.Code_Target_Numeral"
begin

text \<open>
  The properties of the data layer: deep equality and JSON pointers, the operations of a patch, the
  canonical base64 text and the scopes of an operation. The lemmas they rest on are those of \<open>Json\<close>,
  \<open>JsonPointer\<close>, \<open>JsonPatch\<close>, \<open>Canonical\<close> and \<open>Operation\<close>.
\<close>

section \<open>Equality and pointers\<close>

text \<open>The two deep equalities of the code, \<open>valuesEqual\<close> of the commands and \<open>jsonValuesEqual\<close> of
  the synchronisation, decide the same relation on all values.\<close>

theorem equalities_agree: "jsonValuesEqual a b = valuesEqual a b"
  by (rule jsonValuesEqual_eq)

text \<open>On values without duplicate keys, deep equality is equality of canonical forms (keys sorted at
  every level): the order of keys, and only that, is ignored.\<close>

theorem equality_is_canonical:
  assumes "wf_json a" and "wf_json b"
  shows "valuesEqual a b \<longleftrightarrow> canonical_json a = canonical_json b"
  using assms by (rule valuesEqual_canonical)

theorem equality_is_canonical_witness:
  "valuesEqual (JObj [(''a'', JNull), (''b'', JBool True)]) (JObj [(''b'', JBool True), (''a'', JNull)])"
proof -
  let ?a = "JObj [(''a'', JNull), (''b'', JBool True)]" and ?b = "JObj [(''b'', JBool True), (''a'', JNull)]"
  have "wf_json ?a" "wf_json ?b" "canonical_json ?a = canonical_json ?b" by code_simp+
  then show ?thesis using equality_is_canonical [of ?a ?b] by simp
qed

text \<open>Parsing the pointer printed from a list of segments gives the segments back, whatever
  characters they hold (\<open>~\<close> and \<open>/\<close> are escaped).\<close>

theorem pointer_round_trip: "parsePointer (printJsonPointer segs) = Some segs"
  by (rule parsePointer_print)

section \<open>Patch operations\<close>

text \<open>Reading the pointer just written gives the value written, in an object or an array, for a
  pointer whose last segment is not the end marker \<open>-\<close>.\<close>

theorem read_after_write:
  assumes "setValue a path v mode = Some b" and "last_segment path \<noteq> ''-''"
  shows "getValueAtPath b path = Some v"
  using assms by (rule getValueAtPath_setValue)

definition sample_object :: json where
  "sample_object = JObj [(''xs'', JArr [JNull, JBool True]), (''o'', JObj [(''k'', JStr ''v'')])]"

theorem read_after_write_witness:
  "\<exists>b. setValue sample_object ''/xs/1'' (JStr ''n'') ModeAdd = Some b \<and>
     getValueAtPath b ''/xs/1'' = Some (JStr ''n'')"
proof -
  let ?b = "JObj [(''xs'', JArr [JNull, JStr ''n'', JBool True]), (''o'', JObj [(''k'', JStr ''v'')])]"
  have b: "setValue sample_object ''/xs/1'' (JStr ''n'') ModeAdd = Some ?b"
    and last: "last_segment ''/xs/1'' \<noteq> ''-''"
    by code_simp+
  from read_after_write [OF this] b show ?thesis by blast
qed

text \<open>Removing a value and adding it back at the same pointer restores the original up to the
  order of keys; in an array it goes back to its index.\<close>

theorem remove_then_add:
  assumes "wf_json a" and "getValueAtPath a path = Some old" and "removeValue a path = Some b"
  shows "\<exists>a'. setValue b path old ModeAdd = Some a' \<and> json_eqv a' a"
  using assms by (rule remove_add_inverse)

theorem remove_then_add_witness:
  "\<exists>b a'. removeValue sample_object ''/xs/0'' = Some b \<and> setValue b ''/xs/0'' JNull ModeAdd = Some a' \<and>
     json_eqv a' sample_object"
proof -
  let ?b = "JObj [(''xs'', JArr [JBool True]), (''o'', JObj [(''k'', JStr ''v'')])]"
  have "wf_json sample_object" "getValueAtPath sample_object ''/xs/0'' = Some JNull"
    and b: "removeValue sample_object ''/xs/0'' = Some ?b"
    by code_simp+
  from remove_then_add [OF this] b show ?thesis by blast
qed

text \<open>Applying a patch is a function up to the order of keys: on equal documents it fails at the
  same operation or gives equal results.\<close>

theorem patch_respects_equality:
  assumes "json_eqv a b" and "\<forall>op \<in> set ops. wf_op op"
  shows "rel_sum (=) json_eqv (applyPatchOperations a ops) (applyPatchOperations b ops)"
  using assms by (rule applyPatchOperations_eqv)

definition sample_ops :: "patch_op list" where
  "sample_ops = [\<lparr>op_kind = OpAdd, op_path = ''/o/n'', op_from = None, op_value = Some (JStr ''x'')\<rparr>,
     \<lparr>op_kind = OpMove, op_path = ''/xs/-'', op_from = Some ''/o/k'', op_value = None\<rparr>]"

theorem patch_respects_equality_witness:
  "rel_sum (=) json_eqv (applyPatchOperations sample_object sample_ops)
     (applyPatchOperations sample_object sample_ops)"
proof (rule patch_respects_equality)
  have "wf_json sample_object" by code_simp
  then show "json_eqv sample_object sample_object" by simp
  show "\<forall>op \<in> set sample_ops. wf_op op" by code_simp
qed

section \<open>Canonical base64\<close>

text \<open>C29. The text the decoder accepts is the one encoding of the bytes it returns, the bytes are as
  many as it announced, and they stay within the limit it was given.\<close>

theorem base64_decode_sound:
  assumes "decodeCanonicalBase64 value m = Some bs"
  shows "value = JStr (base64_encode (map uint bs)) \<and>
    int (length bs) = decodedByteLength (base64_encode (map uint bs)) \<and>
    of_int (int (length bs)) \<le> (case m of Finite q \<Rightarrow> q | NotFinite \<Rightarrow> 0)"
proof -
  obtain v where v: "value = JStr v" "groups_ok v" "bs = decode_groups v"
    "of_int (decodedByteLength v) \<le> (case m of Finite q \<Rightarrow> q | NotFinite \<Rightarrow> 0)"
    using assms by (rule decodeCanonicalBase64_Some)
  with base64_round_trip [OF v(2)] length_decode_groups [OF v(2)] show ?thesis by simp
qed

theorem base64_decode_sound_witness:
  "\<exists>bs. decodeCanonicalBase64 (JStr ''TWFuTQ=='') (Finite 4) = Some bs \<and> length bs \<le> 4 \<and>
     JStr ''TWFuTQ=='' = JStr (base64_encode (map uint bs))"
proof -
  have d: "decodeCanonicalBase64 (JStr ''TWFuTQ=='') (Finite 4) = Some [77, 97, 110, 77]"
    by code_simp
  from base64_decode_sound [OF d] d show ?thesis by auto
qed

section \<open>Scopes\<close>

text \<open>An operation whose scope is a document or the routes affects that one scope; only operations
  with the workspace as their scope (the barriers of the history) may affect several.\<close>

theorem narrow_scope_is_whole_effect:
  assumes "\<not> is_workspace_scope (resolveWorkspaceOperationScope op)"
  shows "resolveWorkspaceOperationAffectedScopes op = [resolveWorkspaceOperationScope op]"
  using assms by (rule operation_scope_single)

theorem narrow_scope_is_whole_effect_witness:
  "\<exists>op. resolveWorkspaceOperationAffectedScopes op = [DocumentScope ''w'' ''d'' DomCode]"
proof -
  let ?op = "createWorkspaceCommandOperation
    \<lparr>cmd_id = ''1'', cmd_namespace = ''core.code'', cmd_type = ''t'', cmd_version = ''1'',
     cmd_issuedAt = ''t'', forwardOps = [], reverseOps = [],
     cmd_target = \<lparr>target_workspaceId = ''w'', target_documentId = Some ''d'', target_routeNodeId = None\<rparr>,
     cmd_mergeKey = None, cmd_label = None, domainHint = Some DomCode\<rparr>"
  have "resolveWorkspaceOperationScope ?op = DocumentScope ''w'' ''d'' DomCode"
    "\<not> is_workspace_scope (resolveWorkspaceOperationScope ?op)"
    by code_simp+
  with narrow_scope_is_whole_effect [of ?op] show ?thesis by metis
qed

end
