(* ===== verification/Outbox.thy ===== *)
theory Outbox
  imports Operation Canonical
begin

text \<open>
  The outbox of \<open>packages/workspace-sync/src/workspaceOutbox.ts\<close>: the entries with their state, the
  causal order, the transitions of one entry under a lease, and the in-memory store that several
  clients share. Times and delays are exact rationals (the code computes them with floating point
  numbers); the store of the code is asynchronous, but each of its operations runs without
  yielding, so a run of several clients is a sequence of operations. The planner and the wire
  normaliser that build the request of a new entry are arguments.
\<close>

section \<open>Entries\<close>

record outbox_failure =
  failure_code :: string
  failure_message :: string
  retryable :: bool
  failure_status :: "int option"

datatype 's outbox_state =
    Queued
  | Sending (leaseOwnerId: string) (leaseExpiresAt: rat)
  | RetryWait (nextAttemptAt: rat) outbox_failure
  | Conflict 's
  | Failed outbox_failure

text \<open>\<open>WorkspaceOutboxRecord\<close>; the store and the transitions are generic in its extensions.\<close>

record 's outbox_record =
  formatVersion :: nat
  ob_id :: string
  ob_workspaceId :: string
  causalOrderId :: string
  causalSequence :: "int option"
  ob_request :: json
  createdAt :: rat
  updatedAt :: rat
  attemptCount :: nat
  ob_state :: "'s outbox_state"

record 's outbox_entry = "'s outbox_record" +
  ob_operation :: operation
  baseSnapshot :: json

definition WORKSPACE_OUTBOX_FORMAT_VERSION :: nat where
  "WORKSPACE_OUTBOX_FORMAT_VERSION = 2"

section \<open>The causal order\<close>

definition compareEntries ::
  "('s, 'x) outbox_record_scheme \<Rightarrow> ('s, 'x) outbox_record_scheme \<Rightarrow> int" where
  "compareEntries left right =
     (let sequenceDifference =
            or_else (causalSequence left) min_safe_integer - or_else (causalSequence right) min_safe_integer;
          created = rat_sign (createdAt left - createdAt right);
          orders = compareUnicodeCodePoints (causalOrderId left) (causalOrderId right)
      in
      if ob_workspaceId left = ob_workspaceId right \<and>
         (causalSequence left \<noteq> None \<or> causalSequence right \<noteq> None) \<and> sequenceDifference \<noteq> 0
      then sequenceDifference
      else if created \<noteq> 0 then created
      else if orders \<noteq> 0 then orders
      else compareUnicodeCodePoints (ob_id left) (ob_id right))"

definition inheritWorkspaceOutboxCausalOrder ::
  "('s, 'x) outbox_record_scheme \<Rightarrow> ('s, 'x) outbox_record_scheme \<Rightarrow> ('s, 'x) outbox_record_scheme" where
  "inheritWorkspaceOutboxCausalOrder current replacement =
     (let r = replacement\<lparr>causalOrderId := causalOrderId current, createdAt := createdAt current,
                attemptCount := attemptCount current\<rparr>
      in case causalSequence current of None \<Rightarrow> r | Some n \<Rightarrow> r\<lparr>causalSequence := Some n\<rparr>)"

section \<open>Numbers\<close>

definition isFiniteTimestamp :: "js_number \<Rightarrow> bool" where
  "isFiniteTimestamp value = (case value of Finite q \<Rightarrow> q \<ge> 0 | NotFinite \<Rightarrow> False)"

definition normalizeLeaseDuration :: "js_number \<Rightarrow> int" where
  "normalizeLeaseDuration value =
     (case value of Finite q \<Rightarrow> if q > 0 then js_round q else 30000 | NotFinite \<Rightarrow> 30000)"

record retry_policy =
  initialDelayMs :: rat
  maximumDelayMs :: rat
  multiplier :: rat
  jitterRatio :: rat

definition DEFAULT_WORKSPACE_OUTBOX_RETRY_POLICY :: retry_policy where
  "DEFAULT_WORKSPACE_OUTBOX_RETRY_POLICY =
     \<lparr>initialDelayMs = 1000, maximumDelayMs = 60000, multiplier = 2, jitterRatio = 1 / 5\<rparr>"

definition computeWorkspaceOutboxRetryDelay :: "rat \<Rightarrow> rat \<Rightarrow> retry_policy \<Rightarrow> rat" where
  "computeWorkspaceOutboxRetryDelay attempts entropy policy =
     (let attempt = max 1 \<lfloor>attempts\<rfloor>;
          initial = max 0 (initialDelayMs policy);
          maximum = max initial (maximumDelayMs policy);
          mult = max 1 (multiplier policy);
          ratio = min 1 (max 0 (jitterRatio policy));
          boundedEntropy = min 1 (max 0 entropy);
          exponential = min maximum (initial * mult ^ nat (max 0 (attempt - 1)));
          jitter = exponential * ratio * (boundedEntropy * 2 - 1)
      in max 0 (min maximum (of_int (js_round (exponential + jitter)))))"

section \<open>New entries\<close>

datatype ('p, 'w) create_issue = PlanIssues 'p | WireIssue 'w | OperationInvalid

text \<open>
  \<open>plan\<close> and \<open>normalizeWire\<close> stand for \<open>planWorkspaceOperationCommit\<close> and
  \<open>normalizeWorkspaceOperationWire\<close>.
\<close>

definition createWorkspaceOutboxEntry ::
  "(json \<Rightarrow> operation \<Rightarrow> 'p + json) \<Rightarrow> (operation \<Rightarrow> 'w + operation) \<Rightarrow>
   json \<Rightarrow> operation \<Rightarrow> js_number \<Rightarrow> ('p, 'w) create_issue + 's outbox_entry" where
  "createWorkspaceOutboxEntry plan normalizeWire base op now =
     (case plan base op of
        Inl issues \<Rightarrow> Inl (PlanIssues issues)
      | Inr request \<Rightarrow>
          (case normalizeWire op of
             Inl issue \<Rightarrow> Inl (WireIssue issue)
           | Inr normalized \<Rightarrow>
               (let operationId = getWorkspaceOperationId normalized;
                    t = (case now of Finite q \<Rightarrow> if isFiniteTimestamp now then q else 0 | NotFinite \<Rightarrow> 0)
                in if operationId = '''' then Inl OperationInvalid
                   else Inr \<lparr>formatVersion = WORKSPACE_OUTBOX_FORMAT_VERSION, ob_id = operationId,
                     ob_workspaceId = (case own base ''id'' of Some (JStr w) \<Rightarrow> w | _ \<Rightarrow> ''''),
                     causalOrderId = operationId, causalSequence = None, ob_request = request,
                     createdAt = t, updatedAt = t, attemptCount = 0, ob_state = Queued,
                     ob_operation = normalized, baseSnapshot = base\<rparr>)))"

section \<open>Transitions of an entry\<close>

definition ownsSendingLease :: "('s, 'x) outbox_record_scheme \<Rightarrow> string \<Rightarrow> bool" where
  "ownsSendingLease entry client =
     (case ob_state entry of Sending w _ \<Rightarrow> w = client | _ \<Rightarrow> False)"

definition isWorkspaceOutboxEntryClaimable :: "('s, 'x) outbox_record_scheme \<Rightarrow> rat \<Rightarrow> bool" where
  "isWorkspaceOutboxEntryClaimable entry now =
     (case ob_state entry of
        Queued \<Rightarrow> True
      | RetryWait due _ \<Rightarrow> due \<le> now
      | Sending _ expires \<Rightarrow> expires \<le> now
      | _ \<Rightarrow> False)"

definition selectWorkspaceOutboxClaimCandidate ::
  "('s, 'x) outbox_record_scheme list \<Rightarrow> string \<Rightarrow> rat \<Rightarrow> ('s, 'x) outbox_record_scheme option" where
  "selectWorkspaceOutboxClaimCandidate entries workspaceId now =
     (case sort_by compareEntries (filter (\<lambda>e. ob_workspaceId e = workspaceId) entries) of
        [] \<Rightarrow> None
      | candidate # _ \<Rightarrow> if isWorkspaceOutboxEntryClaimable candidate now then Some candidate else None)"

definition claimWorkspaceOutboxEntry ::
  "('s, 'x) outbox_record_scheme \<Rightarrow> string \<Rightarrow> rat \<Rightarrow> js_number \<Rightarrow> ('s, 'x) outbox_record_scheme option" where
  "claimWorkspaceOutboxEntry entry client now leaseDurationMs =
     (let lease_owner = js_trim client in
      if lease_owner = [] \<or> \<not> isWorkspaceOutboxEntryClaimable entry now then None
      else Some (entry\<lparr>updatedAt := now, attemptCount := attemptCount entry + 1,
        ob_state := Sending lease_owner (now + of_int (normalizeLeaseDuration leaseDurationMs))\<rparr>))"

definition retryWorkspaceOutboxEntry ::
  "('s, 'x) outbox_record_scheme \<Rightarrow> string \<Rightarrow> rat \<Rightarrow> outbox_failure \<Rightarrow> rat option \<Rightarrow> retry_policy option \<Rightarrow>
   ('s, 'x) outbox_record_scheme option" where
  "retryWorkspaceOutboxEntry entry client now failure entropy policy =
     (if \<not> ownsSendingLease entry client then None
      else let delay = computeWorkspaceOutboxRetryDelay (of_nat (attemptCount entry)) (or_else entropy (1 / 2))
             (or_else policy DEFAULT_WORKSPACE_OUTBOX_RETRY_POLICY)
        in Some (entry\<lparr>updatedAt := now, ob_state := RetryWait (now + delay) failure\<rparr>))"

definition blockWorkspaceOutboxEntry ::
  "('s, 'x) outbox_record_scheme \<Rightarrow> string \<Rightarrow> rat \<Rightarrow> 's \<Rightarrow> ('s, 'x) outbox_record_scheme option" where
  "blockWorkspaceOutboxEntry entry client now session =
     (if ownsSendingLease entry client
      then Some (entry\<lparr>updatedAt := now, ob_state := Conflict session\<rparr>) else None)"

definition failWorkspaceOutboxEntry ::
  "('s, 'x) outbox_record_scheme \<Rightarrow> string \<Rightarrow> rat \<Rightarrow> outbox_failure \<Rightarrow> ('s, 'x) outbox_record_scheme option" where
  "failWorkspaceOutboxEntry entry client now failure =
     (if ownsSendingLease entry client
      then Some (entry\<lparr>updatedAt := now, ob_state := Failed failure\<rparr>) else None)"

definition requeueFailedWorkspaceOutboxEntry ::
  "('s, 'x) outbox_record_scheme \<Rightarrow> rat \<Rightarrow> ('s, 'x) outbox_record_scheme option" where
  "requeueFailedWorkspaceOutboxEntry entry now =
     (case ob_state entry of
        Failed _ \<Rightarrow> Some (entry\<lparr>updatedAt := max (updatedAt entry + 1) now, ob_state := Queued\<rparr>)
      | _ \<Rightarrow> None)"

definition releaseWorkspaceOutboxEntry ::
  "('s, 'x) outbox_record_scheme \<Rightarrow> string \<Rightarrow> rat \<Rightarrow> ('s, 'x) outbox_record_scheme option" where
  "releaseWorkspaceOutboxEntry entry client now =
     (if ownsSendingLease entry client
      then Some (entry\<lparr>updatedAt := now, ob_state := Queued\<rparr>) else None)"

definition canAcknowledgeWorkspaceOutboxEntry ::
  "('s, 'x) outbox_record_scheme \<Rightarrow> string \<Rightarrow> string \<Rightarrow> bool" where
  "canAcknowledgeWorkspaceOutboxEntry entry client acceptedOperationId \<longleftrightarrow>
     ownsSendingLease entry client \<and> ob_id entry = acceptedOperationId"

section \<open>The in-memory store\<close>

text \<open>The \<open>Map\<close> from ids to entries, in insertion order.\<close>

type_synonym ('s, 'x) outbox_store = "(string \<times> ('s, 'x) outbox_record_scheme) list"

definition store_values :: "('s, 'x) outbox_store \<Rightarrow> ('s, 'x) outbox_record_scheme list" where
  "store_values entries = map snd entries"

definition store_list :: "('s, 'x) outbox_store \<Rightarrow> string option \<Rightarrow> ('s, 'x) outbox_record_scheme list" where
  "store_list entries workspaceId =
     sort_by compareEntries
       (filter (\<lambda>e. \<not> truthy_text workspaceId \<or> Some (ob_workspaceId e) = workspaceId) (store_values entries))"

definition store_claim ::
  "('s, 'x) outbox_store \<Rightarrow> string \<Rightarrow> string \<Rightarrow> rat \<Rightarrow> js_number \<Rightarrow>
   ('s, 'x) outbox_record_scheme option \<times> ('s, 'x) outbox_store" where
  "store_claim entries entryId client now leaseDurationMs =
     (case map_of entries entryId of
        None \<Rightarrow> (None, entries)
      | Some entry \<Rightarrow>
          (let candidate = selectWorkspaceOutboxClaimCandidate (store_values entries)
                 (ob_workspaceId entry) now
           in if map_option ob_id candidate \<noteq> Some (ob_id entry) then (None, entries)
              else case claimWorkspaceOutboxEntry entry client now leaseDurationMs of
                None \<Rightarrow> (None, entries)
              | Some claimed \<Rightarrow> (Some claimed, alist_put (ob_id claimed) claimed entries)))"

text \<open>\<open>None\<close> is the exception the code throws for an id reused with another request.\<close>

definition store_enqueue ::
  "('s, 'x) outbox_store \<Rightarrow> ('s, 'x) outbox_record_scheme \<Rightarrow> ('s, 'x) outbox_store option" where
  "store_enqueue entries entry =
     (case map_of entries (ob_id entry) of
        Some existing \<Rightarrow> if ob_request existing \<noteq> ob_request entry then None else Some entries
      | None \<Rightarrow>
          (let maximumSequence = foldl max 0 (map (\<lambda>c. or_else (causalSequence c) 0)
                 (filter (\<lambda>c. ob_workspaceId c = ob_workspaceId entry) (store_values entries)))
           in Some (alist_put (ob_id entry)
                (entry\<lparr>causalSequence := Some (or_else (causalSequence entry) (maximumSequence + 1))\<rparr>)
                entries)))"

definition store_claimNext ::
  "('s, 'x) outbox_store \<Rightarrow> string \<Rightarrow> string \<Rightarrow> rat \<Rightarrow> js_number \<Rightarrow>
   ('s, 'x) outbox_record_scheme option \<times> ('s, 'x) outbox_store" where
  "store_claimNext entries workspaceId client now leaseDurationMs =
     (case selectWorkspaceOutboxClaimCandidate (store_values entries) workspaceId now of
        None \<Rightarrow> (None, entries)
      | Some candidate \<Rightarrow> store_claim entries (ob_id candidate) client now leaseDurationMs)"

text \<open>Whether the expected lease, where one is given, is the one the entry is sent under.\<close>

definition lease_matches :: "('s, 'x) outbox_record_scheme \<Rightarrow> string option \<Rightarrow> bool" where
  "lease_matches current expectedLeaseOwnerId =
     (case expectedLeaseOwnerId of
        None \<Rightarrow> True
      | Some w \<Rightarrow> (case ob_state current of Sending v _ \<Rightarrow> v = w | _ \<Rightarrow> False))"

definition store_update ::
  "('s, 'x) outbox_store \<Rightarrow> ('s, 'x) outbox_record_scheme \<Rightarrow> string option \<Rightarrow> bool \<times> ('s, 'x) outbox_store" where
  "store_update entries entry expectedLeaseOwnerId =
     (case map_of entries (ob_id entry) of
        None \<Rightarrow> (False, entries)
      | Some current \<Rightarrow>
          if \<not> lease_matches current expectedLeaseOwnerId \<or> updatedAt current > updatedAt entry
          then (False, entries)
          else (True, alist_put (ob_id entry) entry entries))"

definition store_remove ::
  "('s, 'x) outbox_store \<Rightarrow> string \<Rightarrow> string option \<Rightarrow> bool \<times> ('s, 'x) outbox_store" where
  "store_remove entries entryId expectedLeaseOwnerId =
     (case map_of entries entryId of
        None \<Rightarrow> (False, entries)
      | Some current \<Rightarrow>
          if \<not> lease_matches current expectedLeaseOwnerId then (False, entries)
          else (True, alist_del entryId entries))"

definition store_replace ::
  "('s, 'x) outbox_store \<Rightarrow> string \<Rightarrow> ('s, 'x) outbox_record_scheme \<Rightarrow> string option \<Rightarrow>
   bool \<times> ('s, 'x) outbox_store" where
  "store_replace entries entryId replacement expectedLeaseOwnerId =
     (case map_of entries entryId of
        None \<Rightarrow> (False, entries)
      | Some current \<Rightarrow>
          if (ob_id replacement \<noteq> entryId \<and> map_of entries (ob_id replacement) \<noteq> None) \<or>
             \<not> lease_matches current expectedLeaseOwnerId
          then (False, entries)
          else (let ordered = inheritWorkspaceOutboxCausalOrder current replacement
                in (True, alist_put (ob_id ordered) ordered (alist_del entryId entries))))"

end
