(* ===== verification/OutboxLaws.thy ===== *)
theory OutboxLaws
  imports Outbox
begin

text \<open>
  The laws of the outbox: the comparison orders the entries of one workspace, the store refines one
  first-in first-out queue per workspace, the lease of a client excludes the others, and the
  transitions of an entry keep its identity.
\<close>

section \<open>The order within a workspace\<close>

definition sequence_key :: "('s, 'x) outbox_record_scheme \<Rightarrow> int" where
  "sequence_key e = or_else (causalSequence e) min_safe_integer"

lemma compareEntries_same_workspace:
  assumes "ob_workspaceId l = ob_workspaceId r"
  shows "compareEntries l r =
    or_compare (\<lambda>x y. sequence_key x - sequence_key y)
      (or_compare (\<lambda>x y. rat_sign (createdAt x - createdAt y))
        (or_compare (\<lambda>x y. compareUnicodeCodePoints (causalOrderId x) (causalOrderId y))
          (\<lambda>x y. compareUnicodeCodePoints (ob_id x) (ob_id y)))) l r"
  using assms by (auto simp: compareEntries_def or_compare_def sequence_key_def Let_def)

lemma consistent_rat: "consistent (\<lambda>x y. rat_sign (x - y))"
  by (auto simp: consistent_def rat_sign_def split: if_splits)

lemma consistent_entries:
  "consistent (or_compare (\<lambda>x y. sequence_key x - sequence_key y)
      (or_compare (\<lambda>x y. rat_sign (createdAt x - createdAt y))
        (or_compare (\<lambda>x y. compareUnicodeCodePoints (causalOrderId x) (causalOrderId y))
          (\<lambda>x y. compareUnicodeCodePoints (ob_id x) (ob_id y)))))"
  by (intro consistent_or consistent_map [OF consistent_minus] consistent_map [OF consistent_rat]
      consistent_map [OF consistent_code_points])

interpretation outbox_order: comparator "\<lambda>e. ob_workspaceId e = w" compareEntries for w
proof
  fix x y z :: "('a, 'b) outbox_record_scheme"
  assume "ob_workspaceId x = w" "ob_workspaceId y = w"
  then show "compareEntries x y \<le> 0 \<or> compareEntries y x \<le> 0"
    using consistent_comparator [OF consistent_entries, THEN comparator.total]
    by (simp add: compareEntries_same_workspace)
  assume "ob_workspaceId z = w" "compareEntries x y \<le> 0" "compareEntries y z \<le> 0"
  with \<open>ob_workspaceId x = w\<close> \<open>ob_workspaceId y = w\<close> show "compareEntries x z \<le> 0"
    using consistent_trans [OF consistent_entries]
    by (simp add: compareEntries_same_workspace) blast
qed

lemma sequence_decides:
  "ob_workspaceId l = ob_workspaceId r \<Longrightarrow> sequence_key l < sequence_key r \<Longrightarrow> compareEntries l r < 0"
  by (simp add: compareEntries_same_workspace or_compare_def)

lemma sequence_monotone:
  assumes "ob_workspaceId l = ob_workspaceId r" and "compareEntries l r \<le> 0"
  shows "sequence_key l \<le> sequence_key r"
  using assms by (auto simp: compareEntries_same_workspace or_compare_def split: if_splits)

text \<open>The candidate of a claim is the causal head of its workspace.\<close>

lemma candidate_head:
  assumes "selectWorkspaceOutboxClaimCandidate entries w now = Some e"
  shows "e \<in> set entries \<and> ob_workspaceId e = w \<and> isWorkspaceOutboxEntryClaimable e now \<and>
    (\<forall>x \<in> set entries. ob_workspaceId x = w \<longrightarrow> compareEntries e x \<le> 0)"
proof -
  let ?xs = "filter (\<lambda>e. ob_workspaceId e = w) entries"
  obtain rest where sorted: "sort_by compareEntries ?xs = e # rest"
    and claimable: "isWorkspaceOutboxEntryClaimable e now"
    using assms by (auto simp: selectWorkspaceOutboxClaimCandidate_def split: list.splits if_splits)
  then have "e \<in> set ?xs" by (metis list.set_intros(1) set_sort_by)
  moreover have "compareEntries e x \<le> 0" if "x \<in> set ?xs" for x
    by (rule outbox_order.head_least [where w = w, OF _ sorted that]) simp
  ultimately show ?thesis using claimable by auto
qed

section \<open>The invariant of the store\<close>

text \<open>
  The keys are the ids, every entry has a sequence number, and no two entries of a workspace share
  one.
\<close>

definition store_inv :: "('s, 'x) outbox_store \<Rightarrow> bool" where
  "store_inv st \<longleftrightarrow> distinct (map fst st) \<and>
     (\<forall>k e. (k, e) \<in> set st \<longrightarrow> ob_id e = k \<and> causalSequence e \<noteq> None \<and> 1 \<le> sequence_key e) \<and>
     (\<forall>k e k' e'. (k, e) \<in> set st \<and> (k', e') \<in> set st \<and> ob_workspaceId e = ob_workspaceId e' \<and>
        sequence_key e = sequence_key e' \<longrightarrow> k = k')"

lemma store_inv_Nil [simp]: "store_inv []"
  by (simp add: store_inv_def)

lemma store_inv_key:
  "store_inv st \<Longrightarrow> (k, e) \<in> set st \<Longrightarrow> (k', e') \<in> set st \<Longrightarrow> ob_workspaceId e = ob_workspaceId e' \<Longrightarrow>
   sequence_key e = sequence_key e' \<Longrightarrow> k = k'"
  unfolding store_inv_def by blast

lemma map_of_inv: "store_inv st \<Longrightarrow> map_of st k = Some e \<longleftrightarrow> (k, e) \<in> set st"
  by (simp add: store_inv_def)

lemma store_inv_id: "store_inv st \<Longrightarrow> map_of st k = Some e \<Longrightarrow> ob_id e = k"
  using map_of_inv by (fastforce simp: store_inv_def)

lemma set_alist_put_eq:
  "distinct (map fst st) \<Longrightarrow> set (alist_put k v st) = insert (k, v) {p \<in> set st. fst p \<noteq> k}"
proof (induction st)
  case (Cons p st)
  obtain j x where p: "p = (j, x)" by (cases p)
  show ?case
  proof (cases "j = k")
    case True
    then have rest: "{q \<in> set (p # st). fst q \<noteq> k} = set st" using Cons.prems p by auto
    show ?thesis unfolding rest using True p by simp
  next
    case False
    then show ?thesis using Cons p by auto
  qed
qed simp

lemma set_alist_del_eq: "set (alist_del k st) = {p \<in> set st. fst p \<noteq> k}"
  by (auto simp: alist_del_def)

text \<open>An entry replaced by one with the same place in the queue.\<close>

definition same_place :: "('s, 'x) outbox_record_scheme \<Rightarrow> ('s, 'x) outbox_record_scheme \<Rightarrow> bool" where
  "same_place e' e \<longleftrightarrow> ob_workspaceId e' = ob_workspaceId e \<and> causalSequence e' = causalSequence e"

lemma same_place_key: "same_place e' e \<Longrightarrow> sequence_key e' = sequence_key e"
  by (simp add: same_place_def sequence_key_def)

lemma store_inv_move:
  assumes "store_inv st" and "map_of st k = Some e" and "same_place e' e"
    and "ob_id e' = k \<or> map_of st (ob_id e') = None"
  shows "store_inv (alist_put (ob_id e') e' (alist_del k st))"
proof -
  have d: "distinct (map fst (alist_del k st))" using assms(1) by (simp add: store_inv_def)
  have e: "(k, e) \<in> set st" using assms(1,2) map_of_inv by blast
  have set: "set (alist_put (ob_id e') e' (alist_del k st)) =
      insert (ob_id e', e') {p \<in> set st. fst p \<noteq> k \<and> fst p \<noteq> ob_id e'}"
    unfolding set_alist_put_eq [OF d] set_alist_del_eq by auto
  have "distinct (map fst (alist_put (ob_id e') e' (alist_del k st)))" using d by simp
  moreover have "ob_workspaceId x = ob_workspaceId e' \<Longrightarrow> sequence_key x \<noteq> sequence_key e'"
    if "(j, x) \<in> set st" "j \<noteq> k" for j x
    using assms(1,3) that e same_place_key [OF assms(3)]
    unfolding store_inv_def same_place_def by metis
  moreover have "causalSequence e' \<noteq> None" "1 \<le> sequence_key e'"
    using assms(1,3) e same_place_key [OF assms(3)] unfolding store_inv_def same_place_def by metis+
  ultimately show ?thesis
    using assms(1) unfolding store_inv_def set by auto metis+
qed

lemma store_inv_put:
  assumes "store_inv st" and "map_of st k = Some e" and "same_place e' e" and "ob_id e' = k"
  shows "store_inv (alist_put k e' st)"
proof -
  have d: "distinct (map fst st)" using assms(1) by (simp add: store_inv_def)
  have "set (alist_put k e' st) = set (alist_put k e' (alist_del k st))"
    using d by (auto simp: set_alist_put_eq set_alist_del_eq)
  moreover have "store_inv (alist_put k e' (alist_del k st))"
    using store_inv_move [OF assms(1-3)] assms(4) by simp
  ultimately show ?thesis using d by (simp add: store_inv_def)
qed

lemma store_inv_del: "store_inv st \<Longrightarrow> store_inv (alist_del k st)"
  unfolding store_inv_def set_alist_del_eq by auto metis

section \<open>One queue per workspace\<close>

text \<open>The entries of a workspace in their causal order.\<close>

definition listing ::
  "('s, 'x) outbox_store \<Rightarrow> string \<Rightarrow> ('s, 'x) outbox_record_scheme list \<Rightarrow> bool" where
  "listing st w L \<longleftrightarrow> sorted_wrt (\<lambda>a b. sequence_key a < sequence_key b) L \<and>
     set L = {e. (ob_id e, e) \<in> set st \<and> ob_workspaceId e = w}"

lemma strict_keys:
  "sorted_wrt (\<lambda>a b. sequence_key a < sequence_key b) L \<Longrightarrow> sorted_wrt (<) (map sequence_key L)"
  by (simp add: sorted_wrt_map)

lemma listing_unique:
  assumes "store_inv st" and "listing st w L" and "listing st w L'"
  shows "L = L'"
proof -
  have sets: "set L = set L'" using assms(2,3) by (simp add: listing_def)
  have "map sequence_key L = map sequence_key L'"
    by (rule strict_sorted_equal) (use assms(2,3) sets in \<open>auto simp: listing_def strict_keys\<close>)
  moreover have "inj_on sequence_key (set L \<union> set L')"
  proof (rule inj_onI)
    fix a b assume ab: "a \<in> set L \<union> set L'" "b \<in> set L \<union> set L'" "sequence_key a = sequence_key b"
    then have "(ob_id a, a) \<in> set st" "(ob_id b, b) \<in> set st" "ob_workspaceId a = ob_workspaceId b"
      using assms(2,3) by (auto simp: listing_def)
    moreover from this have "ob_id a = ob_id b" using assms(1) ab(3) unfolding store_inv_def by blast
    ultimately show "a = b" using map_of_inv [OF assms(1)] by (metis option.inject)
  qed
  ultimately show ?thesis by (rule map_inj_on)
qed

lemma store_values_filter:
  assumes "store_inv st"
  shows "set (filter (\<lambda>e. ob_workspaceId e = w) (store_values st)) =
    {e. (ob_id e, e) \<in> set st \<and> ob_workspaceId e = w}"
  using assms by (force simp: store_values_def store_inv_def image_iff)

lemma store_list_filter:
  "w \<noteq> [] \<Longrightarrow> store_list st (Some w) =
     sort_by compareEntries (filter (\<lambda>e. ob_workspaceId e = w) (store_values st))"
  by (simp add: store_list_def truthy_text_def)

lemma distinct_values: "store_inv st \<Longrightarrow> distinct (map ob_id (store_values st))"
proof -
  assume inv: "store_inv st"
  then have "map ob_id (store_values st) = map fst st"
    by (auto simp: store_values_def store_inv_def)
  with inv show ?thesis by (simp add: store_inv_def)
qed

lemma store_list_listing:
  assumes "store_inv st" and "w \<noteq> []"
  shows "listing st w (store_list st (Some w))"
proof -
  let ?L = "store_list st (Some w)"
  have set: "set ?L = {e. (ob_id e, e) \<in> set st \<and> ob_workspaceId e = w}"
    using store_values_filter [OF assms(1)] by (simp add: store_list_filter assms(2))
  have sorted: "sorted_wrt (\<lambda>a b. compareEntries a b \<le> 0) ?L"
    unfolding store_list_filter [OF assms(2)] by (rule outbox_order.sorted_sort_by [where w = w]) simp
  have distinct: "distinct (map ob_id ?L)"
    using distinct_values [OF assms(1)] by (simp add: store_list_filter assms(2) distinct_map_filter)
  have "sequence_key (?L ! i) < sequence_key (?L ! j)" if ij: "i < j" "j < length ?L" for i j
  proof -
    have mem: "?L ! i \<in> set ?L" "?L ! j \<in> set ?L" using ij by simp_all
    have "compareEntries (?L ! i) (?L ! j) \<le> 0" using sorted ij by (simp add: sorted_wrt_iff_nth_less)
    moreover have "ob_workspaceId (?L ! i) = ob_workspaceId (?L ! j)" using mem unfolding set by simp
    ultimately have "sequence_key (?L ! i) \<le> sequence_key (?L ! j)" by (rule sequence_monotone [rotated])
    moreover have "ob_id (?L ! i) \<noteq> ob_id (?L ! j)"
      using distinct ij by (simp add: distinct_conv_nth)
    then have "sequence_key (?L ! i) \<noteq> sequence_key (?L ! j)"
      using store_inv_key [OF assms(1), of "ob_id (?L ! i)" "?L ! i" "ob_id (?L ! j)" "?L ! j"] mem
      unfolding set by auto
    ultimately show ?thesis by simp
  qed
  then have "sorted_wrt (\<lambda>a b. sequence_key a < sequence_key b) ?L"
    unfolding sorted_wrt_iff_nth_less by blast
  then show ?thesis unfolding listing_def set by blast
qed

lemma listing_iff:
  "store_inv st \<Longrightarrow> w \<noteq> [] \<Longrightarrow> store_list st (Some w) = L \<longleftrightarrow> listing st w L"
  using listing_unique store_list_listing by blast

lemma candidate_first:
  assumes "store_inv st" and "w \<noteq> []"
  shows "selectWorkspaceOutboxClaimCandidate (store_values st) w now =
    (case store_list st (Some w) of [] \<Rightarrow> None
     | e # _ \<Rightarrow> if isWorkspaceOutboxEntryClaimable e now then Some e else None)"
  by (simp add: selectWorkspaceOutboxClaimCandidate_def store_list_filter assms(2))

text \<open>An entry that takes the place of another one keeps the queue, up to that entry.\<close>

lemma listing_swap:
  assumes "store_inv st" and "map_of st k = Some e" and "same_place e' e"
    and st': "set st' = insert (ob_id e', e') {p \<in> set st. fst p \<noteq> k}"
    and "listing st w L"
  shows "listing st' w (map (\<lambda>x. if ob_id x = k then e' else x) L)"
proof -
  have e: "(k, e) \<in> set st" "ob_id e = k" using assms(1,2) map_of_inv store_inv_id by blast+
  have uniq: "x = e" if "x \<in> set L" "ob_id x = k" for x
    using that assms(1,2,5) map_of_inv [OF assms(1)] by (auto simp: listing_def) (metis option.inject)
  have key: "sequence_key (if ob_id x = k then e' else x) = sequence_key x" if "x \<in> set L" for x
    using uniq [OF that] same_place_key [OF assms(3)] by auto
  have "map sequence_key (map (\<lambda>x. if ob_id x = k then e' else x) L) = map sequence_key L"
    using key by simp
  then have "sorted_wrt (<) (map sequence_key (map (\<lambda>x. if ob_id x = k then e' else x) L))"
    using assms(5) strict_keys unfolding listing_def by metis
  then have "sorted_wrt (\<lambda>a b. sequence_key a < sequence_key b) (map (\<lambda>x. if ob_id x = k then e' else x) L)"
    by (rule sorted_wrt_map [THEN iffD1])
  moreover have "set (map (\<lambda>x. if ob_id x = k then e' else x) L) =
      {x. (ob_id x, x) \<in> set st' \<and> ob_workspaceId x = w}"
  proof -
    have L: "x \<in> set L \<longleftrightarrow> (ob_id x, x) \<in> set st \<and> ob_workspaceId x = w" for x
      using assms(5) by (simp add: listing_def)
    have w: "e \<in> set L \<longleftrightarrow> ob_workspaceId e' = w"
      using assms(3) e unfolding L same_place_def by simp
    have mem: "y \<in> set (map (\<lambda>x. if ob_id x = k then e' else x) L) \<longleftrightarrow>
        (y = e' \<and> e \<in> set L) \<or> (ob_id y \<noteq> k \<and> y \<in> set L)" for y
      using uniq e(2) by (auto simp: image_iff)
    show ?thesis unfolding st' set_eq_iff mem w unfolding L by auto
  qed
  ultimately show ?thesis by (simp add: listing_def)
qed

lemma listing_put:
  assumes "store_inv st" and "map_of st k = Some e" and "same_place e' e" and "ob_id e' = k"
    and "listing st w L"
  shows "listing (alist_put k e' st) w (map (\<lambda>x. if ob_id x = k then e' else x) L)"
  by (rule listing_swap [OF assms(1-3) _ assms(5)])
    (use assms(1,4) in \<open>simp add: set_alist_put_eq store_inv_def\<close>)

lemma listing_move:
  assumes "store_inv st" and "map_of st k = Some e" and "same_place e' e"
    and "ob_id e' = k \<or> map_of st (ob_id e') = None" and "listing st w L"
  shows "listing (alist_put (ob_id e') e' (alist_del k st)) w (map (\<lambda>x. if ob_id x = k then e' else x) L)"
proof (rule listing_swap [OF assms(1-3) _ assms(5)])
  have "distinct (map fst (alist_del k st))" using assms(1) by (simp add: store_inv_def)
  moreover have "fst p \<noteq> ob_id e'" if "p \<in> set st" "fst p \<noteq> k" for p
    using that assms(4) by (metis image_eqI map_of_eq_None_iff)
  ultimately show "set (alist_put (ob_id e') e' (alist_del k st)) =
      insert (ob_id e', e') {p \<in> set st. fst p \<noteq> k}"
    by (auto simp: set_alist_put_eq set_alist_del_eq)
qed

lemma listing_del:
  assumes "listing st w L"
  shows "listing (alist_del k st) w (filter (\<lambda>x. ob_id x \<noteq> k) L)"
  using assms by (auto simp: listing_def set_alist_del_eq sorted_wrt_filter)

lemma foldl_max: "a \<le> foldl max a xs \<and> (\<forall>x \<in> set xs. x \<le> foldl max a xs)" for a :: int
proof (induction xs arbitrary: a)
  case (Cons x xs)
  from Cons [of "max a x"] show ?case by auto
qed simp

text \<open>A new entry goes to the end of the queue of its workspace.\<close>

lemma enqueue_last:
  assumes "store_inv st" and "map_of st (ob_id e) = None" and "causalSequence e = None"
  obtains n where "store_enqueue st e = Some (st @ [(ob_id e, e\<lparr>causalSequence := Some n\<rparr>)])"
    and "1 \<le> n" and "\<And>k x. (k, x) \<in> set st \<Longrightarrow> ob_workspaceId x = ob_workspaceId e \<Longrightarrow> sequence_key x < n"
proof -
  let ?xs = "map (\<lambda>c. or_else (causalSequence c) 0)
      (filter (\<lambda>c. ob_workspaceId c = ob_workspaceId e) (store_values st))"
  let ?n = "foldl max 0 ?xs + 1"
  have "sequence_key x < ?n" if "(k, x) \<in> set st" "ob_workspaceId x = ob_workspaceId e" for k x
  proof -
    have "sequence_key x = or_else (causalSequence x) 0"
      using assms(1) that(1) by (fastforce simp: store_inv_def sequence_key_def)
    moreover have "or_else (causalSequence x) 0 \<in> set ?xs" using that by (force simp: store_values_def)
    ultimately show ?thesis using foldl_max [of 0 ?xs] by force
  qed
  moreover have "1 \<le> ?n" using foldl_max [of 0 ?xs] by simp
  ultimately show thesis
    using assms(2,3) by (intro that [of ?n]) (simp_all add: store_enqueue_def Let_def alist_put_new)
qed

lemma listing_snoc:
  assumes "listing st w L" and "1 \<le> n" and "map_of st (ob_id e) = None"
    and "\<And>k x. (k, x) \<in> set st \<Longrightarrow> ob_workspaceId x = ob_workspaceId e \<Longrightarrow> sequence_key x < n"
  shows "listing (st @ [(ob_id e, e\<lparr>causalSequence := Some n\<rparr>)]) w
    (if ob_workspaceId e = w then L @ [e\<lparr>causalSequence := Some n\<rparr>] else L)"
proof -
  have "sequence_key x < n" if "x \<in> set L" "ob_workspaceId e = w" for x
    using assms(1,4) that by (auto simp: listing_def)
  moreover have "sequence_key (e\<lparr>causalSequence := Some n\<rparr>) = n" by (simp add: sequence_key_def)
  ultimately have sorted: "sorted_wrt (\<lambda>a b. sequence_key a < sequence_key b)
      (if ob_workspaceId e = w then L @ [e\<lparr>causalSequence := Some n\<rparr>] else L)"
    using assms(1) by (simp add: listing_def sorted_wrt_append)
  have "set (if ob_workspaceId e = w then L @ [e'] else L) =
      {x. (ob_id x, x) \<in> set (st @ [(ob_id e, e')]) \<and> ob_workspaceId x = w}"
    if "ob_id e' = ob_id e" "ob_workspaceId e' = ob_workspaceId e" for e'
  proof -
    have L: "set L = {x. (ob_id x, x) \<in> set st \<and> ob_workspaceId x = w}"
      using assms(1) by (simp add: listing_def)
    have "(ob_id x, x) = (ob_id e, e') \<longleftrightarrow> x = e'" for x using that by auto
    then show ?thesis using that by (cases "ob_workspaceId e = w") (simp_all add: L, auto)
  qed
  then have "set (if ob_workspaceId e = w then L @ [e\<lparr>causalSequence := Some n\<rparr>] else L) =
      {x. (ob_id x, x) \<in> set (st @ [(ob_id e, e\<lparr>causalSequence := Some n\<rparr>)]) \<and> ob_workspaceId x = w}"
    by simp
  with sorted show ?thesis unfolding listing_def by blast
qed

lemma store_inv_snoc:
  assumes "store_inv st" and "1 \<le> n" and "map_of st (ob_id e) = None"
    and "\<And>k x. (k, x) \<in> set st \<Longrightarrow> ob_workspaceId x = ob_workspaceId e \<Longrightarrow> sequence_key x < n"
  shows "store_inv (st @ [(ob_id e, e\<lparr>causalSequence := Some n\<rparr>)])"
proof -
  have "sequence_key (e\<lparr>causalSequence := Some n\<rparr>) = n" by (simp add: sequence_key_def)
  then show ?thesis
    using assms unfolding store_inv_def
    by (auto simp: map_of_eq_None_iff) (metis less_irrefl)+
qed

section \<open>Transitions keep the identity of an entry\<close>

datatype 's settlement =
    Retry outbox_failure "rat option" "retry_policy option"
  | Block 's
  | Fail outbox_failure
  | Release

definition settle ::
  "('s, 'x) outbox_record_scheme \<Rightarrow> string \<Rightarrow> rat \<Rightarrow> 's settlement \<Rightarrow> ('s, 'x) outbox_record_scheme option" where
  "settle entry client now how =
     (case how of
        Retry failure entropy policy \<Rightarrow> retryWorkspaceOutboxEntry entry client now failure entropy policy
      | Block session \<Rightarrow> blockWorkspaceOutboxEntry entry client now session
      | Fail failure \<Rightarrow> failWorkspaceOutboxEntry entry client now failure
      | Release \<Rightarrow> releaseWorkspaceOutboxEntry entry client now)"

datatype 's transition =
    Claiming string rat js_number
  | Settling string rat "'s settlement"
  | Requeueing rat

fun is_claiming :: "'s transition \<Rightarrow> bool" where
  "is_claiming (Claiming _ _ _) = True"
| "is_claiming _ = False"

fun apply_transition ::
  "('s, 'x) outbox_record_scheme \<Rightarrow> 's transition \<Rightarrow> ('s, 'x) outbox_record_scheme option" where
  "apply_transition e (Claiming client now d) = claimWorkspaceOutboxEntry e client now d"
| "apply_transition e (Settling client now how) = settle e client now how"
| "apply_transition e (Requeueing now) = requeueFailedWorkspaceOutboxEntry e now"

text \<open>What a transition keeps: all but the state, the time of the update and the attempts.\<close>

definition same_identity :: "('s, 'x) outbox_record_scheme \<Rightarrow> ('s, 'x) outbox_record_scheme \<Rightarrow> bool" where
  "same_identity e' e \<longleftrightarrow>
     e'\<lparr>updatedAt := 0, attemptCount := 0, ob_state := Queued\<rparr> =
     e\<lparr>updatedAt := 0, attemptCount := 0, ob_state := Queued\<rparr>"

lemmas transition_defs = claimWorkspaceOutboxEntry_def settle_def retryWorkspaceOutboxEntry_def
  blockWorkspaceOutboxEntry_def failWorkspaceOutboxEntry_def releaseWorkspaceOutboxEntry_def
  requeueFailedWorkspaceOutboxEntry_def

lemma apply_transition_identity:
  assumes "apply_transition e t = Some e'"
  shows "same_identity e' e \<and> attemptCount e' = attemptCount e + (if is_claiming t then 1 else 0)"
  using assms
  by (cases t) (auto simp: same_identity_def transition_defs Let_def
      split: if_splits settlement.splits outbox_state.splits)

lemma same_identity_trans: "same_identity a b \<Longrightarrow> same_identity b c \<Longrightarrow> same_identity a c"
  by (simp add: same_identity_def)

lemma same_identity_fields:
  assumes "same_identity e' e"
  shows "ob_id e' = ob_id e" "same_place e' e" "ob_request e' = ob_request e"
    "createdAt e' = createdAt e" "causalOrderId e' = causalOrderId e"
proof -
  have eq: "f (e'\<lparr>updatedAt := 0, attemptCount := 0, ob_state := Queued\<rparr>) =
      f (e\<lparr>updatedAt := 0, attemptCount := 0, ob_state := Queued\<rparr>)" for f :: "_ \<Rightarrow> 'c"
    using assms by (simp add: same_identity_def)
  show "ob_id e' = ob_id e" using eq [of ob_id] by simp
  show "same_place e' e" using eq [of ob_workspaceId] eq [of causalSequence] by (simp add: same_place_def)
  show "ob_request e' = ob_request e" using eq [of ob_request] by simp
  show "createdAt e' = createdAt e" using eq [of createdAt] by simp
  show "causalOrderId e' = causalOrderId e" using eq [of causalOrderId] by simp
qed

fun run_transitions ::
  "('s, 'x) outbox_record_scheme \<Rightarrow> 's transition list \<Rightarrow> ('s, 'x) outbox_record_scheme option" where
  "run_transitions e [] = Some e"
| "run_transitions e (t # ts) =
     (case apply_transition e t of None \<Rightarrow> None | Some e' \<Rightarrow> run_transitions e' ts)"

theorem run_transitions_identity:
  "run_transitions e ts = Some e' \<Longrightarrow>
   same_identity e' e \<and> attemptCount e' = attemptCount e + length (filter is_claiming ts)"
proof (induction ts arbitrary: e)
  case (Cons t ts)
  then obtain m where m: "apply_transition e t = Some m" "run_transitions m ts = Some e'"
    by (auto split: option.splits)
  from Cons.IH [OF m(2)] apply_transition_identity [OF m(1)] same_identity_trans [of e' m e]
  show ?case by auto
qed (simp add: same_identity_def)

section \<open>The store as a machine\<close>

datatype ('s, 'x) outbox_event =
    EnqueueEvent "('s, 'x) outbox_record_scheme"
  | ClaimEvent string string rat js_number
  | ClaimNextEvent string string rat js_number
  | SettleEvent string string rat "'s settlement"
  | RequeueEvent string rat
  | RemoveEvent string "string option"
  | ReplaceEvent string "('s, 'x) outbox_record_scheme" "string option"

text \<open>
  One step of a client. A new entry comes without a sequence number, as
  \<open>createWorkspaceOutboxEntry\<close> makes it; a settlement reads the entry, applies the transition and
  updates the store under the lease of the client; a replacement (after a rebase) is for the same
  workspace. A step that is refused or throws leaves the store as it was.
\<close>

definition outbox_step ::
  "('s, 'x) outbox_store \<Rightarrow> ('s, 'x) outbox_event \<Rightarrow> ('s, 'x) outbox_store" where
  "outbox_step st ev =
     (case ev of
        EnqueueEvent e \<Rightarrow> or_else (store_enqueue st (e\<lparr>causalSequence := None\<rparr>)) st
      | ClaimEvent i client now d \<Rightarrow> snd (store_claim st i client now d)
      | ClaimNextEvent w client now d \<Rightarrow> snd (store_claimNext st w client now d)
      | SettleEvent i client now how \<Rightarrow>
          (case map_of st i of None \<Rightarrow> st | Some e \<Rightarrow>
             (case settle e client now how of None \<Rightarrow> st
              | Some e' \<Rightarrow> snd (store_update st e' (Some client))))
      | RequeueEvent i now \<Rightarrow>
          (case map_of st i of None \<Rightarrow> st | Some e \<Rightarrow>
             (case requeueFailedWorkspaceOutboxEntry e now of None \<Rightarrow> st
              | Some e' \<Rightarrow> snd (store_update st e' None)))
      | RemoveEvent i client \<Rightarrow> snd (store_remove st i client)
      | ReplaceEvent i r client \<Rightarrow>
          (case map_of st i of None \<Rightarrow> st | Some e \<Rightarrow>
             if ob_workspaceId r = ob_workspaceId e then snd (store_replace st i r client) else st))"

text \<open>The queue of a workspace, as the list of its ids, and what a step does to it.\<close>

datatype queue_op = Push string string | Drop string | Rename string string | Keep

fun apply_queue :: "string \<Rightarrow> queue_op \<Rightarrow> string list \<Rightarrow> string list" where
  "apply_queue w (Push v i) ids = (if v = w then ids @ [i] else ids)"
| "apply_queue w (Drop i) ids = filter (\<lambda>j. j \<noteq> i) ids"
| "apply_queue w (Rename i i') ids = map (\<lambda>j. if j = i then i' else j) ids"
| "apply_queue w Keep ids = ids"

definition outbox_outcome :: "('s, 'x) outbox_store \<Rightarrow> ('s, 'x) outbox_event \<Rightarrow> queue_op" where
  "outbox_outcome st ev =
     (case ev of
        EnqueueEvent e \<Rightarrow>
          if map_of st (ob_id e) = None then Push (ob_workspaceId e) (ob_id e) else Keep
      | RemoveEvent i client \<Rightarrow> if fst (store_remove st i client) then Drop i else Keep
      | ReplaceEvent i r client \<Rightarrow>
          (case map_of st i of None \<Rightarrow> Keep | Some e \<Rightarrow>
             if ob_workspaceId r = ob_workspaceId e \<and> fst (store_replace st i r client)
             then Rename i (ob_id r) else Keep)
      | _ \<Rightarrow> Keep)"

definition step_ok :: "('s, 'x) outbox_store \<Rightarrow> queue_op \<Rightarrow> ('s, 'x) outbox_store \<Rightarrow> bool" where
  "step_ok st q st' \<longleftrightarrow> store_inv st' \<and>
     (\<forall>w L. listing st w L \<longrightarrow> (\<exists>L'. listing st' w L' \<and> map ob_id L' = apply_queue w q (map ob_id L)))"

lemma step_okI:
  assumes "store_inv st'"
    and "\<And>w L. listing st w L \<Longrightarrow> listing st' w (f w L)"
    and "\<And>w L. map ob_id (f w L) = apply_queue w q (map ob_id L)"
  shows "step_ok st q st'"
  unfolding step_ok_def using assms by blast

lemma step_ok_refl: "store_inv st \<Longrightarrow> step_ok st Keep st"
  by (rule step_okI [where f = "\<lambda>_ L. L"]) auto

lemma step_ok_put:
  assumes "store_inv st" and "map_of st k = Some e" and "same_place e' e" and "ob_id e' = k"
  shows "step_ok st Keep (alist_put k e' st)"
proof (rule step_okI [where f = "\<lambda>_ L. map (\<lambda>x. if ob_id x = k then e' else x) L"])
  show "store_inv (alist_put k e' st)" using assms by (rule store_inv_put)
  show "map ob_id (map (\<lambda>x. if ob_id x = k then e' else x) L) = apply_queue w Keep (map ob_id L)" for w L
    using assms(4) by simp
qed (rule listing_put [OF assms])

lemma step_ok_move:
  assumes "store_inv st" and "map_of st k = Some e" and "same_place e' e"
    and "ob_id e' = k \<or> map_of st (ob_id e') = None"
  shows "step_ok st (Rename k (ob_id e')) (alist_put (ob_id e') e' (alist_del k st))"
proof (rule step_okI [where f = "\<lambda>_ L. map (\<lambda>x. if ob_id x = k then e' else x) L"])
  show "store_inv (alist_put (ob_id e') e' (alist_del k st))" using assms by (rule store_inv_move)
qed (auto intro: listing_move [OF assms])

lemma step_ok_del:
  assumes "store_inv st"
  shows "step_ok st (Drop k) (alist_del k st)"
  by (rule step_okI [where f = "\<lambda>_ L. filter (\<lambda>x. ob_id x \<noteq> k) L"])
    (auto simp: store_inv_del [OF assms] filter_map o_def intro: listing_del)

lemma step_ok_enqueue:
  assumes "store_inv st" and "map_of st (ob_id e) = None" and "causalSequence e = None"
  shows "step_ok st (Push (ob_workspaceId e) (ob_id e)) (or_else (store_enqueue st e) st)"
proof -
  obtain n where n: "store_enqueue st e = Some (st @ [(ob_id e, e\<lparr>causalSequence := Some n\<rparr>)])" "1 \<le> n"
    and below: "\<And>k x. (k, x) \<in> set st \<Longrightarrow> ob_workspaceId x = ob_workspaceId e \<Longrightarrow> sequence_key x < n"
    using enqueue_last [OF assms] by blast
  have "step_ok st (Push (ob_workspaceId e) (ob_id e)) (st @ [(ob_id e, e\<lparr>causalSequence := Some n\<rparr>)])"
  proof (rule step_okI [where f = "\<lambda>w L. if ob_workspaceId e = w then L @ [e\<lparr>causalSequence := Some n\<rparr>] else L"])
    show "store_inv (st @ [(ob_id e, e\<lparr>causalSequence := Some n\<rparr>)])"
      using assms(1) n(2) assms(2) below by (rule store_inv_snoc)
    fix w L assume "listing st w L"
    then show "listing (st @ [(ob_id e, e\<lparr>causalSequence := Some n\<rparr>)]) w
        (if ob_workspaceId e = w then L @ [e\<lparr>causalSequence := Some n\<rparr>] else L)"
      using n(2) assms(2) below by (rule listing_snoc)
  qed simp
  then show ?thesis by (simp add: n(1))
qed

lemma claim_result:
  "snd (store_claim st i client now d) = st \<or>
   (\<exists>e e'. map_of st i = Some e \<and> claimWorkspaceOutboxEntry e client now d = Some e' \<and>
      snd (store_claim st i client now d) = alist_put (ob_id e') e' st)"
  by (auto simp: store_claim_def Let_def split: option.split)

lemma transition_id:
  assumes "store_inv st" and "map_of st k = Some e" and "apply_transition e t = Some e'"
  shows "ob_id e' = k"
proof -
  have "same_identity e' e" using apply_transition_identity [OF assms(3)] by blast
  from same_identity_fields(1) [OF this] store_inv_id [OF assms(1,2)] show ?thesis by simp
qed

lemma step_ok_transition:
  assumes "store_inv st" and "map_of st k = Some e" and "apply_transition e t = Some e'"
  shows "step_ok st Keep (alist_put (ob_id e') e' st)"
proof -
  have same: "same_identity e' e" using apply_transition_identity [OF assms(3)] by blast
  have "ob_id e' = k" using assms by (rule transition_id)
  then show ?thesis using step_ok_put [OF assms(1,2) same_identity_fields(2) [OF same]] by simp
qed

lemma step_ok_claim:
  assumes "store_inv st"
  shows "step_ok st Keep (snd (store_claim st i client now d))"
  using claim_result [of st i client now d] step_ok_refl [OF assms]
    step_ok_transition [OF assms, of i _ "Claiming client now d"]
  by (metis apply_transition.simps(1))

lemma step_ok_update:
  assumes "store_inv st" and "map_of st k = Some e" and "apply_transition e t = Some e'"
  shows "step_ok st Keep (snd (store_update st e' client))"
  using step_ok_transition [OF assms] step_ok_refl [OF assms(1)]
  by (simp add: store_update_def split: option.split)

theorem outbox_step_ok:
  assumes inv: "store_inv st"
  shows "step_ok st (outbox_outcome st ev) (outbox_step st ev)"
proof (cases ev)
  case (EnqueueEvent e)
  show ?thesis
  proof (cases "map_of st (ob_id e)")
    case None
    then show ?thesis
      using EnqueueEvent step_ok_enqueue [OF inv, of "e\<lparr>causalSequence := None\<rparr>"]
      by (simp add: outbox_step_def outbox_outcome_def)
  next
    case (Some x)
    then show ?thesis
      using EnqueueEvent step_ok_refl [OF inv]
      by (simp add: outbox_step_def outbox_outcome_def store_enqueue_def)
  qed
next
  case (SettleEvent i client now how)
  then show ?thesis
    using step_ok_refl [OF inv] step_ok_update [OF inv, of i _ "Settling client now how" _ "Some client"]
    by (simp add: outbox_step_def outbox_outcome_def split: option.split)
next
  case (RequeueEvent i now)
  then show ?thesis
    using step_ok_refl [OF inv] step_ok_update [OF inv, of i _ "Requeueing now" _ None]
    by (simp add: outbox_step_def outbox_outcome_def split: option.split)
next
  case (RemoveEvent i client)
  then show ?thesis
    using step_ok_refl [OF inv] step_ok_del [OF inv]
    by (simp add: outbox_step_def outbox_outcome_def store_remove_def split: option.split)
next
  case (ReplaceEvent i r client)
  show ?thesis
  proof (cases "map_of st i")
    case None
    then show ?thesis
      using ReplaceEvent step_ok_refl [OF inv] by (simp add: outbox_step_def outbox_outcome_def)
  next
    case (Some e)
    let ?r = "inheritWorkspaceOutboxCausalOrder e r"
    have id: "ob_id ?r = ob_id r" "ob_workspaceId ?r = ob_workspaceId r"
      by (simp_all add: inheritWorkspaceOutboxCausalOrder_def Let_def split: option.split)
    have "causalSequence e \<noteq> None" using inv Some map_of_inv [OF inv] unfolding store_inv_def by blast
    then have "causalSequence ?r = causalSequence e"
      by (auto simp: inheritWorkspaceOutboxCausalOrder_def Let_def)
    then have place: "ob_workspaceId r = ob_workspaceId e \<Longrightarrow> same_place ?r e"
      by (simp add: same_place_def id)
    show ?thesis
      using ReplaceEvent Some step_ok_refl [OF inv] step_ok_move [OF inv Some place] id
      by (auto simp: outbox_step_def outbox_outcome_def store_replace_def Let_def)
  qed
qed (use step_ok_refl [OF inv] step_ok_claim [OF inv] in
  \<open>simp_all add: outbox_step_def outbox_outcome_def store_claimNext_def split: option.split\<close>)

interpretation outbox: machine outbox_step store_inv
  by unfold_locales (rule outbox_step_ok [unfolded step_ok_def, THEN conjunct1])

theorem outbox_refines_queue:
  assumes "store_inv st" and "w \<noteq> []"
  shows "map ob_id (store_list (outbox_step st ev) (Some w)) =
    apply_queue w (outbox_outcome st ev) (map ob_id (store_list st (Some w)))"
  using outbox_step_ok [OF assms(1), of ev] store_list_listing [OF assms]
    listing_iff [OF _ assms(2)] unfolding step_ok_def by metis

text \<open>What a claim hands out is the first entry of the queue of its workspace.\<close>

theorem claim_is_first:
  assumes "store_inv st" and "fst (store_claim st i client now d) = Some e'" and "ob_workspaceId e' \<noteq> []"
  shows "\<exists>rest. map ob_id (store_list st (Some (ob_workspaceId e'))) = ob_id e' # rest"
proof -
  obtain e where e: "map_of st i = Some e"
    and head: "map_option ob_id (selectWorkspaceOutboxClaimCandidate (store_values st) (ob_workspaceId e) now) =
      Some (ob_id e)"
    and claim: "claimWorkspaceOutboxEntry e client now d = Some e'"
    using assms(2) by (auto simp: store_claim_def Let_def split: option.splits if_splits)
  have same: "same_identity e' e"
    using apply_transition_identity [of e "Claiming client now d" e'] claim by simp
  then have "ob_workspaceId e' = ob_workspaceId e" "ob_id e' = ob_id e"
    using same_identity_fields [OF same] by (simp_all add: same_place_def)
  then show ?thesis
    using head assms(3) by (auto simp: candidate_first [OF assms(1)] split: list.splits if_splits)
qed

section \<open>The lease excludes the other clients\<close>

text \<open>
  The events another client may issue while the lease of \<open>client\<close> has not expired: it claims (the
  lease is not yet expired then), settles, removes or replaces under its own name.
\<close>

fun foreign_event :: "string \<Rightarrow> rat \<Rightarrow> ('s, 'x) outbox_event \<Rightarrow> bool" where
  "foreign_event client expires (EnqueueEvent _) = True"
| "foreign_event client expires (ClaimEvent _ _ now _) = (now < expires)"
| "foreign_event client expires (ClaimNextEvent _ _ now _) = (now < expires)"
| "foreign_event client expires (SettleEvent _ other _ _) = (other \<noteq> client)"
| "foreign_event client expires (RequeueEvent _ _) = True"
| "foreign_event client expires (RemoveEvent _ other) = (\<exists>v. other = Some v \<and> v \<noteq> client)"
| "foreign_event client expires (ReplaceEvent _ _ other) = (\<exists>v. other = Some v \<and> v \<noteq> client)"

lemma claim_keeps_leased:
  assumes "store_inv st" and "map_of st k = Some e" and "ob_state e = Sending client expires"
    and "now < expires"
  shows "map_of (snd (store_claim st i other now d)) k = Some e"
  using claim_result [of st i other now d]
proof
  assume "\<exists>x x'. map_of st i = Some x \<and> claimWorkspaceOutboxEntry x other now d = Some x' \<and>
      snd (store_claim st i other now d) = alist_put (ob_id x') x' st"
  then obtain x x' where x: "map_of st i = Some x" "claimWorkspaceOutboxEntry x other now d = Some x'"
    "snd (store_claim st i other now d) = alist_put (ob_id x') x' st" by blast
  then have "isWorkspaceOutboxEntryClaimable x now" "ob_id x' = ob_id x"
    by (auto simp: claimWorkspaceOutboxEntry_def Let_def split: if_splits)
  then have "x \<noteq> e" "ob_id x' = i"
    using assms(3,4) store_inv_id [OF assms(1) x(1)] by (auto simp: isWorkspaceOutboxEntryClaimable_def)
  then show ?thesis using x assms(2) by auto
qed (use assms in simp)

lemma update_keeps:
  assumes "store_inv st" and "map_of st k = Some e" and "f e = None"
    and f: "\<And>x. apply_transition x t = f x"
  shows "map_of (case map_of st i of None \<Rightarrow> st | Some x \<Rightarrow>
      (case f x of None \<Rightarrow> st | Some x' \<Rightarrow> snd (store_update st x' c))) k = Some e"
proof (cases "i = k")
  case False
  have "map_of (snd (store_update st x' c)) k = Some e"
    if "map_of st i = Some x" "f x = Some x'" for x x'
    using transition_id [OF assms(1) that(1), of t] that(2) f False assms(2)
    by (simp add: store_update_def split: option.split)
  then show ?thesis using assms(2) by (simp split: option.split)
qed (use assms in simp)

lemma lease_step:
  assumes "store_inv st" and "map_of st k = Some e" and "ob_state e = Sending client expires"
    and "foreign_event client expires ev"
  shows "map_of (outbox_step st ev) k = Some e"
proof (cases ev)
  case (EnqueueEvent x)
  then show ?thesis
    using assms(2) by (auto simp: outbox_step_def store_enqueue_def Let_def or_else_def split: option.split)
next
  case (SettleEvent i other now how)
  have "settle e other now how = None"
    using assms(3,4) SettleEvent
    by (cases how) (simp_all add: transition_defs ownsSendingLease_def)
  then show ?thesis
    using update_keeps [OF assms(1,2), of "\<lambda>x. settle x other now how" "Settling other now how"]
      SettleEvent
    by (simp add: outbox_step_def)
next
  case (RequeueEvent i now)
  have "requeueFailedWorkspaceOutboxEntry e now = None"
    using assms(3) by (simp add: requeueFailedWorkspaceOutboxEntry_def)
  then show ?thesis
    using update_keeps [OF assms(1,2), of "\<lambda>x. requeueFailedWorkspaceOutboxEntry x now" "Requeueing now"]
      RequeueEvent
    by (simp add: outbox_step_def)
next
  case (RemoveEvent i other)
  then show ?thesis
    using assms(2-4)
    by (cases "i = k") (auto simp: outbox_step_def store_remove_def lease_matches_def split: option.split)
next
  case (ReplaceEvent i r other)
  have id: "ob_id (inheritWorkspaceOutboxCausalOrder x r) = ob_id r" for x
    by (simp add: inheritWorkspaceOutboxCausalOrder_def Let_def split: option.split)
  show ?thesis
    using ReplaceEvent assms(2-4) id
    by (cases "i = k"; cases "ob_id r = k")
      (auto simp: outbox_step_def store_replace_def lease_matches_def Let_def split: option.split)
qed (use assms claim_keeps_leased in
  \<open>auto simp: outbox_step_def store_claimNext_def split: option.split\<close>)

theorem lease_excludes:
  assumes "store_inv st" and "map_of st k = Some e" and "ob_state e = Sending client expires"
    and "\<forall>ev \<in> set evs. foreign_event client expires ev"
  shows "map_of (foldl outbox_step st evs) k = Some e"
  using assms(1,2,4)
proof (induction evs arbitrary: st)
  case (Cons ev evs)
  show ?case
    using Cons.IH [OF outbox.step_inv [OF Cons.prems(1)] lease_step [OF Cons.prems(1,2) assms(3)]]
      Cons.prems(3) by simp
qed simp

section \<open>The retry delay\<close>

lemma js_round_bounds: "q - 1 / 2 < of_int (js_round q)" "of_int (js_round q) \<le> q + 1 / 2"
  unfolding js_round_def by linarith+

lemma js_round_ge: "of_int n \<le> q \<Longrightarrow> n \<le> js_round q"
  unfolding js_round_def by (simp add: le_floor_iff)

lemma clamp: "0 \<le> (m :: rat) \<Longrightarrow> 0 \<le> max 0 (min m x) \<and> max 0 (min m x) \<le> m"
  by simp

lemma clamp_round:
  "800 \<le> k \<Longrightarrow> 800 \<le> max 0 (min 60000 (rat_of_int k)) \<and> max 0 (min 60000 (rat_of_int k)) \<le> 60000"
  by simp

theorem retry_delay_bounds:
  "0 \<le> computeWorkspaceOutboxRetryDelay n entropy p \<and>
   computeWorkspaceOutboxRetryDelay n entropy p \<le> max (max 0 (initialDelayMs p)) (maximumDelayMs p)"
  unfolding computeWorkspaceOutboxRetryDelay_def Let_def by (rule clamp) (simp add: le_max_iff_disj)

lemma jitter_range:
  fixes x :: rat
  assumes "0 \<le> x" and "0 \<le> r" and "r \<le> 1" and "0 \<le> b" and "b \<le> 1"
  shows "x * (1 - r) \<le> x + x * r * (b * 2 - 1)"
proof -
  have "0 \<le> x * r * (b * 2)" using assms by simp
  then show ?thesis by (simp add: algebra_simps)
qed

lemma four_fifths: "1000 \<le> (x :: rat) \<Longrightarrow> of_int 800 \<le> x * (1 - 1 / 5)"
  by simp

theorem default_retry_delay:
  "800 \<le> computeWorkspaceOutboxRetryDelay n entropy DEFAULT_WORKSPACE_OUTBOX_RETRY_POLICY \<and>
   computeWorkspaceOutboxRetryDelay n entropy DEFAULT_WORKSPACE_OUTBOX_RETRY_POLICY \<le> 60000"
proof -
  let ?e = "min 60000 (1000 * 2 ^ nat (max 0 (max 1 \<lfloor>n\<rfloor> - 1))) :: rat"
  let ?b = "min 1 (max 0 entropy)"
  have "(1 :: rat) \<le> 2 ^ nat (max 0 (max 1 \<lfloor>n\<rfloor> - 1))" by (rule one_le_power) simp
  then have e: "1000 \<le> ?e" by linarith
  have "?e * (1 - 1 / 5) \<le> ?e + ?e * (1 / 5) * (?b * 2 - 1)"
    by (rule jitter_range) (use e in linarith, simp_all)
  moreover have "of_int 800 \<le> ?e * (1 - 1 / 5)" using e by (rule four_fifths)
  ultimately have "of_int 800 \<le> ?e + ?e * (1 / 5) * (?b * 2 - 1)" by (rule order_trans [rotated])
  then have ge: "800 \<le> js_round (?e + ?e * (1 / 5) * (?b * 2 - 1))" by (rule js_round_ge)
  have constants: "max 0 (1000 :: rat) = 1000" "max (1000 :: rat) 60000 = 60000" "max 1 (2 :: rat) = 2"
    "min 1 (max 0 (1 / 5 :: rat)) = 1 / 5"
    by simp_all
  have "computeWorkspaceOutboxRetryDelay n entropy DEFAULT_WORKSPACE_OUTBOX_RETRY_POLICY =
      max 0 (min 60000 (of_int (js_round (?e + ?e * (1 / 5) * (?b * 2 - 1)))))"
    by (simp only: computeWorkspaceOutboxRetryDelay_def DEFAULT_WORKSPACE_OUTBOX_RETRY_POLICY_def Let_def
        retry_policy.select_convs constants)
  then show ?thesis using clamp_round [OF ge] by (simp only:)
qed

section \<open>Runs of several clients\<close>

text \<open>
  The outcomes of a run, step by step, and the abstract queue they build: the store is empty at
  first, and the events of the clients come in any order.
\<close>

fun outbox_outcomes ::
  "('s, 'x) outbox_store \<Rightarrow> ('s, 'x) outbox_event list \<Rightarrow> queue_op list" where
  "outbox_outcomes st [] = []"
| "outbox_outcomes st (ev # evs) = outbox_outcome st ev # outbox_outcomes (outbox_step st ev) evs"

lemma outbox_run_refines:
  assumes "store_inv st" and "w \<noteq> []"
  shows "map ob_id (store_list (foldl outbox_step st evs) (Some w)) =
    foldl (\<lambda>ids q. apply_queue w q ids) (map ob_id (store_list st (Some w))) (outbox_outcomes st evs)"
  using assms(1)
proof (induction evs arbitrary: st)
  case (Cons ev evs)
  show ?case
    using Cons.IH [OF outbox.step_inv [OF Cons.prems]] outbox_refines_queue [OF Cons.prems assms(2)]
    by simp
qed simp

text \<open>The comparison of entries of different workspaces is not transitive.\<close>

definition bare_record :: "string \<Rightarrow> string \<Rightarrow> int \<Rightarrow> rat \<Rightarrow> unit outbox_record" where
  "bare_record i w n t = \<lparr>formatVersion = 2, ob_id = i, ob_workspaceId = w, causalOrderId = i,
     causalSequence = Some n, ob_request = JNull, createdAt = t, updatedAt = t, attemptCount = 0,
     ob_state = Queued\<rparr>"

lemma compare_cycle:
  "compareEntries (bare_record ''a1'' ''A'' 1 10) (bare_record ''a2'' ''A'' 2 0) < 0"
  "compareEntries (bare_record ''a2'' ''A'' 2 0) (bare_record ''b'' ''B'' 1 5) < 0"
  "compareEntries (bare_record ''b'' ''B'' 1 5) (bare_record ''a1'' ''A'' 1 10) < 0"
  by (simp_all add: compareEntries_def bare_record_def rat_sign_def)

lemma reachable_store_inv: "store_inv (foldl outbox_step [] evs)"
  by (rule outbox.run_inv) simp

end
