(* ===== verification/SyncProperties.thy ===== *)
theory SyncProperties
  imports OutboxLaws "HOL-Library.Code_Target_Numeral"
begin

text \<open>
  The properties of the synchronisation: the outbox as a queue per workspace that several clients
  share under leases. The lemmas they rest on are those of \<open>OutboxLaws\<close>.
\<close>

section \<open>The outbox\<close>

text \<open>C15. Whatever the clients do, in any order, the ids that the store lists for a workspace are those of
  an abstract first-in first-out queue: a new entry goes to its end, a removal takes an entry out, a
  replacement renames an entry in place, and claims, settlements and refused steps change nothing.\<close>

theorem outbox_is_fifo:
  assumes "w \<noteq> []"
  shows "map ob_id (store_list (foldl outbox_step [] evs) (Some w)) =
    foldl (\<lambda>ids q. apply_queue w q ids) [] (outbox_outcomes [] evs)"
  using outbox_run_refines [OF store_inv_Nil assms] by (simp add: store_list_def store_values_def)

definition sample_events :: "(unit, unit) outbox_event list" where
  "sample_events = [EnqueueEvent (bare_record ''p'' ''A'' 0 9), EnqueueEvent (bare_record ''q'' ''A'' 0 1),
     EnqueueEvent (bare_record ''r'' ''B'' 0 2), ClaimNextEvent ''A'' ''tab1'' 10 (Finite 100),
     ReplaceEvent ''p'' (bare_record ''p2'' ''A'' 0 20) (Some ''tab1'')]"

theorem outbox_is_fifo_witness:
  "map ob_id (store_list (foldl outbox_step [] sample_events) (Some ''A'')) = [''p2'', ''q'']"
proof -
  have "foldl (\<lambda>ids q. apply_queue ''A'' q ids) [] (outbox_outcomes [] sample_events) = [''p2'', ''q'']"
    by code_simp
  then show ?thesis using outbox_is_fifo [of "''A''" sample_events] by simp
qed

text \<open>Every run of the clients keeps the store consistent: the keys are the ids of the entries, every
  entry has a positive sequence number and no two entries of a workspace share one.\<close>

theorem outbox_reachable_inv: "store_inv (foldl outbox_step [] evs)"
  by (rule outbox.run_inv) simp

text \<open>A claim hands out the head of the queue of its workspace only: after any run, the entry a client
  obtains is the first of the listing, in causal order.\<close>

theorem claim_takes_head:
  assumes "fst (store_claim (foldl outbox_step [] evs) i client now d) = Some e"
    and "ob_workspaceId e \<noteq> []"
  shows "\<exists>rest. map ob_id (store_list (foldl outbox_step [] evs) (Some (ob_workspaceId e))) = ob_id e # rest"
  by (rule claim_is_first [OF reachable_store_inv assms])

theorem claim_takes_head_witness:
  "\<exists>rest. map ob_id (store_list (foldl outbox_step [] (take 3 sample_events)) (Some ''A'')) = ''p'' # rest"
proof -
  let ?c = "fst (store_claim (foldl outbox_step [] (take 3 sample_events)) ''p'' ''tab1'' 10 (Finite 100))"
  have "map_option ob_id ?c = Some ''p''" "map_option ob_workspaceId ?c = Some ''A''" by code_simp+
  then obtain e where e: "?c = Some e" "ob_id e = ''p''" "ob_workspaceId e = ''A''" by auto
  with claim_takes_head [OF e(1)] show ?thesis by simp
qed



text \<open>No sequence of transitions changes what an entry stands for: its id, workspace, request, operation,
  base snapshot and place in the queue stay, and the attempts count the claims.\<close>

theorem transitions_keep_identity:
  assumes "run_transitions e ts = Some e'"
  shows "same_identity e' e \<and> attemptCount e' = attemptCount e + length (filter is_claiming ts)"
  using assms by (rule run_transitions_identity)

theorem transitions_keep_identity_witness:
  "\<exists>e'. run_transitions (bare_record ''p'' ''A'' 1 9)
      [Claiming ''tab1'' 10 (Finite 100), Settling ''tab1'' 20 Release, Claiming ''tab2'' 30 NotFinite] = Some e' \<and>
     same_identity e' (bare_record ''p'' ''A'' 1 9) \<and> attemptCount e' = 2"
proof -
  let ?e = "bare_record ''p'' ''A'' 1 9"
  let ?ts = "[Claiming ''tab1'' 10 (Finite 100), Settling ''tab1'' 20 Release, Claiming ''tab2'' 30 NotFinite]
    :: unit transition list"
  have "run_transitions ?e ?ts \<noteq> None" by code_simp
  then obtain e' where e': "run_transitions ?e ?ts = Some e'" by auto
  have "attemptCount ?e = 0" by (simp add: bare_record_def)
  with transitions_keep_identity [OF e'] e' show ?thesis by simp
qed


text \<open>C31. Listing all workspaces at once sorts with a comparison that is not transitive there: three queued
  entries of two workspaces each come before the next one in a cycle, so no order respects it.\<close>

theorem mixed_order_cycles:
  "\<exists>x y z :: unit outbox_record. compareEntries x y < 0 \<and> compareEntries y z < 0 \<and> compareEntries z x < 0"
  using compare_cycle by blast

end
