(* ===== verification/TextMerge.thy ===== *)
theory TextMerge
  imports Prelude
begin

text \<open>
  The line diff and the three-way text merge of \<open>packages/workspace-sync/src/workspaceTextDiff.ts\<close>:
  the split into lines, the table of longest common subsequences in a flat array, the edit script
  read off it, the hunks, and the merge of the hunks of two sides. Line numbers start at one, so
  the subtraction in \<open>hunkStart\<close> never truncates. The typed array holds lengths of at most the
  number of lines, far below the width of its cells.
\<close>

section \<open>Lines\<close>

text \<open>
  \<open>source.match(/[^\r\n]*(?:\r\n|\r|\n)|[^\r\n]+$/g) ?? []\<close>: lines with their terminators, and a
  last line without one.
\<close>

definition cr :: char where "cr = CHR 0x0D"
definition lf :: char where "lf = CHR 0x0A"

fun splitLines :: "string \<Rightarrow> string list" where
  "splitLines [] = []"
| "splitLines (c # cs) =
     (if c = cr then
        (case cs of
           d # ds \<Rightarrow> if d = lf then [cr, lf] # splitLines ds else [cr] # splitLines cs
         | [] \<Rightarrow> [[cr]])
      else if c = lf then [lf] # splitLines cs
      else (case splitLines cs of [] \<Rightarrow> [[c]] | l # ls \<Rightarrow> (c # l) # ls))"

section \<open>Hunks and edits\<close>

record text_hunk =
  baseStartLine :: nat
  baseLineCount :: nat
  baseText :: string
  replacementText :: string

datatype text_edit = EqualLine string | DeleteLine string | InsertLine string

definition MAX_LCS_CELLS :: nat where
  "MAX_LCS_CELLS = 1000000"

definition createSingleHunk :: "string list \<Rightarrow> string list \<Rightarrow> nat \<Rightarrow> text_hunk" where
  "createSingleHunk baseLines nextLines baseOffset =
     \<lparr>baseStartLine = baseOffset + 1, baseLineCount = length baseLines,
      baseText = concat baseLines, replacementText = concat nextLines\<rparr>"

section \<open>The table of longest common subsequences\<close>

text \<open>
  The table is one array of rows of \<open>width\<close> cells, all zero at first; both loops run downwards. The
  two recursions below run over the number of the rows and cells still to do.
\<close>

definition lcs_cell :: "string list \<Rightarrow> string list \<Rightarrow> nat \<Rightarrow> nat \<Rightarrow> nat list \<Rightarrow> nat list" where
  "lcs_cell baseLines nextLines baseIndex nextIndex lengths =
     (let width = length nextLines + 1;
          index = baseIndex * width + nextIndex
      in lengths[index :=
           if baseLines ! baseIndex = nextLines ! nextIndex
           then 1 + lengths ! ((baseIndex + 1) * width + nextIndex + 1)
           else max (lengths ! ((baseIndex + 1) * width + nextIndex))
                    (lengths ! (baseIndex * width + nextIndex + 1))])"

fun lcs_row :: "string list \<Rightarrow> string list \<Rightarrow> nat \<Rightarrow> nat \<Rightarrow> nat list \<Rightarrow> nat list" where
  "lcs_row baseLines nextLines baseIndex 0 lengths = lengths"
| "lcs_row baseLines nextLines baseIndex (Suc nextIndex) lengths =
     lcs_row baseLines nextLines baseIndex nextIndex
       (lcs_cell baseLines nextLines baseIndex nextIndex lengths)"

fun lcs_rows :: "string list \<Rightarrow> string list \<Rightarrow> nat \<Rightarrow> nat list \<Rightarrow> nat list" where
  "lcs_rows baseLines nextLines 0 lengths = lengths"
| "lcs_rows baseLines nextLines (Suc baseIndex) lengths =
     lcs_rows baseLines nextLines baseIndex
       (lcs_row baseLines nextLines baseIndex (length nextLines) lengths)"

text \<open>The walk from the top left corner; deletions are preferred where both scores agree.\<close>

function lcs_walk :: "string list \<Rightarrow> string list \<Rightarrow> nat list \<Rightarrow> nat \<Rightarrow> nat \<Rightarrow> text_edit list" where
  "lcs_walk baseLines nextLines lengths baseIndex nextIndex =
     (let width = length nextLines + 1 in
      if baseIndex < length baseLines \<and> nextIndex < length nextLines then
        let baseLine = baseLines ! baseIndex;
            nextLine = nextLines ! nextIndex;
            deleteScore = lengths ! ((baseIndex + 1) * width + nextIndex);
            insertScore = lengths ! (baseIndex * width + nextIndex + 1)
        in if baseLine = nextLine
           then EqualLine baseLine # lcs_walk baseLines nextLines lengths (baseIndex + 1) (nextIndex + 1)
           else if deleteScore \<ge> insertScore
           then DeleteLine baseLine # lcs_walk baseLines nextLines lengths (baseIndex + 1) nextIndex
           else InsertLine nextLine # lcs_walk baseLines nextLines lengths baseIndex (nextIndex + 1)
      else map DeleteLine (drop baseIndex baseLines) @ map InsertLine (drop nextIndex nextLines))"
  by pat_completeness auto
termination
  by (relation "measure (\<lambda>(b, n, _, i, j). (length b - i) + (length n - j))") auto

declare lcs_walk.simps [simp del]

definition buildLcsEdits :: "string list \<Rightarrow> string list \<Rightarrow> text_edit list option" where
  "buildLcsEdits baseLines nextLines =
     (let width = length nextLines + 1;
          cellCount = (length baseLines + 1) * width
      in if cellCount > MAX_LCS_CELLS then None
         else Some (lcs_walk baseLines nextLines
           (lcs_rows baseLines nextLines (length baseLines) (replicate cellCount 0)) 0 0))"

section \<open>From edits to hunks\<close>

text \<open>\<open>flush\<close>; \<open>start\<close> is \<open>None\<close> where the code has a negative number.\<close>

definition flush_hunk :: "nat option \<Rightarrow> nat \<Rightarrow> string \<Rightarrow> string \<Rightarrow> text_hunk list" where
  "flush_hunk start baseIndex base_text replacement =
     (case start of
        None \<Rightarrow> []
      | Some s \<Rightarrow> [\<lparr>baseStartLine = s + 1, baseLineCount = baseIndex - s, baseText = base_text,
          replacementText = replacement\<rparr>])"

fun edits_loop :: "text_edit list \<Rightarrow> nat \<Rightarrow> nat option \<Rightarrow> string \<Rightarrow> string \<Rightarrow> text_hunk list" where
  "edits_loop [] baseIndex start base_text replacement =
     flush_hunk start baseIndex base_text replacement"
| "edits_loop (EqualLine v # edits) baseIndex start base_text replacement =
     flush_hunk start baseIndex base_text replacement @ edits_loop edits (baseIndex + 1) None [] []"
| "edits_loop (DeleteLine v # edits) baseIndex start base_text replacement =
     edits_loop edits (baseIndex + 1) (Some (or_else start baseIndex)) (base_text @ v) replacement"
| "edits_loop (InsertLine v # edits) baseIndex start base_text replacement =
     edits_loop edits baseIndex (Some (or_else start baseIndex)) base_text (replacement @ v)"

definition editsToHunks :: "text_edit list \<Rightarrow> nat \<Rightarrow> text_hunk list" where
  "editsToHunks edits baseOffset = edits_loop edits baseOffset None [] []"

section \<open>The diff\<close>

fun common_prefix :: "string list \<Rightarrow> string list \<Rightarrow> nat" where
  "common_prefix (b # bs) (n # ns) = (if b = n then Suc (common_prefix bs ns) else 0)"
| "common_prefix _ _ = 0"

text \<open>The second loop runs from the ends while both positions are above the prefix.\<close>

fun suffix_loop :: "string list \<Rightarrow> string list \<Rightarrow> nat \<Rightarrow> nat \<Rightarrow> nat \<Rightarrow> nat \<times> nat" where
  "suffix_loop baseLines nextLines prefix_count (Suc b) (Suc n) =
     (if prefix_count < Suc b \<and> prefix_count < Suc n \<and> baseLines ! b = nextLines ! n
      then suffix_loop baseLines nextLines prefix_count b n
      else (Suc b, Suc n))"
| "suffix_loop baseLines nextLines prefix_count b n = (b, n)"

definition diffWorkspaceText :: "string \<Rightarrow> string \<Rightarrow> text_hunk list" where
  "diffWorkspaceText base next_text =
     (if base = next_text then []
      else
        let baseLines = splitLines base;
            nextLines = splitLines next_text;
            prefix_count = common_prefix baseLines nextLines;
            (baseSuffix, nextSuffix) =
              suffix_loop baseLines nextLines prefix_count (length baseLines) (length nextLines);
            baseMiddle = drop prefix_count (take baseSuffix baseLines);
            nextMiddle = drop prefix_count (take nextSuffix nextLines)
        in case buildLcsEdits baseMiddle nextMiddle of
             Some edits \<Rightarrow> editsToHunks edits prefix_count
           | None \<Rightarrow> [createSingleHunk baseMiddle nextMiddle prefix_count])"

section \<open>The merge\<close>

definition hunkStart :: "text_hunk \<Rightarrow> nat" where
  "hunkStart hunk = baseStartLine hunk - 1"

definition hunkEnd :: "text_hunk \<Rightarrow> nat" where
  "hunkEnd hunk = hunkStart hunk + baseLineCount hunk"

definition hunksEqual :: "text_hunk \<Rightarrow> text_hunk \<Rightarrow> bool" where
  "hunksEqual left right \<longleftrightarrow>
     baseStartLine left = baseStartLine right \<and> baseLineCount left = baseLineCount right \<and>
     baseText left = baseText right \<and> replacementText left = replacementText right"

definition textHunksOverlap :: "text_hunk \<Rightarrow> text_hunk \<Rightarrow> bool" where
  "textHunksOverlap left right =
     (let leftStart = hunkStart left; leftEnd = hunkEnd left;
          rightStart = hunkStart right; rightEnd = hunkEnd right
      in if leftStart = leftEnd \<and> rightStart = rightEnd then leftStart = rightStart
         else if leftStart = leftEnd then leftStart > rightStart \<and> leftStart < rightEnd
         else if rightStart = rightEnd then rightStart > leftStart \<and> rightStart < leftEnd
         else max leftStart rightStart < min leftEnd rightEnd)"

definition compare_hunks :: "text_hunk \<Rightarrow> text_hunk \<Rightarrow> int" where
  "compare_hunks left right =
     (let startDifference = int (hunkStart left) - int (hunkStart right)
      in if startDifference \<noteq> 0 then startDifference
         else int (baseLineCount left) - int (baseLineCount right))"

text \<open>\<open>lines.slice(i, j)\<close> for positions that are not negative.\<close>

definition slice_lines :: "nat \<Rightarrow> nat \<Rightarrow> 'a list \<Rightarrow> 'a list" where
  "slice_lines i j xs = drop i (take j xs)"

fun apply_hunks :: "string list \<Rightarrow> nat \<Rightarrow> text_hunk list \<Rightarrow> string list \<Rightarrow> string option" where
  "apply_hunks all_lines cursor [] output = Some (concat (output @ drop cursor all_lines))"
| "apply_hunks all_lines cursor (hunk # hunks) output =
     (if hunkStart hunk < cursor \<or> hunkStart hunk > length all_lines \<or> hunkEnd hunk > length all_lines
      then None
      else if concat (slice_lines (hunkStart hunk) (hunkEnd hunk) all_lines) \<noteq> baseText hunk then None
      else apply_hunks all_lines (hunkEnd hunk) hunks
        (output @ slice_lines cursor (hunkStart hunk) all_lines @ [replacementText hunk]))"

definition applyTextHunks :: "string \<Rightarrow> text_hunk list \<Rightarrow> string option" where
  "applyTextHunks base hunks = apply_hunks (splitLines base) 0 (sort_by compare_hunks hunks) []"

text \<open>A conflict is its id, made of the two positions, and the two hunks.\<close>

record text_conflict =
  text_conflict_id :: string
  localHunk :: text_hunk
  remoteHunk :: text_hunk

datatype text_merge =
    TextMerged (merged_text: string) (merged_local: "text_hunk list") (merged_remote: "text_hunk list")
  | TextConflicts "text_hunk list" "text_hunk list" "text_conflict list"

definition conflict_of :: "nat \<times> text_hunk \<Rightarrow> nat \<times> text_hunk \<Rightarrow> text_conflict" where
  "conflict_of l r = \<lparr>text_conflict_id = ''text:'' @ nat_text (fst l) @ '':'' @ nat_text (fst r),
     localHunk = snd l, remoteHunk = snd r\<rparr>"

definition text_conflicts :: "text_hunk list \<Rightarrow> text_hunk list \<Rightarrow> text_conflict list" where
  "text_conflicts localHunks remoteHunks =
     concat (map (\<lambda>l. map (conflict_of l)
       (filter (\<lambda>r. \<not> hunksEqual (snd l) (snd r) \<and> textHunksOverlap (snd l) (snd r))
         (List.enumerate 0 remoteHunks))) (List.enumerate 0 localHunks))"

definition mergeWorkspaceText :: "string \<Rightarrow> string \<Rightarrow> string \<Rightarrow> text_merge" where
  "mergeWorkspaceText base local_text remote_text =
     (let localHunks = diffWorkspaceText base local_text;
          remoteHunks = diffWorkspaceText base remote_text;
          conflicts = text_conflicts localHunks remoteHunks
      in if conflicts \<noteq> [] then TextConflicts localHunks remoteHunks conflicts
         else
           let mergedHunks = remoteHunks @
                 filter (\<lambda>l. \<not> list_ex (\<lambda>r. hunksEqual l r) remoteHunks) localHunks
           in case applyTextHunks base mergedHunks of
                None \<Rightarrow> TextConflicts localHunks remoteHunks
                  (concat (map (\<lambda>l. map (conflict_of l) (List.enumerate 0 remoteHunks))
                    (List.enumerate 0 localHunks)))
              | Some txt \<Rightarrow> TextMerged txt localHunks remoteHunks)"

end
