(* ===== verification/TextMergeLaws.thy ===== *)
theory TextMergeLaws
  imports TextMerge "HOL-Library.Product_Lexorder"
begin

text \<open>
  The laws of the text merge: the split loses no character, the edit script has a longest common
  subsequence as its kept lines, the hunks of a diff rebuild the other text, and hunks of two sides
  that do not overlap apply in one way only.
\<close>

section \<open>Lines\<close>

lemma cr_lf [simp]: "cr \<noteq> lf" "lf \<noteq> cr"
  by (simp_all add: cr_def lf_def)

declare splitLines.simps(2) [simp del]

lemma splitLines_simps [simp]:
  "splitLines [cr] = [[cr]]"
  "splitLines (cr # lf # cs) = [cr, lf] # splitLines cs"
  "d \<noteq> lf \<Longrightarrow> splitLines (cr # d # cs) = [cr] # splitLines (d # cs)"
  "splitLines (lf # cs) = [lf] # splitLines cs"
  by (simp_all add: splitLines.simps(2) [of cr] splitLines.simps(2) [of lf])

lemma splitLines_other:
  assumes "c \<noteq> cr" and "c \<noteq> lf"
  shows "splitLines (c # cs) = (case splitLines cs of [] \<Rightarrow> [[c]] | l # ls \<Rightarrow> (c # l) # ls)"
  using assms by (simp add: splitLines.simps(2) [of c])

lemma line_cases:
  obtains "s = []" | "s = [cr]" | cs where "s = cr # lf # cs" | d cs where "s = cr # d # cs" "d \<noteq> lf"
  | cs where "s = lf # cs" | c cs where "s = c # cs" "c \<noteq> cr" "c \<noteq> lf"
proof (cases s)
  case (Cons c cs)
  then show thesis
    using that by (cases "c = cr"; cases "c = lf"; cases cs) auto
qed (use that in simp)

lemma splitLines_induct [case_names Nil cr cr_lf cr_other lf other]:
  assumes "P []" and "P [cr]" and "\<And>cs. P cs \<Longrightarrow> P (cr # lf # cs)"
    and "\<And>d cs. d \<noteq> lf \<Longrightarrow> P (d # cs) \<Longrightarrow> P (cr # d # cs)" and "\<And>cs. P cs \<Longrightarrow> P (lf # cs)"
    and "\<And>c cs. c \<noteq> cr \<Longrightarrow> c \<noteq> lf \<Longrightarrow> P cs \<Longrightarrow> P (c # cs)"
  shows "P s"
proof (induction s rule: length_induct)
  case (1 s)
  show ?case
    by (cases s rule: line_cases) (use 1 assms in auto)
qed

lemma concat_splitLines [simp]: "concat (splitLines s) = s"
  by (induction s rule: splitLines_induct) (auto simp: splitLines_other split: list.split)

lemma splitLines_nonempty: "\<forall>l \<in> set (splitLines s). l \<noteq> []"
  by (induction s rule: splitLines_induct) (auto simp: splitLines_other split: list.split)

section \<open>Longest common subsequences\<close>

fun lcs_length :: "'a list \<Rightarrow> 'a list \<Rightarrow> nat" where
  "lcs_length (x # xs) (y # ys) =
     (if x = y then 1 + lcs_length xs ys else max (lcs_length xs (y # ys)) (lcs_length (x # xs) ys))"
| "lcs_length _ _ = 0"

lemma lcs_length_Nil [simp]: "lcs_length xs [] = 0"
  by (cases xs) auto

lemma lcs_length_upper: "subseq zs xs \<Longrightarrow> subseq zs ys \<Longrightarrow> length zs \<le> lcs_length xs ys"
proof (induction xs ys arbitrary: zs rule: lcs_length.induct)
  case (1 x xs y ys)
  show ?case
  proof (cases zs)
    case (Cons z zs')
    show ?thesis
    proof (cases "x = y")
      case True
      have "subseq zs' xs" "subseq zs' ys"
        using "1.prems" Cons subseq_Cons' [of z zs' xs] subseq_Cons' [of z zs' ys]
        by (auto split: if_splits)
      with "1.IH"(1) True Cons show ?thesis by simp
    next
      case False
      then consider "z \<noteq> x" | "z \<noteq> y" by blast
      then show ?thesis
      proof cases
        case 1
        then have "subseq zs xs" using "1.prems"(1) Cons by simp
        from "1.IH"(2) [OF False this "1.prems"(2)] False show ?thesis by simp
      next
        case 2
        then have "subseq zs ys" using "1.prems"(2) Cons by simp
        from "1.IH"(3) [OF False "1.prems"(1) this] False show ?thesis by simp
      qed
    qed
  qed simp
qed auto

text \<open>What the cell at a position holds, and the invariant of the two loops.\<close>

definition cell_ok :: "string list \<Rightarrow> string list \<Rightarrow> nat list \<Rightarrow> nat \<Rightarrow> nat \<Rightarrow> bool" where
  "cell_ok bs ns lengths i j \<longleftrightarrow>
     lengths ! (i * (length ns + 1) + j) = lcs_length (drop i bs) (drop j ns)"

definition table_ok :: "string list \<Rightarrow> string list \<Rightarrow> nat list \<Rightarrow> nat \<Rightarrow> nat \<Rightarrow> bool" where
  "table_ok bs ns lengths r c \<longleftrightarrow> length lengths = (length bs + 1) * (length ns + 1) \<and>
     (\<forall>i j. i \<le> length bs \<longrightarrow> j \<le> length ns \<longrightarrow>
        (r < i \<or> (i = r \<and> c \<le> j) \<or> j = length ns) \<longrightarrow> cell_ok bs ns lengths i j)"

lemma index_less: "i \<le> n \<Longrightarrow> j \<le> m \<Longrightarrow> i * (m + 1) + j < (n + 1) * (m + 1)" for m :: nat
proof -
  assume "i \<le> n" "j \<le> m"
  then have "i * (m + 1) + j < (i + 1) * (m + 1)" by simp
  also have "\<dots> \<le> (n + 1) * (m + 1)" using \<open>i \<le> n\<close> by (intro mult_le_mono1) simp
  finally show ?thesis .
qed

lemma index_inject:
  "j \<le> m \<Longrightarrow> j' \<le> m \<Longrightarrow> i * (m + 1) + j = i' * (m + 1) + j' \<longleftrightarrow> i = i' \<and> j = j'" for m :: nat
proof
  assume le: "j \<le> m" "j' \<le> m" and eq: "i * (m + 1) + j = i' * (m + 1) + j'"
  have "(i * (m + 1) + j) div (m + 1) = i" "(i' * (m + 1) + j') div (m + 1) = i'"
    using le by (simp_all add: div_mult_self3 [where b = "m + 1", simplified])
  with eq show "i = i' \<and> j = j'" by auto
qed simp

lemma table_okD:
  "table_ok bs ns L r c \<Longrightarrow> i \<le> length bs \<Longrightarrow> j \<le> length ns \<Longrightarrow> r < i \<or> (i = r \<and> c \<le> j) \<or> j = length ns \<Longrightarrow>
   L ! (i * (length ns + 1) + j) = lcs_length (drop i bs) (drop j ns)"
  unfolding table_ok_def cell_ok_def by blast

lemma table_length: "table_ok bs ns L r c \<Longrightarrow> length L = (length bs + 1) * (length ns + 1)"
  by (simp add: table_ok_def)

lemma lcs_cell_value:
  assumes ok: "table_ok bs ns L r (Suc c)" and r: "r < length bs" and c: "c < length ns"
  shows "lcs_cell bs ns r c L = L[r * (length ns + 1) + c := lcs_length (drop r bs) (drop c ns)]"
proof -
  have diagonal: "L ! ((r + 1) * (length ns + 1) + c + 1) = lcs_length (drop (Suc r) bs) (drop (Suc c) ns)"
    using table_okD [OF ok, of "Suc r" "Suc c"] r c by (simp add: add.assoc)
  have below: "L ! ((r + 1) * (length ns + 1) + c) = lcs_length (drop (Suc r) bs) (drop c ns)"
    using table_okD [OF ok, of "Suc r" c] r c by simp
  have right: "L ! (r * (length ns + 1) + c + 1) = lcs_length (drop r bs) (drop (Suc c) ns)"
    using table_okD [OF ok, of r "Suc c"] r c by (simp add: add.assoc)
  have "drop r bs = bs ! r # drop (Suc r) bs" "drop c ns = ns ! c # drop (Suc c) ns"
    using r c by (simp_all add: Cons_nth_drop_Suc)
  then have "lcs_length (drop r bs) (drop c ns) =
      (if bs ! r = ns ! c then 1 + lcs_length (drop (Suc r) bs) (drop (Suc c) ns)
       else max (lcs_length (drop (Suc r) bs) (drop c ns)) (lcs_length (drop r bs) (drop (Suc c) ns)))"
    by (metis lcs_length.simps(1))
  then show ?thesis unfolding lcs_cell_def Let_def diagonal below right by simp
qed

lemma table_ok_cell:
  assumes ok: "table_ok bs ns L r (Suc c)" and r: "r < length bs" and c: "c < length ns"
  shows "table_ok bs ns (lcs_cell bs ns r c L) r c"
  unfolding table_ok_def cell_ok_def
proof (intro conjI allI impI)
  show "length (lcs_cell bs ns r c L) = (length bs + 1) * (length ns + 1)"
    using table_length [OF ok] by (simp add: lcs_cell_def Let_def)
  fix i j assume ij: "i \<le> length bs" "j \<le> length ns" "r < i \<or> (i = r \<and> c \<le> j) \<or> j = length ns"
  show "lcs_cell bs ns r c L ! (i * (length ns + 1) + j) = lcs_length (drop i bs) (drop j ns)"
  proof (cases "i = r \<and> j = c")
    case True
    have "r * (length ns + 1) + c < length L"
      using index_less [of r "length bs" c "length ns"] r c table_length [OF ok] by simp
    with True show ?thesis unfolding lcs_cell_value [OF ok r c] by simp
  next
    case False
    then have "r * (length ns + 1) + c \<noteq> i * (length ns + 1) + j"
      using index_inject [of c "length ns" j r i] ij c by auto
    moreover have "r < i \<or> (i = r \<and> Suc c \<le> j) \<or> j = length ns" using ij(3) False by auto
    ultimately show ?thesis
      using table_okD [OF ok ij(1,2)] unfolding lcs_cell_value [OF ok r c] by simp
  qed
qed

lemma table_ok_row:
  "table_ok bs ns L r c \<Longrightarrow> r < length bs \<Longrightarrow> c \<le> length ns \<Longrightarrow> table_ok bs ns (lcs_row bs ns r c L) r 0"
proof (induction c arbitrary: L)
  case (Suc c)
  then show ?case using table_ok_cell [OF Suc.prems(1,2)] by simp
qed simp

lemma table_ok_next: "table_ok bs ns L (Suc r) 0 \<Longrightarrow> table_ok bs ns L r (length ns)"
proof -
  have "Suc r < i \<or> (i = Suc r \<and> 0 \<le> j) \<or> j = length ns"
    if "r < i \<or> (i = r \<and> length ns \<le> j) \<or> j = length ns" "j \<le> length ns" for i j
    using that by auto
  then show "table_ok bs ns L (Suc r) 0 \<Longrightarrow> table_ok bs ns L r (length ns)"
    unfolding table_ok_def by blast
qed

lemma table_ok_rows:
  "table_ok bs ns L r 0 \<Longrightarrow> r \<le> length bs \<Longrightarrow> table_ok bs ns (lcs_rows bs ns r L) 0 0"
proof (induction r arbitrary: L)
  case (Suc r)
  then show ?case using table_ok_row [OF table_ok_next [OF Suc.prems(1)]] by simp
qed simp

lemma table_ok_init: "table_ok bs ns (replicate ((length bs + 1) * (length ns + 1)) 0) (length bs) 0"
proof -
  have "(replicate ((length bs + 1) * (length ns + 1)) 0 :: nat list) ! (i * (length ns + 1) + j) = 0"
    if "i \<le> length bs" "j \<le> length ns" for i j
    using index_less [OF that] by (rule nth_replicate)
  then show ?thesis unfolding table_ok_def cell_ok_def by (auto simp only: length_replicate) auto
qed

theorem table_complete:
  assumes "i \<le> length bs" and "j \<le> length ns"
  shows "lcs_rows bs ns (length bs) (replicate ((length bs + 1) * (length ns + 1)) 0) !
    (i * (length ns + 1) + j) = lcs_length (drop i bs) (drop j ns)"
  by (rule table_okD [OF table_ok_rows [OF table_ok_init order_refl] assms]) auto

section \<open>The edit script\<close>

fun kept :: "text_edit list \<Rightarrow> string list" where
  "kept [] = []"
| "kept (EqualLine v # es) = v # kept es"
| "kept (_ # es) = kept es"

fun base_of :: "text_edit list \<Rightarrow> string list" where
  "base_of [] = []"
| "base_of (InsertLine v # es) = base_of es"
| "base_of (EqualLine v # es) = v # base_of es"
| "base_of (DeleteLine v # es) = v # base_of es"

fun next_of :: "text_edit list \<Rightarrow> string list" where
  "next_of [] = []"
| "next_of (DeleteLine v # es) = next_of es"
| "next_of (EqualLine v # es) = v # next_of es"
| "next_of (InsertLine v # es) = v # next_of es"

lemma script_append [simp]:
  "base_of (xs @ ys) = base_of xs @ base_of ys" "next_of (xs @ ys) = next_of xs @ next_of ys"
  "kept (xs @ ys) = kept xs @ kept ys"
  by (induction xs rule: base_of.induct) auto

lemma script_map [simp]:
  "base_of (map DeleteLine xs) = xs" "next_of (map DeleteLine xs) = []" "kept (map DeleteLine xs) = []"
  "base_of (map InsertLine xs) = []" "next_of (map InsertLine xs) = xs" "kept (map InsertLine xs) = []"
  by (induction xs) auto

lemma kept_subseq: "subseq (kept es) (base_of es)" "subseq (kept es) (next_of es)"
  by (induction es rule: kept.induct) auto

lemma lcs_walk_correct:
  assumes "\<And>i j. i \<le> length bs \<Longrightarrow> j \<le> length ns \<Longrightarrow>
      L ! (i * (length ns + 1) + j) = lcs_length (drop i bs) (drop j ns)"
    and "i \<le> length bs" and "j \<le> length ns"
  shows "base_of (lcs_walk bs ns L i j) = drop i bs \<and> next_of (lcs_walk bs ns L i j) = drop j ns \<and>
    length (kept (lcs_walk bs ns L i j)) = lcs_length (drop i bs) (drop j ns)"
  using assms(2,3)
proof (induction "(length bs - i) + (length ns - j)" arbitrary: i j rule: less_induct)
  case less
  show ?case
  proof (cases "i < length bs \<and> j < length ns")
    case True
    then have heads: "drop i bs = bs ! i # drop (Suc i) bs" "drop j ns = ns ! j # drop (Suc j) ns"
      by (simp_all add: Cons_nth_drop_Suc)
    have delete_score: "L ! ((i + 1) * (length ns + 1) + j) = lcs_length (drop (Suc i) bs) (drop j ns)"
      using assms(1) [of "Suc i" j] True by simp
    have insert_score: "L ! (i * (length ns + 1) + j + 1) = lcs_length (drop i bs) (drop (Suc j) ns)"
      using assms(1) [of i "Suc j"] True by (simp add: add.assoc)
    have lcs: "lcs_length (drop i bs) (drop j ns) =
        (if bs ! i = ns ! j then 1 + lcs_length (drop (Suc i) bs) (drop (Suc j) ns)
         else max (lcs_length (drop (Suc i) bs) (drop j ns)) (lcs_length (drop i bs) (drop (Suc j) ns)))"
      using heads by (metis lcs_length.simps(1))
    have walk: "lcs_walk bs ns L i j =
        (if bs ! i = ns ! j then EqualLine (bs ! i) # lcs_walk bs ns L (Suc i) (Suc j)
         else if lcs_length (drop i bs) (drop (Suc j) ns) \<le> lcs_length (drop (Suc i) bs) (drop j ns)
         then DeleteLine (bs ! i) # lcs_walk bs ns L (Suc i) j
         else InsertLine (ns ! j) # lcs_walk bs ns L i (Suc j))"
      using True by (subst lcs_walk.simps) (simp only: Let_def delete_score insert_score Suc_eq_plus1 if_True HOL.simp_thms)
    have smaller: "(length bs - Suc i) + (length ns - Suc j) < (length bs - i) + (length ns - j)"
      "(length bs - Suc i) + (length ns - j) < (length bs - i) + (length ns - j)"
      "(length bs - i) + (length ns - Suc j) < (length bs - i) + (length ns - j)"
      "Suc i \<le> length bs" "Suc j \<le> length ns" "i \<le> length bs" "j \<le> length ns"
      using True by auto
    show ?thesis
      unfolding walk lcs
      using less(1) [OF smaller(1) smaller(4,5)] less(1) [OF smaller(2) smaller(4,7)]
        less(1) [OF smaller(3) smaller(6,5)] heads
      by simp
  next
    case False
    then have "lcs_walk bs ns L i j = map DeleteLine (drop i bs) @ map InsertLine (drop j ns)"
      by (subst lcs_walk.simps) (auto simp: Let_def)
    with False less(2,3) show ?thesis by auto
  qed
qed

theorem buildLcsEdits_correct:
  assumes "buildLcsEdits bs ns = Some es"
  shows "base_of es = bs \<and> next_of es = ns \<and> length (kept es) = lcs_length bs ns"
proof -
  have es: "es = lcs_walk bs ns
      (lcs_rows bs ns (length bs) (replicate ((length bs + 1) * (length ns + 1)) 0)) 0 0"
    using assms unfolding buildLcsEdits_def Let_def by (simp only: option.inject split: if_splits) auto
  show ?thesis
    unfolding es using lcs_walk_correct [OF table_complete, of bs ns 0 0] by simp
qed

text \<open>No common subsequence of the two sides is longer than what the script keeps.\<close>

theorem edits_optimal:
  "buildLcsEdits bs ns = Some es \<Longrightarrow> subseq zs bs \<Longrightarrow> subseq zs ns \<Longrightarrow> length zs \<le> length (kept es)"
  using buildLcsEdits_correct lcs_length_upper by metis

section \<open>The hunks of a diff rebuild the other text\<close>

lemma slice_lines_snoc:
  "i \<le> j \<Longrightarrow> j < length ls \<Longrightarrow> slice_lines i (Suc j) ls = slice_lines i j ls @ [ls ! j]"
  by (simp add: slice_lines_def take_Suc_conv_app_nth)

lemma slice_lines_empty [simp]: "slice_lines i i ls = []"
  by (simp add: slice_lines_def)

lemma slice_lines_0 [simp]: "slice_lines 0 j ls = take j ls"
  by (simp add: slice_lines_def)

lemma slice_drop: "i \<le> j \<Longrightarrow> slice_lines i j ls @ drop j ls = drop i ls"
  unfolding slice_lines_def by (metis append_take_drop_id drop_append drop_drop drop_take le_add_diff_inverse2)

lemma apply_output:
  "apply_hunks ls c hs out = map_option (\<lambda>t. concat out @ t) (apply_hunks ls c hs [])"
proof (induction hs arbitrary: c out)
  case (Cons h hs)
  have "apply_hunks ls (hunkEnd h) hs (out @ x) =
      map_option (\<lambda>t. concat out @ t) (apply_hunks ls (hunkEnd h) hs x)" for x
    using Cons [of _ "out @ x"] Cons [of _ x] by (simp add: option.map_comp o_def)
  then show ?case by simp
qed simp

text \<open>What a hunk promises about the base, and the order of hunks that do not touch.\<close>

definition hunk_ok :: "string list \<Rightarrow> text_hunk \<Rightarrow> bool" where
  "hunk_ok ls h \<longleftrightarrow> 1 \<le> baseStartLine h \<and> hunkEnd h \<le> length ls \<and>
     concat (slice_lines (hunkStart h) (hunkEnd h) ls) = baseText h"

lemma hunk_le: "hunkStart h \<le> hunkEnd h"
  by (simp add: hunkEnd_def)

lemma apply_Cons:
  assumes "hunk_ok ls h" and "c \<le> hunkStart h"
  shows "apply_hunks ls c (h # hs) [] =
    map_option (\<lambda>t. concat (slice_lines c (hunkStart h) ls) @ replacementText h @ t)
      (apply_hunks ls (hunkEnd h) hs [])"
proof -
  have "hunkStart h \<le> length ls" using assms(1) hunk_le [of h] by (simp add: hunk_ok_def)
  then show ?thesis
    using assms apply_output [of ls "hunkEnd h" hs "slice_lines c (hunkStart h) ls @ [replacementText h]"]
    by (simp add: hunk_ok_def)
qed

lemma flush_hunk_ok:
  assumes "s \<le> bi" and "bi \<le> length ls" and "bt = concat (slice_lines s bi ls)"
  shows "\<exists>h. flush_hunk (Some s) bi bt rt = [h] \<and> hunk_ok ls h \<and> hunkStart h = s \<and> hunkEnd h = bi \<and>
    replacementText h = rt"
  using assms by (simp add: flush_hunk_def hunk_ok_def hunkStart_def hunkEnd_def)

lemma script_step:
  assumes "drop i ls = v # xs"
  shows "ls ! i = v" and "i < length ls" and "drop (Suc i) ls = xs"
proof -
  show "i < length ls" using assms by (metis drop_eq_Nil list.distinct(1) not_less)
  then show "ls ! i = v" "drop (Suc i) ls = xs" using assms Cons_nth_drop_Suc by fastforce+
qed

lemma edits_loop_apply:
  assumes "drop bi ls = base_of es @ rest" and "bi \<le> length ls"
  shows "c \<le> bi \<Longrightarrow> apply_hunks ls c (edits_loop es bi None [] []) [] =
      Some (concat (slice_lines c bi ls) @ concat (next_of es) @ concat rest)"
    and "c \<le> s \<Longrightarrow> s \<le> bi \<Longrightarrow> bt = concat (slice_lines s bi ls) \<Longrightarrow>
      apply_hunks ls c (edits_loop es bi (Some s) bt rt) [] =
      Some (concat (slice_lines c s ls) @ rt @ concat (next_of es) @ concat rest)"
  using assms
proof (induction es arbitrary: bi c s bt rt)
  case Nil
  {
    case 1
    then show ?case using slice_drop [of c bi ls] by (simp add: flush_hunk_def flip: concat_append)
  next
    case 2
    obtain h where "flush_hunk (Some s) bi bt rt = [h]" "hunk_ok ls h" "hunkStart h = s" "hunkEnd h = bi"
      "replacementText h = rt"
      using flush_hunk_ok [OF 2(2) 2(5) 2(3)] by blast
    with 2 show ?case by (simp add: apply_Cons del: apply_hunks.simps(2))
  }
next
  case (Cons e es)
  {
    case 1
    show ?case
    proof (cases e)
      case (EqualLine v)
      then have d: "drop bi ls = v # base_of es @ rest" using 1 by simp
      show ?thesis
        using EqualLine 1 script_step [OF d] Cons.IH(1) [of c "Suc bi"] by (simp add: flush_hunk_def slice_lines_snoc)
    next
      case (DeleteLine v)
      then have d: "drop bi ls = v # base_of es @ rest" using 1 by simp
      show ?thesis
        using DeleteLine 1 script_step [OF d] Cons.IH(2) [of c bi "Suc bi" v "[]"] by (simp add: slice_lines_snoc)
    next
      case (InsertLine v)
      then show ?thesis using 1 Cons.IH(2) [of c bi bi "[]" v] by simp
    qed
  next
    case 2
    show ?case
    proof (cases e)
      case (EqualLine v)
      then have d: "drop bi ls = v # base_of es @ rest" using 2 by simp
      obtain h where h: "flush_hunk (Some s) bi bt rt = [h]" "hunk_ok ls h" "hunkStart h = s"
        "hunkEnd h = bi" "replacementText h = rt"
        using flush_hunk_ok [OF 2(2) 2(5) 2(3)] by blast
      then show ?thesis
        using EqualLine 2 script_step [OF d] Cons.IH(1) [of bi "Suc bi"]
        by (simp add: apply_Cons slice_lines_snoc del: apply_hunks.simps(2))
    next
      case (DeleteLine v)
      then have d: "drop bi ls = v # base_of es @ rest" using 2 by simp
      show ?thesis
        using DeleteLine 2 script_step [OF d] Cons.IH(2) [of c s "Suc bi" "bt @ v" rt] by (simp add: slice_lines_snoc)
    next
      case (InsertLine v)
      then show ?thesis using 2 Cons.IH(2) [of c s bi bt "rt @ v"] by simp
    qed
  }
qed

text \<open>The hunks of a script are sound and separated by at least one kept line.\<close>

definition apart :: "text_hunk list \<Rightarrow> bool" where
  "apart hs \<longleftrightarrow> sorted_wrt (\<lambda>a b. hunkEnd a < hunkStart b) hs"

lemma edits_loop_hunks:
  assumes "drop bi ls = base_of es @ rest" and "bi \<le> length ls"
  shows "apart (edits_loop es bi None [] []) \<and>
      (\<forall>h \<in> set (edits_loop es bi None [] []). hunk_ok ls h \<and> bi \<le> hunkStart h)"
    and "s \<le> bi \<Longrightarrow> bt = concat (slice_lines s bi ls) \<Longrightarrow>
      apart (edits_loop es bi (Some s) bt rt) \<and>
      (\<forall>h \<in> set (edits_loop es bi (Some s) bt rt). hunk_ok ls h \<and> s \<le> hunkStart h)"
  using assms
proof (induction es arbitrary: bi s bt rt)
  case Nil
  {
    case 1
    then show ?case by (simp add: flush_hunk_def apart_def)
  next
    case 2
    then show ?case using flush_hunk_ok [OF 2(1,4,2), of rt] by (auto simp: apart_def)
  }
next
  case (Cons e es)
  {
    case 1
    show ?case
    proof (cases e)
      case (EqualLine v)
      then have d: "drop bi ls = v # base_of es @ rest" using 1 by simp
      show ?thesis
        using 1 script_step [OF d] Cons.IH(1) [of "Suc bi"] by (auto simp: EqualLine flush_hunk_def)
    next
      case (DeleteLine v)
      then have d: "drop bi ls = v # base_of es @ rest" using 1 by simp
      show ?thesis
        using DeleteLine 1 script_step [OF d] Cons.IH(2) [of bi "Suc bi" v "[]"] by (simp add: slice_lines_snoc)
    next
      case (InsertLine v)
      then show ?thesis using 1 Cons.IH(2) [of bi bi "[]" v] by simp
    qed
  next
    case 2
    show ?case
    proof (cases e)
      case (EqualLine v)
      then have d: "drop bi ls = v # base_of es @ rest" using 2 by simp
      obtain h where h: "flush_hunk (Some s) bi bt rt = [h]" "hunk_ok ls h" "hunkStart h = s" "hunkEnd h = bi"
        using flush_hunk_ok [OF 2(1,4,2), of rt] by blast
      show ?thesis
        using EqualLine h 2 script_step [OF d] Cons.IH(1) [of "Suc bi"] by (fastforce simp: apart_def)
    next
      case (DeleteLine v)
      then have d: "drop bi ls = v # base_of es @ rest" using 2 by simp
      show ?thesis
        using DeleteLine 2 script_step [OF d] Cons.IH(2) [of s "Suc bi" "bt @ v" rt] by (simp add: slice_lines_snoc)
    next
      case (InsertLine v)
      then show ?thesis using 2 Cons.IH(2) [of s bi bt "rt @ v"] by simp
    qed
  }
qed

section \<open>The common ends of two texts\<close>

lemma common_prefix_take:
  "take (common_prefix bs ns) bs = take (common_prefix bs ns) ns \<and>
   common_prefix bs ns \<le> length bs \<and> common_prefix bs ns \<le> length ns"
  by (induction bs ns rule: common_prefix.induct) auto

lemma suffix_loop_drop:
  assumes "suffix_loop bs ns p b n = (b', n')" and "b \<le> length bs" and "n \<le> length ns"
    and "p \<le> b" and "p \<le> n" and "drop b bs = drop n ns"
  shows "p \<le> b' \<and> p \<le> n' \<and> b' \<le> length bs \<and> n' \<le> length ns \<and> drop b' bs = drop n' ns"
  using assms
proof (induction bs ns p b n rule: suffix_loop.induct)
  case (1 bs ns p b n)
  show ?case
  proof (cases "p < Suc b \<and> p < Suc n \<and> bs ! b = ns ! n")
    case True
    then have "drop b bs = drop n ns"
      using 1 by (metis Cons_nth_drop_Suc Suc_le_eq)
    with True 1 show ?thesis by simp
  next
    case False
    with 1(2) have "b' = Suc b" "n' = Suc n" by (simp_all only: suffix_loop.simps if_False prod.inject)
    with 1 show ?thesis by simp
  qed
qed auto

text \<open>A diff splits both texts into a common head, two middles and a common tail.\<close>

lemma diff_parts:
  assumes "base \<noteq> other"
  obtains p b n where "p \<le> b" and "p \<le> n" and "b \<le> length (splitLines base)"
    and "n \<le> length (splitLines other)"
    and "take p (splitLines base) = take p (splitLines other)"
    and "drop b (splitLines base) = drop n (splitLines other)"
    and "diffWorkspaceText base other =
      (let bm = drop p (take b (splitLines base)); nm = drop p (take n (splitLines other))
       in case buildLcsEdits bm nm of Some es \<Rightarrow> editsToHunks es p | None \<Rightarrow> [createSingleHunk bm nm p])"
proof -
  let ?b = "splitLines base" and ?n = "splitLines other"
  let ?p = "common_prefix ?b ?n"
  obtain b n where bn: "suffix_loop ?b ?n ?p (length ?b) (length ?n) = (b, n)" by (metis surj_pair)
  have "take ?p ?b = take ?p ?n" "?p \<le> length ?b" "?p \<le> length ?n"
    using common_prefix_take by blast+
  moreover from this have "?p \<le> b \<and> ?p \<le> n \<and> b \<le> length ?b \<and> n \<le> length ?n \<and> drop b ?b = drop n ?n"
    using suffix_loop_drop [OF bn] by simp
  ultimately show thesis
    using that [of ?p b n] assms bn by (simp add: diffWorkspaceText_def Let_def)
qed

lemma middle: "p \<le> b \<Longrightarrow> drop p ls = drop p (take b ls) @ drop b ls"
  using slice_drop [of p b ls] by (simp add: slice_lines_def)

lemma diff_sound:
  "apart (diffWorkspaceText base other) \<and>
   (\<forall>h \<in> set (diffWorkspaceText base other). hunk_ok (splitLines base) h) \<and>
   apply_hunks (splitLines base) 0 (diffWorkspaceText base other) [] = Some other"
proof (cases "base = other")
  case False
  let ?b = "splitLines base" and ?n = "splitLines other"
  obtain p b n where parts: "p \<le> b" "p \<le> n" "b \<le> length ?b" "n \<le> length ?n"
    "take p ?b = take p ?n" "drop b ?b = drop n ?n"
    and diff: "diffWorkspaceText base other =
      (let bm = drop p (take b ?b); nm = drop p (take n ?n)
       in case buildLcsEdits bm nm of Some es \<Rightarrow> editsToHunks es p | None \<Rightarrow> [createSingleHunk bm nm p])"
    using diff_parts [OF False] by blast
  let ?bm = "drop p (take b ?b)" and ?nm = "drop p (take n ?n)"
  have next_text: "concat (take p ?b) @ concat ?nm @ concat (drop b ?b) = other"
    using middle [OF parts(2), of ?n] parts(5,6)
    by (metis append_take_drop_id concat_append concat_splitLines)
  show ?thesis
  proof (cases "buildLcsEdits ?bm ?nm")
    case None
    let ?h = "createSingleHunk ?bm ?nm p"
    have "hunkStart ?h = p" "hunkEnd ?h = b" "baseText ?h = concat (slice_lines p b ?b)"
      "replacementText ?h = concat ?nm" "1 \<le> baseStartLine ?h"
      using parts by (simp_all add: createSingleHunk_def hunkStart_def hunkEnd_def slice_lines_def)
    with None parts(3) next_text show ?thesis
      unfolding diff by (simp add: apart_def hunk_ok_def apply_Cons del: apply_hunks.simps(2))
  next
    case (Some es)
    have es: "base_of es = ?bm" "next_of es = ?nm" using buildLcsEdits_correct [OF Some] by simp_all
    have split: "drop p ?b = base_of es @ drop b ?b" unfolding es by (rule middle [OF parts(1)])
    have p: "p \<le> length ?b" using parts by simp
    show ?thesis
      unfolding diff
      using Some edits_loop_hunks(1) [OF split p] edits_loop_apply(1) [OF split p, of 0] next_text
      by (auto simp: editsToHunks_def es)
  qed
qed (simp add: diffWorkspaceText_def apart_def)

lemma sort_by_sorted: "sorted_wrt (\<lambda>a b. cmp a b \<le> 0) xs \<Longrightarrow> sort_by cmp xs = xs"
proof (induction xs)
  case (Cons x xs)
  then show ?case by (cases xs) auto
qed simp

lemma compare_hunks_key:
  "compare_hunks a b \<le> 0 \<longleftrightarrow> (hunkStart a, baseLineCount a) \<le> (hunkStart b, baseLineCount b)"
  by (auto simp: compare_hunks_def Let_def)

lemma apart_sorted: "apart hs \<Longrightarrow> sort_by compare_hunks hs = hs"
  unfolding apart_def
  by (rule sort_by_sorted, erule sorted_wrt_mono_rel [rotated])
    (auto simp: compare_hunks_key hunkEnd_def)

theorem diff_round_trip: "applyTextHunks base (diffWorkspaceText base other) = Some other"
  using diff_sound [of base other] apart_sorted by (simp add: applyTextHunks_def)

section \<open>The merge of two sides\<close>

lemma hunksEqual_eq [simp]: "hunksEqual l r \<longleftrightarrow> l = r"
  by (auto simp: hunksEqual_def)

lemma overlap_sym: "textHunksOverlap l r \<longleftrightarrow> textHunksOverlap r l"
  by (auto simp: textHunksOverlap_def Let_def max.commute min.commute)

interpretation hunk_order: comparator "\<lambda>_. True" compare_hunks
  by unfold_locales (auto simp: compare_hunks_key)

text \<open>Two hunks that do not overlap are one after the other in the order of the sort.\<close>

lemma not_overlap_ordered:
  assumes "\<not> textHunksOverlap a b" and "compare_hunks a b \<le> 0"
  shows "hunkEnd a \<le> hunkStart b"
  using assms by (auto simp: textHunksOverlap_def compare_hunks_key Let_def hunkEnd_def split: if_splits)

lemma apart_not_overlap: "hunkEnd a < hunkStart b \<Longrightarrow> \<not> textHunksOverlap a b"
  using hunk_le [of a] hunk_le [of b] by (auto simp: textHunksOverlap_def Let_def)

definition compatible :: "text_hunk set \<Rightarrow> bool" where
  "compatible H \<longleftrightarrow> (\<forall>a \<in> H. \<forall>b \<in> H. a \<noteq> b \<longrightarrow> \<not> textHunksOverlap a b)"

lemma apart_compatible: "apart hs \<Longrightarrow> compatible (set hs) \<and> distinct hs"
proof -
  assume "apart hs"
  then have less: "hunkEnd (hs ! i) < hunkStart (hs ! j)" if "i < j" "j < length hs" for i j
    using that by (simp add: apart_def sorted_wrt_iff_nth_less)
  have "\<not> textHunksOverlap (hs ! i) (hs ! j)" if "i < length hs" "j < length hs" "i \<noteq> j" for i j
    using that less [of i j] less [of j i] apart_not_overlap overlap_sym by (metis nat_neq_iff)
  moreover have "hs ! i \<noteq> hs ! j" if "i < j" "j < length hs" for i j
    using less [OF that] hunk_le [of "hs ! i"] by auto
  ultimately show ?thesis
    by (auto simp: compatible_def in_set_conv_nth distinct_conv_nth) (metis nat_neq_iff)+
qed

lemma compatible_sorted:
  assumes "compatible (set hs)" and "distinct hs"
  shows "sorted_wrt (\<lambda>a b. hunkEnd a \<le> hunkStart b) (sort_by compare_hunks hs)"
proof -
  let ?s = "sort_by compare_hunks hs"
  have sorted: "sorted_wrt (\<lambda>a b. compare_hunks a b \<le> 0) ?s" by (rule hunk_order.sorted_sort_by) simp
  have distinct: "distinct ?s" using assms(2) distinct_map_sort_by [of id compare_hunks hs] by simp
  have "hunkEnd (?s ! i) \<le> hunkStart (?s ! j)" if ij: "i < j" "j < length ?s" for i j
  proof (rule not_overlap_ordered)
    have "?s ! i \<in> set hs" "?s ! j \<in> set hs" "?s ! i \<noteq> ?s ! j"
      using ij distinct nth_mem [of i ?s] nth_mem [of j ?s] by (auto simp: nth_eq_iff_index_eq)
    then show "\<not> textHunksOverlap (?s ! i) (?s ! j)" using assms(1) unfolding compatible_def by blast
    show "compare_hunks (?s ! i) (?s ! j) \<le> 0" using sorted ij by (simp add: sorted_wrt_iff_nth_less)
  qed
  then show ?thesis by (simp add: sorted_wrt_iff_nth_less)
qed

text \<open>
  The specification of a patch by hunks: every line of the base stays where no hunk replaces it,
  and every replacement stands at the start of its hunk.
\<close>

definition line_after :: "string list \<Rightarrow> text_hunk list \<Rightarrow> nat \<Rightarrow> string" where
  "line_after ls hs i =
     concat (map replacementText (filter (\<lambda>h. hunkStart h = i) hs)) @
     (if i < length ls \<and> (\<forall>h \<in> set hs. \<not> (hunkStart h \<le> i \<and> i < hunkEnd h)) then ls ! i else [])"

definition patched :: "string list \<Rightarrow> text_hunk list \<Rightarrow> string" where
  "patched ls hs = concat (map (line_after ls hs) [0..<Suc (length ls)])"

lemma line_after_before:
  assumes "\<forall>h \<in> set hs. i < hunkStart h" and "i < length ls"
  shows "line_after ls hs i = ls ! i"
proof -
  have none: "filter (\<lambda>h. hunkStart h = i) hs = []" using assms(1) by (auto simp: filter_empty_conv)
  show ?thesis using assms unfolding line_after_def none by auto
qed

lemma lines_before:
  "\<forall>h \<in> set hs. j \<le> hunkStart h \<Longrightarrow> j \<le> length ls \<Longrightarrow>
   map (line_after ls hs) [i..<j] = slice_lines i j ls"
proof (rule nth_equalityI)
  assume "\<forall>h \<in> set hs. j \<le> hunkStart h" "j \<le> length ls"
  then show "length (map (line_after ls hs) [i..<j]) = length (slice_lines i j ls)"
    by (simp add: slice_lines_def)
  fix k assume "k < length (map (line_after ls hs) [i..<j])"
  with \<open>\<forall>h \<in> set hs. j \<le> hunkStart h\<close> \<open>j \<le> length ls\<close>
  show "map (line_after ls hs) [i..<j] ! k = slice_lines i j ls ! k"
    by (subst nth_map) (auto simp: slice_lines_def intro!: line_after_before)
qed

lemma line_after_Cons:
  "hunkEnd h \<le> i \<Longrightarrow> hunkStart h < i \<Longrightarrow> line_after ls (h # hs) i = line_after ls hs i"
  by (simp add: line_after_def)

lemma line_after_start:
  assumes "hunkEnd h = hunkStart h"
  shows "line_after ls (h # hs) (hunkStart h) = replacementText h @ line_after ls hs (hunkStart h)"
  using assms by (auto simp: line_after_def)

lemma replaced_lines:
  assumes "\<forall>x \<in> set hs. hunkEnd h \<le> hunkStart x" and "hunkStart h < hunkEnd h"
  shows "concat (map (line_after ls (h # hs)) [hunkStart h..<hunkEnd h]) = replacementText h"
proof -
  have none: "filter (\<lambda>x. hunkStart x = i) hs = []" if "i < hunkEnd h" for i
    using assms(1) that by (auto simp: filter_empty_conv)
  have "line_after ls (h # hs) (hunkStart h) = replacementText h"
    using none [of "hunkStart h"] assms(2) by (simp add: line_after_def)
  moreover have "line_after ls (h # hs) i = []" if "i \<in> set [Suc (hunkStart h)..<hunkEnd h]" for i
    using none [of i] that by (auto simp: line_after_def)
  moreover have "[hunkStart h..<hunkEnd h] = hunkStart h # [Suc (hunkStart h)..<hunkEnd h]"
    using assms(2) by (rule upt_conv_Cons)
  ultimately show ?thesis by simp
qed

lemma upt_split: "i \<le> j \<Longrightarrow> j \<le> k \<Longrightarrow> [i..<k] = [i..<j] @ [j..<k]"
  by (metis le_add_diff_inverse upt_add_eq_append)

lemma lines_from_hunk:
  assumes "\<forall>x \<in> set hs. hunkEnd h \<le> hunkStart x" and "hunkEnd h \<le> n"
  shows "concat (map (line_after ls (h # hs)) [hunkStart h..<Suc n]) =
    replacementText h @ concat (map (line_after ls hs) [hunkEnd h..<Suc n])"
proof (cases "hunkStart h = hunkEnd h")
  case True
  have split: "[hunkEnd h..<Suc n] = hunkEnd h # [Suc (hunkEnd h)..<Suc n]"
    using assms(2) by (intro upt_conv_Cons) simp
  have "map (line_after ls (h # hs)) [Suc (hunkEnd h)..<Suc n] =
      map (line_after ls hs) [Suc (hunkEnd h)..<Suc n]"
    using True by (intro map_cong refl line_after_Cons) auto
  moreover have "line_after ls (h # hs) (hunkEnd h) = replacementText h @ line_after ls hs (hunkEnd h)"
    using line_after_start [of h ls hs] True by simp
  ultimately show ?thesis unfolding True split list.map concat.simps by (simp only: append_assoc)
next
  case False
  then have less: "hunkStart h < hunkEnd h" using hunk_le [of h] by simp
  have "map (line_after ls (h # hs)) [hunkEnd h..<Suc n] = map (line_after ls hs) [hunkEnd h..<Suc n]"
    using less by (intro map_cong refl line_after_Cons) auto
  moreover have "[hunkStart h..<Suc n] = [hunkStart h..<hunkEnd h] @ [hunkEnd h..<Suc n]"
    using less assms(2) by (intro upt_split) auto
  ultimately show ?thesis by (simp only: map_append concat_append replaced_lines [OF assms(1) less])
qed

lemma apply_patched:
  assumes "sorted_wrt (\<lambda>a b. hunkEnd a \<le> hunkStart b) hs" and "\<forall>h \<in> set hs. hunk_ok ls h"
    and "\<forall>h \<in> set hs. c \<le> hunkStart h" and "c \<le> length ls"
  shows "apply_hunks ls c hs [] = Some (concat (map (line_after ls hs) [c..<Suc (length ls)]))"
  using assms
proof (induction hs arbitrary: c)
  case Nil
  have "line_after ls [] (length ls) = []" by (simp add: line_after_def)
  then show ?case
    using lines_before [of "[]" "length ls" ls c] Nil(4) by (simp add: slice_lines_def)
next
  case (Cons h hs)
  have ok: "hunk_ok ls h" and c: "c \<le> hunkStart h" and rest: "\<forall>x \<in> set hs. hunkEnd h \<le> hunkStart x"
    and le: "hunkEnd h \<le> length ls"
    using Cons.prems by (auto simp: hunk_ok_def)
  have start: "hunkStart h \<le> length ls" using le hunk_le [of h] by simp
  have IH: "apply_hunks ls (hunkEnd h) hs [] =
      Some (concat (map (line_after ls hs) [hunkEnd h..<Suc (length ls)]))"
    by (rule Cons.IH) (use Cons.prems rest le in auto)
  have before: "\<forall>x \<in> set (h # hs). hunkStart h \<le> hunkStart x"
    using rest hunk_le [of h] by auto
  show ?case
    using upt_split [OF c, of "Suc (length ls)"] start lines_before [OF before start, of c]
      lines_from_hunk [OF rest le, of ls]
    unfolding apply_Cons [OF ok c] IH by simp
qed

text \<open>Compatible hunks apply, and give the patched text whatever their order.\<close>

lemma apply_compatible:
  assumes "compatible (set hs)" and "distinct hs" and "\<forall>h \<in> set hs. hunk_ok (splitLines base) h"
  shows "applyTextHunks base hs = Some (patched (splitLines base) (sort_by compare_hunks hs))"
  unfolding applyTextHunks_def patched_def
  by (rule apply_patched [OF compatible_sorted [OF assms(1,2)]]) (use assms(3) in auto)

lemma sort_hunks_unique:
  assumes "compatible (set hs)" and "distinct hs" and "distinct hs'" and "set hs' = set hs"
  shows "sort_by compare_hunks hs = sort_by compare_hunks hs'"
proof -
  let ?k = "\<lambda>h. (hunkStart h, baseLineCount h)"
  have inj: "inj_on ?k (set hs)"
  proof (rule inj_onI)
    fix a b assume ab: "a \<in> set hs" "b \<in> set hs" "?k a = ?k b"
    then have "textHunksOverlap a b" by (simp add: textHunksOverlap_def Let_def hunkEnd_def)
    with ab show "a = b" using assms(1) unfolding compatible_def by blast
  qed
  have sorted: "sorted_wrt (<) (map ?k (sort_by compare_hunks xs))" if "set xs = set hs" "distinct xs" for xs
  proof -
    have "sorted_wrt (\<lambda>a b. compare_hunks a b \<le> 0) (sort_by compare_hunks xs)"
      by (rule hunk_order.sorted_sort_by) simp
    then have "sorted (map ?k (sort_by compare_hunks xs))" by (simp only: compare_hunks_key sorted_map)
    moreover have "distinct (map ?k (sort_by compare_hunks xs))"
      using inj that distinct_map_sort_by [of id compare_hunks xs] by (simp add: distinct_map)
    ultimately show ?thesis by (simp only: strict_sorted_iff)
  qed
  have "map ?k (sort_by compare_hunks hs) = map ?k (sort_by compare_hunks hs')"
    by (rule strict_sorted_equal) (use sorted [of hs] sorted [of hs'] assms in auto)
  then show ?thesis
    by (rule map_inj_on) (use inj assms(4) in simp)
qed

text \<open>The hunks the merge applies.\<close>

definition union_hunks :: "text_hunk list \<Rightarrow> text_hunk list \<Rightarrow> text_hunk list" where
  "union_hunks L R = R @ filter (\<lambda>l. l \<notin> set R) L"

definition no_conflict :: "text_hunk list \<Rightarrow> text_hunk list \<Rightarrow> bool" where
  "no_conflict L R \<longleftrightarrow> (\<forall>l \<in> set L. \<forall>r \<in> set R. l = r \<or> \<not> textHunksOverlap l r)"

lemma text_conflicts_Nil: "text_conflicts L R = [] \<longleftrightarrow> no_conflict L R"
proof -
  have enumerated: "(\<forall>p \<in> set (List.enumerate 0 xs). P (snd p)) \<longleftrightarrow> (\<forall>x \<in> set xs. P x)"
    for P :: "text_hunk \<Rightarrow> bool" and xs
  proof -
    have "set xs = snd ` set (List.enumerate 0 xs)" by (metis list.set_map map_snd_enumerate)
    then show ?thesis by simp
  qed
  have "text_conflicts L R = [] \<longleftrightarrow> (\<forall>p \<in> set (List.enumerate 0 L). \<forall>q \<in> set (List.enumerate 0 R).
      snd p = snd q \<or> \<not> textHunksOverlap (snd p) (snd q))"
    by (simp only: text_conflicts_def concat_eq_Nil_conv set_map ball_simps map_is_Nil_conv
        filter_empty_conv hunksEqual_eq de_Morgan_conj not_not)
  also have "\<dots> \<longleftrightarrow> (\<forall>p \<in> set (List.enumerate 0 L). \<forall>r \<in> set R. snd p = r \<or> \<not> textHunksOverlap (snd p) r)"
    using enumerated [of R "\<lambda>r. l = r \<or> \<not> textHunksOverlap l r" for l] by simp
  also have "\<dots> \<longleftrightarrow> no_conflict L R"
    unfolding no_conflict_def
    using enumerated [of L "\<lambda>l. \<forall>r \<in> set R. l = r \<or> \<not> textHunksOverlap l r"] by simp
  finally show ?thesis .
qed

lemma union_hunks_set: "set (union_hunks L R) = set L \<union> set R"
  by (auto simp: union_hunks_def)

lemma union_hunks_ok:
  assumes "apart L" and "apart R" and "no_conflict L R"
  shows "compatible (set (union_hunks L R))" and "distinct (union_hunks L R)"
proof -
  have cross: "a = b \<or> \<not> textHunksOverlap a b" "a = b \<or> \<not> textHunksOverlap b a"
    if "a \<in> set L" "b \<in> set R" for a b
    using that assms(3) overlap_sym [of b a] unfolding no_conflict_def by auto
  have within: "a = b \<or> \<not> textHunksOverlap a b" if "a \<in> set L \<and> b \<in> set L \<or> a \<in> set R \<and> b \<in> set R" for a b
    using that apart_compatible [OF assms(1)] apart_compatible [OF assms(2)] unfolding compatible_def by auto
  show "compatible (set (union_hunks L R))"
    unfolding union_hunks_set compatible_def using cross within by blast
  show "distinct (union_hunks L R)"
    using apart_compatible [OF assms(1)] apart_compatible [OF assms(2)] by (auto simp: union_hunks_def)
qed

lemma list_ex_eq: "list_ex (\<lambda>r. hunksEqual l r) R \<longleftrightarrow> l \<in> set R"
  by (auto simp: list_ex_iff)

text \<open>
  The merge succeeds exactly when no hunk of one side overlaps a different hunk of the other; the
  defensive refusal after a failed application is never reached.
\<close>

theorem merge_decides:
  fixes base l r
  defines "L \<equiv> diffWorkspaceText base l" and "R \<equiv> diffWorkspaceText base r"
  shows "mergeWorkspaceText base l r =
    (if no_conflict L R
     then TextMerged (patched (splitLines base) (sort_by compare_hunks (union_hunks L R))) L R
     else TextConflicts L R (text_conflicts L R))"
proof -
  have ok: "apart L" "apart R" "\<forall>h \<in> set (union_hunks L R). hunk_ok (splitLines base) h"
    using diff_sound [of base l] diff_sound [of base r] unfolding L_def R_def union_hunks_set by auto
  show ?thesis
    using apply_compatible [OF union_hunks_ok [OF ok(1,2)] ok(3)]
    by (simp add: mergeWorkspaceText_def Let_def text_conflicts_Nil list_ex_eq union_hunks_def
        flip: L_def R_def)
qed

theorem merge_symmetric:
  "(case mergeWorkspaceText base l r of TextMerged t _ _ \<Rightarrow> Some t | _ \<Rightarrow> None) =
   (case mergeWorkspaceText base r l of TextMerged t _ _ \<Rightarrow> Some t | _ \<Rightarrow> None)"
proof -
  let ?L = "diffWorkspaceText base l" and ?R = "diffWorkspaceText base r"
  have sym: "no_conflict ?L ?R \<longleftrightarrow> no_conflict ?R ?L"
    unfolding no_conflict_def using overlap_sym by metis
  have "sort_by compare_hunks (union_hunks ?L ?R) = sort_by compare_hunks (union_hunks ?R ?L)"
    if "no_conflict ?L ?R"
    using union_hunks_ok [of ?L ?R] union_hunks_ok [of ?R ?L] that sym diff_sound union_hunks_set
    by (intro sort_hunks_unique) auto
  then show ?thesis by (simp add: merge_decides sym)
qed

lemma patched_diff: "patched (splitLines base) (sort_by compare_hunks (diffWorkspaceText base l)) = l"
proof -
  have "apart (diffWorkspaceText base l)" using diff_sound by blast
  from apply_compatible [OF conjunct1 conjunct2, OF apart_compatible apart_compatible, OF this this]
  show ?thesis using diff_round_trip [of base l] diff_sound [of base l] by simp
qed

lemma diff_same [simp]: "diffWorkspaceText base base = []"
  by (simp add: diffWorkspaceText_def)

text \<open>A side that did not change, or two sides that agree, decide nothing.\<close>

theorem merge_unchanged:
  "mergeWorkspaceText base base r = TextMerged r [] (diffWorkspaceText base r)"
  "mergeWorkspaceText base l base = TextMerged l (diffWorkspaceText base l) []"
  "mergeWorkspaceText base x x = TextMerged x (diffWorkspaceText base x) (diffWorkspaceText base x)"
proof -
  have "no_conflict (diffWorkspaceText base x) (diffWorkspaceText base x)" for x
    using apart_compatible diff_sound [of base x] unfolding no_conflict_def compatible_def by blast
  moreover have "union_hunks [] R = R" "union_hunks L [] = L" "union_hunks R R = R" for L R
    by (simp_all add: union_hunks_def)
  ultimately show "mergeWorkspaceText base base r = TextMerged r [] (diffWorkspaceText base r)"
    "mergeWorkspaceText base l base = TextMerged l (diffWorkspaceText base l) []"
    "mergeWorkspaceText base x x = TextMerged x (diffWorkspaceText base x) (diffWorkspaceText base x)"
    by (simp_all add: merge_decides patched_diff no_conflict_def)
qed

end
