(* ===== verification/StableArrays.thy ===== *)
theory StableArrays
  imports JsonPointer
begin

text \<open>
  The rest of \<open>packages/workspace-sync/src/jsonValue.ts\<close>: value states (\<open>None\<close> is an absent value),
  arrays whose entries carry stable ids, and reading and writing a value at a JSON pointer.
\<close>

section \<open>Value states\<close>

fun valueStatesEqual :: "json option \<Rightarrow> json option \<Rightarrow> bool" where
  "valueStatesEqual None None = True"
| "valueStatesEqual (Some left) (Some right) = jsonValuesEqual left right"
| "valueStatesEqual _ _ = False"

definition size_state :: "json option \<Rightarrow> nat" where
  "size_state s = (case s of None \<Rightarrow> 0 | Some v \<Rightarrow> size v)"

lemma size_state_simps [simp]: "size_state None = 0" "size_state (Some v) = size v"
  by (simp_all add: size_state_def)

section \<open>Arrays of entries with stable ids\<close>

record stable_collection =
  order_of :: "string list"
  valuesById :: "(string \<times> json) list"

definition STABLE_ID_ARRAY_FIELDS :: "string list" where
  "STABLE_ID_ARRAY_FIELDS = [''bindings'', ''edges'', ''graphs'', ''groups'', ''keyframes'', ''nodes'',
     ''primitives'', ''svgFilters'', ''timelines'', ''tracks'']"

definition pointerLastSegment :: "string \<Rightarrow> string option" where
  "pointerLastSegment path =
     (case parseJsonPointer path of
        None \<Rightarrow> None
      | Some segments \<Rightarrow> if segments = [] then None else Some (last segments))"

fun index_entries :: "json list \<Rightarrow> stable_collection \<Rightarrow> stable_collection option" where
  "index_entries [] c = Some c"
| "index_entries (entry # rest) c =
     (case entry of
        JObj kvs \<Rightarrow>
          (case map_of kvs ''id'' of
             Some (JStr i) \<Rightarrow>
               if js_trim i = [] \<or> map_of (valuesById c) i \<noteq> None then None
               else index_entries rest
                 \<lparr>order_of = order_of c @ [i], valuesById = alist_put i entry (valuesById c)\<rparr>
           | _ \<Rightarrow> None)
      | _ \<Rightarrow> None)"

fun indexStableIdArray :: "json \<Rightarrow> stable_collection option" where
  "indexStableIdArray (JArr xs) = index_entries xs \<lparr>order_of = [], valuesById = []\<rparr>"
| "indexStableIdArray _ = None"

definition resolveStableIdArrayPair ::
  "json \<Rightarrow> json \<Rightarrow> string \<Rightarrow> (stable_collection \<times> stable_collection) option" where
  "resolveStableIdArrayPair left right path =
     (case (indexStableIdArray left, indexStableIdArray right) of
        (Some l, Some r) \<Rightarrow>
          (case pointerLastSegment path of
             Some field \<Rightarrow> if field \<in> set STABLE_ID_ARRAY_FIELDS then Some (l, r) else None
           | None \<Rightarrow> None)
      | _ \<Rightarrow> None)"

definition stableIdArrayPointer :: "string \<Rightarrow> string" where
  "stableIdArrayPointer path =
     (case parseJsonPointer path of
        None \<Rightarrow> path
      | Some segments \<Rightarrow>
          if segments = [] then path
          else let field = last segments;
                   renamed = (if suffix ''ById'' field then field else field @ ''ById'')
               in ''/'' @ join_with ''/'' (map escapeJsonPointerSegment (butlast segments @ [renamed])))"

section \<open>Reading and writing at a pointer\<close>

fun read_segments :: "json \<Rightarrow> string list \<Rightarrow> json option" where
  "read_segments v [] = Some v"
| "read_segments (JObj kvs) (s # ss) =
     (case map_of kvs s of None \<Rightarrow> None | Some w \<Rightarrow> read_segments w ss)"
| "read_segments _ (s # ss) = None"

definition readJsonPointer :: "json \<Rightarrow> string \<Rightarrow> json option" where
  "readJsonPointer v path =
     (case parseJsonPointer path of None \<Rightarrow> None | Some segments \<Rightarrow> read_segments v segments)"

fun shared_segments :: "string list \<Rightarrow> string list \<Rightarrow> string list" where
  "shared_segments (l # ls) (r # rs) = (if l \<noteq> r then [] else l # shared_segments ls rs)"
| "shared_segments _ _ = []"

definition commonJsonPointerAncestor :: "string \<Rightarrow> string \<Rightarrow> string" where
  "commonJsonPointerAncestor left right =
     (let shared = shared_segments (or_else (parseJsonPointer left) []) (or_else (parseJsonPointer right) [])
      in if shared = [] then '''' else ''/'' @ join_with ''/'' (map escapeJsonPointerSegment shared))"

definition jsonPointersOverlap :: "string \<Rightarrow> string \<Rightarrow> bool" where
  "jsonPointersOverlap left right \<longleftrightarrow>
     left = right \<or> left = '''' \<or> right = '''' \<or>
     starts_with left (right @ ''/'') \<or> starts_with right (left @ ''/'')"

text \<open>
  The code updates the object in place and returns whether it did; the model returns the updated
  object, or \<open>None\<close> where the code returns \<open>false\<close> and leaves the object alone.
\<close>

fun write_segments :: "json \<Rightarrow> string list \<Rightarrow> json option \<Rightarrow> json option" where
  "write_segments (JObj kvs) [key] state =
     (case state of
        None \<Rightarrow> if map_of kvs key = None then None else Some (JObj (alist_del key kvs))
      | Some v \<Rightarrow> Some (JObj (alist_put key (cloneJsonValue v) kvs)))"
| "write_segments (JObj kvs) (s # ss) state =
     (case map_of kvs s of
        None \<Rightarrow> None
      | Some child \<Rightarrow>
          (case write_segments child ss state of
             None \<Rightarrow> None
           | Some child' \<Rightarrow> Some (JObj (alist_put s child' kvs))))"
| "write_segments _ _ state = None"

definition writeJsonPointer :: "json \<Rightarrow> string \<Rightarrow> json option \<Rightarrow> json option" where
  "writeJsonPointer v path state =
     (case parseJsonPointer path of None \<Rightarrow> None | Some segments \<Rightarrow> write_segments v segments state)"

section \<open>Laws\<close>

lemma size_in_entries: "(k, v) \<in> set kvs \<Longrightarrow> size v < size (JObj kvs)"
  by (induction kvs) auto

lemma index_entries_values:
  assumes "index_entries xs c = Some c'" and "distinct (map fst (valuesById c))"
  shows "set (valuesById c') = set (valuesById c) \<union>
      {(i, v). v \<in> set xs \<and> (\<exists>kvs. v = JObj kvs \<and> map_of kvs ''id'' = Some (JStr i))} \<and>
    distinct (map fst (valuesById c')) \<and>
    (order_of c = map fst (valuesById c) \<longrightarrow> order_of c' = map fst (valuesById c')) \<and>
    map snd (valuesById c') = map snd (valuesById c) @ xs \<and>
    (\<forall>i \<in> set (order_of c'). i \<in> set (order_of c) \<or> js_trim i \<noteq> [])"
  using assms
proof (induction xs c arbitrary: c' rule: index_entries.induct)
  case (2 entry rest c)
  obtain kvs i where entry: "entry = JObj kvs" "map_of kvs ''id'' = Some (JStr i)"
    and new: "js_trim i \<noteq> []" "map_of (valuesById c) i = None"
    and rest: "index_entries rest
        \<lparr>order_of = order_of c @ [i], valuesById = alist_put i entry (valuesById c)\<rparr> = Some c'"
    using "2.prems"(1) by (auto split: json.splits option.splits if_splits)
  have put: "alist_put i entry (valuesById c) = valuesById c @ [(i, entry)]"
    using new(2) by (rule alist_put_new)
  have "i \<notin> fst ` set (valuesById c)" using new(2) by (simp add: map_of_eq_None_iff)
  with "2.prems"(2) have "distinct (map fst (valuesById c @ [(i, entry)]))" by auto
  with "2.IH" [OF entry refl, of c'] entry new rest show ?case
    unfolding put by auto
qed auto

lemma write_read:
  "write_segments v ss state = Some v' \<Longrightarrow> read_segments v' ss = state"
  by (induction v ss state arbitrary: v' rule: write_segments.induct)
    (auto split: option.splits if_splits)

end
