(* ===== verification/SemanticDiff.thy ===== *)
theory SemanticDiff
  imports StableArrays TextMerge Command
begin

text \<open>
  The revisions of a snapshot (\<open>workspaceRevisions.ts\<close>) and the semantic diff of two snapshots
  (\<open>workspaceSemanticDiff.ts\<close>) of \<open>packages/workspace-sync/src\<close>. A snapshot is a JSON object; a
  member that its type requires is read with \<open>member\<close>. The callback that collects the changes
  is modelled by the list of what it is called with, in order.
\<close>

definition member :: "json \<Rightarrow> string \<Rightarrow> json" where
  "member v k = or_else (own v k) JNull"

definition text_member :: "json \<Rightarrow> string \<Rightarrow> string" where
  "text_member v k = (case own v k of Some (JStr s) \<Rightarrow> s | _ \<Rightarrow> '''')"

text \<open>\<open>[...new Set([...xs, ...ys])].sort()\<close>.\<close>

definition sorted_ids :: "string list \<Rightarrow> string list" where
  "sorted_ids xs = sort (js_set xs)"

lemma set_sorted_ids [simp]: "set (sorted_ids xs) = set xs"
  by (simp add: sorted_ids_def)

section \<open>Revisions\<close>

record document_revisions =
  contentRev :: json
  metaRev :: json

record workspace_revisions =
  workspaceRev :: json
  routeRev :: json
  documentRevs :: "(string \<times> document_revisions) list"
  opSeq :: json

datatype revision_partition =
    WorkspacePartition | RoutePartition | ContentPartition string | MetadataPartition string
  | SequencePartition

record revision_difference =
  revision_partition :: revision_partition
  expected_rev :: "json option"
  current_rev :: "json option"

definition captureWorkspaceRevisions :: "json \<Rightarrow> workspace_revisions" where
  "captureWorkspaceRevisions snapshot =
     \<lparr>workspaceRev = member snapshot ''workspaceRev'', routeRev = member snapshot ''routeRev'',
      documentRevs = map (\<lambda>(documentId, document).
        (documentId, \<lparr>contentRev = member document ''contentRev'', metaRev = member document ''metaRev''\<rparr>))
        (docs_of snapshot),
      opSeq = member snapshot ''opSeq''\<rparr>"

definition counter_difference :: "revision_partition \<Rightarrow> json option \<Rightarrow> json option \<Rightarrow> revision_difference list" where
  "counter_difference p expected current =
     (if expected \<noteq> current
      then [\<lparr>revision_partition = p, expected_rev = expected, current_rev = current\<rparr>] else [])"

definition diffWorkspaceRevisions :: "workspace_revisions \<Rightarrow> workspace_revisions \<Rightarrow> revision_difference list" where
  "diffWorkspaceRevisions expected current =
     counter_difference WorkspacePartition (Some (workspaceRev expected)) (Some (workspaceRev current)) @
     counter_difference RoutePartition (Some (routeRev expected)) (Some (routeRev current)) @
     concat (map (\<lambda>documentId.
         let e = map_of (documentRevs expected) documentId; c = map_of (documentRevs current) documentId
         in counter_difference (ContentPartition documentId) (map_option contentRev e) (map_option contentRev c) @
            counter_difference (MetadataPartition documentId) (map_option metaRev e) (map_option metaRev c))
       (sorted_ids (map fst (documentRevs expected) @ map fst (documentRevs current)))) @
     counter_difference SequencePartition (Some (opSeq expected)) (Some (opSeq current))"

definition workspaceRevisionsEqual :: "workspace_revisions \<Rightarrow> workspace_revisions \<Rightarrow> bool" where
  "workspaceRevisionsEqual left right \<longleftrightarrow> length (diffWorkspaceRevisions left right) = 0"

section \<open>Changes\<close>

datatype change_area = AreaDocument | AreaMetadata | AreaContent

datatype change_target =
    TreeTarget (target_path: string)
  | RouteTarget (target_path: string)
  | DocTarget (target_documentId: string) (target_documentType: string) (target_area: change_area)
      (target_path: string)

datatype graph_kind = PirUi | Nodegraph

datatype entity_kind = Timeline | Track | Keyframe | Binding | SvgFilter | SvgPrimitive

datatype change_semantic =
    TreeSemantic "string option" string
  | RouteSemantic string
  | GraphNode graph_kind string string
  | GraphEdge string string
  | GraphStructure graph_kind "string option" "string option" string
  | AnimationEntity entity_kind string string
  | CodeSource string "text_hunk list"
  | DocSemantic string change_area string

datatype change_kind = AddChange | DeleteChange | ModifyChange

record semantic_change =
  change_id :: string
  change_kind :: change_kind
  change_target :: change_target
  change_base :: "json option"
  change_next :: "json option"
  change_semantic :: change_semantic

record change_set =
  cs_workspaceId :: string
  baseRevisions :: workspace_revisions
  nextRevisions :: workspace_revisions
  cs_changes :: "semantic_change list"

section \<open>The walk over two values\<close>

function collectJsonChanges ::
  "json option \<Rightarrow> json option \<Rightarrow> string \<Rightarrow> (string \<times> json option \<times> json option) list" where
  "collectJsonChanges base other path =
     (case (base, other) of
        (Some b, Some n) \<Rightarrow>
          if jsonValuesEqual b n then []
          else (case resolveStableIdArrayPair b n path of
                  Some (l, r) \<Rightarrow>
                    (let collectionPath = stableIdArrayPointer path;
                         l_order = JArr (map JStr (order_of l)); r_order = JArr (map JStr (order_of r))
                     in (if \<not> jsonValuesEqual l_order r_order
                         then [(collectionPath, Some l_order, Some r_order)] else []) @
                        concat (map (\<lambda>i. collectJsonChanges (map_of (valuesById l) i) (map_of (valuesById r) i)
                            (appendJsonPointer collectionPath i))
                          (sorted_ids (map fst (valuesById l) @ map fst (valuesById r)))))
                | None \<Rightarrow>
                    (case (b, n) of
                       (JObj bs, JObj ns) \<Rightarrow>
                         concat (map (\<lambda>key. collectJsonChanges (map_of bs key) (map_of ns key)
                             (appendJsonPointer path key))
                           (sorted_ids (map fst bs @ map fst ns)))
                     | _ \<Rightarrow> [(path, base, other)]))
      | (None, None) \<Rightarrow> []
      | _ \<Rightarrow> [(path, base, other)])"
  by pat_completeness auto

lemma size_in_collection:
  assumes "indexStableIdArray v = Some c"
  shows "size_state (map_of (valuesById c) i) < size v"
proof (cases v)
  case (JArr xs)
  have "snd ` set (valuesById c) = set xs"
    using index_entries_values [of xs "\<lparr>order_of = [], valuesById = []\<rparr>" c] assms JArr
    by (metis append_Nil distinct.simps(1) indexStableIdArray.simps(1) list.set_map list.simps(8)
        stable_collection.select_convs(2))
  moreover have "w \<in> snd ` set (valuesById c)" if "map_of (valuesById c) i = Some w" for w
    using that by (force dest: map_of_SomeD)
  ultimately show ?thesis
    using size_in_JArr JArr by (cases "map_of (valuesById c) i") auto
qed (use assms in auto)

lemma size_in_pair:
  assumes "resolveStableIdArrayPair b n path = Some (l, r)"
  shows "size_state (map_of (valuesById l) i) < size b" and "size_state (map_of (valuesById r) i) < size n"
  using assms
  by (auto simp: resolveStableIdArrayPair_def size_in_collection split: option.splits if_splits)

lemma size_in_object: "size_state (map_of kvs k) < size (JObj kvs)"
  using map_of_size by (cases "map_of kvs k") (auto simp: size_state_def)

lemma size_in_objects:
  "size_state (map_of bs k) + size_state (map_of ns k) < size (JObj bs) + size (JObj ns)"
  by (rule add_strict_mono [OF size_in_object size_in_object])

lemma size_in_pairs:
  "resolveStableIdArrayPair b n path = Some (l, r) \<Longrightarrow>
   size_state (map_of (valuesById l) i) + size_state (map_of (valuesById r) i) < size b + size n"
  by (rule add_strict_mono [OF size_in_pair])

termination collectJsonChanges
  by (relation "measure (\<lambda>(b, n, _). size_state b + size_state n)")
    (use size_in_objects in \<open>auto simp: size_in_pairs\<close>)

declare collectJsonChanges.simps [simp del]

section \<open>The meaning of a change\<close>

definition changeKind :: "json option \<Rightarrow> json option \<Rightarrow> change_kind" where
  "changeKind base other =
     (if base = None then AddChange else if other = None then DeleteChange else ModifyChange)"

fun area_text :: "change_area \<Rightarrow> string" where
  "area_text AreaDocument = ''document''"
| "area_text AreaMetadata = ''metadata''"
| "area_text AreaContent = ''content''"

fun targetIdentity :: "change_target \<Rightarrow> string" where
  "targetIdentity (TreeTarget _) = ''workspace-tree''"
| "targetIdentity (RouteTarget _) = ''route-manifest''"
| "targetIdentity (DocTarget i _ area _) = ''document:'' @ i @ '':'' @ area_text area"

definition createChangeId :: "change_target \<Rightarrow> string" where
  "createChangeId target =
     targetIdentity target @ '':'' @ (if target_path target = '''' then ''/'' else target_path target)"

text \<open>The members of a document that authors own: a missing optional member is left out.\<close>

definition optional_member :: "json \<Rightarrow> string \<Rightarrow> (string \<times> json) list" where
  "optional_member v k = (case own v k of None \<Rightarrow> [] | Some w \<Rightarrow> [(k, w)])"

definition documentAuthoringValue :: "json \<Rightarrow> json" where
  "documentAuthoringValue document =
     JObj ([(''id'', member document ''id''), (''type'', member document ''type'')] @
       optional_member document ''name'' @
       [(''path'', member document ''path''), (''content'', cloneJsonValue (member document ''content''))] @
       optional_member document ''capabilities'')"

definition metadata_value :: "json \<Rightarrow> json" where
  "metadata_value document =
     JObj ([(''type'', member document ''type'')] @ optional_member document ''name'' @
       [(''path'', member document ''path'')] @ optional_member document ''capabilities'')"

definition decodePointerPath :: "string \<Rightarrow> string list" where
  "decodePointerPath path =
     (if path = '''' then [] else map decodeJsonPointerSegment (split_on (CHR ''/'') (tl path)))"

definition remainderPath :: "string list \<Rightarrow> nat \<Rightarrow> string" where
  "remainderPath segments offset =
     (if length segments \<le> offset then ''''
      else ''/'' @ join_with ''/'' (map escapeJsonPointerSegment (drop offset segments)))"

definition seg :: "string list \<Rightarrow> nat \<Rightarrow> string option" where
  "seg segments i = (if i < length segments then Some (segments ! i) else None)"

definition truthy_seg :: "string list \<Rightarrow> nat \<Rightarrow> string option" where
  "truthy_seg segments i = (if truthy_text (seg segments i) then seg segments i else None)"

definition string_value :: "json option \<Rightarrow> string" where
  "string_value state = (case state of Some (JStr s) \<Rightarrow> s | _ \<Rightarrow> '''')"

text \<open>\<open>resolveWorkspaceDocumentChangeSemantic\<close>, which is only called on targets in a document.\<close>

definition content_semantic ::
  "string \<Rightarrow> string \<Rightarrow> json option \<Rightarrow> json option \<Rightarrow> string option \<Rightarrow> change_semantic option" where
  "content_semantic documentType path base other language =
     (let segments = decodePointerPath path in
      if documentType = ''code'' \<and> path = ''/source'' then
        Some (CodeSource (or_else language ''text'')
          (diffWorkspaceText (string_value base) (string_value other)))
      else if seg segments 0 = Some ''ui'' \<and> seg segments 1 = Some ''graph'' \<and>
              seg segments 2 = Some ''nodesById'' \<and> truthy_text (seg segments 3) then
        Some (GraphNode PirUi (segments ! 3) (remainderPath segments 4))
      else if seg segments 0 = Some ''ui'' \<and> seg segments 1 = Some ''graph'' \<and>
              (seg segments 2 = Some ''childIdsById'' \<or> seg segments 2 = Some ''regionsById'') then
        Some (GraphStructure PirUi (truthy_seg segments 3)
          (if seg segments 2 = Some ''regionsById'' then truthy_seg segments 4 else None)
          (remainderPath segments (if seg segments 2 = Some ''regionsById'' then 5 else 4)))
      else if documentType = ''pir-graph'' \<and> seg segments 0 = Some ''nodesById'' \<and>
              truthy_text (seg segments 1) then
        Some (GraphNode Nodegraph (segments ! 1) (remainderPath segments 2))
      else if documentType = ''pir-graph'' \<and> seg segments 0 = Some ''edgesById'' \<and>
              truthy_text (seg segments 1) then
        Some (GraphEdge (segments ! 1) (remainderPath segments 2))
      else if documentType = ''pir-animation'' \<and> seg segments 0 = Some ''timelinesById'' \<and>
              truthy_text (seg segments 1) then
        Some (AnimationEntity Timeline (segments ! 1) (remainderPath segments 2))
      else if documentType = ''pir-animation'' \<and> seg segments 0 = Some ''svgFiltersById'' \<and>
              truthy_text (seg segments 1) then
        Some (AnimationEntity SvgFilter (segments ! 1) (remainderPath segments 2))
      else None)"

definition resolveWorkspaceDocumentChangeSemantic ::
  "string \<Rightarrow> string \<Rightarrow> change_area \<Rightarrow> string \<Rightarrow> json option \<Rightarrow> json option \<Rightarrow> string option \<Rightarrow> change_semantic"
  where
  "resolveWorkspaceDocumentChangeSemantic documentId documentType area path base other language =
     or_else (if area = AreaContent then content_semantic documentType path base other language else None)
       (DocSemantic documentId area path)"

section \<open>The diff of two snapshots\<close>

definition pushChange :: "change_target \<Rightarrow> json option \<Rightarrow> json option \<Rightarrow> change_semantic \<Rightarrow> semantic_change" where
  "pushChange target base other semantic =
     \<lparr>change_id = createChangeId target, change_kind = changeKind base other, change_target = target,
      change_base = base, change_next = other, change_semantic = semantic\<rparr>"

definition collectDocumentChanges ::
  "validators \<Rightarrow> json option \<Rightarrow> json option \<Rightarrow> semantic_change list" where
  "collectDocumentChanges V baseDocument nextDocument =
     (case (baseDocument, nextDocument) of
        (None, None) \<Rightarrow> []
      | (Some b, Some n) \<Rightarrow>
          (let documentId = text_member n ''id''; documentType = text_member n ''type'';
               codeLanguage = (if isWorkspaceCodeDocumentContent V (member n ''content'')
                 then Some (text_member (member n ''content'') ''language'') else None)
           in map (\<lambda>(path, x, y). pushChange (DocTarget documentId documentType AreaMetadata path) x y
                (DocSemantic documentId AreaMetadata path))
                (collectJsonChanges (Some (metadata_value b)) (Some (metadata_value n)) '''') @
              map (\<lambda>(path, x, y). pushChange (DocTarget documentId documentType AreaContent path) x y
                (resolveWorkspaceDocumentChangeSemantic documentId documentType AreaContent path x y
                   codeLanguage))
                (collectJsonChanges (Some (member b ''content'')) (Some (member n ''content'')) ''''))
      | _ \<Rightarrow>
          (let document = (case nextDocument of Some n \<Rightarrow> n | None \<Rightarrow> or_else baseDocument JNull);
               documentId = text_member document ''id''
           in [pushChange (DocTarget documentId (text_member document ''type'') AreaDocument '''')
                 (map_option documentAuthoringValue baseDocument)
                 (map_option documentAuthoringValue nextDocument)
                 (DocSemantic documentId AreaDocument '''')]))"

definition tree_value :: "json \<Rightarrow> json" where
  "tree_value snapshot =
     JObj [(''treeRootId'', member snapshot ''treeRootId''), (''treeById'', member snapshot ''treeById'')]"

definition tree_semantic :: "string \<Rightarrow> change_semantic" where
  "tree_semantic path =
     (let segments = decodePointerPath path
      in TreeSemantic (if seg segments 0 = Some ''treeById'' then truthy_seg segments 1 else None) path)"

text \<open>\<open>None\<close> is the refusal of two snapshots of different workspaces.\<close>

definition diffWorkspaceSnapshots :: "validators \<Rightarrow> json \<Rightarrow> json \<Rightarrow> change_set option" where
  "diffWorkspaceSnapshots V base other =
     (if member base ''id'' \<noteq> member other ''id'' then None
      else Some \<lparr>cs_workspaceId = text_member base ''id'',
        baseRevisions = captureWorkspaceRevisions base,
        nextRevisions = captureWorkspaceRevisions other,
        cs_changes =
          map (\<lambda>(path, x, y). pushChange (TreeTarget path) x y (tree_semantic path))
            (collectJsonChanges (Some (tree_value base)) (Some (tree_value other)) '''') @
          map (\<lambda>(path, x, y). pushChange (RouteTarget path) x y (RouteSemantic path))
            (collectJsonChanges (Some (member base ''routeManifest'')) (Some (member other ''routeManifest'')) '''') @
          concat (map (\<lambda>documentId. collectDocumentChanges V (map_of (docs_of base) documentId)
              (map_of (docs_of other) documentId))
            (sorted_ids (map fst (docs_of base) @ map fst (docs_of other))))\<rparr>)"

section \<open>Laws\<close>

lemma counter_difference_Nil [simp]: "counter_difference p e c = [] \<longleftrightarrow> e = c"
  by (simp add: counter_difference_def)

text \<open>No difference is reported exactly when every counter agrees, that of every document included.\<close>

theorem revisions_equal_iff:
  "workspaceRevisionsEqual l r \<longleftrightarrow>
     workspaceRev l = workspaceRev r \<and> routeRev l = routeRev r \<and> opSeq l = opSeq r \<and>
     map_of (documentRevs l) = map_of (documentRevs r)"
proof -
  have document: "map_option contentRev e = map_option contentRev c \<and> map_option metaRev e = map_option metaRev c
      \<longleftrightarrow> e = c" for e c :: "document_revisions option"
    by (cases e; cases c) (auto intro: document_revisions.equality)
  have "(\<forall>i \<in> set (sorted_ids (map fst (documentRevs l) @ map fst (documentRevs r))).
      map_of (documentRevs l) i = map_of (documentRevs r) i) \<longleftrightarrow>
    map_of (documentRevs l) = map_of (documentRevs r)"
    by (auto simp: fun_eq_iff in_dom_map_of)
  then show ?thesis
    by (auto simp: workspaceRevisionsEqual_def diffWorkspaceRevisions_def Let_def document)
qed

end
