(* ===== verification/ThreeWay.thy ===== *)
theory ThreeWay
  imports SemanticDiff
begin

text \<open>
  The three-way merge of snapshots, \<open>packages/workspace-sync/src/workspaceThreeWay.ts\<close>: the merge of
  value states with its recorded conflicts, of documents and of workspaces, the analysis, and the
  automatic rebase. The array of conflicts that the code pushes to is passed through.
\<close>

section \<open>Conflicts\<close>

datatype resolution_choice = KeepLocal | KeepRemote

datatype conflict_kind = ValueConflict | ConcurrentAdd | DeleteModify | Structural | TextConflict

record merge_conflict =
  mc_id :: string
  mc_kind :: conflict_kind
  mc_target :: change_target
  mc_semantic :: change_semantic
  mc_base :: "json option"
  mc_local :: "json option"
  mc_remote :: "json option"
  mc_text :: "text_conflict list"

record merge_context =
  resolutions :: "(string \<times> resolution_choice) list"
  describe_target ::
    "string \<Rightarrow> json option \<Rightarrow> json option \<Rightarrow> json option \<Rightarrow> change_target \<times> change_semantic"
  textPath :: "string option"

fun kind_text :: "conflict_kind \<Rightarrow> string" where
  "kind_text ValueConflict = ''value''"
| "kind_text ConcurrentAdd = ''concurrent-add''"
| "kind_text DeleteModify = ''delete-modify''"
| "kind_text Structural = ''structural''"
| "kind_text TextConflict = ''text''"

definition createConflictId :: "conflict_kind \<Rightarrow> change_target \<Rightarrow> string" where
  "createConflictId kind target =
     ''conflict:'' @ kind_text kind @ '':'' @ targetIdentity target @ '':'' @
     (if target_path target = '''' then ''/'' else target_path target)"

definition recordConflict ::
  "conflict_kind \<Rightarrow> string \<Rightarrow> json option \<Rightarrow> json option \<Rightarrow> json option \<Rightarrow> merge_context \<Rightarrow>
   text_conflict list \<Rightarrow> merge_conflict list \<Rightarrow> resolution_choice \<times> merge_conflict list" where
  "recordConflict kind path base mine theirs C textConflicts cs =
     (let (target, semantic) = describe_target C path base mine theirs;
          i = createConflictId kind target
      in (if map_of (resolutions C) i = Some KeepLocal then KeepLocal else KeepRemote,
          cs @ [\<lparr>mc_id = i, mc_kind = kind, mc_target = target, mc_semantic = semantic,
            mc_base = base, mc_local = mine, mc_remote = theirs, mc_text = textConflicts\<rparr>]))"

definition chooseConflictState ::
  "conflict_kind \<Rightarrow> string \<Rightarrow> json option \<Rightarrow> json option \<Rightarrow> json option \<Rightarrow> merge_context \<Rightarrow>
   text_conflict list \<Rightarrow> merge_conflict list \<Rightarrow> json option \<times> merge_conflict list" where
  "chooseConflictState kind path base mine theirs C textConflicts cs =
     (let (choice, cs') = recordConflict kind path base mine theirs C textConflicts cs
      in (if choice = KeepLocal then mine else theirs, cs'))"

section \<open>Records and arrays of entities\<close>

text \<open>
  The loop over sorted keys that records, collections and documents share: the merged values that
  are present, by key. \<open>rec\<close> stands for the recursive call of \<open>mergeValueStates\<close>.
\<close>

definition collect_entries ::
  "(string \<Rightarrow> 'c \<Rightarrow> json option \<times> 'c) \<Rightarrow> string list \<Rightarrow> 'c \<Rightarrow> (string \<times> json) list \<times> 'c" where
  "collect_entries f keys cs =
     foldl (\<lambda>(result, cs) key.
        case f key cs of
          (None, cs') \<Rightarrow> (result, cs')
        | (Some v, cs') \<Rightarrow> (alist_put key v result, cs')) ([], cs) keys"

definition merge_entries ::
  "(json option \<Rightarrow> json option \<Rightarrow> json option \<Rightarrow> string \<Rightarrow> 'c \<Rightarrow> json option \<times> 'c) \<Rightarrow>
   (string \<times> json) list \<Rightarrow> (string \<times> json) list \<Rightarrow> (string \<times> json) list \<Rightarrow> string list \<Rightarrow> string \<Rightarrow> 'c \<Rightarrow>
   (string \<times> json) list \<times> 'c" where
  "merge_entries rec bs ls rs keys path =
     collect_entries (\<lambda>key. rec (map_of bs key) (map_of ls key) (map_of rs key) (appendJsonPointer path key))
       keys"

lemma merge_entries_cong [fundef_cong]:
  assumes "bs = bs'" "ls = ls'" "rs = rs'" "keys = keys'" "path = path'" "cs = cs'"
    and "\<And>k p c. rec (map_of bs' k) (map_of ls' k) (map_of rs' k) p c =
      rec' (map_of bs' k) (map_of ls' k) (map_of rs' k) p c"
  shows "merge_entries rec bs ls rs keys path cs = merge_entries rec' bs' ls' rs' keys' path' cs'"
  unfolding merge_entries_def collect_entries_def assms(1-6) by (rule foldl_cong) (auto simp: assms(7))

definition mergeRecordStates ::
  "(json option \<Rightarrow> json option \<Rightarrow> json option \<Rightarrow> string \<Rightarrow> 'c \<Rightarrow> json option \<times> 'c) \<Rightarrow>
   (string \<times> json) list \<Rightarrow> (string \<times> json) list \<Rightarrow> (string \<times> json) list \<Rightarrow> string \<Rightarrow> 'c \<Rightarrow>
   json option \<times> 'c" where
  "mergeRecordStates rec bs ls rs path cs =
     (let (result, cs') = merge_entries rec bs ls rs
            (sorted_ids (map fst bs @ map fst ls @ map fst rs)) path cs
      in (Some (JObj result), cs'))"

lemma mergeRecordStates_cong [fundef_cong]:
  assumes "bs = bs'" "ls = ls'" "rs = rs'" "path = path'" "cs = cs'"
    and "\<And>k p c. rec (map_of bs' k) (map_of ls' k) (map_of rs' k) p c =
      rec' (map_of bs' k) (map_of ls' k) (map_of rs' k) p c"
  shows "mergeRecordStates rec bs ls rs path cs = mergeRecordStates rec' bs' ls' rs' path' cs'"
  unfolding mergeRecordStates_def assms(1-5) by (simp cong: merge_entries_cong add: assms(6))

definition dedupeOrder :: "string list list \<Rightarrow> string list" where
  "dedupeOrder orders = js_set (concat orders)"

text \<open>\<open>None\<close> is the divergent case: both sides reordered the shared ids, differently.\<close>

definition mergeStableArrayOrder ::
  "stable_collection \<Rightarrow> stable_collection \<Rightarrow> stable_collection \<Rightarrow> string list option" where
  "mergeStableArrayOrder base mine theirs =
     (let shared = filter (\<lambda>i. map_of (valuesById mine) i \<noteq> None \<and> map_of (valuesById theirs) i \<noteq> None)
            (order_of base);
          localRelative = filter (\<lambda>i. i \<in> set shared) (order_of mine);
          remoteRelative = filter (\<lambda>i. i \<in> set shared) (order_of theirs);
          localReordered = (localRelative \<noteq> shared);
          remoteReordered = (remoteRelative \<noteq> shared)
      in if localReordered \<and> remoteReordered then
           (if localRelative = remoteRelative
            then Some (dedupeOrder [order_of mine, order_of theirs, order_of base]) else None)
         else Some (if localReordered then dedupeOrder [order_of mine, order_of theirs, order_of base]
                    else dedupeOrder [order_of theirs, order_of mine, order_of base]))"

definition mergeStableArrayStates ::
  "merge_context \<Rightarrow>
   (json option \<Rightarrow> json option \<Rightarrow> json option \<Rightarrow> string \<Rightarrow> merge_conflict list \<Rightarrow>
      json option \<times> merge_conflict list) \<Rightarrow>
   json \<Rightarrow> json \<Rightarrow> json \<Rightarrow> string \<Rightarrow> merge_conflict list \<Rightarrow>
   (json option \<times> merge_conflict list) option" where
  "mergeStableArrayStates C rec base mine theirs path cs =
     (if resolveStableIdArrayPair base mine path = None \<and> resolveStableIdArrayPair base theirs path = None \<and>
         resolveStableIdArrayPair mine theirs path = None
      then None
      else case (indexStableIdArray base, indexStableIdArray mine, indexStableIdArray theirs) of
        (Some bc, Some lc, Some rc) \<Rightarrow>
          (let (resultById, cs1) = merge_entries rec (valuesById bc) (valuesById lc) (valuesById rc)
                 (sorted_ids (order_of bc @ order_of lc @ order_of rc)) (stableIdArrayPointer path) cs;
               (merged_order, cs2) = (case mergeStableArrayOrder bc lc rc of
                   Some ids \<Rightarrow> (ids, cs1)
                 | None \<Rightarrow>
                     (let (choice, cs') =
                            recordConflict Structural path (Some base) (Some mine) (Some theirs) C [] cs1
                      in (if choice = KeepLocal
                          then dedupeOrder [order_of lc, order_of rc, order_of bc]
                          else dedupeOrder [order_of rc, order_of lc, order_of bc], cs')))
           in Some (Some (JArr (List.map_filter (map_of resultById) merged_order)), cs2))
      | _ \<Rightarrow> None)"

lemma mergeStableArrayStates_cong [fundef_cong]:
  assumes "C = C'" "base = base'" "mine = mine'" "theirs = theirs'" "path = path'" "cs = cs'"
    and "\<And>bc lc rc k p c. indexStableIdArray base' = Some bc \<Longrightarrow> indexStableIdArray mine' = Some lc \<Longrightarrow>
      indexStableIdArray theirs' = Some rc \<Longrightarrow>
      rec (map_of (valuesById bc) k) (map_of (valuesById lc) k) (map_of (valuesById rc) k) p c =
      rec' (map_of (valuesById bc) k) (map_of (valuesById lc) k) (map_of (valuesById rc) k) p c"
  shows "mergeStableArrayStates C rec base mine theirs path cs =
    mergeStableArrayStates C' rec' base' mine' theirs' path' cs'"
proof -
  have "merge_entries rec (valuesById bc) (valuesById lc) (valuesById rc) keys p c =
      merge_entries rec' (valuesById bc) (valuesById lc) (valuesById rc) keys p c"
    if "indexStableIdArray base' = Some bc" "indexStableIdArray mine' = Some lc"
      "indexStableIdArray theirs' = Some rc" for bc lc rc keys p c
    by (intro merge_entries_cong refl assms(7) that)
  then show ?thesis unfolding mergeStableArrayStates_def assms(1-6) by (auto split: option.split)
qed

section \<open>The merge of value states\<close>

definition merge_text_state ::
  "merge_context \<Rightarrow> string \<Rightarrow> string \<Rightarrow> string \<Rightarrow> string \<Rightarrow> merge_conflict list \<Rightarrow>
   json option \<times> merge_conflict list" where
  "merge_text_state C base mine theirs path cs =
     (case mergeWorkspaceText base mine theirs of
        TextMerged txt _ _ \<Rightarrow> (Some (JStr txt), cs)
      | TextConflicts _ _ conflicts \<Rightarrow>
          chooseConflictState TextConflict path (Some (JStr base)) (Some (JStr mine)) (Some (JStr theirs)) C
            conflicts cs)"

function mergeValueStates ::
  "merge_context \<Rightarrow> json option \<Rightarrow> json option \<Rightarrow> json option \<Rightarrow> string \<Rightarrow> merge_conflict list \<Rightarrow>
   json option \<times> merge_conflict list" where
  "mergeValueStates C base mine theirs path cs =
     (if valueStatesEqual mine theirs then (mine, cs)
      else if valueStatesEqual mine base then (theirs, cs)
      else if valueStatesEqual theirs base then (mine, cs)
      else case base of
        None \<Rightarrow>
          (case (mine, theirs) of
             (Some (JObj ls), Some (JObj rs)) \<Rightarrow> mergeRecordStates (mergeValueStates C) [] ls rs path cs
           | (Some (JArr ls), Some (JArr rs)) \<Rightarrow>
               (case mergeStableArrayStates C (mergeValueStates C) (JArr []) (JArr ls) (JArr rs) path cs of
                  Some result \<Rightarrow> result
                | None \<Rightarrow> chooseConflictState ConcurrentAdd path base mine theirs C [] cs)
           | _ \<Rightarrow> chooseConflictState ConcurrentAdd path base mine theirs C [] cs)
      | Some b \<Rightarrow>
          (case (mine, theirs) of
             (Some l, Some r) \<Rightarrow>
               (case (b, l, r) of
                  (JStr bt, JStr lt, JStr rt) \<Rightarrow>
                    if textPath C = Some path then merge_text_state C bt lt rt path cs
                    else chooseConflictState ValueConflict path base mine theirs C [] cs
                | (JObj bs, JObj ls, JObj rs) \<Rightarrow> mergeRecordStates (mergeValueStates C) bs ls rs path cs
                | (JArr bs, JArr ls, JArr rs) \<Rightarrow>
                    (case mergeStableArrayStates C (mergeValueStates C) (JArr bs) (JArr ls) (JArr rs) path cs of
                       Some result \<Rightarrow> result
                     | None \<Rightarrow> chooseConflictState ValueConflict path base mine theirs C [] cs)
                | _ \<Rightarrow> chooseConflictState ValueConflict path base mine theirs C [] cs)
           | _ \<Rightarrow> chooseConflictState DeleteModify path base mine theirs C [] cs))"
  by pat_completeness auto

lemma two_sizes: "a < Suc m \<Longrightarrow> b < Suc n \<Longrightarrow> a + b < Suc (Suc (m + n))"
  by simp

lemma three_sizes: "a < Suc m \<Longrightarrow> b < Suc n \<Longrightarrow> c < Suc k \<Longrightarrow> a + b + c < Suc (Suc (Suc (m + n + k)))"
  by simp

lemma object_bound: "size_state (map_of kvs (k :: string)) < Suc (size_list (size_prod (\<lambda>x. 0) size) kvs)"
  using size_in_object [of kvs k] by simp

lemma array_bound:
  "index_entries xs \<lparr>order_of = [], valuesById = []\<rparr> = Some c \<Longrightarrow>
   size_state (map_of (valuesById c) k) < Suc (size_list size xs)"
  using size_in_collection [of "JArr xs" c k] by simp

termination mergeValueStates
  by (relation "measure (\<lambda>(_, b, l, r, _, _). size_state b + size_state l + size_state r)")
    (auto intro!: two_sizes three_sizes object_bound array_bound)

declare mergeValueStates.simps [simp del]

section \<open>Targets\<close>

definition workspaceTarget ::
  "string \<Rightarrow> json option \<Rightarrow> json option \<Rightarrow> json option \<Rightarrow> change_target \<times> change_semantic" where
  "workspaceTarget path base mine theirs =
     (TreeTarget path,
      TreeSemantic
        (if starts_with path ''/treeById/'' \<and> takeWhile (\<lambda>c. c \<noteq> CHR ''/'') (drop 10 path) \<noteq> ''''
         then Some (decodeJsonPointerSegment (takeWhile (\<lambda>c. c \<noteq> CHR ''/'') (drop 10 path)))
         else None) path)"

definition routeTarget ::
  "string \<Rightarrow> json option \<Rightarrow> json option \<Rightarrow> json option \<Rightarrow> change_target \<times> change_semantic" where
  "routeTarget path base mine theirs = (RouteTarget path, RouteSemantic path)"

definition documentTarget ::
  "json \<Rightarrow> change_area \<Rightarrow> string option \<Rightarrow>
   string \<Rightarrow> json option \<Rightarrow> json option \<Rightarrow> json option \<Rightarrow> change_target \<times> change_semantic" where
  "documentTarget document area language path base mine theirs =
     (DocTarget (text_member document ''id'') (text_member document ''type'') area path,
      if area = AreaDocument then DocSemantic (text_member document ''id'') area path
      else resolveWorkspaceDocumentChangeSemantic (text_member document ''id'') (text_member document ''type'')
        area path base theirs language)"

section \<open>Documents that must not be merged by parts\<close>

fun is_document_deletion :: "semantic_change \<Rightarrow> (string \<times> graph_kind \<times> string) option" where
  "is_document_deletion change =
     (case (change_kind change, change_semantic change, change_target change) of
        (DeleteChange, GraphNode graphKind nodeId _, DocTarget documentId _ _ _) \<Rightarrow>
          Some (documentId, graphKind, nodeId)
      | _ \<Rightarrow> None)"

fun depends_on_node :: "graph_kind \<Rightarrow> string \<Rightarrow> change_semantic \<Rightarrow> bool" where
  "depends_on_node graphKind nodeId (GraphNode g i _) \<longleftrightarrow> i = nodeId"
| "depends_on_node graphKind nodeId (GraphEdge _ _) \<longleftrightarrow> graphKind = Nodegraph"
| "depends_on_node graphKind nodeId (GraphStructure g _ _ _) \<longleftrightarrow> graphKind = g"
| "depends_on_node graphKind nodeId (AnimationEntity _ _ _) \<longleftrightarrow> True"
| "depends_on_node graphKind nodeId _ \<longleftrightarrow> False"

definition change_in_document :: "string \<Rightarrow> semantic_change \<Rightarrow> bool" where
  "change_in_document documentId change =
     (case change_target change of DocTarget i _ _ _ \<Rightarrow> i = documentId | _ \<Rightarrow> False)"

definition inspect_deletions :: "semantic_change list \<Rightarrow> semantic_change list \<Rightarrow> string list" where
  "inspect_deletions deletions others =
     List.map_filter (\<lambda>deletion.
       case is_document_deletion deletion of
         None \<Rightarrow> None
       | Some (documentId, graphKind, nodeId) \<Rightarrow>
           if list_ex (\<lambda>change. change_in_document documentId change \<and>
                depends_on_node graphKind nodeId (change_semantic change)) others
           then Some documentId else None) deletions"

definition structurallyConflictedDocumentIds :: "change_set \<Rightarrow> change_set \<Rightarrow> string list" where
  "structurallyConflictedDocumentIds localChanges remoteChanges =
     js_set (inspect_deletions (cs_changes localChanges) (cs_changes remoteChanges) @
             inspect_deletions (cs_changes remoteChanges) (cs_changes localChanges))"

section \<open>The merge of a document\<close>

text \<open>\<open>{...a, ...b}\<close>.\<close>

definition spread :: "json \<Rightarrow> json \<Rightarrow> json" where
  "spread a b = (case (a, b) of
     (JObj xs, JObj ys) \<Rightarrow> JObj (foldl (\<lambda>kvs (k, v). alist_put k v kvs) xs ys) | _ \<Rightarrow> a)"

definition put_member :: "string \<Rightarrow> json \<Rightarrow> json \<Rightarrow> json" where
  "put_member k v a = spread a (JObj [(k, v)])"

definition local_language :: "json \<Rightarrow> string option" where
  "local_language document =
     (if own document ''type'' = Some (JStr ''code'')
      then (case own (member document ''content'') ''language'' of Some (JStr s) \<Rightarrow> Some s | _ \<Rightarrow> None)
      else None)"

definition mergeDocument ::
  "json option \<Rightarrow> json option \<Rightarrow> json option \<Rightarrow> (string \<times> resolution_choice) list \<Rightarrow>
   merge_conflict list \<Rightarrow> bool \<Rightarrow> json option \<times> merge_conflict list" where
  "mergeDocument baseDocument localDocument remoteDocument res cs forceStructuralConflict =
     (case (baseDocument, localDocument, remoteDocument) of
        (Some b, Some l, Some r) \<Rightarrow>
          (let language = local_language l;
               (metadata, cs1) = mergeValueStates
                 \<lparr>resolutions = res, describe_target = documentTarget r AreaMetadata language, textPath = None\<rparr>
                 (Some (metadata_value b)) (Some (metadata_value l)) (Some (metadata_value r)) '''' cs;
               contentContext =
                 \<lparr>resolutions = res, describe_target = documentTarget r AreaContent language,
                  textPath = (if own r ''type'' = Some (JStr ''code'') then Some ''/source'' else None)\<rparr>;
               baseContent = Some (member b ''content'');
               localContent = Some (member l ''content'');
               remoteContent = Some (member r ''content'');
               (content, cs2) =
                 (if forceStructuralConflict \<and> \<not> valueStatesEqual localContent remoteContent
                  then chooseConflictState Structural '''' baseContent localContent remoteContent contentContext
                    [] cs1
                  else mergeValueStates contentContext baseContent localContent remoteContent '''' cs1)
           in (case (metadata, content) of
                 (Some (JObj m), Some c) \<Rightarrow> Some (put_member ''content'' c (spread r (JObj m)))
               | _ \<Rightarrow> None, cs2))
      | _ \<Rightarrow>
          (case (case remoteDocument of Some r \<Rightarrow> Some r | None \<Rightarrow>
                  (case localDocument of Some l \<Rightarrow> Some l | None \<Rightarrow> baseDocument)) of
             None \<Rightarrow> (None, cs)
           | Some exemplar \<Rightarrow>
               (let (merged, cs1) = mergeValueStates
                      \<lparr>resolutions = res, describe_target = documentTarget exemplar AreaDocument None,
                       textPath = None\<rparr>
                      (map_option documentAuthoringValue baseDocument)
                      (map_option documentAuthoringValue localDocument)
                      (map_option documentAuthoringValue remoteDocument) '''' cs
                in (case merged of
                      Some (JObj kvs) \<Rightarrow> Some (spread exemplar (JObj kvs))
                    | _ \<Rightarrow> None, cs1))))"

section \<open>Restoring the mount of a document the local side keeps\<close>

definition node_children :: "json \<Rightarrow> string list" where
  "node_children node =
     (case own node ''children'' of
        Some (JArr xs) \<Rightarrow> map (\<lambda>x. case x of JStr s \<Rightarrow> s | _ \<Rightarrow> '''') xs
      | _ \<Rightarrow> [])"

definition nodes_of :: "json \<Rightarrow> (string \<times> json) list" where
  "nodes_of snapshot = (case own snapshot ''treeById'' of Some (JObj nodes) \<Rightarrow> nodes | _ \<Rightarrow> [])"

text \<open>
  The walk from a node up to the root; \<open>None\<close> where a parent is missing. A cycle of parents ends
  the walk, as the set of seen ids does in the code.
\<close>

function mount_chain :: "(string \<times> json) list \<Rightarrow> json \<Rightarrow> string list \<Rightarrow> string list option" where
  "mount_chain nodes current chain =
     (let i = text_member current ''id'' in
      if i \<in> set chain then Some chain
      else case own current ''parentId'' of
        Some (JStr parentId) \<Rightarrow>
          (case map_of nodes parentId of
             None \<Rightarrow> None
           | Some parent \<Rightarrow> mount_chain nodes parent (i # chain))
      | Some JNull \<Rightarrow> Some (i # chain)
      | _ \<Rightarrow> None)"
  by pat_completeness auto
termination
proof (relation "measure (\<lambda>(nodes, current, chain).
    card (insert (text_member current ''id'') ((\<lambda>e. text_member (snd e) ''id'') ` set nodes) - set chain))",
    goal_cases)
  case 1
  show ?case by simp
next
  case (2 nodes current chain i x2 x4 parent)
  let ?ids = "(\<lambda>e. text_member (snd e) ''id'') ` set nodes"
  have "text_member parent ''id'' \<in> ?ids" using 2(5) by (force dest: map_of_SomeD)
  then have "insert (text_member parent ''id'') ?ids - set (i # chain) \<subset> insert i ?ids - set chain"
    using 2(2) by (simp add: insert_absorb) blast
  then show ?case using 2(1) by (simp add: psubset_card_mono del: list.set)
qed

declare mount_chain.simps [simp del]

definition insertion_index :: "string list \<Rightarrow> string list \<Rightarrow> string \<Rightarrow> nat" where
  "insertion_index children localChildren childId =
     (let localIndex = findIndex (\<lambda>c. c = childId) localChildren;
          before = (case localIndex of None \<Rightarrow> [] | Some i \<Rightarrow> take i localChildren);
          after = (case localIndex of None \<Rightarrow> localChildren | Some i \<Rightarrow> drop (i + 1) localChildren);
          precedingSibling = List.find (\<lambda>c. c \<in> set children) (rev before);
          followingSibling = List.find (\<lambda>c. c \<in> set children) after
      in if truthy_text precedingSibling
         then or_else (findIndex (\<lambda>c. Some c = precedingSibling) children) 0 + 1
         else if truthy_text followingSibling
         then or_else (findIndex (\<lambda>c. Some c = followingSibling) children) 0
         else min (or_else localIndex 0) (length children))"

definition is_dir :: "json \<Rightarrow> bool" where
  "is_dir node \<longleftrightarrow> own node ''kind'' = Some (JStr ''dir'')"

text \<open>One link of the chain; \<open>None\<close> where the code gives up.\<close>

definition link_child ::
  "(string \<times> json) list \<Rightarrow> (string \<times> json) list \<Rightarrow> string \<Rightarrow> string \<Rightarrow> (string \<times> json) list option" where
  "link_child localNodes restored parentId childId =
     (case (map_of restored parentId, map_of localNodes parentId) of
        (Some parent, Some localParent) \<Rightarrow>
          if \<not> is_dir parent \<or> \<not> is_dir localParent then None
          else if childId \<in> set (node_children parent) then Some restored
          else
            let children = node_children parent;
                i = insertion_index children (node_children localParent) childId
            in Some (alist_put parentId
                 (put_member ''children'' (JArr (map JStr (take i children @ [childId] @ drop i children))) parent)
                 restored)
      | _ \<Rightarrow> None)"

fun link_chain ::
  "(string \<times> json) list \<Rightarrow> (string \<times> json) list \<Rightarrow> string list \<Rightarrow> (string \<times> json) list option" where
  "link_chain localNodes restored (parentId # childId # rest) =
     (case link_child localNodes restored parentId childId of
        None \<Rightarrow> None
      | Some restored' \<Rightarrow> link_chain localNodes restored' (childId # rest))"
| "link_chain localNodes restored _ = Some restored"

definition restore_node :: "(string \<times> json) list \<Rightarrow> (string \<times> json) list \<Rightarrow> string \<Rightarrow> (string \<times> json) list" where
  "restore_node localNodes restored nodeId =
     (if map_of restored nodeId \<noteq> None then restored
      else case map_of localNodes nodeId of
        None \<Rightarrow> restored
      | Some localNode \<Rightarrow> alist_put nodeId
          (if is_dir localNode then put_member ''children'' (JArr []) localNode else localNode) restored)"

definition restoreLocalDocumentMount ::
  "string \<Rightarrow> (string \<times> json) list \<Rightarrow> json \<Rightarrow> string \<Rightarrow> (string \<times> json) list" where
  "restoreLocalDocumentMount treeRootId treeById mine documentId =
     (case List.find (\<lambda>node. own node ''kind'' = Some (JStr ''doc'') \<and>
              own node ''docId'' = Some (JStr documentId)) (map snd (nodes_of mine)) of
        None \<Rightarrow> treeById
      | Some localDocumentNode \<Rightarrow>
          (case mount_chain (nodes_of mine) localDocumentNode [] of
             None \<Rightarrow> treeById
           | Some chain \<Rightarrow>
               if seg chain 0 \<noteq> Some treeRootId then treeById
               else or_else (link_chain (nodes_of mine)
                      (foldl (restore_node (nodes_of mine)) treeById chain) chain) treeById))"

section \<open>The merge of two workspaces\<close>

definition remove_member :: "string \<Rightarrow> json \<Rightarrow> json" where
  "remove_member k a = (case a of JObj kvs \<Rightarrow> JObj (alist_del k kvs) | _ \<Rightarrow> a)"

definition merge_documents ::
  "json \<Rightarrow> json \<Rightarrow> json \<Rightarrow> (string \<times> resolution_choice) list \<Rightarrow> string list \<Rightarrow> merge_conflict list \<Rightarrow>
   (string \<times> json) list \<times> merge_conflict list" where
  "merge_documents base mine theirs res forced =
     collect_entries (\<lambda>documentId cs. mergeDocument (map_of (docs_of base) documentId)
         (map_of (docs_of mine) documentId) (map_of (docs_of theirs) documentId) res cs
         (documentId \<in> set forced))
       (sorted_ids (map fst (docs_of base) @ map fst (docs_of mine) @ map fst (docs_of theirs)))"

text \<open>The documents whose mount is restored: kept by a resolution although the remote side lost them.\<close>

definition kept_document ::
  "json \<Rightarrow> (string \<times> json) list \<Rightarrow> (string \<times> resolution_choice) list \<Rightarrow> merge_conflict \<Rightarrow> string option" where
  "kept_document theirs docs res conflict =
     (case mc_target conflict of
        DocTarget documentId _ AreaDocument _ \<Rightarrow>
          if map_of res (mc_id conflict) = Some KeepLocal \<and> map_of (docs_of theirs) documentId = None \<and>
             map_of docs documentId \<noteq> None
          then Some documentId else None
      | _ \<Rightarrow> None)"

definition active_document :: "json \<Rightarrow> json \<Rightarrow> (string \<times> json) list \<Rightarrow> string option" where
  "active_document mine theirs docs =
     (let present_in = (\<lambda>v. case own v ''activeDocumentId'' of
            Some (JStr i) \<Rightarrow> if i \<noteq> '''' \<and> map_of docs i \<noteq> None then Some i else None
          | _ \<Rightarrow> None)
      in case present_in theirs of Some i \<Rightarrow> Some i | None \<Rightarrow> present_in mine)"

definition mergeWorkspace ::
  "json \<Rightarrow> json \<Rightarrow> json \<Rightarrow> change_set \<Rightarrow> change_set \<Rightarrow> (string \<times> resolution_choice) list \<Rightarrow>
   json \<times> merge_conflict list" where
  "mergeWorkspace base mine theirs localChanges remoteChanges res =
     (let (tree, cs1) = mergeValueStates
            \<lparr>resolutions = res, describe_target = workspaceTarget, textPath = None\<rparr>
            (Some (tree_value base)) (Some (tree_value mine)) (Some (tree_value theirs)) '''' [];
          (route, cs2) = mergeValueStates
            \<lparr>resolutions = res, describe_target = routeTarget, textPath = None\<rparr>
            (Some (member base ''routeManifest'')) (Some (member mine ''routeManifest''))
            (Some (member theirs ''routeManifest'')) '''' cs1;
          treeValue = (case tree of Some (JObj kvs) \<Rightarrow> JObj kvs | _ \<Rightarrow> JObj []);
          routeValue = or_else route (member theirs ''routeManifest'');
          (docs, cs3) = merge_documents base mine theirs res
            (structurallyConflictedDocumentIds localChanges remoteChanges) cs2;
          treeRootId = (case own treeValue ''treeRootId'' of
            Some (JStr i) \<Rightarrow> i | _ \<Rightarrow> text_member theirs ''treeRootId'');
          treeById = (case own treeValue ''treeById'' of
            Some (JObj nodes) \<Rightarrow> nodes | _ \<Rightarrow> nodes_of theirs);
          treeById' = foldl (\<lambda>nodes documentId. restoreLocalDocumentMount treeRootId nodes mine documentId)
            treeById (List.map_filter (kept_document theirs docs res) cs3);
          candidate = put_member ''routeManifest'' routeValue
            (put_member ''docsById'' (JObj docs)
              (put_member ''treeById'' (JObj treeById')
                (put_member ''treeRootId'' (JStr treeRootId) (remove_member ''activeDocumentId'' theirs))))
      in ((case active_document mine theirs docs of
             None \<Rightarrow> candidate
           | Some i \<Rightarrow> put_member ''activeDocumentId'' (JStr i) candidate), cs3))"

section \<open>The analysis and the automatic rebase\<close>

datatype merge_status = Unchanged | AutoMerged | Conflicted

record analysis =
  an_workspaceId :: string
  an_status :: merge_status
  an_baseRevisions :: workspace_revisions
  an_remoteRevisions :: workspace_revisions
  localChanges :: change_set
  remoteChanges :: change_set
  candidateSnapshot :: json
  an_conflicts :: "merge_conflict list"

text \<open>\<open>None\<close> is the issue of snapshots that belong to different workspaces.\<close>

definition analyzeWorkspaceThreeWay ::
  "validators \<Rightarrow> json \<Rightarrow> json \<Rightarrow> json \<Rightarrow> (string \<times> resolution_choice) list \<Rightarrow> analysis option" where
  "analyzeWorkspaceThreeWay V base mine theirs res =
     (if member base ''id'' \<noteq> member mine ''id'' \<or> member base ''id'' \<noteq> member theirs ''id'' then None
      else case (diffWorkspaceSnapshots V base mine, diffWorkspaceSnapshots V base theirs) of
        (Some localDiff, Some remoteDiff) \<Rightarrow>
          (let (candidate, conflicts) = mergeWorkspace base mine theirs localDiff remoteDiff res;
               hasCandidateChanges = (case diffWorkspaceSnapshots V theirs candidate of
                 Some d \<Rightarrow> cs_changes d \<noteq> [] | None \<Rightarrow> False)
           in Some \<lparr>an_workspaceId = text_member base ''id'',
                an_status = (if conflicts \<noteq> [] then Conflicted
                  else if hasCandidateChanges then AutoMerged else Unchanged),
                an_baseRevisions = captureWorkspaceRevisions base,
                an_remoteRevisions = captureWorkspaceRevisions theirs,
                localChanges = localDiff, remoteChanges = remoteDiff,
                candidateSnapshot = candidate, an_conflicts = conflicts\<rparr>)
      | _ \<Rightarrow> None)"

datatype rebase_result =
    AlreadyApplied json analysis
  | Rebased json analysis
  | RebaseConflicted analysis
  | WorkspaceMismatched
  | MergedInvalid
  | RebaseThrown

definition autoRebaseWorkspaceSnapshots :: "validators \<Rightarrow> json \<Rightarrow> json \<Rightarrow> json \<Rightarrow> rebase_result" where
  "autoRebaseWorkspaceSnapshots V base mine theirs =
     (case analyzeWorkspaceThreeWay V base mine theirs [] of
        None \<Rightarrow> WorkspaceMismatched
      | Some a \<Rightarrow>
          if an_conflicts a \<noteq> [] then RebaseConflicted a
          else case v_snapshot V (candidateSnapshot a) of
            None \<Rightarrow> RebaseThrown
          | Some False \<Rightarrow> MergedInvalid
          | Some True \<Rightarrow> if an_status a = Unchanged then AlreadyApplied (candidateSnapshot a) a
              else Rebased (candidateSnapshot a) a)"

end
