(* ===== verification/MergeStates.thy ===== *)
theory MergeStates
  imports ThreeWay
begin

text \<open>
  Reading into merged values: the places inside a value are reached through the keys of objects and
  the ids of entities, up to the order of object keys, and the collections of entities keep their
  ids through a merge.
\<close>

section \<open>States up to the order of keys\<close>

definition wf_state :: "json option \<Rightarrow> bool" where
  "wf_state s \<longleftrightarrow> (\<forall>v. s = Some v \<longrightarrow> wf_json v)"

definition state_eqv :: "json option \<Rightarrow> json option \<Rightarrow> bool" where
  "state_eqv = rel_option json_eqv"

lemma wf_state_simps [simp]: "wf_state None" "wf_state (Some v) \<longleftrightarrow> wf_json v"
  by (simp_all add: wf_state_def)

lemma state_eqv_simps [simp]:
  "state_eqv None None" "\<not> state_eqv None (Some v)" "\<not> state_eqv (Some v) None"
  "state_eqv (Some v) (Some w) \<longleftrightarrow> json_eqv v w"
  by (simp_all add: state_eqv_def)

lemma state_eqv_refl [simp]: "state_eqv s s \<longleftrightarrow> wf_state s"
  by (cases s) auto

lemma state_eqv_sym: "state_eqv s t \<Longrightarrow> state_eqv t s"
  by (cases s; cases t) (auto intro: json_eqv_sym)

lemma state_eqv_trans: "state_eqv s t \<Longrightarrow> state_eqv t u \<Longrightarrow> state_eqv s u"
  by (cases s; cases t; cases u) (auto intro: json_eqv_trans)

lemma state_eqv_wf: "state_eqv s t \<Longrightarrow> wf_state s \<and> wf_state t"
  by (cases s; cases t) (auto simp: json_eqv_def)

lemma valueStatesEqual_eqv:
  "wf_state s \<Longrightarrow> wf_state t \<Longrightarrow> valueStatesEqual s t \<longleftrightarrow> state_eqv s t"
  by (cases s; cases t) (auto simp: jsonValuesEqual_eq json_eqv_def)

section \<open>Collections of entities\<close>

lemma collection_entries:
  assumes "indexStableIdArray v = Some c"
  shows "order_of c = map fst (valuesById c)" and "distinct (order_of c)"
    and "map_of (valuesById c) i = Some w \<Longrightarrow> \<exists>kvs. w = JObj kvs \<and> map_of kvs ''id'' = Some (JStr i)"
    and "i \<in> set (order_of c) \<Longrightarrow> js_trim i \<noteq> []"
    and "\<exists>xs. v = JArr xs \<and> map snd (valuesById c) = xs"
proof -
  obtain xs where v: "v = JArr xs" using assms by (cases v) auto
  have "set (valuesById c) =
      {(i, v). v \<in> set xs \<and> (\<exists>kvs. v = JObj kvs \<and> map_of kvs ''id'' = Some (JStr i))} \<and>
    distinct (map fst (valuesById c)) \<and> order_of c = map fst (valuesById c) \<and> map snd (valuesById c) = xs \<and>
    (\<forall>i \<in> set (order_of c). js_trim i \<noteq> [])"
    using index_entries_values [of xs "\<lparr>order_of = [], valuesById = []\<rparr>" c] assms v by auto
  then show "order_of c = map fst (valuesById c)" "distinct (order_of c)"
    "map_of (valuesById c) i = Some w \<Longrightarrow> \<exists>kvs. w = JObj kvs \<and> map_of kvs ''id'' = Some (JStr i)"
    "i \<in> set (order_of c) \<Longrightarrow> js_trim i \<noteq> []" "\<exists>xs. v = JArr xs \<and> map snd (valuesById c) = xs"
    using v by (auto dest: map_of_SomeD)
qed

text \<open>An entity of a collection: a record whose id is its key.\<close>

definition entity :: "string \<Rightarrow> json option \<Rightarrow> bool" where
  "entity i s \<longleftrightarrow> (\<forall>v. s = Some v \<longrightarrow> (\<exists>kvs. v = JObj kvs \<and> map_of kvs ''id'' = Some (JStr i)))"

lemma entity_in_collection: "indexStableIdArray v = Some c \<Longrightarrow> entity i (map_of (valuesById c) i)"
  using collection_entries(3) unfolding entity_def by blast

lemma wf_in_collection:
  assumes "indexStableIdArray v = Some c" and "wf_json v"
  shows "wf_state (map_of (valuesById c) i)"
proof -
  obtain xs where xs: "v = JArr xs" "map snd (valuesById c) = xs"
    using collection_entries(5) [OF assms(1)] by blast
  have "w \<in> set xs" if "map_of (valuesById c) i = Some w" for w
    using that xs(2) by (force dest: map_of_SomeD)
  then show ?thesis using assms(2) xs(1) by (auto simp: wf_state_def)
qed

text \<open>Indexing the array of the entities found under a list of ids finds them again.\<close>

lemma index_found:
  assumes "distinct ids" and "\<forall>i \<in> set ids. entity i (f i) \<and> js_trim i \<noteq> [] \<and> map_of (valuesById c) i = None"
  shows "\<exists>c'. index_entries (List.map_filter f ids) c = Some c' \<and>
    (\<forall>i. map_of (valuesById c') i = (if i \<in> set ids \<and> f i \<noteq> None then f i else map_of (valuesById c) i))"
  using assms
proof (induction ids arbitrary: c)
  case (Cons i ids)
  show ?case
  proof (cases "f i")
    case None
    obtain c' where "index_entries (List.map_filter f ids) c = Some c'"
      "\<forall>j. map_of (valuesById c') j =
         (if j \<in> set ids \<and> f j \<noteq> None then f j else map_of (valuesById c) j)"
      using Cons.IH [of c] Cons.prems by auto
    then show ?thesis using None by (intro exI [of _ c']) (auto simp: List.map_filter_simps)
  next
    case (Some v)
    obtain kvs where v: "v = JObj kvs" "map_of kvs ''id'' = Some (JStr i)"
      using Cons.prems(2) Some unfolding entity_def by auto
    let ?c = "\<lparr>order_of = order_of c @ [i], valuesById = alist_put i v (valuesById c)\<rparr>"
    have "\<forall>j \<in> set ids. entity j (f j) \<and> js_trim j \<noteq> [] \<and> map_of (valuesById ?c) j = None"
      using Cons.prems by auto
    from Cons.IH [OF _ this] Cons.prems obtain c' where
      "index_entries (List.map_filter f ids) ?c = Some c'"
      "\<forall>j. map_of (valuesById c') j =
         (if j \<in> set ids \<and> f j \<noteq> None then f j else map_of (valuesById ?c) j)"
      by auto
    then show ?thesis using Some v Cons.prems by (auto simp: List.map_filter_simps)
  qed
qed (simp add: List.map_filter_simps)

text \<open>Equal arrays have equal collections.\<close>

definition collections_eqv :: "stable_collection \<Rightarrow> stable_collection \<Rightarrow> bool" where
  "collections_eqv c d \<longleftrightarrow> order_of c = order_of d \<and>
     (\<forall>i. state_eqv (map_of (valuesById c) i) (map_of (valuesById d) i))"

lemma json_eqv_JStr [simp]: "json_eqv (JStr s) w \<longleftrightarrow> w = JStr s" "json_eqv w (JStr s) \<longleftrightarrow> w = JStr s"
  by (auto simp: json_eqv_def)

lemma index_entries_eqv:
  "list_all2 json_eqv xs ys \<Longrightarrow> collections_eqv c d \<Longrightarrow>
   rel_option collections_eqv (index_entries xs c) (index_entries ys d)"
proof (induction xs ys arbitrary: c d rule: list_all2_induct)
  case (Cons x xs y ys)
  show ?case
  proof (cases "\<exists>k. x = JObj k")
    case True
    then obtain k k' where objects: "x = JObj k" "y = JObj k'"
      using Cons(1) by (auto elim: json_eqv_cases)
    then have ids: "rel_option json_eqv (map_of k ''id'') (map_of k' ''id'')"
      using Cons(1) by (simp add: json_eqv_JObj)
    have known: "map_of (valuesById c) i = None \<longleftrightarrow> map_of (valuesById d) i = None" for i
      using Cons(4) unfolding collections_eqv_def
      by (metis state_eqv_simps(2,3) option.exhaust)
    have put: "collections_eqv \<lparr>order_of = order_of c @ [i], valuesById = alist_put i x (valuesById c)\<rparr>
        \<lparr>order_of = order_of d @ [i], valuesById = alist_put i y (valuesById d)\<rparr>" for i
      using Cons(1,4) by (auto simp: collections_eqv_def)
    show ?thesis
    proof (cases "\<exists>i. map_of k ''id'' = Some (JStr i)")
      case True
      then obtain i where "map_of k ''id'' = Some (JStr i)" "map_of k' ''id'' = Some (JStr i)"
        using ids by (auto simp: option_rel_Some1)
      then show ?thesis using objects known [of i] Cons.IH [OF put [of i]] by simp
    next
      case False
      then have "\<nexists>i. map_of k' ''id'' = Some (JStr i)"
        using ids by (auto simp: option_rel_Some2)
      with False objects show ?thesis by (auto split: option.split json.split)
    qed
  next
    case False
    with Cons(1) have "\<nexists>k. y = JObj k" by (auto elim: json_eqv_cases)
    with False show ?thesis by (auto split: json.split)
  qed
qed simp

section \<open>Places inside a value\<close>

datatype place = Key string | Ident string

fun child :: "json option \<Rightarrow> place \<Rightarrow> json option" where
  "child (Some (JObj kvs)) (Key k) = map_of kvs k"
| "child (Some (JArr xs)) (Ident i) =
     (case indexStableIdArray (JArr xs) of None \<Rightarrow> None | Some c \<Rightarrow> map_of (valuesById c) i)"
| "child _ _ = None"

fun place_in :: "json option \<Rightarrow> place list \<Rightarrow> json option" where
  "place_in s [] = s"
| "place_in s (x # p) = place_in (child s x) p"

lemma child_None [simp]: "child None x = None"
  by (cases x) auto

lemma place_None [simp]: "place_in None p = None"
  by (induction p) auto

lemma wf_child: "wf_state s \<Longrightarrow> wf_state (child s x)"
proof (induction s x rule: child.induct)
  case (1 kvs k)
  then show ?case using wf_json_map_of by (auto simp: wf_state_def)
next
  case (2 xs i)
  then show ?case using wf_in_collection [of "JArr xs"] by (simp split: option.split)
qed auto

lemma child_eqv:
  assumes "state_eqv s t"
  shows "state_eqv (child s x) (child t x)"
proof (cases s)
  case (Some v)
  then obtain w where t: "t = Some w" and eqv: "json_eqv v w" using assms by (cases t) auto
  from eqv show ?thesis
  proof (cases rule: json_eqv_cases)
    case Scalar
    then show ?thesis using Some t by (cases v; cases x) auto
  next
    case (Array xs ys)
    have "rel_option collections_eqv (indexStableIdArray (JArr xs)) (indexStableIdArray (JArr ys))"
      using index_entries_eqv [OF Array(3)] by (simp add: collections_eqv_def)
    then show ?thesis
      using Array Some t by (cases x) (auto simp: collections_eqv_def split: option.splits)
  next
    case (Record l r)
    then show ?thesis
      using eqv Some t by (cases x) (auto simp: json_eqv_JObj state_eqv_def)
  qed
qed (use assms in \<open>cases t; auto\<close>)

lemma place_eqv: "state_eqv s t \<Longrightarrow> state_eqv (place_in s p) (place_in t p)"
  by (induction p arbitrary: s t) (auto intro: child_eqv)

lemma wf_place: "wf_state s \<Longrightarrow> wf_state (place_in s p)"
  by (induction p arbitrary: s) (auto intro: wf_child)

end
