(* ===== verification/ThreeWayLaws.thy ===== *)
theory ThreeWayLaws
  imports MergeStates
begin

text \<open>
  The laws of the three-way merge: conflicts are only appended, and at every place inside the
  values a side that did not change yields to the other side.
\<close>

section \<open>Conflicts are appended\<close>

lemma recordConflict_prefix: "prefix cs (snd (recordConflict kind path b l r C ts cs))"
  by (auto simp: recordConflict_def Let_def split: prod.split)

lemma recordConflict_longer: "snd (recordConflict kind path b l r C ts cs) \<noteq> cs"
  by (auto simp: recordConflict_def Let_def split: prod.split)

definition remote_wins :: "merge_context \<Rightarrow> bool" where
  "remote_wins C \<longleftrightarrow> KeepLocal \<notin> snd ` set (resolutions C)"

lemma recordConflict_remote:
  "remote_wins C \<Longrightarrow> fst (recordConflict kind path b l r C ts cs) = KeepRemote"
  by (force simp: recordConflict_def remote_wins_def Let_def image_iff dest: map_of_SomeD split: prod.split)

lemma chooseConflictState_cases:
  obtains "chooseConflictState kind path b l r C ts cs = (l, snd (recordConflict kind path b l r C ts cs))"
    and "\<not> remote_wins C"
  | "chooseConflictState kind path b l r C ts cs = (r, snd (recordConflict kind path b l r C ts cs))"
proof (cases "fst (recordConflict kind path b l r C ts cs)")
  case KeepLocal
  then show thesis
    using that(1) recordConflict_remote [of C kind path b l r ts cs]
    by (fastforce simp: chooseConflictState_def case_prod_unfold Let_def)
next
  case KeepRemote
  then show thesis using that(2) by (simp add: chooseConflictState_def case_prod_unfold Let_def)
qed

lemma chooseConflictState_prefix:
  "prefix cs (snd (chooseConflictState kind path b l r C ts cs))"
  "snd (chooseConflictState kind path b l r C ts cs) \<noteq> cs"
  using recordConflict_prefix recordConflict_longer
  by (cases rule: chooseConflictState_cases [of kind path b l r C ts cs]; simp)+

text \<open>
  The loop over the keys: what it holds for a key is what the merge of that key returned, and the
  conflicts of that merge lie between those before and after the loop.
\<close>

definition appending ::
  "('s \<Rightarrow> 's \<Rightarrow> 's \<Rightarrow> string \<Rightarrow> 'c list \<Rightarrow> 's \<times> 'c list) \<Rightarrow> ('k \<Rightarrow> 's) \<Rightarrow> ('k \<Rightarrow> 's) \<Rightarrow> ('k \<Rightarrow> 's) \<Rightarrow> bool" where
  "appending rec b l r \<longleftrightarrow> (\<forall>k p c. prefix c (snd (rec (b k) (l k) (r k) p c)))"

definition merged_between ::
  "('s \<Rightarrow> 's \<Rightarrow> 's \<Rightarrow> string \<Rightarrow> 'c list \<Rightarrow> 's \<times> 'c list) \<Rightarrow> 's \<Rightarrow> 's \<Rightarrow> 's \<Rightarrow> 's \<Rightarrow>
   'c list \<Rightarrow> 'c list \<Rightarrow> bool" where
  "merged_between rec b l r m cs cs' \<longleftrightarrow>
     (\<exists>p c c'. rec b l r p c = (m, c') \<and> prefix cs c \<and> prefix c c' \<and> prefix c' cs')"

lemma merged_between_mono: "merged_between rec b l r m cs c \<Longrightarrow> prefix c cs' \<Longrightarrow> merged_between rec b l r m cs cs'"
  unfolding merged_between_def by (metis prefix_order.trans)

lemma collect_entries_loop:
  assumes app: "\<And>k c. prefix c (snd (f k c))"
    and "distinct keys" and "collect_entries f keys cs = (result, cs')"
  shows "prefix cs cs' \<and> distinct (map fst result) \<and> (\<forall>k. k \<notin> set keys \<longrightarrow> map_of result k = None) \<and>
    (\<forall>k \<in> set keys. \<exists>c c'. f k c = (map_of result k, c') \<and> prefix cs c \<and> prefix c' cs')"
  using assms(2,3)
proof (induction keys arbitrary: result cs' rule: rev_induct)
  case (snoc k keys)
  obtain res c where before: "collect_entries f keys cs = (res, c)" by (metis surj_pair)
  obtain m c' where m: "f k c = (m, c')" by (metis surj_pair)
  have c': "prefix c c'" using app [of c k] m by simp
  have result: "result = (case m of None \<Rightarrow> res | Some v \<Rightarrow> alist_put k v res)" "cs' = c'"
    using snoc.prems(2) before m by (auto simp: collect_entries_def split: option.splits)
  have IH: "prefix cs c" "distinct (map fst res)" "\<And>j. j \<notin> set keys \<Longrightarrow> map_of res j = None"
    "\<And>j. j \<in> set keys \<Longrightarrow> \<exists>a a'. f j a = (map_of res j, a') \<and> prefix cs a \<and> prefix a' c"
    and fresh: "k \<notin> set keys"
    using snoc.IH [OF _ before] snoc.prems(1) by simp_all
  have lookup: "map_of result j = (if j = k then m else map_of res j)" for j
    using IH(3) fresh unfolding result by (cases m) auto
  have "\<exists>a a'. f j a = (map_of result j, a') \<and> prefix cs a \<and> prefix a' cs'" if "j \<in> set (keys @ [k])" for j
  proof (cases "j = k")
    case True
    then show ?thesis using m IH(1) unfolding lookup result(2) by auto
  next
    case False
    then have "j \<in> set keys" using that by simp
    from IH(4) [OF this] obtain a a' where a: "f j a = (map_of res j, a')" "prefix cs a" "prefix a' c" by blast
    have "prefix a' c'" using a(3) c' by (rule prefix_order.trans)
    with a(1,2) False show ?thesis unfolding lookup result(2) by auto
  qed
  moreover have "distinct (map fst result)" using IH(2) unfolding result by (cases m) auto
  moreover have "prefix cs cs'" using IH(1) c' unfolding result(2) by (rule prefix_order.trans)
  moreover have "map_of result j = None" if "j \<notin> set (keys @ [k])" for j
    using that IH(3) lookup by simp
  ultimately show ?case by blast
qed (simp add: collect_entries_def)

lemma merge_entries_loop:
  assumes app: "appending rec (map_of bs) (map_of ls) (map_of rs)"
    and "distinct keys" and "merge_entries rec bs ls rs keys path cs = (result, cs')"
  shows "prefix cs cs' \<and> distinct (map fst result) \<and> (\<forall>k. k \<notin> set keys \<longrightarrow> map_of result k = None) \<and>
    (\<forall>k \<in> set keys. merged_between rec (map_of bs k) (map_of ls k) (map_of rs k) (map_of result k) cs cs')"
proof -
  let ?f = "\<lambda>key. rec (map_of bs key) (map_of ls key) (map_of rs key) (appendJsonPointer path key)"
  have each: "prefix c (snd (?f k c))" for k c using app unfolding appending_def by blast
  note facts = collect_entries_loop [of ?f, OF each assms(2) assms(3) [unfolded merge_entries_def]]
  have "merged_between rec (map_of bs k) (map_of ls k) (map_of rs k) (map_of result k) cs cs'"
    if k: "k \<in> set keys" for k
  proof -
    obtain c c' where "?f k c = (map_of result k, c')" "prefix cs c" "prefix c' cs'" using facts k by blast
    moreover have "prefix c c'" using each [of c k] calculation(1) by simp
    ultimately show ?thesis unfolding merged_between_def by blast
  qed
  with facts show ?thesis by blast
qed

lemma merge_entries_prefix:
  assumes "appending rec (map_of bs) (map_of ls) (map_of rs)" and "distinct keys"
  shows "prefix cs (snd (merge_entries rec bs ls rs keys path cs))"
proof -
  obtain result cs' where "merge_entries rec bs ls rs keys path cs = (result, cs')" by (metis surj_pair)
  with merge_entries_loop [OF assms this] show ?thesis by simp
qed

lemma distinct_sorted_ids [simp]: "distinct (sorted_ids xs)"
  by (simp add: sorted_ids_def)

lemma mergeRecordStates_prefix:
  assumes "appending rec (map_of bs) (map_of ls) (map_of rs)"
  shows "prefix cs (snd (mergeRecordStates rec bs ls rs path cs))"
  using merge_entries_prefix [OF assms distinct_sorted_ids]
  by (simp add: mergeRecordStates_def case_prod_unfold Let_def)

text \<open>The parts of a merge of collections.\<close>

lemma mergeStableArrayStates_parts:
  assumes "mergeStableArrayStates C rec b l r path cs = Some (m, cs')"
  obtains bc lc rc result cs1 ids where "indexStableIdArray b = Some bc" and "indexStableIdArray l = Some lc"
    and "indexStableIdArray r = Some rc"
    and "merge_entries rec (valuesById bc) (valuesById lc) (valuesById rc)
      (sorted_ids (order_of bc @ order_of lc @ order_of rc)) (stableIdArrayPointer path) cs = (result, cs1)"
    and "m = Some (JArr (List.map_filter (map_of result) ids))" and "prefix cs1 cs'"
    and "distinct ids" and "set ids = set (order_of bc @ order_of lc @ order_of rc)"
proof -
  obtain bc lc rc where cols: "indexStableIdArray b = Some bc" "indexStableIdArray l = Some lc"
    "indexStableIdArray r = Some rc"
    using assms by (auto simp: mergeStableArrayStates_def split: option.splits if_splits)
  obtain result cs1 where loop: "merge_entries rec (valuesById bc) (valuesById lc) (valuesById rc)
      (sorted_ids (order_of bc @ order_of lc @ order_of rc)) (stableIdArrayPointer path) cs = (result, cs1)"
    by (metis surj_pair)
  have dedupe: "distinct (dedupeOrder xs)" "set (dedupeOrder xs) = \<Union> (set ` set xs)" for xs
    by (simp_all add: dedupeOrder_def)
  have order: "mergeStableArrayOrder bc lc rc = Some ids \<Longrightarrow>
      distinct ids \<and> set ids = set (order_of bc @ order_of lc @ order_of rc)" for ids
    by (auto simp: mergeStableArrayOrder_def Let_def dedupe split: if_splits)
  show thesis
  proof (cases "mergeStableArrayOrder bc lc rc")
    case (Some ids)
    then show thesis
      using assms cols loop order [OF Some] that [OF cols loop, of ids]
      by (auto simp: mergeStableArrayStates_def split: if_splits)
  next
    case None
    let ?c = "recordConflict Structural path (Some b) (Some l) (Some r) C [] cs1"
    let ?ids = "if fst ?c = KeepLocal then dedupeOrder [order_of lc, order_of rc, order_of bc]
      else dedupeOrder [order_of rc, order_of lc, order_of bc]"
    have "m = Some (JArr (List.map_filter (map_of result) ?ids))" "cs' = snd ?c"
      using assms cols loop None
      by (auto simp: mergeStableArrayStates_def Let_def case_prod_unfold split: if_splits)
    moreover have "distinct ?ids" "set ?ids = set (order_of bc @ order_of lc @ order_of rc)"
      by (auto simp: dedupe)
    ultimately show thesis using that [OF cols loop, of ?ids] recordConflict_prefix by blast
  qed
qed

lemma mergeStableArrayStates_prefix:
  assumes "mergeStableArrayStates C rec b l r path cs = Some (m, cs')"
    and "\<And>bc lc rc. indexStableIdArray b = Some bc \<Longrightarrow> indexStableIdArray l = Some lc \<Longrightarrow>
      indexStableIdArray r = Some rc \<Longrightarrow>
      appending rec (map_of (valuesById bc)) (map_of (valuesById lc)) (map_of (valuesById rc))"
  shows "prefix cs cs'"
  using assms(1)
proof (rule mergeStableArrayStates_parts)
  fix bc lc rc result cs1 ids
  assume parts: "indexStableIdArray b = Some bc" "indexStableIdArray l = Some lc"
      "indexStableIdArray r = Some rc"
    and loop: "merge_entries rec (valuesById bc) (valuesById lc) (valuesById rc)
      (sorted_ids (order_of bc @ order_of lc @ order_of rc)) (stableIdArrayPointer path) cs = (result, cs1)"
    and "prefix cs1 cs'"
  have "prefix cs cs1"
    using merge_entries_loop [OF assms(2) [OF parts] distinct_sorted_ids loop] by blast
  with \<open>prefix cs1 cs'\<close> show ?thesis by (metis prefix_order.trans)
qed

section \<open>The cases of a merge\<close>

text \<open>
  What a merge returns: a side, where two of the three states agree; a conflict; a merged text; or
  the merge of two objects or of two collections of entities, with an absent base read as empty.
\<close>

definition agree_pair :: "json option \<Rightarrow> json option \<Rightarrow> json option \<Rightarrow> bool" where
  "agree_pair b l r \<longleftrightarrow> valueStatesEqual l r \<or> valueStatesEqual l b \<or> valueStatesEqual r b"

lemma merge_cases [case_names Same Mine Theirs Conflict Text Objects Arrays]:
  obtains "valueStatesEqual l r" and "mergeValueStates C b l r path cs = (l, cs)"
  | "valueStatesEqual l b" and "mergeValueStates C b l r path cs = (r, cs)"
  | "valueStatesEqual r b" and "mergeValueStates C b l r path cs = (l, cs)"
  | kind ts where "\<not> agree_pair b l r"
    and "mergeValueStates C b l r path cs = chooseConflictState kind path b l r C ts cs"
  | bt lt rt merged where "\<not> agree_pair b l r" and "b = Some (JStr bt)" and "l = Some (JStr lt)"
    and "r = Some (JStr rt)" and "mergeValueStates C b l r path cs = (Some (JStr merged), cs)"
  | bs ls rs where "\<not> agree_pair b l r" and "b = Some (JObj bs) \<or> b = None \<and> bs = []"
    and "l = Some (JObj ls)" and "r = Some (JObj rs)"
    and "mergeValueStates C b l r path cs = mergeRecordStates (mergeValueStates C) bs ls rs path cs"
  | bs ls rs where "\<not> agree_pair b l r" and "b = Some (JArr bs) \<or> b = None \<and> bs = []"
    and "l = Some (JArr ls)" and "r = Some (JArr rs)"
    and "mergeStableArrayStates C (mergeValueStates C) (JArr bs) (JArr ls) (JArr rs) path cs =
      Some (mergeValueStates C b l r path cs)"
proof (cases "agree_pair b l r")
  case True
  then show thesis
    using that(1-3) mergeValueStates.simps [of C b l r path cs] by (auto simp: agree_pair_def split: if_splits)
next
  case False
  note none = that(4) [OF False]
  let ?conflict = "\<lambda>kind. chooseConflictState kind path b l r C [] cs"
  have unfold: "mergeValueStates C b l r path cs = (case b of
        None \<Rightarrow>
          (case (l, r) of
             (Some (JObj ls), Some (JObj rs)) \<Rightarrow> mergeRecordStates (mergeValueStates C) [] ls rs path cs
           | (Some (JArr ls), Some (JArr rs)) \<Rightarrow>
               (case mergeStableArrayStates C (mergeValueStates C) (JArr []) (JArr ls) (JArr rs) path cs of
                  Some result \<Rightarrow> result | None \<Rightarrow> ?conflict ConcurrentAdd)
           | _ \<Rightarrow> ?conflict ConcurrentAdd)
      | Some b' \<Rightarrow>
          (case (l, r) of
             (Some l', Some r') \<Rightarrow>
               (case (b', l', r') of
                  (JStr bt, JStr lt, JStr rt) \<Rightarrow>
                    if textPath C = Some path then merge_text_state C bt lt rt path cs
                    else ?conflict ValueConflict
                | (JObj bs, JObj ls, JObj rs) \<Rightarrow> mergeRecordStates (mergeValueStates C) bs ls rs path cs
                | (JArr bs, JArr ls, JArr rs) \<Rightarrow>
                    (case mergeStableArrayStates C (mergeValueStates C) (JArr bs) (JArr ls) (JArr rs) path cs of
                       Some result \<Rightarrow> result | None \<Rightarrow> ?conflict ValueConflict)
                | _ \<Rightarrow> ?conflict ValueConflict)
           | _ \<Rightarrow> ?conflict DeleteModify))"
    using False by (subst mergeValueStates.simps) (simp add: agree_pair_def)
  show thesis
  proof (cases b)
    case None
    show thesis
    proof (cases "\<exists>ls rs. l = Some (JObj ls) \<and> r = Some (JObj rs)")
      case True
      then show thesis using that(6) [OF False, of "[]"] None unfold by auto
    next
      case objects: False
      show thesis
      proof (cases "\<exists>ls rs. l = Some (JArr ls) \<and> r = Some (JArr rs)")
        case True
        then obtain ls rs where "l = Some (JArr ls)" "r = Some (JArr rs)" by blast
        then show thesis
          using that(7) [OF False, of "[]" ls rs] none [of ConcurrentAdd "[]"] None unfold
          by (cases "mergeStableArrayStates C (mergeValueStates C) (JArr []) (JArr ls) (JArr rs) path cs") auto
      next
        case arrays: False
        have "mergeValueStates C b l r path cs = ?conflict ConcurrentAdd"
          unfolding unfold using None objects arrays by (auto split: option.split json.split)
        then show thesis by (rule none)
      qed
    qed
  next
    case (Some b')
    show thesis
    proof (cases "\<exists>l' r'. l = Some l' \<and> r = Some r'")
      case True
      then obtain l' r' where sides: "l = Some l'" "r = Some r'" by blast
      consider (strings) bt lt rt where "b' = JStr bt" "l' = JStr lt" "r' = JStr rt"
        | (objects) bs ls rs where "b' = JObj bs" "l' = JObj ls" "r' = JObj rs"
        | (arrays) bs ls rs where "b' = JArr bs" "l' = JArr ls" "r' = JArr rs"
        | (mixed) "\<nexists>bt lt rt. b' = JStr bt \<and> l' = JStr lt \<and> r' = JStr rt"
          "\<nexists>bs ls rs. b' = JObj bs \<and> l' = JObj ls \<and> r' = JObj rs"
          "\<nexists>bs ls rs. b' = JArr bs \<and> l' = JArr ls \<and> r' = JArr rs"
        by blast
      then show thesis
      proof cases
        case strings
        then show thesis
          using that(5) [OF False, of bt lt rt] none [of ValueConflict "[]"] none [of TextConflict] Some sides unfold
          by (auto simp: merge_text_state_def split: if_splits text_merge.splits)
      next
        case objects
        then show thesis using that(6) [OF False, of bs ls rs] Some sides unfold by simp
      next
        case arrays
        then show thesis
          using that(7) [OF False, of bs ls rs] none [of ValueConflict "[]"] Some sides unfold
          by (cases "mergeStableArrayStates C (mergeValueStates C) (JArr bs) (JArr ls) (JArr rs) path cs") auto
      next
        case mixed
        have "mergeValueStates C b l r path cs = ?conflict ValueConflict"
          unfolding unfold using Some sides mixed by (auto split: json.split)
        then show thesis by (rule none)
      qed
    next
      case False
      have "mergeValueStates C b l r path cs = ?conflict DeleteModify"
        unfolding unfold using Some False by (auto split: option.split)
      then show thesis by (rule none)
    qed
  qed
qed

section \<open>Induction over a merge\<close>

definition states_size :: "json option \<Rightarrow> json option \<Rightarrow> json option \<Rightarrow> nat" where
  "states_size b l r = size_state b + size_state l + size_state r"

lemma merge_induct:
  assumes "\<And>b l r. (\<And>b' l' r'. states_size b' l' r' < states_size b l r \<Longrightarrow> P b' l' r') \<Longrightarrow> P b l r"
  shows "P b l r"
proof (induction "states_size b l r" arbitrary: b l r rule: less_induct)
  case less
  then show ?case using assms by blast
qed

lemma objects_smaller:
  assumes "b = Some (JObj bs) \<or> b = None \<and> bs = []" and "l = Some (JObj ls)" and "r = Some (JObj rs)"
  shows "states_size (map_of bs k) (map_of ls k) (map_of rs k) < states_size b l r"
proof -
  have "size_state (map_of bs k) \<le> size_state b"
    using assms(1) size_in_object [of bs k] by auto
  then show ?thesis
    using size_in_object [of ls k] size_in_object [of rs k] assms(2,3) by (simp add: states_size_def)
qed

lemma arrays_smaller:
  assumes "b = Some (JArr bs) \<or> b = None \<and> bs = []" and "l = Some (JArr ls)" and "r = Some (JArr rs)"
    and "indexStableIdArray (JArr bs) = Some bc" and "indexStableIdArray (JArr ls) = Some lc"
    and "indexStableIdArray (JArr rs) = Some rc"
  shows "states_size (map_of (valuesById bc) k) (map_of (valuesById lc) k) (map_of (valuesById rc) k) <
    states_size b l r"
proof -
  have "size_state (map_of (valuesById bc) k) \<le> size_state b"
    using assms(1,4) size_in_collection [OF assms(4), of k] by auto
  then show ?thesis
    using size_in_collection [OF assms(5), of k] size_in_collection [OF assms(6), of k] assms(2,3)
    by (simp add: states_size_def)
qed

theorem merge_appends: "prefix cs (snd (mergeValueStates C b l r path cs))"
proof (induction b l r arbitrary: path cs rule: merge_induct)
  case (1 b l r)
  have app: "appending (mergeValueStates C) f g h"
    if "\<And>k. states_size (f k) (g k) (h k) < states_size b l r" for f g h :: "string \<Rightarrow> json option"
    unfolding appending_def using 1 that by blast
  show ?case
  proof (cases rule: merge_cases [of l r C b path cs])
    case (Conflict kind ts)
    then show ?thesis using chooseConflictState_prefix(1) by simp
  next
    case (Objects bs ls rs)
    then show ?thesis
      using mergeRecordStates_prefix [OF app] objects_smaller by simp
  next
    case (Arrays bs ls rs)
    show ?thesis
    proof (rule mergeStableArrayStates_prefix)
      show "mergeStableArrayStates C (mergeValueStates C) (JArr bs) (JArr ls) (JArr rs) path cs =
          Some (fst (mergeValueStates C b l r path cs), snd (mergeValueStates C b l r path cs))"
        using Arrays(5) by simp
    qed (use app arrays_smaller [OF Arrays(2-4)] in blast)
  qed simp_all
qed

lemma appending_merge: "appending (mergeValueStates C) f g h"
  unfolding appending_def using merge_appends by blast

section \<open>Entities stay entities\<close>

lemma merge_same: "valueStatesEqual l r \<Longrightarrow> mergeValueStates C b l r path cs = (l, cs)"
  by (subst mergeValueStates.simps) simp

lemma merged_between_same:
  "merged_between (mergeValueStates C) b l r m cs cs' \<Longrightarrow> valueStatesEqual l r \<Longrightarrow> m = l"
  by (auto simp: merged_between_def merge_same)

lemma merge_objects_lookup:
  assumes "mergeRecordStates (mergeValueStates C) bs ls rs path cs = (m, cs')"
  obtains result where "m = Some (JObj result)" and "distinct (map fst result)" and "prefix cs cs'"
    and "\<And>k. map_of bs k = None \<and> map_of ls k = None \<and> map_of rs k = None \<and> map_of result k = None \<or>
      merged_between (mergeValueStates C) (map_of bs k) (map_of ls k) (map_of rs k) (map_of result k) cs cs'"
proof -
  let ?keys = "sorted_ids (map fst bs @ map fst ls @ map fst rs)"
  obtain result where loop: "merge_entries (mergeValueStates C) bs ls rs ?keys path cs = (result, cs')"
    and m: "m = Some (JObj result)"
    using assms by (auto simp: mergeRecordStates_def split: prod.splits)
  note facts = merge_entries_loop [OF appending_merge distinct_sorted_ids loop]
  have "map_of bs k = None \<and> map_of ls k = None \<and> map_of rs k = None \<and> map_of result k = None \<or>
      merged_between (mergeValueStates C) (map_of bs k) (map_of ls k) (map_of rs k) (map_of result k) cs cs'" for k
  proof (cases "k \<in> set ?keys")
    case False
    then have "map_of bs k = None" "map_of ls k = None" "map_of rs k = None"
      by (simp_all add: map_of_eq_None_iff)
    with False facts show ?thesis by blast
  qed (use facts in blast)
  with that m facts show thesis by blast
qed

lemma merge_entity:
  assumes "entity i b" and "entity i l" and "entity i r"
  shows "entity i (fst (mergeValueStates C b l r path cs))"
proof (cases rule: merge_cases [of l r C b path cs])
  case (Conflict kind ts)
  then show ?thesis
    using assms by (cases rule: chooseConflictState_cases [of kind path b l r C ts cs]) simp_all
next
  case (Objects bs ls rs)
  obtain m cs' where m: "mergeRecordStates (mergeValueStates C) bs ls rs path cs = (m, cs')" by (metis surj_pair)
  obtain result where result: "m = Some (JObj result)"
    and keys: "\<And>k. map_of bs k = None \<and> map_of ls k = None \<and> map_of rs k = None \<and> map_of result k = None \<or>
      merged_between (mergeValueStates C) (map_of bs k) (map_of ls k) (map_of rs k) (map_of result k) cs cs'"
    using merge_objects_lookup [OF m] by metis
  have ids: "map_of ls ''id'' = Some (JStr i)" "map_of rs ''id'' = Some (JStr i)"
    using assms(2,3) Objects(3,4) by (auto simp: entity_def)
  then have "map_of result ''id'' = Some (JStr i)"
    using keys [of "''id''"] merged_between_same by (fastforce simp: jsonValuesEqual_eq)
  then show ?thesis using Objects(5) m result by (simp add: entity_def)
next
  case (Text bt lt rt merged)
  then show ?thesis using assms(2) by (simp add: entity_def)
next
  case (Arrays bs ls rs)
  then show ?thesis using assms(2) by (simp add: entity_def)
qed (use assms in simp_all)

section \<open>No update is lost\<close>

text \<open>
  The contract of a three-way merge. At every place inside the values: where the remote side did
  not change the base, the merged value is that of the local side (\<open>kl\<close>), and where the local side
  did not, it is that of the remote side (\<open>kr\<close>).
\<close>

definition diff3 :: "bool \<Rightarrow> bool \<Rightarrow> json option \<Rightarrow> json option \<Rightarrow> json option \<Rightarrow> json option \<Rightarrow> bool" where
  "diff3 kl kr b l r m \<longleftrightarrow> wf_state m \<and>
     (\<forall>p. (kl \<longrightarrow> state_eqv (place_in r p) (place_in b p) \<longrightarrow> state_eqv (place_in m p) (place_in l p)) \<and>
          (kr \<longrightarrow> state_eqv (place_in l p) (place_in b p) \<longrightarrow> state_eqv (place_in m p) (place_in r p)))"

lemma diff3_local:
  assumes "wf_state l" and "wf_state r" and "state_eqv l r \<or> state_eqv r b"
  shows "diff3 kl kr b l r l"
proof -
  have "state_eqv (place_in l p) (place_in r p)" if "state_eqv (place_in l p) (place_in b p)" for p
    using that assms(3) place_eqv state_eqv_sym state_eqv_trans by metis
  then show ?thesis using assms(1) wf_place by (simp add: diff3_def)
qed

lemma diff3_remote:
  assumes "wf_state l" and "wf_state r" and "state_eqv l r \<or> state_eqv l b"
  shows "diff3 kl kr b l r r"
proof -
  have "state_eqv (place_in r p) (place_in l p)" if "state_eqv (place_in r p) (place_in b p)" for p
    using that assms(3) place_eqv state_eqv_sym state_eqv_trans by metis
  then show ?thesis using assms(2) wf_place by (simp add: diff3_def)
qed

lemma diff3_mono: "diff3 kl' kr' b l r m \<Longrightarrow> (kl \<Longrightarrow> kl') \<Longrightarrow> (kr \<Longrightarrow> kr') \<Longrightarrow> diff3 kl kr b l r m"
  unfolding diff3_def by blast

lemma diff3_wf: "diff3 kl kr b l r m \<Longrightarrow> wf_state m"
  by (simp add: diff3_def)

lemma diff3_absent: "diff3 kl kr None None None None"
  by (simp add: diff3_def)

lemma diff3_step:
  assumes "\<not> state_eqv l b" and "\<not> state_eqv r b" and "wf_state m"
    and "\<And>x. diff3 kl kr (child b x) (child l x) (child r x) (child m x)"
  shows "diff3 kl kr b l r m"
  unfolding diff3_def
proof (intro conjI allI)
  fix p
  show "kl \<longrightarrow> state_eqv (place_in r p) (place_in b p) \<longrightarrow> state_eqv (place_in m p) (place_in l p)"
    using assms(2,4) by (cases p) (auto simp: diff3_def)
  show "kr \<longrightarrow> state_eqv (place_in l p) (place_in b p) \<longrightarrow> state_eqv (place_in m p) (place_in r p)"
    using assms(1,4) by (cases p) (auto simp: diff3_def)
qed (rule assms(3))

lemma prefix_tight: "prefix cs c \<Longrightarrow> prefix c c' \<Longrightarrow> prefix c' cs \<Longrightarrow> c' = c"
  by (metis prefix_order.antisym prefix_order.trans)

text \<open>The merge of an entry between two lists of conflicts keeps the contract of the whole.\<close>

definition contract :: "merge_context \<Rightarrow> json option \<Rightarrow> json option \<Rightarrow> json option \<Rightarrow> bool" where
  "contract C b l r \<longleftrightarrow> (\<forall>path cs m cs'. mergeValueStates C b l r path cs = (m, cs') \<longrightarrow>
     diff3 (cs' = cs) (cs' = cs \<or> remote_wins C) b l r m)"

lemma contract_between:
  assumes "contract C b l r" and "merged_between (mergeValueStates C) b l r m cs cs'"
  shows "diff3 (cs' = cs) (cs' = cs \<or> remote_wins C) b l r m"
proof -
  obtain p c c' where merge: "mergeValueStates C b l r p c = (m, c')"
    and order: "prefix cs c" "prefix c c'" "prefix c' cs'"
    using assms(2) unfolding merged_between_def by blast
  have tight: "cs' = cs \<Longrightarrow> c' = c" using order prefix_tight by blast
  have "diff3 (c' = c) (c' = c \<or> remote_wins C) b l r m"
    using assms(1) merge unfolding contract_def by blast
  then show ?thesis by (rule diff3_mono) (use tight in auto)
qed

lemma objects_contract:
  assumes "b = Some (JObj bs) \<or> b = None \<and> bs = []" and "l = Some (JObj ls)" and "r = Some (JObj rs)"
    and "\<not> state_eqv l b" and "\<not> state_eqv r b"
    and "\<And>k. contract C (map_of bs k) (map_of ls k) (map_of rs k)"
    and "mergeRecordStates (mergeValueStates C) bs ls rs path cs = (m, cs')"
  shows "diff3 (cs' = cs) (cs' = cs \<or> remote_wins C) b l r m"
proof -
  obtain result where m: "m = Some (JObj result)" "distinct (map fst result)"
    and keys: "\<And>k. map_of bs k = None \<and> map_of ls k = None \<and> map_of rs k = None \<and> map_of result k = None \<or>
      merged_between (mergeValueStates C) (map_of bs k) (map_of ls k) (map_of rs k) (map_of result k) cs cs'"
    using merge_objects_lookup [OF assms(7)] by metis
  have each: "diff3 (cs' = cs) (cs' = cs \<or> remote_wins C) (map_of bs k) (map_of ls k) (map_of rs k) (map_of result k)" for k
    using keys [of k] contract_between [OF assms(6)] diff3_absent by metis
  have base: "child b (Key k) = map_of bs k" "child b (Ident i) = None" for k i
    using assms(1) by auto
  have "wf_state (map_of result k)" for k using each by (rule diff3_wf)
  then have "wf_state m"
    using m(2) unfolding m(1) wf_state_simps wf_json_JObj_iff by (simp add: wf_state_def)
  then show ?thesis
  proof (rule diff3_step [OF assms(4,5)])
    fix x show "diff3 (cs' = cs) (cs' = cs \<or> remote_wins C) (child b x) (child l x) (child r x) (child m x)"
      using each diff3_absent by (cases x) (simp_all add: base assms(2,3) m(1))
  qed
qed

lemma arrays_contract:
  assumes "b = Some (JArr bs) \<or> b = None \<and> bs = []" and "l = Some (JArr ls)" and "r = Some (JArr rs)"
    and "\<not> state_eqv l b" and "\<not> state_eqv r b"
    and contract: "\<And>bc lc rc k. indexStableIdArray (JArr bs) = Some bc \<Longrightarrow> indexStableIdArray (JArr ls) = Some lc \<Longrightarrow>
      indexStableIdArray (JArr rs) = Some rc \<Longrightarrow>
      contract C (map_of (valuesById bc) k) (map_of (valuesById lc) k) (map_of (valuesById rc) k)"
    and "mergeStableArrayStates C (mergeValueStates C) (JArr bs) (JArr ls) (JArr rs) path cs = Some (m, cs')"
  shows "diff3 (cs' = cs) (cs' = cs \<or> remote_wins C) b l r m"
  using assms(7)
proof (rule mergeStableArrayStates_parts)
  fix bc lc rc result cs1 ids
  assume cols: "indexStableIdArray (JArr bs) = Some bc" "indexStableIdArray (JArr ls) = Some lc"
      "indexStableIdArray (JArr rs) = Some rc"
    and loop: "merge_entries (mergeValueStates C) (valuesById bc) (valuesById lc) (valuesById rc)
      (sorted_ids (order_of bc @ order_of lc @ order_of rc)) (stableIdArrayPointer path) cs = (result, cs1)"
    and m: "m = Some (JArr (List.map_filter (map_of result) ids))" and cs1: "prefix cs1 cs'"
    and ids: "distinct ids" "set ids = set (order_of bc @ order_of lc @ order_of rc)"
  note facts = merge_entries_loop [OF appending_merge distinct_sorted_ids loop]
  let ?b = "map_of (valuesById bc)" and ?l = "map_of (valuesById lc)" and ?r = "map_of (valuesById rc)"
  have in_ids: "i \<in> set ids \<longleftrightarrow> ?b i \<noteq> None \<or> ?l i \<noteq> None \<or> ?r i \<noteq> None" for i
    unfolding ids(2) using collection_entries(1) [OF cols(1)] collection_entries(1) [OF cols(2)]
      collection_entries(1) [OF cols(3)] by (simp add: map_of_eq_None_iff)
  have between: "merged_between (mergeValueStates C) (?b i) (?l i) (?r i) (map_of result i) cs cs'" if "i \<in> set ids" for i
  proof -
    have "i \<in> set (sorted_ids (order_of bc @ order_of lc @ order_of rc))" using that ids(2) by simp
    then have "merged_between (mergeValueStates C) (?b i) (?l i) (?r i) (map_of result i) cs cs1"
      using facts by blast
    then show ?thesis using cs1 by (rule merged_between_mono)
  qed
  have outside: "map_of result i = None" if "i \<notin> set ids" for i
    using facts that ids(2) by simp
  have each: "diff3 (cs' = cs) (cs' = cs \<or> remote_wins C) (?b i) (?l i) (?r i) (map_of result i)" for i
  proof (cases "i \<in> set ids")
    case True
    then show ?thesis using contract_between [OF contract [OF cols]] between by blast
  next
    case False
    then have "?b i = None" "?l i = None" "?r i = None" using in_ids by blast+
    with outside [OF False] diff3_absent show ?thesis by simp
  qed
  have entity: "entity i (map_of result i)" if i: "i \<in> set ids" for i
  proof -
    obtain p c c' where "mergeValueStates C (?b i) (?l i) (?r i) p c = (map_of result i, c')"
      using between [OF i] unfolding merged_between_def by blast
    with merge_entity [of i "?b i" "?l i" "?r i" C p c] show ?thesis
      using entity_in_collection [OF cols(1)] entity_in_collection [OF cols(2)]
        entity_in_collection [OF cols(3)] by simp
  qed
  have "js_trim i \<noteq> []" if "i \<in> set ids" for i
    using that ids(2) collection_entries(4) [OF cols(1)] collection_entries(4) [OF cols(2)]
      collection_entries(4) [OF cols(3)] by auto
  then obtain mc where mc: "indexStableIdArray (JArr (List.map_filter (map_of result) ids)) = Some mc"
    "\<And>i. map_of (valuesById mc) i = (if i \<in> set ids \<and> map_of result i \<noteq> None then map_of result i else None)"
    using index_found [OF ids(1), of "map_of result" "\<lparr>order_of = [], valuesById = []\<rparr>"] entity by auto
  have merged: "child m (Ident i) = map_of result i" "child m (Key k) = None" for i k
    using mc outside by (auto simp: m)
  have base: "child b (Ident i) = ?b i" "child b (Key k) = None" for i k
    using assms(1) cols(1) by auto
  have "wf_state m"
    unfolding m using each by (auto simp: diff3_def List.map_filter_def wf_state_def)
  then show ?thesis
  proof (rule diff3_step [OF assms(4,5)])
    fix x show "diff3 (cs' = cs) (cs' = cs \<or> remote_wins C) (child b x) (child l x) (child r x) (child m x)"
      using each diff3_absent cols
      by (cases x) (simp_all add: base merged assms(2,3) del: indexStableIdArray.simps)
  qed
qed

theorem merge_contract:
  "wf_state b \<Longrightarrow> wf_state l \<Longrightarrow> wf_state r \<Longrightarrow> contract C b l r"
proof (induction b l r rule: merge_induct)
  case (1 b l r)
  note equal = valueStatesEqual_eqv [OF "1.prems"(2,3)] valueStatesEqual_eqv [OF "1.prems"(2,1)]
    valueStatesEqual_eqv [OF "1.prems"(3,1)]
  show ?case
    unfolding contract_def
  proof (intro allI impI)
    fix path cs m cs'
    assume m: "mergeValueStates C b l r path cs = (m, cs')"
    show "diff3 (cs' = cs) (cs' = cs \<or> remote_wins C) b l r m"
    proof (cases rule: merge_cases [of l r C b path cs])
      case Same
      then show ?thesis using m diff3_local [OF "1.prems"(2,3)] equal by simp
    next
      case Mine
      then show ?thesis using m diff3_remote [OF "1.prems"(2,3)] equal by simp
    next
      case Theirs
      then show ?thesis using m diff3_local [OF "1.prems"(2,3)] equal by simp
    next
      case (Conflict kind ts)
      have choice: "chooseConflictState kind path b l r C ts cs = (m, cs')" using m Conflict by simp
      then have "cs' \<noteq> cs" using chooseConflictState_prefix(2) by (metis snd_conv)
      moreover have "wf_state m \<and> (remote_wins C \<longrightarrow> m = r)"
        using choice "1.prems" by (cases rule: chooseConflictState_cases [of kind path b l r C ts cs]) auto
      ultimately show ?thesis using wf_place by (auto simp: diff3_def)
    next
      case (Text bt lt rt merged)
      have leaf: "child (Some (JStr s)) x = None" for s x by (cases x) simp_all
      have changed: "\<not> state_eqv l b" "\<not> state_eqv r b"
        using Text(1) equal by (simp_all add: agree_pair_def)
      have "m = Some (JStr merged)" using Text(5) m by simp
      then show ?thesis
        using diff3_step [OF changed, of m] by (simp add: Text(2-4) leaf diff3_absent)
    next
      case (Objects bs ls rs)
      have "wf_state (map_of bs k)" "wf_state (map_of ls k)" "wf_state (map_of rs k)" for k
        using Objects(2-4) "1.prems" wf_child [of b "Key k"] wf_child [of l "Key k"] wf_child [of r "Key k"] by auto
      then have "contract C (map_of bs k) (map_of ls k) (map_of rs k)" for k
        by (rule 1(1) [OF objects_smaller [OF Objects(2-4)]])
      then show ?thesis
        using objects_contract [OF Objects(2-4)] Objects(1,5) m equal by (simp add: agree_pair_def)
    next
      case (Arrays bs ls rs)
      have "contract C (map_of (valuesById bc) k) (map_of (valuesById lc) k) (map_of (valuesById rc) k)"
        if "indexStableIdArray (JArr bs) = Some bc" "indexStableIdArray (JArr ls) = Some lc"
          "indexStableIdArray (JArr rs) = Some rc" for bc lc rc k
      proof (rule 1(1) [OF arrays_smaller [OF Arrays(2-4) that]])
        have "wf_json (JArr bs)" "wf_json (JArr ls)" "wf_json (JArr rs)"
          using Arrays(2-4) "1.prems" by auto
        then show "wf_state (map_of (valuesById bc) k)" "wf_state (map_of (valuesById lc) k)"
          "wf_state (map_of (valuesById rc) k)"
          using wf_in_collection that by blast+
      qed
      then show ?thesis
        using arrays_contract [OF Arrays(2-4)] Arrays(1,5) m equal by (simp add: agree_pair_def)
    qed
  qed
qed

end
