(* ===== verification/RebaseLaws.thy ===== *)
theory RebaseLaws
  imports ThreeWayLaws
begin

text \<open>
  The laws of the merge of documents and workspaces, and of the automatic rebase: the contract of
  the merged values carries over to the parts of the candidate, the selected document of the
  candidate exists, and a rebase returns only snapshots that the validator accepts.
\<close>

section \<open>Members of spread objects\<close>

lemma map_of_spread_list:
  "map_of (foldl (\<lambda>kvs (k, v). alist_put k v kvs) xs ys) k =
     (case map_of (rev ys) k of None \<Rightarrow> map_of xs k | Some v \<Rightarrow> Some v)"
  by (induction ys arbitrary: xs) (auto simp: map_add_Some_iff map_add_def split: option.splits if_splits)

lemma own_put_member: "own (put_member k v (JObj kvs)) j = (if j = k then Some v else map_of kvs j)"
  by (simp add: put_member_def spread_def)

lemma put_member_object: "\<exists>kvs'. put_member k v (JObj kvs) = JObj kvs'"
  by (simp add: put_member_def spread_def)

lemma isRecord_put_member: "isRecord (put_member k v a) \<longleftrightarrow> isRecord a"
  by (cases a) (auto simp: put_member_def spread_def)

lemma own_put: "isRecord a \<Longrightarrow> own (put_member k v a) j = (if j = k then Some v else own a j)"
  by (cases a) (simp_all add: own_put_member)

section \<open>Documents\<close>

lemma merge_snd: "mergeValueStates C b l r p cs = (m, cs') \<Longrightarrow> prefix cs cs'"
  using merge_appends [of cs C b l r p] by simp

lemma choose_snd: "chooseConflictState kind path b l r C ts cs = (m, cs') \<Longrightarrow> prefix cs cs' \<and> cs' \<noteq> cs"
  using chooseConflictState_prefix by (metis snd_conv)

definition content_context :: "(string \<times> resolution_choice) list \<Rightarrow> json \<Rightarrow> json \<Rightarrow> merge_context" where
  "content_context res l r =
     \<lparr>resolutions = res, describe_target = documentTarget r AreaContent (local_language l),
      textPath = (if own r ''type'' = Some (JStr ''code'') then Some ''/source'' else None)\<rparr>"

definition metadata_context :: "(string \<times> resolution_choice) list \<Rightarrow> json \<Rightarrow> json \<Rightarrow> merge_context" where
  "metadata_context res l r =
     \<lparr>resolutions = res, describe_target = documentTarget r AreaMetadata (local_language l), textPath = None\<rparr>"

text \<open>The two steps of the merge of a document that all sides have.\<close>

lemma mergeDocument_steps:
  assumes "mergeDocument (Some b) (Some l) (Some r) res cs forced = (d, cs')"
  obtains m cs1 c where
    "mergeValueStates (metadata_context res l r) (Some (metadata_value b)) (Some (metadata_value l))
       (Some (metadata_value r)) '''' cs = (m, cs1)"
    and "(if forced \<and> \<not> valueStatesEqual (Some (member l ''content'')) (Some (member r ''content''))
       then chooseConflictState Structural '''' (Some (member b ''content'')) (Some (member l ''content''))
         (Some (member r ''content'')) (content_context res l r) [] cs1
       else mergeValueStates (content_context res l r) (Some (member b ''content''))
         (Some (member l ''content'')) (Some (member r ''content'')) '''' cs1) = (c, cs')"
    and "d = (case (m, c) of (Some (JObj kvs), Some v) \<Rightarrow> Some (put_member ''content'' v (spread r (JObj kvs)))
      | _ \<Rightarrow> None)"
proof -
  obtain m cs1 where first: "mergeValueStates (metadata_context res l r) (Some (metadata_value b))
      (Some (metadata_value l)) (Some (metadata_value r)) '''' cs = (m, cs1)"
    by (metis surj_pair)
  obtain c cs2 where second: "(if forced \<and> \<not> valueStatesEqual (Some (member l ''content'')) (Some (member r ''content''))
       then chooseConflictState Structural '''' (Some (member b ''content'')) (Some (member l ''content''))
         (Some (member r ''content'')) (content_context res l r) [] cs1
       else mergeValueStates (content_context res l r) (Some (member b ''content''))
         (Some (member l ''content'')) (Some (member r ''content'')) '''' cs1) = (c, cs2)"
    by (metis surj_pair)
  have "mergeDocument (Some b) (Some l) (Some r) res cs forced =
      (case (m, c) of (Some (JObj kvs), Some v) \<Rightarrow> Some (put_member ''content'' v (spread r (JObj kvs)))
       | _ \<Rightarrow> None, cs2)"
    by (simp only: mergeDocument_def Let_def option.case prod.case first [unfolded metadata_context_def]
        second [unfolded content_context_def])
  with assms have "cs2 = cs'" "d = (case (m, c) of
      (Some (JObj kvs), Some v) \<Rightarrow> Some (put_member ''content'' v (spread r (JObj kvs))) | _ \<Rightarrow> None)"
    by (simp_all only: prod.inject)
  with first second that show thesis by blast
qed

lemma mergeDocument_prefix: "prefix cs (snd (mergeDocument b l r res cs forced))"
proof (cases "\<exists>b' l' r'. b = Some b' \<and> l = Some l' \<and> r = Some r'")
  case True
  then obtain b' l' r' where sides: "b = Some b'" "l = Some l'" "r = Some r'" by blast
  obtain d cs' where merge: "mergeDocument b l r res cs forced = (d, cs')" by (metis surj_pair)
  show ?thesis
    using merge unfolding sides
  proof (rule mergeDocument_steps)
    fix m cs1 c
    assume first: "mergeValueStates (metadata_context res l' r') (Some (metadata_value b'))
        (Some (metadata_value l')) (Some (metadata_value r')) '''' cs = (m, cs1)"
      and second: "(if forced \<and> \<not> valueStatesEqual (Some (member l' ''content'')) (Some (member r' ''content''))
       then chooseConflictState Structural '''' (Some (member b' ''content'')) (Some (member l' ''content''))
         (Some (member r' ''content'')) (content_context res l' r') [] cs1
       else mergeValueStates (content_context res l' r') (Some (member b' ''content''))
         (Some (member l' ''content'')) (Some (member r' ''content'')) '''' cs1) = (c, cs')"
    have "prefix cs1 cs'" using second choose_snd merge_snd by (auto split: if_splits)
    with merge_snd [OF first] have "prefix cs cs'" by (rule prefix_order.trans)
    with merge show "prefix cs (snd (mergeDocument (Some b') (Some l') (Some r') res cs forced))"
      by (simp add: sides)
  qed
next
  case False
  have appended: "prefix cs (snd (let (merged, cs1) = mergeValueStates C x y z '''' cs in (f merged, cs1)))"
    for C x y z and f :: "json option \<Rightarrow> json option"
    using merge_appends [of cs C x y z "''''"] by (simp add: case_prod_unfold Let_def)
  show ?thesis
    using False appended by (cases b; cases l; cases r) (simp_all add: mergeDocument_def)
qed

text \<open>The contract holds for the content of the merged document.\<close>

lemma mergeDocument_content:
  assumes "mergeDocument (Some b) (Some l) (Some r) res cs forced = (Some d, cs')" and "isRecord r"
    and "wf_json (member b ''content'')" and "wf_json (member l ''content'')" and "wf_json (member r ''content'')"
  shows "diff3 (cs' = cs) (cs' = cs \<or> remote_wins (content_context res l r)) (Some (member b ''content''))
    (Some (member l ''content'')) (Some (member r ''content'')) (own d ''content'')"
  using assms(1)
proof (rule mergeDocument_steps)
  fix m cs1 c
  let ?C = "content_context res l r"
  let ?b = "Some (member b ''content'')" and ?l = "Some (member l ''content'')" and ?r = "Some (member r ''content'')"
  assume first: "mergeValueStates (metadata_context res l r) (Some (metadata_value b)) (Some (metadata_value l))
      (Some (metadata_value r)) '''' cs = (m, cs1)"
    and second: "(if forced \<and> \<not> valueStatesEqual ?l ?r then chooseConflictState Structural '''' ?b ?l ?r ?C [] cs1
       else mergeValueStates ?C ?b ?l ?r '''' cs1) = (c, cs')"
    and "Some d = (case (m, c) of (Some (JObj kvs), Some v) \<Rightarrow> Some (put_member ''content'' v (spread r (JObj kvs)))
      | _ \<Rightarrow> None)"
  then obtain kvs v where parts: "m = Some (JObj kvs)" "c = Some v"
    "d = put_member ''content'' v (spread r (JObj kvs))"
    by (auto split: option.splits json.splits)
  have "isRecord (spread r (JObj kvs))" using assms(2) by (cases r) (simp_all add: spread_def)
  then have content: "own d ''content'' = c" unfolding parts by (simp add: own_put)
  have "prefix cs1 cs'" using second choose_snd merge_snd by (auto split: if_splits)
  then have tight: "cs' = cs \<Longrightarrow> cs1 = cs" using merge_snd [OF first] prefix_order.antisym by blast
  have wf: "wf_state ?b" "wf_state ?l" "wf_state ?r" using assms(3-5) by simp_all
  have "diff3 (cs' = cs1) (cs' = cs1 \<or> remote_wins ?C) ?b ?l ?r c"
  proof (cases "forced \<and> \<not> valueStatesEqual ?l ?r")
    case True
    then have choice: "chooseConflictState Structural '''' ?b ?l ?r ?C [] cs1 = (c, cs')" using second by simp
    have "wf_state c \<and> (remote_wins ?C \<longrightarrow> c = ?r)"
      using choice wf by (cases rule: chooseConflictState_cases [of Structural "''''" ?b ?l ?r ?C "[]" cs1]) auto
    then show ?thesis using choose_snd [OF choice] wf_place by (auto simp: diff3_def)
  next
    case False
    then show ?thesis using second merge_contract [OF wf] unfolding contract_def by (auto split: if_splits)
  qed
  then show ?thesis unfolding content by (rule diff3_mono) (use tight in auto)
qed

section \<open>The candidate of a workspace merge\<close>

lemma merge_present:
  "\<exists>v. fst (mergeValueStates C (Some b) (Some l) (Some r) path cs) = Some v \<and>
     (isRecord b \<and> isRecord l \<and> isRecord r \<longrightarrow> isRecord v)"
proof (cases rule: merge_cases [of "Some l" "Some r" C "Some b" path cs])
  case (Conflict kind ts)
  then show ?thesis
    by (cases rule: chooseConflictState_cases [of kind path "Some b" "Some l" "Some r" C ts cs]) auto
next
  case (Objects bs ls rs)
  then show ?thesis by (simp add: mergeRecordStates_def case_prod_unfold Let_def)
next
  case (Arrays bs ls rs)
  obtain m cs' where m: "mergeValueStates C (Some b) (Some l) (Some r) path cs = (m, cs')" by (metis surj_pair)
  show ?thesis
    using Arrays(5) unfolding m
    by (rule mergeStableArrayStates_parts) (use Arrays(3) in auto)
qed auto

text \<open>What the parts of the candidate are.\<close>

lemma mergeWorkspace_parts:
  assumes "mergeWorkspace base mine theirs lc rc res = (candidate, cs')" and "isRecord theirs"
  obtains tree cs1 route cs2 docs where
    "mergeValueStates \<lparr>resolutions = res, describe_target = workspaceTarget, textPath = None\<rparr>
       (Some (tree_value base)) (Some (tree_value mine)) (Some (tree_value theirs)) '''' [] = (tree, cs1)"
    and "mergeValueStates \<lparr>resolutions = res, describe_target = routeTarget, textPath = None\<rparr>
       (Some (member base ''routeManifest'')) (Some (member mine ''routeManifest''))
       (Some (member theirs ''routeManifest'')) '''' cs1 = (route, cs2)"
    and "merge_documents base mine theirs res (structurallyConflictedDocumentIds lc rc) cs2 = (docs, cs')"
    and "own candidate ''docsById'' = Some (JObj docs)"
    and "own candidate ''routeManifest'' = Some (or_else route (member theirs ''routeManifest''))"
    and "own candidate ''treeById'' = Some (JObj (foldl
      (\<lambda>nodes documentId. restoreLocalDocumentMount
         (case own (case tree of Some (JObj kvs) \<Rightarrow> JObj kvs | _ \<Rightarrow> JObj []) ''treeRootId'' of
            Some (JStr i) \<Rightarrow> i | _ \<Rightarrow> text_member theirs ''treeRootId'') nodes mine documentId)
      (case own (case tree of Some (JObj kvs) \<Rightarrow> JObj kvs | _ \<Rightarrow> JObj []) ''treeById'' of
         Some (JObj nodes) \<Rightarrow> nodes | _ \<Rightarrow> nodes_of theirs)
      (List.map_filter (kept_document theirs docs res) cs')))"
    and "own candidate ''activeDocumentId'' = map_option JStr (active_document mine theirs docs)"
    and "own candidate ''id'' = own theirs ''id''"
proof -
  obtain tree cs1 where tree: "mergeValueStates \<lparr>resolutions = res, describe_target = workspaceTarget, textPath = None\<rparr>
      (Some (tree_value base)) (Some (tree_value mine)) (Some (tree_value theirs)) '''' [] = (tree, cs1)"
    by (metis surj_pair)
  obtain route cs2 where route: "mergeValueStates \<lparr>resolutions = res, describe_target = routeTarget, textPath = None\<rparr>
      (Some (member base ''routeManifest'')) (Some (member mine ''routeManifest''))
      (Some (member theirs ''routeManifest'')) '''' cs1 = (route, cs2)"
    by (metis surj_pair)
  obtain docs cs3 where docs:
    "merge_documents base mine theirs res (structurallyConflictedDocumentIds lc rc) cs2 = (docs, cs3)"
    by (metis surj_pair)
  have removed: "isRecord (remove_member k theirs) \<and>
      own (remove_member k theirs) j = (if j = k then None else own theirs j)" for j k
    using assms(2) by (cases theirs) (simp_all add: remove_member_def)
  have "snd (mergeWorkspace base mine theirs lc rc res) = cs3"
    by (simp add: mergeWorkspace_def Let_def tree route docs)
  then have candidate: "candidate = fst (mergeWorkspace base mine theirs lc rc res)" "cs' = cs3"
    using assms(1) by simp_all
  note simps = mergeWorkspace_def Let_def tree route docs isRecord_put_member own_put removed
  show thesis
    by (rule that [OF tree route docs [folded candidate(2)]])
      (simp_all add: candidate simps split: option.split)
qed

section \<open>No conflict, no lost update\<close>

text \<open>The snapshots of the synchronisation, with the members their type requires.\<close>

definition typed_snapshot :: "json \<Rightarrow> bool" where
  "typed_snapshot s \<longleftrightarrow> wf_json s \<and> isRecord s \<and> isRecord (member s ''treeById'') \<and>
     isRecord (member s ''docsById'') \<and> own s ''routeManifest'' \<noteq> None \<and>
     (\<forall>e \<in> set (docs_of s). isRecord (snd e))"

lemma wf_member: "wf_json s \<Longrightarrow> wf_json (member s k)"
  by (cases s) (auto simp: member_def or_else_def split: option.split dest: map_of_SomeD)

lemma wf_tree_value: "wf_json s \<Longrightarrow> wf_json (tree_value s)"
  by (simp add: tree_value_def wf_member)

lemma wf_document: "wf_json s \<Longrightarrow> map_of (docs_of s) i = Some d \<Longrightarrow> wf_json d"
  using wf_member [of s "''docsById''"]
  by (auto simp: docs_of_def member_def or_else_def split: option.splits json.splits dest: map_of_SomeD)

lemma remote_wins_Nil [simp]:
  "remote_wins \<lparr>resolutions = [], describe_target = f, textPath = t\<rparr>" "remote_wins (content_context [] l r)"
  by (simp_all add: remote_wins_def content_context_def)

text \<open>
  What a merge without resolutions keeps of a part: at every place the remote side yields to an
  unchanged local side, and the other way round where no conflict was recorded.
\<close>

definition part_kept :: "bool \<Rightarrow> json option \<Rightarrow> json option \<Rightarrow> json option \<Rightarrow> json option \<Rightarrow> bool" where
  "part_kept clean b l r m \<longleftrightarrow> diff3 clean True b l r m"

lemma merge_part_kept:
  assumes "mergeValueStates C b l r path cs = (m, cs')" and "remote_wins C"
    and "wf_state b" and "wf_state l" and "wf_state r" and "clean \<Longrightarrow> cs' = cs"
  shows "part_kept clean b l r m"
  using merge_contract [OF assms(3-5), of C] assms(1,2,6) unfolding contract_def part_kept_def
  by (blast intro: diff3_mono)

lemma merge_documents_prefix: "prefix cs (snd (merge_documents base mine theirs res forced cs))"
proof -
  obtain docs cs' where docs: "merge_documents base mine theirs res forced cs = (docs, cs')" by (metis surj_pair)
  have "prefix cs cs'"
    using collect_entries_loop [OF mergeDocument_prefix distinct_sorted_ids docs [unfolded merge_documents_def]]
    by blast
  with docs show ?thesis by simp
qed

lemma part_kept_child:
  "part_kept clean b l r m \<Longrightarrow> part_kept clean (child b x) (child l x) (child r x) (child m x)"
  unfolding part_kept_def diff3_def using wf_child by (metis place_in.simps(2))

text \<open>Members that are objects on all sides stay objects.\<close>

lemma merge_member_record:
  assumes "mergeValueStates C (Some b) (Some l) (Some r) path cs = (m, cs')"
    and "isRecord b" and "\<exists>v. own b k = Some v \<and> isRecord v"
    and "isRecord l" and "\<exists>v. own l k = Some v \<and> isRecord v"
    and "isRecord r" and "\<exists>v. own r k = Some v \<and> isRecord v"
  shows "\<exists>v. m \<noteq> None \<and> isRecord (the m) \<and> own (the m) k = Some v \<and> isRecord v"
proof (cases rule: merge_cases [of "Some l" "Some r" C "Some b" path cs])
  case (Conflict kind ts)
  then show ?thesis
    using assms by (cases rule: chooseConflictState_cases [of kind path "Some b" "Some l" "Some r" C ts cs]) auto
next
  case (Objects bs ls rs)
  have records: "mergeRecordStates (mergeValueStates C) bs ls rs path cs = (m, cs')" using Objects(5) assms(1) by simp
  obtain result where result: "m = Some (JObj result)"
    and keys: "\<And>k. map_of bs k = None \<and> map_of ls k = None \<and> map_of rs k = None \<and> map_of result k = None \<or>
      merged_between (mergeValueStates C) (map_of bs k) (map_of ls k) (map_of rs k) (map_of result k) cs cs'"
    using merge_objects_lookup [OF records] by metis
  obtain vb vl vr where vs: "map_of bs k = Some vb" "map_of ls k = Some vl" "map_of rs k = Some vr"
    "isRecord vb" "isRecord vl" "isRecord vr"
    using assms(3,5,7) Objects(2-4) by auto
  then obtain p c c' where "mergeValueStates C (Some vb) (Some vl) (Some vr) p c = (map_of result k, c')"
    using keys [of k] unfolding merged_between_def by auto
  then obtain v where "map_of result k = Some v" "isRecord v"
    using merge_present [of C vb vl vr p c] vs(4-6) by auto
  then show ?thesis by (simp add: result)
qed (use assms in auto)

lemma mergeDocument_present: "fst (mergeDocument (Some b) (Some l) (Some r) res cs forced) \<noteq> None"
proof -
  obtain d cs' where merge: "mergeDocument (Some b) (Some l) (Some r) res cs forced = (d, cs')" by (metis surj_pair)
  from merge show ?thesis
  proof (rule mergeDocument_steps)
    fix m cs1 c
    let ?C = "content_context res l r"
    let ?b = "Some (member b ''content'')" and ?l = "Some (member l ''content'')" and ?r = "Some (member r ''content'')"
    assume first: "mergeValueStates (metadata_context res l r) (Some (metadata_value b)) (Some (metadata_value l))
        (Some (metadata_value r)) '''' cs = (m, cs1)"
      and second: "(if forced \<and> \<not> valueStatesEqual ?l ?r then chooseConflictState Structural '''' ?b ?l ?r ?C [] cs1
         else mergeValueStates ?C ?b ?l ?r '''' cs1) = (c, cs')"
      and d: "d = (case (m, c) of (Some (JObj kvs), Some v) \<Rightarrow> Some (put_member ''content'' v (spread r (JObj kvs)))
        | _ \<Rightarrow> None)"
    have "\<exists>v. m = Some v \<and> isRecord v"
      using merge_present [of "metadata_context res l r" "metadata_value b" "metadata_value l" "metadata_value r" "''''" cs]
      unfolding first by (simp add: metadata_value_def)
    then obtain kvs where m: "m = Some (JObj kvs)" by (metis isRecord.elims(2))
    have "\<exists>v. c = Some v"
    proof (cases "forced \<and> \<not> valueStatesEqual ?l ?r")
      case True
      then have choice: "chooseConflictState Structural '''' ?b ?l ?r ?C [] cs1 = (c, cs')" using second by simp
      then show ?thesis
        by (cases rule: chooseConflictState_cases [of Structural "''''" ?b ?l ?r ?C "[]" cs1]) auto
    next
      case False
      then have "mergeValueStates ?C ?b ?l ?r '''' cs1 = (c, cs')" using second by (auto split: if_splits)
      then show ?thesis
        using merge_present [of ?C "member b ''content''" "member l ''content''" "member r ''content''" "''''" cs1]
        by auto
    qed
    with m d merge show "fst (mergeDocument (Some b) (Some l) (Some r) res cs forced) \<noteq> None" by auto
  qed
qed

theorem candidate_keeps:
  assumes "mergeWorkspace base mine theirs lc rc [] = (candidate, cs)"
    and "typed_snapshot base" and "typed_snapshot mine" and "typed_snapshot theirs"
  shows "part_kept (cs = []) (own base ''routeManifest'') (own mine ''routeManifest'')
      (own theirs ''routeManifest'') (own candidate ''routeManifest'')"
    and "part_kept (cs = []) (own base ''treeById'') (own mine ''treeById'')
      (own theirs ''treeById'') (own candidate ''treeById'')"
    and "map_of (docs_of base) i = Some b \<Longrightarrow> map_of (docs_of mine) i = Some l \<Longrightarrow>
      map_of (docs_of theirs) i = Some r \<Longrightarrow>
      \<exists>d. map_of (docs_of candidate) i = Some d \<and>
        part_kept (cs = []) (Some (member b ''content'')) (Some (member l ''content''))
          (Some (member r ''content'')) (own d ''content'')"
proof -
  have records: "isRecord theirs" using assms(4) by (simp add: typed_snapshot_def)
  have wf: "wf_json base" "wf_json mine" "wf_json theirs"
    using assms(2-4) by (simp_all add: typed_snapshot_def)
  obtain tree cs1 route cs2 docs where
    tree: "mergeValueStates \<lparr>resolutions = [], describe_target = workspaceTarget, textPath = None\<rparr>
       (Some (tree_value base)) (Some (tree_value mine)) (Some (tree_value theirs)) '''' [] = (tree, cs1)"
    and route: "mergeValueStates \<lparr>resolutions = [], describe_target = routeTarget, textPath = None\<rparr>
       (Some (member base ''routeManifest'')) (Some (member mine ''routeManifest''))
       (Some (member theirs ''routeManifest'')) '''' cs1 = (route, cs2)"
    and docs: "merge_documents base mine theirs [] (structurallyConflictedDocumentIds lc rc) cs2 = (docs, cs)"
    and members: "own candidate ''docsById'' = Some (JObj docs)"
      "own candidate ''routeManifest'' = Some (or_else route (member theirs ''routeManifest''))"
      "own candidate ''treeById'' = Some (JObj (foldl
        (\<lambda>nodes documentId. restoreLocalDocumentMount
           (case own (case tree of Some (JObj kvs) \<Rightarrow> JObj kvs | _ \<Rightarrow> JObj []) ''treeRootId'' of
              Some (JStr i) \<Rightarrow> i | _ \<Rightarrow> text_member theirs ''treeRootId'') nodes mine documentId)
        (case own (case tree of Some (JObj kvs) \<Rightarrow> JObj kvs | _ \<Rightarrow> JObj []) ''treeById'' of
           Some (JObj nodes) \<Rightarrow> nodes | _ \<Rightarrow> nodes_of theirs)
        (List.map_filter (kept_document theirs docs []) cs)))"
    by (rule mergeWorkspace_parts [OF assms(1) records])
  have "prefix cs2 cs" using merge_documents_prefix docs by (metis snd_conv)
  with merge_snd [OF route] have empty: "cs = [] \<Longrightarrow> cs1 = [] \<and> cs2 = []" by auto
  have route_members: "own s ''routeManifest'' = Some (member s ''routeManifest'')"
    if "typed_snapshot s" for s
    using that by (auto simp: typed_snapshot_def member_def)
  have "part_kept (cs = []) (Some (member base ''routeManifest'')) (Some (member mine ''routeManifest''))
      (Some (member theirs ''routeManifest'')) route"
    by (rule merge_part_kept [OF route]) (use wf empty in \<open>auto simp: wf_member\<close>)
  moreover have "route = Some (or_else route (member theirs ''routeManifest''))"
    using merge_present route by (metis fst_conv or_else_simps(2))
  ultimately show "part_kept (cs = []) (own base ''routeManifest'') (own mine ''routeManifest'')
      (own theirs ''routeManifest'') (own candidate ''routeManifest'')"
    by (simp add: members route_members assms(2-4))
  have "part_kept (cs = []) (Some (tree_value base)) (Some (tree_value mine)) (Some (tree_value theirs)) tree"
    by (rule merge_part_kept [OF tree]) (use wf empty in \<open>auto simp: wf_tree_value\<close>)
  note kept_child = part_kept_child [OF this, of "Key ''treeById''"]
  have tree_members: "own s ''treeById'' = child (Some (tree_value s)) (Key ''treeById'')"
    "isRecord (tree_value s)" "\<exists>v. own (tree_value s) ''treeById'' = Some v \<and> isRecord v"
    if "typed_snapshot s" for s
    using that by (auto simp: typed_snapshot_def member_def tree_value_def or_else_def split: option.splits)
  obtain v where "own (the tree) ''treeById'' = Some v" "isRecord v" "isRecord (the tree)" "tree \<noteq> None"
    using merge_member_record [OF tree tree_members(2,3) tree_members(2,3) tree_members(2,3)] assms(2-4) by auto
  then obtain kvs nodes where tree': "tree = Some (JObj kvs)" "map_of kvs ''treeById'' = Some (JObj nodes)"
    by (cases "the tree"; cases v) auto
  have "List.map_filter (kept_document theirs docs []) cs = []"
    by (auto simp: List.map_filter_def filter_empty_conv kept_document_def split: change_target.splits change_area.splits)
  then have "own candidate ''treeById'' = child tree (Key ''treeById'')"
    by (simp add: members tree')
  with kept_child show "part_kept (cs = []) (own base ''treeById'') (own mine ''treeById'')
      (own theirs ''treeById'') (own candidate ''treeById'')"
    by (simp only: tree_members(1) assms(2-4))
  assume sides: "map_of (docs_of base) i = Some b" "map_of (docs_of mine) i = Some l" "map_of (docs_of theirs) i = Some r"
  have "i \<in> set (sorted_ids (map fst (docs_of base) @ map fst (docs_of mine) @ map fst (docs_of theirs)))"
    using sides(1) by (force dest: map_of_SomeD)
  then have "\<exists>c c'. mergeDocument (map_of (docs_of base) i) (map_of (docs_of mine) i) (map_of (docs_of theirs) i) []
      c (i \<in> set (structurallyConflictedDocumentIds lc rc)) = (map_of docs i, c') \<and> prefix cs2 c \<and> prefix c' cs"
    using collect_entries_loop [OF mergeDocument_prefix distinct_sorted_ids docs [unfolded merge_documents_def]]
    by blast
  then obtain c c' where merged: "mergeDocument (Some b) (Some l) (Some r) [] c
      (i \<in> set (structurallyConflictedDocumentIds lc rc)) = (map_of docs i, c')"
    and "prefix cs2 c" "prefix c' cs"
    unfolding sides by blast
  moreover have "prefix c c'" using mergeDocument_prefix merged by (metis snd_conv)
  ultimately have tight: "cs = [] \<Longrightarrow> c' = c" by auto
  have r: "isRecord r" using assms(4) map_of_SomeD [OF sides(3)] by (auto simp: typed_snapshot_def)
  have "map_of docs i \<noteq> None"
    using mergeDocument_present [of b l r "[]" c "i \<in> set (structurallyConflictedDocumentIds lc rc)"]
    unfolding merged by simp
  then obtain d where d: "map_of docs i = Some d" by blast
  have wf_sides: "wf_json (member b ''content'')" "wf_json (member l ''content'')" "wf_json (member r ''content'')"
    using wf_member [OF wf_document [OF wf(1) sides(1)]] wf_member [OF wf_document [OF wf(2) sides(2)]]
      wf_member [OF wf_document [OF wf(3) sides(3)]] by blast+
  have "diff3 (c' = c) (c' = c \<or> remote_wins (content_context [] l r)) (Some (member b ''content''))
      (Some (member l ''content'')) (Some (member r ''content'')) (own d ''content'')"
    using mergeDocument_content [OF _ r wf_sides] merged d by metis
  then have "part_kept (cs = []) (Some (member b ''content'')) (Some (member l ''content''))
      (Some (member r ''content'')) (own d ''content'')"
    unfolding part_kept_def by (rule diff3_mono) (use tight in auto)
  moreover have "docs_of candidate = docs" by (simp add: docs_of_def members)
  ultimately show "\<exists>d. map_of (docs_of candidate) i = Some d \<and>
      part_kept (cs = []) (Some (member b ''content'')) (Some (member l ''content''))
        (Some (member r ''content'')) (own d ''content'')"
    using d by simp
qed

section \<open>The automatic rebase\<close>

text \<open>The selected document of a candidate is one of its documents.\<close>

theorem candidate_selection:
  assumes "mergeWorkspace base mine theirs lc rc res = (candidate, cs)" and "isRecord theirs"
    and "own candidate ''activeDocumentId'' = Some v"
  shows "\<exists>i. v = JStr i \<and> map_of (docs_of candidate) i \<noteq> None"
proof (rule mergeWorkspace_parts [OF assms(1,2)])
  fix docs
  assume docs: "own candidate ''docsById'' = Some (JObj docs)"
    and active: "own candidate ''activeDocumentId'' = map_option JStr (active_document mine theirs docs)"
  obtain i where i: "active_document mine theirs docs = Some i" "v = JStr i"
    using active assms(3) by (cases "active_document mine theirs docs") auto
  then have "map_of docs i \<noteq> None"
    by (auto simp: active_document_def Let_def split: option.splits json.splits if_splits)
  with i(2) docs show "\<exists>i. v = JStr i \<and> map_of (docs_of candidate) i \<noteq> None"
    by (simp add: docs_of_def)
qed

lemma rebase_analysis:
  assumes "autoRebaseWorkspaceSnapshots V base mine theirs = Rebased s a \<or>
    autoRebaseWorkspaceSnapshots V base mine theirs = AlreadyApplied s a"
  shows "analyzeWorkspaceThreeWay V base mine theirs [] = Some a \<and> an_conflicts a = [] \<and>
    s = candidateSnapshot a \<and> v_snapshot V s = Some True"
  using assms by (auto simp: autoRebaseWorkspaceSnapshots_def split: option.splits bool.splits if_splits)

lemma analysis_merge:
  assumes "analyzeWorkspaceThreeWay V base mine theirs res = Some a"
  obtains lc rc where "mergeWorkspace base mine theirs lc rc res = (candidateSnapshot a, an_conflicts a)"
  using assms
  by (auto simp: analyzeWorkspaceThreeWay_def Let_def split: option.splits if_splits prod.splits)

text \<open>
  A rebase that succeeds returns a snapshot that the validator accepts and that keeps the changes of
  both sides, in the tree, in the routes and in the content of every document that all sides have.
\<close>

theorem rebase_keeps:
  assumes "autoRebaseWorkspaceSnapshots V base mine theirs = Rebased s a \<or>
      autoRebaseWorkspaceSnapshots V base mine theirs = AlreadyApplied s a"
    and "typed_snapshot base" and "typed_snapshot mine" and "typed_snapshot theirs"
  shows "v_snapshot V s = Some True"
    and "part_kept True (own base ''treeById'') (own mine ''treeById'') (own theirs ''treeById'') (own s ''treeById'')"
    and "part_kept True (own base ''routeManifest'') (own mine ''routeManifest'') (own theirs ''routeManifest'')
      (own s ''routeManifest'')"
    and "map_of (docs_of base) i = Some b \<Longrightarrow> map_of (docs_of mine) i = Some l \<Longrightarrow>
      map_of (docs_of theirs) i = Some r \<Longrightarrow>
      \<exists>d. map_of (docs_of s) i = Some d \<and> part_kept True (Some (member b ''content''))
        (Some (member l ''content'')) (Some (member r ''content'')) (own d ''content'')"
proof -
  have a: "analyzeWorkspaceThreeWay V base mine theirs [] = Some a" "an_conflicts a = []"
    "s = candidateSnapshot a" "v_snapshot V s = Some True"
    using rebase_analysis [OF assms(1)] by blast+
  obtain lc rc where merge: "mergeWorkspace base mine theirs lc rc [] = (s, [])"
    using analysis_merge [OF a(1)] a(2,3) by metis
  show "v_snapshot V s = Some True" by (rule a(4))
  show "part_kept True (own base ''treeById'') (own mine ''treeById'') (own theirs ''treeById'') (own s ''treeById'')"
    "part_kept True (own base ''routeManifest'') (own mine ''routeManifest'') (own theirs ''routeManifest'')
      (own s ''routeManifest'')"
    using candidate_keeps(1,2) [OF merge assms(2-4)] by simp_all
  show "map_of (docs_of base) i = Some b \<Longrightarrow> map_of (docs_of mine) i = Some l \<Longrightarrow>
      map_of (docs_of theirs) i = Some r \<Longrightarrow>
      \<exists>d. map_of (docs_of s) i = Some d \<and> part_kept True (Some (member b ''content''))
        (Some (member l ''content'')) (Some (member r ''content'')) (own d ''content'')"
    using candidate_keeps(3) [OF merge assms(2-4)] by simp
qed

end
