(* ===== verification/MergeProperties.thy ===== *)
theory MergeProperties
  imports TextMergeLaws RebaseLaws "HOL-Library.Code_Target_Numeral"
begin

text \<open>
  The properties of the merges: the line diff and the three-way text merge, and the three-way merge
  of workspaces with its automatic rebase. The lemmas they rest on are those of \<open>TextMergeLaws\<close>,
  \<open>ThreeWayLaws\<close> and \<open>RebaseLaws\<close>.
\<close>

section \<open>Text\<close>

lemma suffix_loop_code [code]:
  "suffix_loop bs ns p b n =
     (if b = 0 \<or> n = 0 then (b, n)
      else if p < b \<and> p < n \<and> bs ! (b - 1) = ns ! (n - 1) then suffix_loop bs ns p (b - 1) (n - 1) else (b, n))"
  by (cases b; cases n) simp_all

text \<open>Applying the hunks of a diff to the base text gives the other text, for all pairs of texts,
  including those too large for the table of common subsequences.\<close>

theorem diff_rebuilds: "applyTextHunks base (diffWorkspaceText base other) = Some other"
  by (rule diff_round_trip)

text \<open>The edit script between two lists of lines rebuilds both, and no common subsequence of the two is
  longer than the lines it keeps: the diff is minimal.\<close>

theorem script_minimal:
  assumes "buildLcsEdits bs ns = Some es"
  shows "base_of es = bs \<and> next_of es = ns \<and>
    (\<forall>zs. subseq zs bs \<and> subseq zs ns \<longrightarrow> length zs \<le> length (kept es))"
  using buildLcsEdits_correct [OF assms] edits_optimal [OF assms] by blast

theorem script_minimal_witness:
  "\<exists>es. buildLcsEdits [''a'', ''b'', ''c''] [''b'', ''x'', ''c''] = Some es \<and> kept es = [''b'', ''c''] \<and>
     base_of es = [''a'', ''b'', ''c'']"
proof -
  have "map_option kept (buildLcsEdits [''a'', ''b'', ''c''] [''b'', ''x'', ''c'']) = Some [''b'', ''c'']"
    by code_simp
  then obtain es where "buildLcsEdits [''a'', ''b'', ''c''] [''b'', ''x'', ''c''] = Some es" "kept es = [''b'', ''c'']"
    by auto
  with script_minimal [OF this(1)] show ?thesis by blast
qed

text \<open>C25. A text merge succeeds exactly when no hunk of one side overlaps a different hunk of the other; the
  merged text then keeps every line that no hunk replaces and has every replacement of both sides at
  its place, and otherwise the conflicts are the overlapping pairs.\<close>

theorem text_merge_is_union:
  "mergeWorkspaceText base l r =
    (let L = diffWorkspaceText base l; R = diffWorkspaceText base r in
     if no_conflict L R
     then TextMerged (patched (splitLines base) (sort_by compare_hunks (union_hunks L R))) L R
     else TextConflicts L R (text_conflicts L R))"
  by (simp add: merge_decides Let_def)

text \<open>The order of the two sides does not matter for the merged text, and a side that did not change,
  or two sides that agree, decide nothing.\<close>

theorem text_merge_symmetric:
  "(case mergeWorkspaceText base l r of TextMerged t _ _ \<Rightarrow> Some t | _ \<Rightarrow> None) =
     (case mergeWorkspaceText base r l of TextMerged t _ _ \<Rightarrow> Some t | _ \<Rightarrow> None) \<and>
   mergeWorkspaceText base base r = TextMerged r [] (diffWorkspaceText base r) \<and>
   mergeWorkspaceText base l base = TextMerged l (diffWorkspaceText base l) [] \<and>
   mergeWorkspaceText base l l = TextMerged l (diffWorkspaceText base l) (diffWorkspaceText base l)"
  using merge_symmetric merge_unchanged by blast

text \<open>C26. A merge without conflict can join two lines: when one side drops the terminator of the last line
  and the other appends a line, the merged text has a line that is on neither side.\<close>

theorem merged_lines_join:
  "\<exists>base l r t. (\<exists>L R. mergeWorkspaceText base l r = TextMerged t L R) \<and>
     (\<exists>line \<in> set (splitLines t). line \<notin> set (splitLines base) \<union> set (splitLines l) \<union> set (splitLines r))"
proof -
  let ?b = "''a'' @ [lf] @ ''b'' @ [lf]" and ?l = "''a'' @ [lf] @ ''b''"
    and ?r = "''a'' @ [lf] @ ''b'' @ [lf] @ ''c'' @ [lf]" and ?t = "''a'' @ [lf] @ ''bc'' @ [lf]"
  have "(case mergeWorkspaceText ?b ?l ?r of TextMerged t _ _ \<Rightarrow> Some t | _ \<Rightarrow> None) = Some ?t" by code_simp
  then obtain L R where "mergeWorkspaceText ?b ?l ?r = TextMerged ?t L R"
    by (auto split: text_merge.splits)
  moreover have "list_ex (\<lambda>line. line \<notin> set (splitLines ?b @ splitLines ?l @ splitLines ?r)) (splitLines ?t)"
    by code_simp
  then have "\<exists>line \<in> set (splitLines ?t).
      line \<notin> set (splitLines ?b) \<union> set (splitLines ?l) \<union> set (splitLines ?r)"
    by (simp only: list_ex_iff set_append Un_assoc)
  ultimately show ?thesis by blast
qed

section \<open>Workspaces\<close>








definition named_document :: "json" where
  "named_document = JObj [(''id'', JStr ''d''), (''type'', JStr ''pir-animation''), (''path'', JStr ''/d''),
     (''name'', JStr ''n''), (''content'', JObj [])]"

text \<open>C27. A document that both sides keep starts from the remote document, so no member of the remote
  document is ever removed: a \<open>name\<close> that only the local side deleted comes back, without a conflict.\<close>

theorem metadata_deletion_lost:
  assumes "mergeDocument (Some b) (Some l) (Some r) res cs forced = (Some d, cs')" and "own r k \<noteq> None"
  shows "own d k \<noteq> None"
proof -
  obtain kvs v where d: "d = put_member ''content'' v (spread r (JObj kvs))"
  proof (rule mergeDocument_steps [OF assms(1)])
    fix m :: "json option" and c :: "json option"
    assume "Some d = (case (m, c) of
      (Some (JObj kvs), Some v) \<Rightarrow> Some (put_member ''content'' v (spread r (JObj kvs))) | _ \<Rightarrow> None)"
    then show thesis using that by (auto split: option.splits json.splits)
  qed
  from assms(2) obtain rs where "r = JObj rs" by (cases r) auto
  with d assms(2) show ?thesis by (simp add: own_put_member spread_def map_of_spread_list split: option.split)
qed

theorem metadata_deletion_lost_witness:
  "\<exists>d. mergeDocument (Some named_document) (Some (remove_member ''name'' named_document)) (Some named_document)
      [] [] False = (Some d, []) \<and> own d ''name'' \<noteq> None"
proof -
  have "mergeDocument (Some named_document) (Some (remove_member ''name'' named_document)) (Some named_document)
      [] [] False = (Some named_document, [])" and named: "own named_document ''name'' \<noteq> None"
    by code_simp+
  with metadata_deletion_lost [OF this(1) named] show ?thesis by blast
qed

end
