(* ===== verification/Scheduler.thy ===== *)
theory Scheduler
  imports Canonical
begin

text \<open>
  The deterministic scheduler, \<open>packages/runtime-core/src/deterministicScheduler.ts\<close>: pending tasks
  with a logical ready time, barriers, the event log with its budget, turns, the wait for a
  condition, and the fence of attempts. An operation returns its reply with the new state, also
  when it throws. The optional clock of the host is a reading in the state that the host may move,
  and \<open>advanceTo\<close> is what the host makes of a request to advance. \<open>runNext\<close> awaits the task, so it is
  split at the await; what the task, or anybody else, calls meanwhile is a list of calls.
\<close>

section \<open>Data\<close>

datatype event_kind =
    TaskEnqueued | TaskStarted | TaskCompleted | TaskCancelled | BarrierCreated | BarrierArrived
  | BarrierReleased | WaitSatisfied | WaitTimedOut | DeadlockSeen | TaskFlood | PausedSeen | ResumedSeen
  | CancelledSeen

record sched_event =
  ev_sequence :: nat
  ev_time :: int
  ev_kind :: event_kind
  ev_task :: "string option"
  ev_lane :: "string option"
  ev_barrier :: "string option"
  ev_condition :: "string option"
  ev_detail :: "string option"

datatype sched_status = Idle | Running | Paused | Cancelled | Deadlocked | BudgetExceeded

record pending_task =
  pt_id :: string
  pt_lane :: string
  pt_readyAt :: int
  pt_sequence :: nat

record barrier_state =
  participants :: "string list"
  arrived :: "string list"

record config =
  maximumTurns :: nat
  maximumTasks :: nat
  maximumEvents :: nat
  has_clock :: bool
  advanceTo :: "int \<Rightarrow> js_number \<Rightarrow> js_number"

record scheduler =
  sc_tasks :: "(string \<times> pending_task) list"
  sc_barriers :: "(string \<times> barrier_state) list"
  sc_events :: "sched_event list"
  droppedEventCount :: nat
  eventSequence :: nat
  taskSequence :: nat
  logicalTime :: int
  sc_turns :: nat
  sc_status :: sched_status
  cancellationReason :: "string option"
  clock_reading :: js_number

record sched_snapshot =
  ss_status :: sched_status
  ss_logicalTime :: int
  ss_turns :: nat
  pendingTaskIds :: "string list"
  pendingBarrierIds :: "string list"
  ss_events :: "sched_event list"
  ss_dropped :: nat

text \<open>The reply of an operation, and an operation followed by another when it does not throw.\<close>

datatype 'a reply = Raised | Returned 'a

fun and_then :: "'a reply \<times> 's \<Rightarrow> ('a \<Rightarrow> 's \<Rightarrow> 'b reply \<times> 's) \<Rightarrow> 'b reply \<times> 's" where
  "and_then (Raised, s) f = (Raised, s)"
| "and_then (Returned a, s) f = f a s"

section \<open>Validation\<close>

definition canonicalIdentity :: "string \<Rightarrow> string option" where
  "canonicalIdentity value =
     (let normalized = js_trim value
      in if normalized = '''' \<or> length normalized > 512 \<or> CHR 0x00 \<in> set normalized then None
         else Some normalized)"

definition safe_integer :: "js_number \<Rightarrow> int option" where
  "safe_integer value =
     (case value of Finite q \<Rightarrow> if isSafeInteger value then Some \<lfloor>q\<rfloor> else None | NotFinite \<Rightarrow> None)"

definition positiveSafeInteger :: "js_number \<Rightarrow> nat option" where
  "positiveSafeInteger value =
     (case safe_integer value of Some n \<Rightarrow> if n < 1 then None else Some (nat n) | None \<Rightarrow> None)"

fun times :: "nat \<Rightarrow> js_number \<Rightarrow> js_number" where
  "times k (Finite q) = Finite (q * of_nat k)"
| "times k NotFinite = NotFinite"

section \<open>The clock and the log\<close>

definition readClockTime :: "js_number \<Rightarrow> int option" where
  "readClockTime reading =
     (case safe_integer reading of Some t \<Rightarrow> if t < 0 then None else Some t | None \<Rightarrow> None)"

definition synchronizeLogicalTime :: "config \<Rightarrow> scheduler \<Rightarrow> int reply \<times> scheduler" where
  "synchronizeLogicalTime C s =
     (if \<not> has_clock C then (Returned (logicalTime s), s)
      else case readClockTime (clock_reading s) of
        None \<Rightarrow> (Raised, s)
      | Some current \<Rightarrow>
          if current < logicalTime s then (Raised, s)
          else (Returned current, s\<lparr>logicalTime := current\<rparr>))"

definition advanceLogicalTime :: "config \<Rightarrow> int \<Rightarrow> scheduler \<Rightarrow> int reply \<times> scheduler" where
  "advanceLogicalTime C target s =
     and_then (synchronizeLogicalTime C s) (\<lambda>_ s.
       if \<not> isSafeInteger (Finite (of_int target)) \<or> target < logicalTime s then (Raised, s)
       else if target = logicalTime s then (Returned target, s)
       else if \<not> has_clock C then (Returned target, s\<lparr>logicalTime := target\<rparr>)
       else
         let s' = s\<lparr>clock_reading := advanceTo C target (clock_reading s)\<rparr>
         in case readClockTime (clock_reading s') of
              None \<Rightarrow> (Raised, s')
            | Some applied \<Rightarrow>
                if applied \<noteq> target then (Raised, s')
                else (Returned applied, s'\<lparr>logicalTime := applied\<rparr>))"

definition body :: "event_kind \<Rightarrow> sched_event" where
  "body kind = \<lparr>ev_sequence = 0, ev_time = 0, ev_kind = kind, ev_task = None, ev_lane = None, ev_barrier = None,
     ev_condition = None, ev_detail = None\<rparr>"

definition append_event :: "config \<Rightarrow> sched_event \<Rightarrow> scheduler \<Rightarrow> unit reply \<times> scheduler" where
  "append_event C event s =
     and_then (synchronizeLogicalTime C s) (\<lambda>_ s.
       let n = eventSequence s + 1;
           events = sc_events s @ [event\<lparr>ev_sequence := n, ev_time := logicalTime s\<rparr>]
       in (Returned (),
           if length events > maximumEvents C
           then s\<lparr>eventSequence := n, sc_events := tl events, droppedEventCount := droppedEventCount s + 1\<rparr>
           else s\<lparr>eventSequence := n, sc_events := events\<rparr>))"

definition compare_tasks :: "pending_task \<Rightarrow> pending_task \<Rightarrow> int" where
  "compare_tasks left right =
     (if pt_readyAt left - pt_readyAt right \<noteq> 0 then pt_readyAt left - pt_readyAt right
      else if compareUnicodeCodePoints (pt_lane left) (pt_lane right) \<noteq> 0
      then compareUnicodeCodePoints (pt_lane left) (pt_lane right)
      else int (pt_sequence left) - int (pt_sequence right))"

definition orderedTasks :: "scheduler \<Rightarrow> pending_task list" where
  "orderedTasks s = sort_by compare_tasks (map snd (sc_tasks s))"

definition take_snapshot :: "config \<Rightarrow> scheduler \<Rightarrow> sched_snapshot reply \<times> scheduler" where
  "take_snapshot C s =
     and_then (synchronizeLogicalTime C s) (\<lambda>_ s.
       (Returned \<lparr>ss_status = sc_status s, ss_logicalTime = logicalTime s, ss_turns = sc_turns s,
          pendingTaskIds = map pt_id (orderedTasks s),
          pendingBarrierIds = sort_by compareUnicodeCodePoints (map fst (sc_barriers s)),
          ss_events = sc_events s, ss_dropped = droppedEventCount s\<rparr>, s))"

section \<open>Tasks, barriers and control\<close>

definition task_event :: "event_kind \<Rightarrow> string \<Rightarrow> string \<Rightarrow> string option \<Rightarrow> sched_event" where
  "task_event kind i l detail = (body kind)\<lparr>ev_task := Some i, ev_lane := Some l, ev_detail := detail\<rparr>"

definition enqueue :: "config \<Rightarrow> string \<Rightarrow> string \<Rightarrow> js_number \<Rightarrow> scheduler \<Rightarrow> nat reply \<times> scheduler" where
  "enqueue C taskId laneId ready s =
     and_then (synchronizeLogicalTime C s) (\<lambda>_ s.
       case (canonicalIdentity taskId, canonicalIdentity laneId, safe_integer ready) of
         (Some i, Some l, Some r) \<Rightarrow>
           if r < logicalTime s \<or> map_of (sc_tasks s) i \<noteq> None then (Raised, s)
           else if length (sc_tasks s) \<ge> maximumTasks C
           then and_then
             (append_event C (task_event TaskFlood i l (Some ''maximum-tasks'')) (s\<lparr>sc_status := BudgetExceeded\<rparr>))
             (\<lambda>_ s. (Raised, s))
           else
             let n = taskSequence s + 1;
                 task = \<lparr>pt_id = i, pt_lane = l, pt_readyAt = r, pt_sequence = n\<rparr>
             in and_then
               (append_event C (task_event TaskEnqueued i l None)
                 (s\<lparr>taskSequence := n, sc_tasks := alist_put i task (sc_tasks s)\<rparr>))
               (\<lambda>_ s. (Returned (taskSequence s),
                  if sc_status s = Idle then s\<lparr>sc_status := Running\<rparr> else s))
       | _ \<Rightarrow> (Raised, s))"

fun identities :: "string list \<Rightarrow> string list option" where
  "identities [] = Some []"
| "identities (x # xs) =
     (case (canonicalIdentity x, identities xs) of (Some i, Some ys) \<Rightarrow> Some (i # ys) | _ \<Rightarrow> None)"

definition barrier_event :: "event_kind \<Rightarrow> string \<Rightarrow> string option \<Rightarrow> sched_event" where
  "barrier_event kind i detail = (body kind)\<lparr>ev_barrier := Some i, ev_detail := detail\<rparr>"

definition createBarrier :: "config \<Rightarrow> string \<Rightarrow> string list \<Rightarrow> scheduler \<Rightarrow> unit reply \<times> scheduler" where
  "createBarrier C barrierId participantIds s =
     (case (canonicalIdentity barrierId, identities participantIds) of
        (Some i, Some ps) \<Rightarrow>
          if ps = [] \<or> length (js_set ps) \<noteq> length ps \<or> map_of (sc_barriers s) i \<noteq> None then (Raised, s)
          else append_event C (barrier_event BarrierCreated i None)
            (s\<lparr>sc_barriers := alist_put i \<lparr>participants = js_set ps, arrived = []\<rparr> (sc_barriers s)\<rparr>)
      | _ \<Rightarrow> (Raised, s))"

definition arrive :: "config \<Rightarrow> string \<Rightarrow> string \<Rightarrow> scheduler \<Rightarrow> bool reply \<times> scheduler" where
  "arrive C barrierId participantId s =
     (case (canonicalIdentity barrierId, canonicalIdentity participantId) of
        (Some i, Some p) \<Rightarrow>
          (case map_of (sc_barriers s) i of
             None \<Rightarrow> (Raised, s)
           | Some b \<Rightarrow>
               if p \<notin> set (participants b) then (Raised, s)
               else and_then
                 (if p \<in> set (arrived b) then (Returned (), s)
                  else append_event C (barrier_event BarrierArrived i (Some p))
                    (s\<lparr>sc_barriers := alist_put i (b\<lparr>arrived := set_add p (arrived b)\<rparr>) (sc_barriers s)\<rparr>))
                 (\<lambda>_ s.
                   if length (set_add p (arrived b)) \<noteq> length (participants b) then (Returned False, s)
                   else and_then
                     (append_event C (barrier_event BarrierReleased i None)
                       (s\<lparr>sc_barriers := alist_del i (sc_barriers s)\<rparr>))
                     (\<lambda>_ s. (Returned True, s))))
      | _ \<Rightarrow> (Raised, s))"

definition pause :: "config \<Rightarrow> scheduler \<Rightarrow> bool reply \<times> scheduler" where
  "pause C s =
     (if sc_status s \<noteq> Running \<and> sc_status s \<noteq> Idle then (Returned False, s)
      else and_then (append_event C (body PausedSeen) (s\<lparr>sc_status := Paused\<rparr>)) (\<lambda>_ s. (Returned True, s)))"

definition resume :: "config \<Rightarrow> scheduler \<Rightarrow> bool reply \<times> scheduler" where
  "resume C s =
     (if sc_status s \<noteq> Paused then (Returned False, s)
      else and_then
        (append_event C (body ResumedSeen) (s\<lparr>sc_status := (if sc_tasks s \<noteq> [] then Running else Idle)\<rparr>))
        (\<lambda>_ s. (Returned True, s)))"

definition nonempty_reason :: "string option \<Rightarrow> string option" where
  "nonempty_reason r = (case r of Some x \<Rightarrow> if x = '''' then None else Some x | None \<Rightarrow> None)"

definition cancel :: "config \<Rightarrow> string option \<Rightarrow> scheduler \<Rightarrow> unit reply \<times> scheduler" where
  "cancel C reason s =
     (if sc_status s = Cancelled then (Returned (), s)
      else append_event C ((body CancelledSeen)\<lparr>ev_detail := nonempty_reason reason\<rparr>)
        (s\<lparr>cancellationReason := reason, sc_status := Cancelled, sc_tasks := [], sc_barriers := []\<rparr>))"

section \<open>Turns\<close>

datatype turn_result = RanTask string | TurnIdle | TurnPaused | TurnCancelled | TurnBudgetExceeded

datatype turn_start = RunTask pending_task | NoTask turn_result

datatype task_result = TaskDone | TaskGaveUp "string option" | TaskThrew

definition start_task :: "config \<Rightarrow> pending_task \<Rightarrow> scheduler \<Rightarrow> turn_start reply \<times> scheduler" where
  "start_task C task s =
     and_then
       (advanceLogicalTime C (max (pt_readyAt task) (logicalTime s))
         (s\<lparr>sc_status := Running, sc_tasks := alist_del (pt_id task) (sc_tasks s)\<rparr>))
       (\<lambda>_ s. and_then
         (append_event C (task_event TaskStarted (pt_id task) (pt_lane task) None)
           (s\<lparr>sc_turns := sc_turns s + 1\<rparr>))
         (\<lambda>_ s. (Returned (RunTask task), s)))"

definition begin_turn :: "config \<Rightarrow> scheduler \<Rightarrow> turn_start reply \<times> scheduler" where
  "begin_turn C s =
     and_then (synchronizeLogicalTime C s) (\<lambda>_ s.
       if sc_status s = Paused then (Returned (NoTask TurnPaused), s)
       else if sc_status s = Cancelled then (Returned (NoTask TurnCancelled), s)
       else if sc_status s = BudgetExceeded then (Returned (NoTask TurnBudgetExceeded), s)
       else case orderedTasks s of
         [] \<Rightarrow>
           if sc_barriers s \<noteq> []
           then and_then (append_event C (body DeadlockSeen) (s\<lparr>sc_status := Deadlocked\<rparr>))
             (\<lambda>_ s. (Returned (NoTask TurnIdle), s))
           else (Returned (NoTask TurnIdle), s\<lparr>sc_status := Idle\<rparr>)
       | task # _ \<Rightarrow>
           if sc_turns s \<ge> maximumTurns C
           then and_then
             (append_event C ((body TaskFlood)\<lparr>ev_detail := Some ''maximum-turns''\<rparr>)
               (s\<lparr>sc_status := BudgetExceeded\<rparr>))
             (\<lambda>_ s. (Returned (NoTask TurnBudgetExceeded), s))
           else start_task C task s)"

definition end_turn :: "config \<Rightarrow> pending_task \<Rightarrow> task_result \<Rightarrow> scheduler \<Rightarrow> turn_result reply \<times> scheduler" where
  "end_turn C task result s =
     (if result = TaskThrew then (Raised, s)
      else and_then (synchronizeLogicalTime C s) (\<lambda>_ s. and_then
        (append_event C
          (case result of
             TaskGaveUp reason \<Rightarrow> task_event TaskCancelled (pt_id task) (pt_lane task) (nonempty_reason reason)
           | _ \<Rightarrow> task_event TaskCompleted (pt_id task) (pt_lane task) None) s)
        (\<lambda>_ s. and_then (take_snapshot C s) (\<lambda>snapshot s.
           if ss_status snapshot = Cancelled then (Returned TurnCancelled, s)
           else if ss_status snapshot = Paused then (Returned TurnPaused, s)
           else (Returned (RanTask (pt_id task)),
             if sc_tasks s = [] \<and> sc_barriers s = [] \<and> ss_status snapshot = Running
             then s\<lparr>sc_status := Idle\<rparr> else s)))))"

text \<open>The calls that others make, the moves of the host's clock included.\<close>

datatype call =
    Enqueue string string js_number
  | CreateBarrier string "string list"
  | Arrive string string
  | Pause
  | Resume
  | Cancel "string option"
  | Snapshot
  | MoveClock js_number

fun perform :: "config \<Rightarrow> scheduler \<Rightarrow> call \<Rightarrow> scheduler" where
  "perform C s (Enqueue i l r) = snd (enqueue C i l r s)"
| "perform C s (CreateBarrier i ps) = snd (createBarrier C i ps s)"
| "perform C s (Arrive i p) = snd (arrive C i p s)"
| "perform C s Pause = snd (pause C s)"
| "perform C s Resume = snd (resume C s)"
| "perform C s (Cancel r) = snd (cancel C r s)"
| "perform C s Snapshot = snd (take_snapshot C s)"
| "perform C s (MoveClock t) = s\<lparr>clock_reading := t\<rparr>"

text \<open>
  What running a task does: the calls made until it settles, the new world of the host, whether the
  observed source notified its listeners, and how the task settled.
\<close>

record 'w task_run =
  run_calls :: "call list"
  run_world :: 'w
  run_notifies :: bool
  run_result :: task_result

type_synonym 'w behaviour = "pending_task \<Rightarrow> scheduler \<Rightarrow> 'w \<Rightarrow> 'w task_run"

definition runNext ::
  "config \<Rightarrow> 'w behaviour \<Rightarrow> scheduler \<Rightarrow> 'w \<Rightarrow> (turn_result reply \<times> scheduler) \<times> 'w \<times> bool" where
  "runNext C B s w =
     (case begin_turn C s of
        (Raised, s) \<Rightarrow> ((Raised, s), w, False)
      | (Returned (NoTask r), s) \<Rightarrow> ((Returned r, s), w, False)
      | (Returned (RunTask task), s) \<Rightarrow>
          let R = B task s w
          in (end_turn C task (run_result R) (foldl (perform C) s (run_calls R)), run_world R, run_notifies R))"


section \<open>Running until nothing is left\<close>

text \<open>
  No call changes the number of turns, and a completed turn adds one below the budget: that is why
  the loops below end, whatever the tasks enqueue.
\<close>

lemma and_then_split:
  "P (and_then m f) \<longleftrightarrow>
     (\<forall>s. m = (Raised, s) \<longrightarrow> P (Raised, s)) \<and> (\<forall>a s. m = (Returned a, s) \<longrightarrow> P (f a s))"
  by (cases m; cases "fst m") auto

lemma and_then_split_asm:
  "P (and_then m f) \<longleftrightarrow>
     \<not> ((\<exists>s. m = (Raised, s) \<and> \<not> P (Raised, s)) \<or> (\<exists>a s. m = (Returned a, s) \<and> \<not> P (f a s)))"
  by (cases m; cases "fst m") auto

lemmas and_then_splits = and_then_split and_then_split_asm

named_theorems turns "operations that leave the number of turns as it is"

lemma synchronize_turns [turns]: "synchronizeLogicalTime C s = (r, s') \<Longrightarrow> sc_turns s' = sc_turns s"
  by (auto simp: synchronizeLogicalTime_def split: if_splits option.splits)

lemma append_turns [turns]: "append_event C e s = (r, s') \<Longrightarrow> sc_turns s' = sc_turns s"
  unfolding append_event_def by (auto simp: Let_def split: and_then_splits if_splits dest!: turns)

lemma snapshot_turns [turns]: "take_snapshot C s = (r, s') \<Longrightarrow> sc_turns s' = sc_turns s"
  unfolding take_snapshot_def by (auto split: and_then_splits dest!: turns)

lemma advance_turns [turns]: "advanceLogicalTime C t s = (r, s') \<Longrightarrow> sc_turns s' = sc_turns s"
  unfolding advanceLogicalTime_def
  by (auto simp: Let_def split: and_then_splits if_splits option.splits dest!: turns)

lemma enqueue_turns [turns]: "enqueue C i l t s = (r, s') \<Longrightarrow> sc_turns s' = sc_turns s"
  unfolding enqueue_def by (auto simp: Let_def split: and_then_splits if_splits option.splits dest!: turns)

lemma barrier_turns [turns]: "createBarrier C i ps s = (r, s') \<Longrightarrow> sc_turns s' = sc_turns s"
  unfolding createBarrier_def by (auto split: if_splits option.splits dest!: turns)

lemma arrive_turns [turns]: "arrive C i p s = (r, s') \<Longrightarrow> sc_turns s' = sc_turns s"
  unfolding arrive_def by (auto split: and_then_splits if_splits option.splits dest!: turns)

lemma pause_turns [turns]: "pause C s = (r, s') \<Longrightarrow> sc_turns s' = sc_turns s"
  unfolding pause_def by (auto split: and_then_splits if_splits dest!: turns)

lemma resume_turns [turns]: "resume C s = (r, s') \<Longrightarrow> sc_turns s' = sc_turns s"
  unfolding resume_def by (auto split: and_then_splits if_splits dest!: turns)

lemma cancel_turns [turns]: "cancel C i s = (r, s') \<Longrightarrow> sc_turns s' = sc_turns s"
  unfolding cancel_def by (auto split: if_splits dest!: turns)

lemma perform_turns [simp]: "sc_turns (perform C s c) = sc_turns s"
  by (cases c) (simp_all add: turns [OF surjective_pairing])

lemma performs_turns [simp]: "sc_turns (foldl (perform C) s cs) = sc_turns s"
  by (induction cs arbitrary: s) simp_all

lemma begin_turn_turns:
  assumes "begin_turn C s = (Returned (RunTask task), s')"
  shows "sc_turns s < maximumTurns C \<and> sc_turns s' = Suc (sc_turns s)"
  using assms unfolding begin_turn_def start_task_def
  by (auto split: and_then_splits if_splits list.splits dest!: turns)

lemma end_turn_turns [turns]: "end_turn C task result s = (r, s') \<Longrightarrow> sc_turns s' = sc_turns s"
  unfolding end_turn_def by (auto split: and_then_splits if_splits task_result.splits dest!: turns)

lemma begin_turn_not_ran [simp]: "begin_turn C s \<noteq> (Returned (NoTask (RanTask i)), s')"
  unfolding begin_turn_def start_task_def by (auto split: and_then_splits if_splits list.splits)

lemma runNext_turns:
  assumes "runNext C B s w = ((Returned (RanTask i), s'), w', n)"
  shows "sc_turns s < maximumTurns C \<and> sc_turns s' = Suc (sc_turns s)"
  using assms unfolding runNext_def
  by (auto simp: Let_def split: prod.splits reply.splits turn_start.splits dest!: turns begin_turn_turns)

definition settle_idle :: "config \<Rightarrow> scheduler \<Rightarrow> sched_snapshot reply \<times> scheduler" where
  "settle_idle C s =
     (if sc_tasks s = [] \<and> sc_barriers s \<noteq> [] \<and> sc_status s \<noteq> Cancelled
      then and_then (append_event C (body DeadlockSeen) (s\<lparr>sc_status := Deadlocked\<rparr>)) (\<lambda>_. take_snapshot C)
      else take_snapshot C s)"

function runUntilIdle ::
  "config \<Rightarrow> 'w behaviour \<Rightarrow> scheduler \<Rightarrow> 'w \<Rightarrow> (sched_snapshot reply \<times> scheduler) \<times> 'w" where
  "runUntilIdle C B s w =
     (if sc_tasks s = [] \<or> sc_status s = Cancelled then (settle_idle C s, w)
      else case runNext C B s w of
        ((Returned (RanTask i), s'), w', notified) \<Rightarrow> runUntilIdle C B s' w'
      | ((Returned r, s'), w', notified) \<Rightarrow> (settle_idle C s', w')
      | ((Raised, s'), w', notified) \<Rightarrow> ((Raised, s'), w'))"
  by pat_completeness auto
termination
  by (relation "measure (\<lambda>(C, B, s, w). maximumTurns C - sc_turns s)") (auto dest!: runNext_turns [OF sym])

declare runUntilIdle.simps [simp del]

section \<open>Waiting for a condition\<close>

datatype wait_cause = InitialState | Notification | ScheduledTask

datatype stop_kind = StopCancelled | StopDeadlocked | StopPaused | StopBudget

datatype 'v wait_result =
    Satisfied 'v int wait_cause
  | TimedOut 'v int
  | Stopped stop_kind 'v int "string option"

record ('w, 'v) condition =
  conditionId :: string
  read_source :: "'w \<Rightarrow> 'v"
  holds_for :: "'v \<Rightarrow> bool"

definition condition_event :: "event_kind \<Rightarrow> string \<Rightarrow> sched_event" where
  "condition_event kind i = (body kind)\<lparr>ev_condition := Some i\<rparr>"

definition satisfied_now ::
  "config \<Rightarrow> string \<Rightarrow> 'v \<Rightarrow> wait_cause \<Rightarrow> scheduler \<Rightarrow> 'v wait_result reply \<times> scheduler" where
  "satisfied_now C i v cause s =
     and_then (append_event C (condition_event WaitSatisfied i) s)
       (\<lambda>_ s. (Returned (Satisfied v (logicalTime s) cause), s))"

definition timed_out :: "config \<Rightarrow> string \<Rightarrow> 'v \<Rightarrow> scheduler \<Rightarrow> 'v wait_result reply \<times> scheduler" where
  "timed_out C i v s =
     and_then (append_event C (condition_event WaitTimedOut i) s)
       (\<lambda>_ s. (Returned (TimedOut v (logicalTime s)), s))"

fun stop_of :: "turn_result \<Rightarrow> stop_kind" where
  "stop_of TurnCancelled = StopCancelled"
| "stop_of TurnPaused = StopPaused"
| "stop_of TurnBudgetExceeded = StopBudget"
| "stop_of _ = StopDeadlocked"

text \<open>The branch where no task is ready before the deadline.\<close>

definition wait_without_task ::
  "config \<Rightarrow> ('w, 'v) condition \<Rightarrow> int \<Rightarrow> bool \<Rightarrow> scheduler \<Rightarrow> 'w \<Rightarrow> 'v wait_result reply \<times> scheduler" where
  "wait_without_task C Q deadline notified s w =
     and_then
       (if sc_barriers s \<noteq> []
        then append_event C (condition_event DeadlockSeen (conditionId Q)) (s\<lparr>sc_status := Deadlocked\<rparr>)
        else (Returned (), s))
       (\<lambda>_ s.
         let current = read_source Q w
         in if holds_for Q current
            then satisfied_now C (conditionId Q) current (if notified then Notification else ScheduledTask) s
            else if sc_barriers s \<noteq> [] then (Returned (Stopped StopDeadlocked current (logicalTime s) None), s)
            else and_then (advanceLogicalTime C deadline s) (\<lambda>_. timed_out C (conditionId Q) current))"

function wait_loop ::
  "config \<Rightarrow> 'w behaviour \<Rightarrow> ('w, 'v) condition \<Rightarrow> int \<Rightarrow> bool \<Rightarrow> scheduler \<Rightarrow> 'w \<Rightarrow>
   ('v wait_result reply \<times> scheduler) \<times> 'w" where
  "wait_loop C B Q deadline notified s w =
     (let reason = nonempty_reason (cancellationReason s)
      in if logicalTime s > deadline then (timed_out C (conditionId Q) (read_source Q w) s, w)
         else if sc_status s = Cancelled
         then ((Returned (Stopped StopCancelled (read_source Q w) (logicalTime s) reason), s), w)
         else if (case orderedTasks s of [] \<Rightarrow> True | task # _ \<Rightarrow> pt_readyAt task > deadline)
         then (wait_without_task C Q deadline notified s w, w)
         else case runNext C B s w of
           ((Returned (RanTask i), s'), w', notifies) \<Rightarrow>
             let current = read_source Q w'
             in if holds_for Q current
                then (satisfied_now C (conditionId Q) current
                  (if notified \<or> notifies then Notification else ScheduledTask) s', w')
                else wait_loop C B Q deadline False s' w'
         | ((Returned r, s'), w', notifies) \<Rightarrow>
             ((Returned (Stopped (stop_of r) (read_source Q w') (logicalTime s')
               (nonempty_reason (cancellationReason s'))), s'), w')
         | ((Raised, s'), w', notifies) \<Rightarrow> ((Raised, s'), w'))"
  by pat_completeness auto
termination
  by (relation "measure (\<lambda>(C, B, Q, d, n, s, w). maximumTurns C - sc_turns s)") (auto dest!: runNext_turns [OF sym])

declare wait_loop.simps [simp del]

definition waitForCondition ::
  "config \<Rightarrow> 'w behaviour \<Rightarrow> ('w, 'v) condition \<Rightarrow> js_number \<Rightarrow> scheduler \<Rightarrow> 'w \<Rightarrow>
   ('v wait_result reply \<times> scheduler) \<times> 'w" where
  "waitForCondition C B Q deadline s w =
     (case synchronizeLogicalTime C s of
        (Raised, s) \<Rightarrow> ((Raised, s), w)
      | (Returned _, s) \<Rightarrow>
          (case (canonicalIdentity (conditionId Q), safe_integer deadline) of
             (Some i, Some d) \<Rightarrow>
               if d < logicalTime s then ((Raised, s), w)
               else if holds_for Q (read_source Q w)
               then (satisfied_now C i (read_source Q w) InitialState s, w)
               else wait_loop C B (Q\<lparr>conditionId := i\<rparr>) d False s w
           | _ \<Rightarrow> ((Raised, s), w)))"

section \<open>Creation\<close>

record creation =
  initialTime :: "js_number option"
  cr_turns :: js_number
  cr_tasks :: "js_number option"
  cr_events :: "js_number option"
  cr_clock :: "(js_number \<times> (int \<Rightarrow> js_number \<Rightarrow> js_number)) option"

definition createDeterministicScheduler :: "creation \<Rightarrow> (config \<times> scheduler) option" where
  "createDeterministicScheduler input =
     (case (positiveSafeInteger (cr_turns input),
            positiveSafeInteger (or_else (cr_tasks input) (times 4 (cr_turns input))),
            positiveSafeInteger (or_else (cr_events input) (times 8 (cr_turns input))),
            readClockTime (case cr_clock input of
              Some (reading, _) \<Rightarrow> reading | None \<Rightarrow> or_else (initialTime input) (Finite 0))) of
        (Some maxTurns, Some maxTasks, Some maxEvents, Some initial) \<Rightarrow>
          if (case initialTime input of None \<Rightarrow> False
              | Some t \<Rightarrow> readClockTime t = None \<or> cr_clock input \<noteq> None \<and> t \<noteq> Finite (of_int initial))
          then None
          else Some
            (\<lparr>maximumTurns = maxTurns, maximumTasks = maxTasks, maximumEvents = maxEvents,
              has_clock = (cr_clock input \<noteq> None),
              advanceTo = (case cr_clock input of Some (_, advance) \<Rightarrow> advance | None \<Rightarrow> (\<lambda>_ reading. reading))\<rparr>,
             \<lparr>sc_tasks = [], sc_barriers = [], sc_events = [], droppedEventCount = 0, eventSequence = 0,
              taskSequence = 0, logicalTime = initial, sc_turns = 0, sc_status = Idle,
              cancellationReason = None,
              clock_reading = (case cr_clock input of Some (reading, _) \<Rightarrow> reading | None \<Rightarrow> NotFinite)\<rparr>)
      | _ \<Rightarrow> None)"

section \<open>The fence of attempts\<close>

definition createDeterministicAttemptFence :: "js_number \<Rightarrow> nat option" where
  "createDeterministicAttemptFence initialGeneration = positiveSafeInteger initialGeneration"

definition fence_isCurrent :: "nat \<Rightarrow> nat \<Rightarrow> bool" where
  "fence_isCurrent generation candidate \<longleftrightarrow> candidate = generation"

definition fence_next :: "nat \<Rightarrow> nat \<times> nat" where
  "fence_next generation = (generation + 1, generation + 1)"

definition fence_cancel :: "nat \<Rightarrow> nat \<times> nat" where
  "fence_cancel generation = (generation + 1, generation + 1)"

end
