(* ===== verification/Job.thy ===== *)
theory Job
  imports Scheduler
begin

text \<open>
  Execution jobs, \<open>packages/runtime-core/src/executionJob.ts\<close> with \<open>cloneExecutionValue\<close> of
  \<open>executionRequest.ts\<close>: the table of transitions, the controller that emits events and settles the
  completion, the subscribers with the replay of the history, and the cancellation. Each call reads
  the clock of the host at most once; the reading is an argument. A listener may subscribe and
  unsubscribe from inside a delivery; a listener that drives the controller itself is not modelled.
  The normaliser of log records is an argument, payloads are opaque.
\<close>

section \<open>The status of a job\<close>

datatype job_status =
    JQueued | JStarting | JRunning | JCancelling | JSucceeded | JFailed | JCancelled | JTimedOut

definition terminalStatuses :: "job_status list" where
  "terminalStatuses = [JSucceeded, JFailed, JCancelled, JTimedOut]"

fun allowedTransitions :: "job_status \<Rightarrow> job_status list" where
  "allowedTransitions JQueued = [JStarting, JRunning, JCancelling, JFailed, JCancelled, JTimedOut]"
| "allowedTransitions JStarting = [JRunning, JCancelling, JFailed, JCancelled, JTimedOut]"
| "allowedTransitions JRunning = [JCancelling, JSucceeded, JFailed, JCancelled, JTimedOut]"
| "allowedTransitions JCancelling = [JSucceeded, JFailed, JCancelled, JTimedOut]"
| "allowedTransitions JSucceeded = []"
| "allowedTransitions JFailed = []"
| "allowedTransitions JCancelled = []"
| "allowedTransitions JTimedOut = []"

definition isExecutionJobTerminalStatus :: "job_status \<Rightarrow> bool" where
  "isExecutionJobTerminalStatus status \<longleftrightarrow> status \<in> set terminalStatuses"

definition canTransitionExecutionJob :: "job_status \<Rightarrow> job_status \<Rightarrow> bool" where
  "canTransitionExecutionJob source target \<longleftrightarrow> target \<in> set (allowedTransitions source)"

lemma UNIV_job_status:
  "(UNIV :: job_status set) = {JQueued, JStarting, JRunning, JCancelling, JSucceeded, JFailed, JCancelled, JTimedOut}"
  using job_status.exhaust by blast

instantiation job_status :: finite
begin

instance by standard (simp add: UNIV_job_status)

end

text \<open>The inner loop of the search: \<open>None\<close> when the target is met.\<close>

fun visit_next ::
  "job_status \<Rightarrow> job_status list \<Rightarrow> job_status list \<Rightarrow> job_status list \<Rightarrow>
   (job_status list \<times> job_status list) option" where
  "visit_next target [] visited pending = Some (visited, pending)"
| "visit_next target (n # ns) visited pending =
     (if n = target then None
      else if n \<in> set visited then visit_next target ns visited pending
      else visit_next target ns (visited @ [n]) (pending @ [n]))"

lemma visit_next_measure:
  "visit_next target ns visited pending = Some (visited', pending') \<Longrightarrow>
   2 * card (- set visited') + length pending' \<le> 2 * card (- set visited) + length pending"
proof (induction ns arbitrary: visited pending)
  case (Cons n ns)
  show ?case
  proof (cases "n \<in> set visited")
    case False
    then have "card (- set (visited @ [n])) < card (- set visited)"
      by (intro psubset_card_mono) auto
    with Cons False show ?thesis by (fastforce split: if_splits)
  qed (use Cons in \<open>auto split: if_splits\<close>)
qed simp

function reach_loop :: "job_status \<Rightarrow> job_status list \<Rightarrow> job_status list \<Rightarrow> bool" where
  "reach_loop target visited [] = False"
| "reach_loop target visited (current # pending) =
     (case visit_next target (allowedTransitions current) visited pending of
        None \<Rightarrow> True
      | Some (visited', pending') \<Rightarrow> reach_loop target visited' pending')"
  by pat_completeness auto
termination
  by (relation "measure (\<lambda>(_, visited, pending). 2 * card (- set visited) + length pending)")
    (auto simp: less_Suc_eq_le dest: visit_next_measure)

definition canReachExecutionJobStatus :: "job_status \<Rightarrow> job_status \<Rightarrow> bool" where
  "canReachExecutionJobStatus source target \<longleftrightarrow> source = target \<or> reach_loop target [source] [source]"

section \<open>Values that cross a transport\<close>

text \<open>
  A run-time value as \<open>cloneExecutionValue\<close> tells them apart: \<open>ExOther\<close> is a value of another type,
  \<open>ExInstance\<close> an object that is not plain. Cyclic values, which it refuses, are not in the type.
\<close>

datatype exec_value =
    ExNull
  | ExBool bool
  | ExString string
  | ExNumber js_number
  | ExArray "exec_value list"
  | ExObject "(string \<times> exec_value) list"
  | ExInstance
  | ExOther

fun all_present :: "'a option list \<Rightarrow> 'a list option" where
  "all_present [] = Some []"
| "all_present (x # xs) = (case (x, all_present xs) of (Some y, Some ys) \<Rightarrow> Some (y # ys) | _ \<Rightarrow> None)"

fun cloneExecutionValue :: "exec_value \<Rightarrow> exec_value option" where
  "cloneExecutionValue ExNull = Some ExNull"
| "cloneExecutionValue (ExBool b) = Some (ExBool b)"
| "cloneExecutionValue (ExString s) = Some (ExString s)"
| "cloneExecutionValue (ExNumber x) = (case x of Finite q \<Rightarrow> Some (ExNumber x) | NotFinite \<Rightarrow> None)"
| "cloneExecutionValue (ExArray xs) = map_option ExArray (all_present (map cloneExecutionValue xs))"
| "cloneExecutionValue (ExObject kvs) =
     map_option (\<lambda>vs. ExObject (zip (map fst kvs) vs)) (all_present (map (\<lambda>(k, v). cloneExecutionValue v) kvs))"
| "cloneExecutionValue ExInstance = None"
| "cloneExecutionValue ExOther = None"

section \<open>Events and the state\<close>

record job_snapshot =
  js_jobId :: string
  js_requestId :: string
  js_providerId :: string
  js_status :: job_status
  latestEventSequence :: nat
  js_createdAt :: rat
  startedAt :: "rat option"
  cancellationRequestedAt :: "rat option"
  completedAt :: "rat option"

datatype 'p event_body =
    StateChange "job_status option" job_snapshot "string option"
  | LogEvent 'p
  | DiagnosticEvent 'p
  | ArtifactEvent 'p
  | TraceEvent 'p "exec_value option"

record 'p job_event =
  je_sequence :: nat
  je_emittedAt :: rat
  je_body :: "'p event_body"

record 'p subscriber =
  sub_listener :: string
  sub_delivering :: bool
  sub_queue :: "'p job_event list"

datatype cancellation_state = CancellationIdle | CancellationPending | CancellationAccepted

record 'p job_failure =
  fl_message :: string
  fl_details :: "(string \<times> exec_value) list option"
  fl_rest :: 'p

datatype 'p outcome =
    SucceededWith "exec_value option" "int option"
  | FailedWith "'p job_failure" "int option"
  | CancelledWith "string option"
  | TimedOutWith "js_number option"

record 'p job_result =
  jr_snapshot :: job_snapshot
  jr_diagnostics :: "'p list"
  jr_artifacts :: "'p list"
  jr_outcome :: "'p outcome"

text \<open>
  A subscriber that is not in the list has been removed. Keys name the objects in the set of
  subscribers; \<open>jb_delivered\<close> records the calls of listeners, and stands for what they observe.
\<close>

record 'p job =
  jb_snapshot :: job_snapshot
  jb_sequence :: nat
  lastTimestamp :: "rat option"
  jb_history :: "'p job_event list"
  jb_diagnostics :: "'p list"
  jb_artifacts :: "'p list"
  jb_cancellation :: cancellation_state
  jb_cancellable :: bool
  jb_completion :: "'p job_result option"
  jb_subscribers :: "(nat \<times> 'p subscriber) list"
  jb_nextKey :: nat
  jb_delivered :: "(nat \<times> 'p job_event) list"

section \<open>Delivery\<close>

text \<open>What a listener does with an event, given what its subscription has delivered before.\<close>

datatype reaction = Resubscribe string nat | Unsubscribe nat

type_synonym 'p listeners = "string \<Rightarrow> 'p job_event list \<Rightarrow> 'p job_event \<Rightarrow> reaction list"

definition delivered_to :: "nat \<Rightarrow> 'p job \<Rightarrow> 'p job_event list" where
  "delivered_to k s = map snd (filter (\<lambda>e. fst e = k) (jb_delivered s))"

definition update_subscriber :: "nat \<Rightarrow> ('p subscriber \<Rightarrow> 'p subscriber) \<Rightarrow> 'p job \<Rightarrow> 'p job" where
  "update_subscriber k f s =
     s\<lparr>jb_subscribers := map (\<lambda>(i, sub). (i, if i = k then f sub else sub)) (jb_subscribers s)\<rparr>"

definition unsubscribe :: "nat \<Rightarrow> 'p job \<Rightarrow> 'p job" where
  "unsubscribe k s = s\<lparr>jb_subscribers := alist_del k (jb_subscribers s)\<rparr>"

definition add_subscriber :: "string \<Rightarrow> nat \<Rightarrow> 'p job \<Rightarrow> 'p job" where
  "add_subscriber l afterSequence s =
     s\<lparr>jb_nextKey := jb_nextKey s + 1,
       jb_subscribers := jb_subscribers s @ [(jb_nextKey s,
         \<lparr>sub_listener = l, sub_delivering = False,
          sub_queue = filter (\<lambda>e. je_sequence e > afterSequence) (jb_history s)\<rparr>)]\<rparr>"

text \<open>
  \<open>drain\<close> is \<open>drainSubscriber\<close>, \<open>drain_loop\<close> its loop, \<open>react\<close> the body of a listener. The recursion of
  listeners that subscribe further listeners is bounded by fuel; \<open>None\<close> is out of fuel.
\<close>

fun drain :: "nat \<Rightarrow> 'p listeners \<Rightarrow> nat \<Rightarrow> 'p job \<Rightarrow> 'p job option"
  and drain_loop :: "nat \<Rightarrow> 'p listeners \<Rightarrow> nat \<Rightarrow> 'p job \<Rightarrow> 'p job option"
  and react :: "nat \<Rightarrow> 'p listeners \<Rightarrow> reaction list \<Rightarrow> 'p job \<Rightarrow> 'p job option" where
  "drain 0 L k s = None"
| "drain (Suc n) L k s =
     (case map_of (jb_subscribers s) k of
        None \<Rightarrow> Some s
      | Some sub \<Rightarrow>
          if sub_delivering sub then Some s
          else drain_loop n L k (update_subscriber k (sub_delivering_update (\<lambda>_. True)) s))"
| "drain_loop 0 L k s = None"
| "drain_loop (Suc n) L k s =
     (case map_of (jb_subscribers s) k of
        None \<Rightarrow> Some s
      | Some sub \<Rightarrow>
          (case sub_queue sub of
             [] \<Rightarrow> Some (update_subscriber k (sub_delivering_update (\<lambda>_. False)) s)
           | event # rest \<Rightarrow>
               let reactions = L (sub_listener sub) (delivered_to k s) event;
                   s' = update_subscriber k (sub_queue_update (\<lambda>_. rest)) s
               in case react n L reactions (s'\<lparr>jb_delivered := jb_delivered s @ [(k, event)]\<rparr>) of
                    None \<Rightarrow> None
                  | Some s'' \<Rightarrow> drain_loop n L k s''))"
| "react 0 L rs s = None"
| "react (Suc n) L [] s = Some s"
| "react (Suc n) L (r # rs) s =
     (case (case r of
        Resubscribe l afterSequence \<Rightarrow> drain n L (jb_nextKey s) (add_subscriber l afterSequence s)
      | Unsubscribe k \<Rightarrow> Some (unsubscribe k s)) of
        None \<Rightarrow> None
      | Some s' \<Rightarrow> react n L rs s')"

text \<open>
  \<open>subscribers.forEach\<close>: keys grow with the insertions, and the iteration over a \<open>Set\<close> also visits
  the elements added while it runs. The position is the least key not yet visited.
\<close>

fun deliver_from :: "nat \<Rightarrow> 'p listeners \<Rightarrow> 'p job_event \<Rightarrow> nat \<Rightarrow> 'p job \<Rightarrow> 'p job option" where
  "deliver_from 0 L event position s = None"
| "deliver_from (Suc n) L event position s =
     (case List.find (\<lambda>e. fst e \<ge> position) (jb_subscribers s) of
        None \<Rightarrow> Some s
      | Some (k, sub) \<Rightarrow>
          (case drain n L k (update_subscriber k (sub_queue_update (\<lambda>q. q @ [event])) s) of
             None \<Rightarrow> None
           | Some s' \<Rightarrow> deliver_from n L event (k + 1) s'))"

definition commitEvent :: "nat \<Rightarrow> 'p listeners \<Rightarrow> 'p job_event \<Rightarrow> 'p job \<Rightarrow> 'p job option" where
  "commitEvent n L event s = deliver_from n L event 0 (s\<lparr>jb_history := jb_history s @ [event]\<rparr>)"

definition job_subscribe ::
  "nat \<Rightarrow> 'p listeners \<Rightarrow> string \<Rightarrow> js_number option \<Rightarrow> 'p job \<Rightarrow> (nat reply \<times> 'p job) option" where
  "job_subscribe n L l afterSequence s =
     (case safe_integer (or_else afterSequence (Finite 0)) of
        Some a \<Rightarrow>
          if a < 0 then Some (Raised, s)
          else map_option (Pair (Returned (jb_nextKey s))) (drain n L (jb_nextKey s) (add_subscriber l (nat a) s))
      | None \<Rightarrow> Some (Raised, s))"


section \<open>The controller\<close>

definition readTimestamp :: "js_number \<Rightarrow> 'p job \<Rightarrow> rat reply \<times> 'p job" where
  "readTimestamp now s =
     (case now of
        NotFinite \<Rightarrow> (Raised, s)
      | Finite value \<Rightarrow>
          let t = (case lastTimestamp s of None \<Rightarrow> value | Some l \<Rightarrow> max l value)
          in (Returned t, s\<lparr>lastTimestamp := Some t\<rparr>))"

definition next_snapshot :: "job_status \<Rightarrow> rat \<Rightarrow> nat \<Rightarrow> job_snapshot \<Rightarrow> job_snapshot" where
  "next_snapshot status emittedAt sequence snapshot =
     snapshot\<lparr>js_status := status, latestEventSequence := sequence,
       startedAt := (if startedAt snapshot = None \<and> status \<in> {JStarting, JRunning} then Some emittedAt
         else startedAt snapshot),
       cancellationRequestedAt := (if status = JCancelling then Some emittedAt
         else cancellationRequestedAt snapshot),
       completedAt := (if isExecutionJobTerminalStatus status then Some emittedAt else completedAt snapshot)\<rparr>"

text \<open>
  The new state and the event of a transition, before its delivery; the reply of the operation comes
  with the state after the delivery.
\<close>

definition start_transition ::
  "job_status \<Rightarrow> string option \<Rightarrow> js_number \<Rightarrow> 'p job \<Rightarrow> 'p job_event reply \<times> 'p job" where
  "start_transition status reason now s =
     (let previousStatus = js_status (jb_snapshot s)
      in if \<not> canTransitionExecutionJob previousStatus status then (Raised, s)
         else and_then (readTimestamp now s) (\<lambda>emittedAt s.
           let sequence = jb_sequence s + 1;
               snapshot = next_snapshot status emittedAt sequence (jb_snapshot s)
           in (Returned \<lparr>je_sequence = sequence, je_emittedAt = emittedAt,
                 je_body = StateChange (Some previousStatus) snapshot (nonempty_reason reason)\<rparr>,
               s\<lparr>jb_sequence := sequence, jb_snapshot := snapshot\<rparr>)))"

definition start_publication ::
  "'p event_body \<Rightarrow> js_number \<Rightarrow> 'p job \<Rightarrow> 'p job_event reply \<times> 'p job" where
  "start_publication event_data now s =
     (if isExecutionJobTerminalStatus (js_status (jb_snapshot s)) then (Raised, s)
      else and_then (readTimestamp now s) (\<lambda>emittedAt s.
        let sequence = jb_sequence s + 1
        in (Returned \<lparr>je_sequence = sequence, je_emittedAt = emittedAt, je_body = event_data\<rparr>,
            s\<lparr>jb_sequence := sequence, jb_snapshot := (jb_snapshot s)\<lparr>latestEventSequence := sequence\<rparr>\<rparr>)))"

definition deliver ::
  "nat \<Rightarrow> 'p listeners \<Rightarrow> 'p job_event reply \<times> 'p job \<Rightarrow> ('p job_event reply \<times> 'p job) option" where
  "deliver n L start =
     (case start of
        (Raised, s) \<Rightarrow> Some (Raised, s)
      | (Returned event, s) \<Rightarrow> map_option (Pair (Returned event)) (commitEvent n L event s))"

definition transition ::
  "nat \<Rightarrow> 'p listeners \<Rightarrow> job_status \<Rightarrow> string option \<Rightarrow> js_number \<Rightarrow> 'p job \<Rightarrow>
   ('p job_event reply \<times> 'p job) option" where
  "transition n L status reason now s = deliver n L (start_transition status reason now s)"

definition publishEvent ::
  "nat \<Rightarrow> 'p listeners \<Rightarrow> 'p event_body \<Rightarrow> js_number \<Rightarrow> 'p job \<Rightarrow> ('p job_event reply \<times> 'p job) option" where
  "publishEvent n L event_data now s = deliver n L (start_publication event_data now s)"

definition emitLog ::
  "nat \<Rightarrow> 'p listeners \<Rightarrow> ('p \<Rightarrow> 'p option) \<Rightarrow> 'p \<Rightarrow> js_number \<Rightarrow> 'p job \<Rightarrow>
   ('p job_event reply \<times> 'p job) option" where
  "emitLog n L createLogRecord entry now s =
     (case createLogRecord entry of
        None \<Rightarrow> Some (Raised, s)
      | Some record_data \<Rightarrow> publishEvent n L (LogEvent record_data) now s)"

definition emitDiagnostic ::
  "nat \<Rightarrow> 'p listeners \<Rightarrow> 'p \<Rightarrow> js_number \<Rightarrow> 'p job \<Rightarrow> ('p job_event reply \<times> 'p job) option" where
  "emitDiagnostic n L diagnostic now s =
     (if isExecutionJobTerminalStatus (js_status (jb_snapshot s)) then Some (Raised, s)
      else publishEvent n L (DiagnosticEvent diagnostic) now
        (s\<lparr>jb_diagnostics := jb_diagnostics s @ [diagnostic]\<rparr>))"

definition emitArtifact ::
  "nat \<Rightarrow> 'p listeners \<Rightarrow> 'p \<Rightarrow> js_number \<Rightarrow> 'p job \<Rightarrow> ('p job_event reply \<times> 'p job) option" where
  "emitArtifact n L artifact now s =
     (if isExecutionJobTerminalStatus (js_status (jb_snapshot s)) then Some (Raised, s)
      else publishEvent n L (ArtifactEvent artifact) now (s\<lparr>jb_artifacts := jb_artifacts s @ [artifact]\<rparr>))"

definition emitTrace ::
  "nat \<Rightarrow> 'p listeners \<Rightarrow> 'p \<Rightarrow> exec_value option \<Rightarrow> js_number \<Rightarrow> 'p job \<Rightarrow>
   ('p job_event reply \<times> 'p job) option" where
  "emitTrace n L trace detail now s =
     (case detail of
        None \<Rightarrow> publishEvent n L (TraceEvent trace None) now s
      | Some d \<Rightarrow>
          (case cloneExecutionValue d of
             None \<Rightarrow> Some (Raised, s)
           | Some d' \<Rightarrow> publishEvent n L (TraceEvent trace (Some d')) now s))"

text \<open>The end of a job: a transition, the assembly of the result, which can throw, and the settlement.\<close>

definition resultBase :: "'p outcome \<Rightarrow> 'p job \<Rightarrow> 'p job_result" where
  "resultBase outcome s =
     \<lparr>jr_snapshot = jb_snapshot s, jr_diagnostics = jb_diagnostics s, jr_artifacts = jb_artifacts s,
      jr_outcome = outcome\<rparr>"

definition settle :: "'p job_result \<Rightarrow> 'p job \<Rightarrow> 'p job" where
  "settle result s = (if jb_completion s = None then s\<lparr>jb_completion := Some result\<rparr> else s)"

definition finish ::
  "nat \<Rightarrow> 'p listeners \<Rightarrow> job_status \<Rightarrow> string option \<Rightarrow> 'p outcome option \<Rightarrow> js_number \<Rightarrow> 'p job \<Rightarrow>
   ('p job_result reply \<times> 'p job) option" where
  "finish n L status reason outcome now s =
     (case transition n L status reason now s of
        None \<Rightarrow> None
      | Some (Raised, s') \<Rightarrow> Some (Raised, s')
      | Some (Returned _, s') \<Rightarrow>
          (if completedAt (jb_snapshot s') = None then Some (Raised, s')
           else case outcome of
             None \<Rightarrow> Some (Raised, s')
           | Some x \<Rightarrow> Some (Returned (resultBase x s'), settle (resultBase x s') s')))"

definition clone_output :: "exec_value option \<Rightarrow> exec_value option option" where
  "clone_output v = (case v of None \<Rightarrow> Some None | Some x \<Rightarrow> map_option Some (cloneExecutionValue x))"

definition clone_failure :: "'p job_failure \<Rightarrow> 'p job_failure option" where
  "clone_failure f =
     (case fl_details f of
        None \<Rightarrow> Some f
      | Some kvs \<Rightarrow> map_option (\<lambda>vs. f\<lparr>fl_details := Some (zip (map fst kvs) vs)\<rparr>)
          (all_present (map (\<lambda>(k, v). cloneExecutionValue v) kvs)))"

definition succeed ::
  "nat \<Rightarrow> 'p listeners \<Rightarrow> exec_value option \<Rightarrow> int option \<Rightarrow> js_number \<Rightarrow> 'p job \<Rightarrow>
   ('p job_result reply \<times> 'p job) option" where
  "succeed n L output exitCode now s =
     finish n L JSucceeded None (map_option (\<lambda>v. SucceededWith v exitCode) (clone_output output)) now s"

definition fail ::
  "nat \<Rightarrow> 'p listeners \<Rightarrow> 'p job_failure \<Rightarrow> int option \<Rightarrow> js_number \<Rightarrow> 'p job \<Rightarrow>
   ('p job_result reply \<times> 'p job) option" where
  "fail n L failure exitCode now s =
     finish n L JFailed (Some (fl_message failure))
       (map_option (\<lambda>f. FailedWith f exitCode) (clone_failure failure)) now s"

definition finishCancelled ::
  "nat \<Rightarrow> 'p listeners \<Rightarrow> string option \<Rightarrow> js_number \<Rightarrow> 'p job \<Rightarrow> ('p job_result reply \<times> 'p job) option" where
  "finishCancelled n L reason now s =
     finish n L JCancelled reason (Some (CancelledWith (nonempty_reason reason))) now s"

definition finishTimedOut ::
  "nat \<Rightarrow> 'p listeners \<Rightarrow> js_number option \<Rightarrow> js_number \<Rightarrow> 'p job \<Rightarrow> ('p job_result reply \<times> 'p job) option" where
  "finishTimedOut n L timeoutMs now s =
     (if (case timeoutMs of None \<Rightarrow> False | Some t \<Rightarrow> positiveSafeInteger t = None) then Some (Raised, s)
      else finish n L JTimedOut None (Some (TimedOutWith timeoutMs)) now s)"


section \<open>Cancellation\<close>

datatype cancel_reply =
    CancelAccepted | AlreadyRequested | AlreadyTerminal | CancelUnsupported | CancelRejected

datatype disposition = DispositionAccepted | DispositionUnsupported | DispositionThrew

text \<open>The request awaits the handler of the provider: the halves before and after the await.\<close>

definition begin_cancel :: "'p job \<Rightarrow> cancel_reply option \<times> 'p job" where
  "begin_cancel s =
     (if isExecutionJobTerminalStatus (js_status (jb_snapshot s)) then (Some AlreadyTerminal, s)
      else if js_status (jb_snapshot s) = JCancelling \<or> jb_cancellation s \<noteq> CancellationIdle
      then (Some AlreadyRequested, s)
      else if \<not> jb_cancellable s then (Some CancelUnsupported, s)
      else (None, s\<lparr>jb_cancellation := CancellationPending\<rparr>))"

definition end_cancel ::
  "nat \<Rightarrow> 'p listeners \<Rightarrow> disposition \<Rightarrow> string option \<Rightarrow> js_number \<Rightarrow> 'p job \<Rightarrow> (cancel_reply \<times> 'p job) option" where
  "end_cancel n L result reason now s =
     (case result of
        DispositionUnsupported \<Rightarrow> Some (CancelUnsupported, s\<lparr>jb_cancellation := CancellationIdle\<rparr>)
      | DispositionThrew \<Rightarrow> Some (CancelRejected, s\<lparr>jb_cancellation := CancellationIdle\<rparr>)
      | DispositionAccepted \<Rightarrow>
          let s' = s\<lparr>jb_cancellation := CancellationAccepted\<rparr>;
              current = js_status (jb_snapshot s')
          in if isExecutionJobTerminalStatus current \<or> current = JCancelling then Some (CancelAccepted, s')
             else case transition n L JCancelling reason now s' of
               None \<Rightarrow> None
             | Some (Raised, s'') \<Rightarrow> Some (CancelRejected, s''\<lparr>jb_cancellation := CancellationIdle\<rparr>)
             | Some (Returned _, s'') \<Rightarrow> Some (CancelAccepted, s''))"

section \<open>Creation\<close>

definition normalizeId :: "string \<Rightarrow> string option" where
  "normalizeId value = (let normalized = js_trim value in if normalized = '''' then None else Some normalized)"

record job_creation =
  cj_jobId :: string
  cj_requestId :: string
  cj_providerId :: string
  cj_capabilities :: "string list"
  cj_handler :: bool
  cj_now :: js_number

definition createExecutionJobController :: "job_creation \<Rightarrow> 'p job option" where
  "createExecutionJobController input =
     (case (normalizeId (cj_jobId input), normalizeId (cj_requestId input), cj_now input) of
        (Some jobId, Some requestId, Finite createdAt) \<Rightarrow>
          if requestId \<noteq> cj_requestId input \<or> cj_providerId input \<noteq> js_trim (cj_providerId input) \<or>
             cj_providerId input = '''' \<or> (''cancellation'' \<in> set (cj_capabilities input)) \<noteq> cj_handler input
          then None
          else
            let snapshot = \<lparr>js_jobId = jobId, js_requestId = requestId, js_providerId = cj_providerId input,
                  js_status = JQueued, latestEventSequence = 1, js_createdAt = createdAt, startedAt = None,
                  cancellationRequestedAt = None, completedAt = None\<rparr>
            in Some \<lparr>jb_snapshot = snapshot, jb_sequence = 1, lastTimestamp = Some createdAt,
                 jb_history = [\<lparr>je_sequence = 1, je_emittedAt = createdAt, je_body = StateChange None snapshot None\<rparr>],
                 jb_diagnostics = [], jb_artifacts = [], jb_cancellation = CancellationIdle,
                 jb_cancellable = cj_handler input, jb_completion = None, jb_subscribers = [], jb_nextKey = 0,
                 jb_delivered = []\<rparr>
      | _ \<Rightarrow> None)"

end
