(* ===== verification/SchedulerLaws.thy ===== *)
theory SchedulerLaws
  imports Scheduler
begin

text \<open>
  The laws of the deterministic scheduler: the invariant of its tasks, barriers and log under all
  interleavings of calls and turns, the order in which tasks are taken, the termination of its
  loops, and the barriers.
\<close>

section \<open>The invariant\<close>

definition safe_time :: "int \<Rightarrow> bool" where
  "safe_time t \<longleftrightarrow> \<bar>t\<bar> \<le> int max_safe_integer"

lemma safe_time_number: "isSafeInteger (Finite (of_int t)) \<longleftrightarrow> safe_time t"
  by (simp add: safe_time_def)

lemma safe_integer_Some: "safe_integer x = Some t \<Longrightarrow> safe_time t"
  by (auto simp: safe_integer_def safe_time_def split: js_number.splits if_splits)

lemma readClockTime_Some: "readClockTime x = Some t \<Longrightarrow> safe_time t"
  by (auto simp: readClockTime_def split: option.splits if_splits dest: safe_integer_Some)

definition log_ok :: "config \<Rightarrow> scheduler \<Rightarrow> bool" where
  "log_ok C s \<longleftrightarrow> 1 \<le> maximumEvents C \<and> droppedEventCount s \<le> eventSequence s \<and> length (sc_events s) \<le> maximumEvents C \<and>
     map ev_sequence (sc_events s) = [droppedEventCount s + 1..<eventSequence s + 1] \<and>
     sorted (map ev_time (sc_events s)) \<and> (\<forall>e \<in> set (sc_events s). ev_time e \<le> logicalTime s) \<and>
     safe_time (logicalTime s)"

definition tasks_ok :: "config \<Rightarrow> scheduler \<Rightarrow> bool" where
  "tasks_ok C s \<longleftrightarrow> distinct (map fst (sc_tasks s)) \<and> distinct (map (pt_sequence \<circ> snd) (sc_tasks s)) \<and>
     (\<forall>(i, t) \<in> set (sc_tasks s). pt_id t = i \<and> pt_sequence t \<le> taskSequence s \<and> safe_time (pt_readyAt t)) \<and>
     length (sc_tasks s) \<le> maximumTasks C \<and> sc_turns s \<le> maximumTurns C"

definition barrier_ok :: "barrier_state \<Rightarrow> bool" where
  "barrier_ok b \<longleftrightarrow> participants b \<noteq> [] \<and> distinct (participants b) \<and> distinct (arrived b) \<and>
     set (arrived b) \<subseteq> set (participants b)"

definition barriers_ok :: "scheduler \<Rightarrow> bool" where
  "barriers_ok s \<longleftrightarrow> distinct (map fst (sc_barriers s)) \<and> (\<forall>b \<in> snd ` set (sc_barriers s). barrier_ok b)"

definition sched_inv :: "config \<Rightarrow> scheduler \<Rightarrow> bool" where
  "sched_inv C s \<longleftrightarrow> log_ok C s \<and> tasks_ok C s \<and> barriers_ok s"

text \<open>The log: only \<open>append_event\<close> and the clock touch what \<open>log_ok\<close> reads.\<close>

named_theorems log "operations that keep the log well-formed"

lemma log_ok_frame [simp]:
  "log_ok C (s\<lparr>sc_tasks := ts\<rparr>) = log_ok C s" "log_ok C (s\<lparr>sc_barriers := bs\<rparr>) = log_ok C s"
  "log_ok C (s\<lparr>taskSequence := n\<rparr>) = log_ok C s" "log_ok C (s\<lparr>sc_turns := n\<rparr>) = log_ok C s"
  "log_ok C (s\<lparr>sc_status := x\<rparr>) = log_ok C s" "log_ok C (s\<lparr>cancellationReason := r\<rparr>) = log_ok C s"
  "log_ok C (s\<lparr>clock_reading := t\<rparr>) = log_ok C s"
  by (simp_all add: log_ok_def)

lemma log_ok_later: "log_ok C s \<Longrightarrow> logicalTime s \<le> t \<Longrightarrow> safe_time t \<Longrightarrow> log_ok C (s\<lparr>logicalTime := t\<rparr>)"
  by (auto simp: log_ok_def)

lemma synchronize_log [log]: "synchronizeLogicalTime C s = (r, s') \<Longrightarrow> log_ok C s \<Longrightarrow> log_ok C s'"
  by (auto simp: synchronizeLogicalTime_def intro: log_ok_later readClockTime_Some split: if_splits option.splits)

lemma log_ok_push:
  assumes "log_ok C s" and "n = eventSequence s + 1"
    and "es = sc_events s @ [e\<lparr>ev_sequence := n, ev_time := logicalTime s\<rparr>]"
  shows "length es \<le> maximumEvents C \<Longrightarrow> log_ok C (s\<lparr>eventSequence := n, sc_events := es\<rparr>)"
    and "maximumEvents C < length es \<Longrightarrow>
      log_ok C (s\<lparr>eventSequence := n, sc_events := tl es, droppedEventCount := droppedEventCount s + 1\<rparr>)"
proof -
  have "droppedEventCount s \<le> eventSequence s" using assms(1) by (simp add: log_ok_def)
  then have seqs: "map ev_sequence es = [droppedEventCount s + 1..<n + 1]"
    using assms by (simp add: log_ok_def)
  have sorted: "sorted (map ev_time es)" "\<forall>e \<in> set es. ev_time e \<le> logicalTime s"
    using assms(1) by (auto simp: assms(3) log_ok_def sorted_append)
  show "length es \<le> maximumEvents C \<Longrightarrow> log_ok C (s\<lparr>eventSequence := n, sc_events := es\<rparr>)"
    using seqs sorted assms(1,2) by (simp add: log_ok_def)
  assume long: "maximumEvents C < length es"
  have "map ev_sequence (tl es) = [Suc (droppedEventCount s) + 1..<n + 1]"
    by (simp only: map_tl seqs tl_upt) simp
  moreover have "sorted (map ev_time (tl es))" "\<forall>e \<in> set (tl es). ev_time e \<le> logicalTime s"
    using sorted by (cases es; simp)+
  moreover have "length (tl es) \<le> maximumEvents C" using assms(1) by (simp add: assms(3) log_ok_def)
  ultimately show "log_ok C (s\<lparr>eventSequence := n, sc_events := tl es, droppedEventCount := droppedEventCount s + 1\<rparr>)"
    using assms(1,2) by (simp add: log_ok_def)
qed

lemma append_log [log]: "append_event C e s = (r, s') \<Longrightarrow> log_ok C s \<Longrightarrow> log_ok C s'"
  unfolding append_event_def
  by (auto simp: Let_def simp del: length_append split: and_then_splits if_splits
      intro!: log_ok_push [OF _ refl refl, simplified] dest: log)


lemma advance_log [log]: "advanceLogicalTime C t s = (r, s') \<Longrightarrow> log_ok C s \<Longrightarrow> log_ok C s'"
  unfolding advanceLogicalTime_def
  by (auto simp: Let_def safe_time_number simp del: isSafeInteger.simps split: and_then_splits if_splits option.splits
      intro!: log_ok_later dest: log)

text \<open>Tasks and barriers are untouched by the log and the clock.\<close>

named_theorems keeps "operations that leave the tasks, the barriers and the status as they are"

lemma synchronize_keeps [keeps]:
  "synchronizeLogicalTime C s = (r, s') \<Longrightarrow> sc_tasks s' = sc_tasks s \<and> sc_barriers s' = sc_barriers s \<and>
     sc_status s' = sc_status s \<and> taskSequence s' = taskSequence s \<and> sc_turns s' = sc_turns s \<and>
     cancellationReason s' = cancellationReason s"
  by (auto simp: synchronizeLogicalTime_def split: if_splits option.splits)

lemma append_keeps [keeps]:
  "append_event C e s = (r, s') \<Longrightarrow> sc_tasks s' = sc_tasks s \<and> sc_barriers s' = sc_barriers s \<and>
     sc_status s' = sc_status s \<and> taskSequence s' = taskSequence s \<and> sc_turns s' = sc_turns s \<and>
     cancellationReason s' = cancellationReason s"
  unfolding append_event_def by (auto simp: Let_def split: and_then_splits if_splits dest!: keeps)

lemma advance_keeps [keeps]:
  "advanceLogicalTime C t s = (r, s') \<Longrightarrow> sc_tasks s' = sc_tasks s \<and> sc_barriers s' = sc_barriers s \<and>
     sc_status s' = sc_status s \<and> taskSequence s' = taskSequence s \<and> sc_turns s' = sc_turns s \<and>
     cancellationReason s' = cancellationReason s"
  unfolding advanceLogicalTime_def
  by (auto simp: Let_def split: and_then_splits if_splits option.splits dest!: keeps)

lemma snapshot_keeps [keeps]:
  "take_snapshot C s = (r, s') \<Longrightarrow> sc_tasks s' = sc_tasks s \<and> sc_barriers s' = sc_barriers s \<and>
     sc_status s' = sc_status s \<and> taskSequence s' = taskSequence s \<and> sc_turns s' = sc_turns s \<and>
     cancellationReason s' = cancellationReason s"
  unfolding take_snapshot_def by (auto split: and_then_splits dest!: keeps)

lemma snapshot_log [log]: "take_snapshot C s = (r, s') \<Longrightarrow> log_ok C s \<Longrightarrow> log_ok C s'"
  unfolding take_snapshot_def by (auto split: and_then_splits dest: log)

text \<open>The invariant only reads the fields that those operations keep.\<close>

lemma tasks_ok_cong:
  "sc_tasks s' = sc_tasks s \<Longrightarrow> taskSequence s' = taskSequence s \<Longrightarrow> sc_turns s' = sc_turns s \<Longrightarrow>
   tasks_ok C s' = tasks_ok C s"
  by (simp add: tasks_ok_def)

lemma barriers_ok_cong: "sc_barriers s' = sc_barriers s \<Longrightarrow> barriers_ok s' = barriers_ok s"
  by (simp add: barriers_ok_def)

lemma tasks_ok_add:
  assumes "tasks_ok C s" and "map_of (sc_tasks s) (pt_id t) = None" and "length (sc_tasks s) < maximumTasks C"
    and "pt_sequence t = taskSequence s + 1" and "safe_time (pt_readyAt t)"
  shows "tasks_ok C (s\<lparr>taskSequence := taskSequence s + 1, sc_tasks := alist_put (pt_id t) t (sc_tasks s)\<rparr>)"
proof -
  have "pt_id t \<notin> fst ` set (sc_tasks s)" using assms(2) by (simp add: map_of_eq_None_iff)
  with assms show ?thesis by (force simp: tasks_ok_def alist_put_new)
qed

lemma tasks_ok_remove: "tasks_ok C s \<Longrightarrow> tasks_ok C (s\<lparr>sc_tasks := alist_del i (sc_tasks s)\<rparr>)"
  by (auto simp: tasks_ok_def alist_del_def intro: distinct_map_filter order_trans [OF length_filter_le])

lemma barriers_ok_put:
  "barriers_ok s \<Longrightarrow> barrier_ok b \<Longrightarrow> barriers_ok (s\<lparr>sc_barriers := alist_put i b (sc_barriers s)\<rparr>)"
  using set_alist_put [of i b "sc_barriers s"] by (fastforce simp: barriers_ok_def)

lemma barriers_ok_remove: "barriers_ok s \<Longrightarrow> barriers_ok (s\<lparr>sc_barriers := alist_del i (sc_barriers s)\<rparr>)"
  using set_alist_del [of i "sc_barriers s"] by (fastforce simp: barriers_ok_def)

lemma barriers_ok_lookup: "barriers_ok s \<Longrightarrow> map_of (sc_barriers s) i = Some b \<Longrightarrow> barrier_ok b"
  by (force simp: barriers_ok_def dest: map_of_SomeD)


text \<open>The whole invariant, for every operation.\<close>

lemma sched_inv_frame [simp]:
  "sched_inv C (s\<lparr>sc_status := x\<rparr>) = sched_inv C s" "sched_inv C (s\<lparr>cancellationReason := y\<rparr>) = sched_inv C s"
  "sched_inv C (s\<lparr>clock_reading := t\<rparr>) = sched_inv C s"
  by (simp_all add: sched_inv_def tasks_ok_def barriers_ok_def)

lemma sched_inv_updates:
  "sched_inv C s \<Longrightarrow> sched_inv C (s\<lparr>sc_tasks := alist_del i (sc_tasks s)\<rparr>)"
  "sched_inv C s \<Longrightarrow> sched_inv C (s\<lparr>sc_barriers := alist_del i (sc_barriers s)\<rparr>)"
  "sched_inv C s \<Longrightarrow> barrier_ok b \<Longrightarrow> sched_inv C (s\<lparr>sc_barriers := alist_put i b (sc_barriers s)\<rparr>)"
  "sched_inv C s \<Longrightarrow> sc_turns s < maximumTurns C \<Longrightarrow> sched_inv C (s\<lparr>sc_turns := Suc (sc_turns s)\<rparr>)"
  "sched_inv C s \<Longrightarrow> sched_inv C (s\<lparr>cancellationReason := r, sc_status := x, sc_tasks := [], sc_barriers := []\<rparr>)"
  using tasks_ok_remove [of C s i] barriers_ok_remove [of s i] barriers_ok_put [of s b i]
  by (auto simp: sched_inv_def tasks_ok_def barriers_ok_def)

lemma sched_inv_add:
  "sched_inv C s \<Longrightarrow> map_of (sc_tasks s) i = None \<Longrightarrow> length (sc_tasks s) < maximumTasks C \<Longrightarrow> safe_time r \<Longrightarrow>
   sched_inv C (s\<lparr>taskSequence := Suc (taskSequence s),
     sc_tasks := alist_put i \<lparr>pt_id = i, pt_lane = l, pt_readyAt = r, pt_sequence = Suc (taskSequence s)\<rparr>
       (sc_tasks s)\<rparr>)"
  using tasks_ok_add [of C s "\<lparr>pt_id = i, pt_lane = l, pt_readyAt = r, pt_sequence = Suc (taskSequence s)\<rparr>"]
  by (simp add: sched_inv_def barriers_ok_def)

named_theorems inv "operations that keep the invariant"

lemma synchronize_inv [inv]: "synchronizeLogicalTime C s = (r, s') \<Longrightarrow> sched_inv C s \<Longrightarrow> sched_inv C s'"
  using tasks_ok_cong [of s' s C] barriers_ok_cong [of s' s]
  by (auto simp: sched_inv_def dest: log synchronize_keeps)

lemma append_inv [inv]: "append_event C e s = (r, s') \<Longrightarrow> sched_inv C s \<Longrightarrow> sched_inv C s'"
  using tasks_ok_cong [of s' s C] barriers_ok_cong [of s' s]
  by (auto simp: sched_inv_def dest: log append_keeps)

lemma advance_inv [inv]: "advanceLogicalTime C t s = (r, s') \<Longrightarrow> sched_inv C s \<Longrightarrow> sched_inv C s'"
  using tasks_ok_cong [of s' s C] barriers_ok_cong [of s' s]
  by (auto simp: sched_inv_def dest: log advance_keeps)

lemma snapshot_inv [inv]: "take_snapshot C s = (r, s') \<Longrightarrow> sched_inv C s \<Longrightarrow> sched_inv C s'"
  using tasks_ok_cong [of s' s C] barriers_ok_cong [of s' s]
  by (auto simp: sched_inv_def dest: log snapshot_keeps)

lemma enqueue_inv [inv]: "enqueue C i l t s = (r, s') \<Longrightarrow> sched_inv C s \<Longrightarrow> sched_inv C s'"
  unfolding enqueue_def
  by (auto simp: Let_def intro: sched_inv_add safe_integer_Some split: and_then_splits if_splits option.splits dest!: inv)

lemma js_set_eq_Nil: "js_set xs = [] \<longleftrightarrow> xs = []"
  by (metis set_empty set_js_set)

lemma barrier_inv [inv]: "createBarrier C i ps s = (r, s') \<Longrightarrow> sched_inv C s \<Longrightarrow> sched_inv C s'"
  unfolding createBarrier_def
  by (auto simp: barrier_ok_def js_set_eq_Nil intro!: sched_inv_updates split: if_splits option.splits dest!: inv)

lemma arrived_ok: "barrier_ok b \<Longrightarrow> p \<in> set (participants b) \<Longrightarrow> barrier_ok (b\<lparr>arrived := set_add p (arrived b)\<rparr>)"
  by (auto simp: barrier_ok_def set_add_def)

lemma arrive_inv [inv]: "arrive C i p s = (r, s') \<Longrightarrow> sched_inv C s \<Longrightarrow> sched_inv C s'"
  unfolding arrive_def
  by (auto simp: sched_inv_def intro!: sched_inv_updates arrived_ok intro: barriers_ok_lookup
      split: and_then_splits if_splits option.splits dest!: inv)

lemma control_inv [inv]:
  "pause C s = (b, s') \<Longrightarrow> sched_inv C s \<Longrightarrow> sched_inv C s'"
  "resume C s = (b, s') \<Longrightarrow> sched_inv C s \<Longrightarrow> sched_inv C s'"
  "cancel C reason s = (u, s') \<Longrightarrow> sched_inv C s \<Longrightarrow> sched_inv C s'"
  unfolding pause_def resume_def cancel_def
  by (auto intro: sched_inv_updates split: and_then_splits if_splits dest!: inv)

lemma perform_inv: "sched_inv C s \<Longrightarrow> sched_inv C (perform C s c)"
  by (cases c) (simp_all add: inv [OF surjective_pairing])

lemma turn_inv:
  assumes "advanceLogicalTime C t (s\<lparr>sc_status := Running, sc_tasks := alist_del i (sc_tasks s)\<rparr>) = (r, s')"
    and "sched_inv C s" and "sc_turns s < maximumTurns C"
  shows "sched_inv C s'" and "sched_inv C (s'\<lparr>sc_turns := Suc (sc_turns s')\<rparr>)"
proof -
  have "sched_inv C (s\<lparr>sc_status := Running, sc_tasks := alist_del i (sc_tasks s)\<rparr>)"
    using sched_inv_updates(1) [of C "s\<lparr>sc_status := Running\<rparr>" i] assms(2) by simp
  then show inv': "sched_inv C s'" by (rule advance_inv [OF assms(1)])
  have "sc_turns s' = sc_turns s" using advance_keeps [OF assms(1)] by simp
  with assms(3) show "sched_inv C (s'\<lparr>sc_turns := Suc (sc_turns s')\<rparr>)"
    by (intro sched_inv_updates(4) inv') simp
qed

lemma start_task_inv [inv]:
  assumes "start_task C task s = (r, s')" and "sched_inv C s" and "sc_turns s < maximumTurns C"
  shows "sched_inv C s'"
  using assms(1) turn_inv [OF _ assms(2,3)] unfolding start_task_def
  by (auto split: and_then_splits dest: append_inv)

lemma begin_turn_inv [inv]: "begin_turn C s = (r, s') \<Longrightarrow> sched_inv C s \<Longrightarrow> sched_inv C s'"
  unfolding begin_turn_def
  by (auto split: and_then_splits if_splits list.splits dest!: inv)

lemma end_turn_inv [inv]: "end_turn C task x s = (r, s') \<Longrightarrow> sched_inv C s \<Longrightarrow> sched_inv C s'"
  unfolding end_turn_def by (auto split: and_then_splits if_splits task_result.splits dest!: inv)


lemma settle_inv [inv]: "settle_idle C s = (r, s') \<Longrightarrow> sched_inv C s \<Longrightarrow> sched_inv C s'"
  unfolding settle_idle_def by (auto split: and_then_splits if_splits dest!: inv)

lemma wait_end_inv [inv]:
  "satisfied_now C i v cause s = (r, s') \<Longrightarrow> sched_inv C s \<Longrightarrow> sched_inv C s'"
  "timed_out C i v s = (r, s') \<Longrightarrow> sched_inv C s \<Longrightarrow> sched_inv C s'"
  unfolding satisfied_now_def timed_out_def by (auto split: and_then_splits dest!: inv)

lemma wait_without_task_inv [inv]:
  "wait_without_task C Q d n s w = (r, s') \<Longrightarrow> sched_inv C s \<Longrightarrow> sched_inv C s'"
  unfolding wait_without_task_def by (auto simp: Let_def split: and_then_splits if_splits dest!: inv)

text \<open>
  Everything that can happen to a scheduler, in any order: calls, the two halves of a turn (the
  second possibly late, or more than once for overlapping runs), and the ends of the loops.
\<close>

datatype ('w, 'v) sched_action =
    CallStep call
  | BeginTurn
  | EndTurn pending_task task_result
  | SettleIdle
  | WaitWithoutTask "('w, 'v) condition" int bool 'w
  | WaitSatisfiedNow string 'v wait_cause
  | WaitTimedOutNow string 'v

fun sched_step :: "config \<Rightarrow> scheduler \<Rightarrow> ('w, 'v) sched_action \<Rightarrow> scheduler" where
  "sched_step C s (CallStep c) = perform C s c"
| "sched_step C s BeginTurn = snd (begin_turn C s)"
| "sched_step C s (EndTurn task r) = snd (end_turn C task r s)"
| "sched_step C s SettleIdle = snd (settle_idle C s)"
| "sched_step C s (WaitWithoutTask Q d n w) = snd (wait_without_task C Q d n s w)"
| "sched_step C s (WaitSatisfiedNow i v cause) = snd (satisfied_now C i v cause s)"
| "sched_step C s (WaitTimedOutNow i v) = snd (timed_out C i v s)"

interpretation sched: machine "sched_step C" "sched_inv C" for C
proof
  fix s and e :: "('w, 'v) sched_action"
  assume "sched_inv C s"
  then show "sched_inv C (sched_step C s e)"
    by (cases e) (simp_all add: perform_inv inv [OF surjective_pairing])
qed

lemma created_inv: "createDeterministicScheduler input = Some (C, s) \<Longrightarrow> sched_inv C s"
  by (auto simp: createDeterministicScheduler_def sched_inv_def log_ok_def tasks_ok_def barriers_ok_def
      positiveSafeInteger_def readClockTime_Some split: option.splits if_splits)

section \<open>The order of tasks\<close>

lemma compare_tasks_or:
  "compare_tasks = or_compare (\<lambda>x y. pt_readyAt x - pt_readyAt y)
     (or_compare (\<lambda>x y. compareUnicodeCodePoints (pt_lane x) (pt_lane y))
       (\<lambda>x y. int (pt_sequence x) - int (pt_sequence y)))"
  by (intro ext) (simp add: compare_tasks_def or_compare_def)

interpretation task_order: comparator "\<lambda>_. True" compare_tasks
  unfolding compare_tasks_or
  by (intro consistent_comparator consistent_or consistent_map [OF consistent_minus]
      consistent_map [OF consistent_code_points] consistent_map [OF consistent_minus, of "\<lambda>x. int (pt_sequence x)"])

text \<open>A task is less than another by ready time, then lane, then the order of the calls.\<close>

lemma compare_tasks_le:
  "compare_tasks x y \<le> 0 \<longleftrightarrow> pt_readyAt x < pt_readyAt y \<or> pt_readyAt x = pt_readyAt y \<and>
     (compareUnicodeCodePoints (pt_lane x) (pt_lane y) < 0 \<or>
      pt_lane x = pt_lane y \<and> pt_sequence x \<le> pt_sequence y)"
  using compareUnicodeCodePoints_zero [of "pt_lane x" "pt_lane y"] by (auto simp: compare_tasks_def)

lemma orderedTasks_head:
  assumes "orderedTasks s = t # ts"
  shows "t \<in> snd ` set (sc_tasks s)" and "u \<in> snd ` set (sc_tasks s) \<Longrightarrow> compare_tasks t u \<le> 0"
proof -
  have "set (orderedTasks s) = snd ` set (sc_tasks s)" by (simp add: orderedTasks_def)
  with assms show "t \<in> snd ` set (sc_tasks s)" by (metis list.set_intros(1))
  show "u \<in> snd ` set (sc_tasks s) \<Longrightarrow> compare_tasks t u \<le> 0"
    using task_order.head_least [of "map snd (sc_tasks s)" t ts u] assms by (simp add: orderedTasks_def)
qed

lemma orderedTasks_Nil: "orderedTasks s = [] \<longleftrightarrow> sc_tasks s = []"
  by (simp add: orderedTasks_def)

lemma synchronize_time: "synchronizeLogicalTime C s = (r, s') \<Longrightarrow> logicalTime s \<le> logicalTime s'"
  by (auto simp: synchronizeLogicalTime_def split: if_splits option.splits)

lemma advance_time: "advanceLogicalTime C t s = (Returned u, s') \<Longrightarrow> logicalTime s' = t"
  unfolding advanceLogicalTime_def by (auto simp: Let_def split: and_then_splits if_splits option.splits)

lemma append_time: "append_event C e s = (r, s') \<Longrightarrow> logicalTime s \<le> logicalTime s'"
  unfolding append_event_def
  by (auto simp: Let_def split: and_then_splits if_splits dest!: synchronize_time)

lemma start_task_facts:
  assumes "start_task C task s = (Returned (RunTask t), s')"
  shows "t = task" and "sc_tasks s' = alist_del (pt_id task) (sc_tasks s)"
    and "max (pt_readyAt task) (logicalTime s) \<le> logicalTime s'" and "sc_status s' = Running"
proof -
  obtain u s1 where adv: "advanceLogicalTime C (max (pt_readyAt task) (logicalTime s))
      (s\<lparr>sc_status := Running, sc_tasks := alist_del (pt_id task) (sc_tasks s)\<rparr>) = (Returned u, s1)"
    and app: "append_event C (task_event TaskStarted (pt_id task) (pt_lane task) None)
      (s1\<lparr>sc_turns := sc_turns s1 + 1\<rparr>) = (Returned (), s')" and "t = task"
    using assms unfolding start_task_def by (auto split: and_then_splits)
  then show "t = task" by simp
  show "sc_tasks s' = alist_del (pt_id task) (sc_tasks s)" "sc_status s' = Running"
    "max (pt_readyAt task) (logicalTime s) \<le> logicalTime s'"
    using advance_keeps [OF adv] append_keeps [OF app] advance_time [OF adv] append_time [OF app] by simp_all
qed

text \<open>What a turn takes, when it takes something.\<close>

theorem begin_turn_takes:
  assumes "begin_turn C s = (Returned (RunTask t), s')"
  shows "t \<in> snd ` set (sc_tasks s)" and "u \<in> snd ` set (sc_tasks s) \<Longrightarrow> compare_tasks t u \<le> 0"
    and "sc_tasks s' = alist_del (pt_id t) (sc_tasks s)"
    and "max (pt_readyAt t) (logicalTime s) \<le> logicalTime s'"
    and "sc_status s \<notin> {Paused, Cancelled, BudgetExceeded}" and "sc_status s' = Running"
proof -
  obtain x s0 where sync: "synchronizeLogicalTime C s = (Returned x, s0)"
    using assms by (auto simp: begin_turn_def split: and_then_splits)
  obtain task ts where start: "orderedTasks s0 = task # ts" "start_task C task s0 = (Returned (RunTask t), s')"
    and "sc_status s0 \<notin> {Paused, Cancelled, BudgetExceeded}"
    using assms by (auto simp: begin_turn_def sync split: and_then_splits list.splits if_splits)
  with synchronize_keeps [OF sync] show "sc_status s \<notin> {Paused, Cancelled, BudgetExceeded}" by simp
  note facts = start_task_facts [OF start(2)]
  show "t \<in> snd ` set (sc_tasks s)" "u \<in> snd ` set (sc_tasks s) \<Longrightarrow> compare_tasks t u \<le> 0"
    using orderedTasks_head [OF start(1)] synchronize_keeps [OF sync] facts(1) by simp_all
  show "sc_tasks s' = alist_del (pt_id t) (sc_tasks s)" "sc_status s' = Running"
    "max (pt_readyAt t) (logicalTime s) \<le> logicalTime s'"
    using facts synchronize_keeps [OF sync] synchronize_time [OF sync] by auto
qed


section \<open>The loop ends\<close>

text \<open>The loop with a bound on its turns; \<open>None\<close> when the bound does not suffice.\<close>

fun run_bounded ::
  "nat \<Rightarrow> config \<Rightarrow> 'w behaviour \<Rightarrow> scheduler \<Rightarrow> 'w \<Rightarrow> ((sched_snapshot reply \<times> scheduler) \<times> 'w) option" where
  "run_bounded 0 C B s w = None"
| "run_bounded (Suc n) C B s w =
     (if sc_tasks s = [] \<or> sc_status s = Cancelled then Some (settle_idle C s, w)
      else case runNext C B s w of
        ((Returned (RanTask i), s'), w', notified) \<Rightarrow> run_bounded n C B s' w'
      | ((Returned r, s'), w', notified) \<Rightarrow> Some (settle_idle C s', w')
      | ((Raised, s'), w', notified) \<Rightarrow> Some ((Raised, s'), w'))"

text \<open>Induction over the turns of a run, and the three ways the loop goes on.\<close>

lemma run_induct [case_names turn]:
  assumes "\<And>s w. (\<And>i s' w' b. runNext C B s w = ((Returned (RanTask i), s'), w', b) \<Longrightarrow> P s' w') \<Longrightarrow> P s w"
  shows "P s w"
proof (induction "maximumTurns C - sc_turns s" arbitrary: s w rule: less_induct)
  case (less s w)
  have "P s' w'" if "runNext C B s w = ((Returned (RanTask i), s'), w', b)" for i s' w' b
    using runNext_turns [OF that] by (intro less) linarith
  then show ?case by (rule assms)
qed

lemma run_cases:
  obtains (settled) "sc_tasks s = [] \<or> sc_status s = Cancelled"
      "runUntilIdle C B s w = (settle_idle C s, w)" "\<And>n. run_bounded (Suc n) C B s w = Some (settle_idle C s, w)"
    | (turn) i s' w' b where "sc_tasks s \<noteq> []" "runNext C B s w = ((Returned (RanTask i), s'), w', b)"
      "runUntilIdle C B s w = runUntilIdle C B s' w'" "\<And>n. run_bounded (Suc n) C B s w = run_bounded n C B s' w'"
    | (stopped) r s' w' b where "runNext C B s w = ((Returned r, s'), w', b)" "\<And>i. r \<noteq> RanTask i"
      "runUntilIdle C B s w = (settle_idle C s', w')" "\<And>n. run_bounded (Suc n) C B s w = Some (settle_idle C s', w')"
    | (threw) s' w' b where "runNext C B s w = ((Raised, s'), w', b)"
      "runUntilIdle C B s w = ((Raised, s'), w')" "\<And>n. run_bounded (Suc n) C B s w = Some ((Raised, s'), w')"
proof (cases "sc_tasks s = [] \<or> sc_status s = Cancelled")
  case True
  then show thesis by (intro settled) (auto simp: runUntilIdle.simps [of C B s w])
next
  case False
  obtain x s' w' b where run: "runNext C B s w = ((x, s'), w', b)" by (metis surj_pair)
  consider i where "x = Returned (RanTask i)" | r where "x = Returned r" "\<And>i. r \<noteq> RanTask i" | "x = Raised"
    by (cases x) auto
  then show thesis
  proof cases
    case 1
    with False run show thesis by (intro turn) (auto simp: runUntilIdle.simps [of C B s w])
  next
    case 2
    with False run show thesis
      by (intro stopped) (auto simp: runUntilIdle.simps [of C B s w] split: turn_result.split)
  next
    case 3
    with False run show thesis by (intro threw) (auto simp: runUntilIdle.simps [of C B s w])
  qed
qed

declare run_bounded.simps(2) [simp del]

lemma run_bounded_enough:
  "maximumTurns C - sc_turns s < n \<Longrightarrow> run_bounded n C B s w = Some (runUntilIdle C B s w)"
proof (induction s w arbitrary: n rule: run_induct [of C B])
  case (turn s w)
  obtain k where n: "n = Suc k" using turn.prems by (cases n) auto
  show ?case
  proof (cases rule: run_cases [of s C B w])
    case (turn i s' w' b)
    with runNext_turns [OF turn(2)] turn.prems n have "maximumTurns C - sc_turns s' < k" by linarith
    with turn.IH [OF turn(2)] show ?thesis by (simp add: n turn(3,4))
  qed (simp_all add: n)
qed

text \<open>What stops the loop: nothing is left to run, or the scheduler was told to stop.\<close>

lemma begin_turn_stops:
  "begin_turn C s = (Returned (NoTask r), s') \<Longrightarrow>
   sc_tasks s' = [] \<or> sc_status s' \<in> {Paused, Cancelled, BudgetExceeded}"
  unfolding begin_turn_def start_task_def
  by (auto split: and_then_splits if_splits list.splits dest!: keeps simp: orderedTasks_Nil)

lemma end_turn_stops:
  "end_turn C task x s = (Returned r, s') \<Longrightarrow> (\<And>i. r \<noteq> RanTask i) \<Longrightarrow> sc_status s' \<in> {Paused, Cancelled}"
  unfolding end_turn_def
  by (auto simp: take_snapshot_def split: and_then_splits if_splits task_result.splits dest!: keeps)

lemma settle_stops:
  assumes "settle_idle C s = (r, s')" and "sc_tasks s = [] \<or> sc_status s \<in> {Paused, Cancelled, BudgetExceeded}"
  shows "sc_tasks s' = [] \<or> sc_status s' \<in> {Paused, Cancelled, BudgetExceeded}"
  using assms unfolding settle_idle_def by (auto split: and_then_splits if_splits dest!: keeps)

lemma runNext_stops:
  assumes "runNext C B s w = ((Returned r, s'), w', b)" and "\<And>i. r \<noteq> RanTask i"
  shows "sc_tasks s' = [] \<or> sc_status s' \<in> {Paused, Cancelled, BudgetExceeded}"
  using assms unfolding runNext_def
  by (auto simp: Let_def split: prod.splits reply.splits turn_start.splits dest: begin_turn_stops end_turn_stops)

lemma run_stops:
  "runUntilIdle C B s w = ((Returned x, s'), w') \<Longrightarrow>
   sc_tasks s' = [] \<or> sc_status s' \<in> {Paused, Cancelled, BudgetExceeded}"
proof (induction s w arbitrary: s' w' rule: run_induct [of C B])
  case (turn s w)
  show ?case
  proof (cases rule: run_cases [of s C B w])
    case settled
    with turn.prems show ?thesis using settle_stops [of C s "Returned x" s'] by auto
  next
    case (turn i s1 w1 b)
    with turn.IH [OF turn(2)] turn.prems show ?thesis by simp
  next
    case (stopped r s1 w1 b)
    with turn.prems have "settle_idle C s1 = (Returned x, s')" by simp
    then show ?thesis using settle_stops runNext_stops [OF stopped(1,2)] by blast
  next
    case (threw s1 w1 b)
    with turn.prems show ?thesis by simp
  qed
qed


section \<open>Tasks that only work are all run\<close>

text \<open>
  A behaviour is quiet when its tasks make no calls and do not throw. Without a clock of the host, a
  scheduler that is not stopped and has turns for its tasks runs them all, in their order.
\<close>

definition quiet :: "'w behaviour \<Rightarrow> (pending_task \<Rightarrow> 'w \<Rightarrow> 'w) \<Rightarrow> bool" where
  "quiet B f \<longleftrightarrow> (\<forall>t s w. run_calls (B t s w) = [] \<and> run_world (B t s w) = f t w \<and> run_result (B t s w) \<noteq> TaskThrew)"

lemma synchronize_plain: "\<not> has_clock C \<Longrightarrow> synchronizeLogicalTime C s = (Returned (logicalTime s), s)"
  by (simp add: synchronizeLogicalTime_def)

lemma append_plain: "\<not> has_clock C \<Longrightarrow> fst (append_event C e s) = Returned () \<and>
    logicalTime (snd (append_event C e s)) = logicalTime s"
  by (simp add: append_event_def synchronize_plain Let_def)

lemma append_plainE:
  assumes "\<not> has_clock C"
  obtains s' where "append_event C e s = (Returned (), s')" "logicalTime s' = logicalTime s"
    "sc_tasks s' = sc_tasks s" "sc_barriers s' = sc_barriers s" "sc_status s' = sc_status s" "sc_turns s' = sc_turns s"
proof -
  obtain s' where app: "append_event C e s = (Returned (), s')"
    using append_plain [OF assms, of e s] by (metis prod.collapse)
  with append_plain [OF assms, of e s] append_keeps [OF app] show thesis by (intro that [OF app]) simp_all
qed

lemma advance_plain:
  assumes "\<not> has_clock C" and "safe_time t" and "logicalTime s \<le> t"
  shows "advanceLogicalTime C t s = (Returned t, s\<lparr>logicalTime := t\<rparr>)"
  using assms by (auto simp: advanceLogicalTime_def synchronize_plain safe_time_number simp del: isSafeInteger.simps)

lemma snapshot_plain: "\<not> has_clock C \<Longrightarrow> \<exists>x. take_snapshot C s = (Returned x, s) \<and> ss_status x = sc_status s"
  by (simp add: take_snapshot_def synchronize_plain)

lemma ordered_rest:
  assumes "orderedTasks s = t # ts" and "tasks_ok C s" and "sc_tasks s' = alist_del (pt_id t) (sc_tasks s)"
  shows "orderedTasks s' = ts"
proof -
  have ids: "map snd (alist_del i (sc_tasks s)) = filter (\<lambda>u. pt_id u \<noteq> i) (map snd (sc_tasks s))" for i
    using assms(2) by (auto simp: alist_del_def tasks_ok_def filter_map comp_def intro!: arg_cong [of _ _ "map snd"] filter_cong)
  have "map pt_id (map snd (sc_tasks s)) = map fst (sc_tasks s)"
    using assms(2) by (auto simp: tasks_ok_def)
  then have "distinct (map pt_id (t # ts))"
    using assms(2) by (metis assms(1) distinct_map_sort_by orderedTasks_def tasks_ok_def)
  then have "filter (\<lambda>u. pt_id u \<noteq> pt_id t) (t # ts) = ts"
    by (metis (mono_tags, lifting) distinct.simps(2) filter.simps(2) filter_True image_eqI list.set_map list.simps(9))
  then show ?thesis
    using task_order.sort_by_filter [of "map snd (sc_tasks s)" "\<lambda>u. pt_id u \<noteq> pt_id t"] assms(1)
    by (simp add: orderedTasks_def assms(3) ids)
qed

lemma quiet_turn:
  assumes plain: "\<not> has_clock C" and inv: "sched_inv C s" and ok: "sc_status s \<notin> {Paused, Cancelled, BudgetExceeded}"
    and budget: "sc_turns s < maximumTurns C" and ts: "orderedTasks s = t # ts" and B: "quiet B f"
  obtains s' b where "runNext C B s w = ((Returned (RanTask (pt_id t)), s'), f t w, b)"
    "sched_inv C s'" "orderedTasks s' = ts" "sc_barriers s' = sc_barriers s" "sc_turns s' = Suc (sc_turns s)"
    "logicalTime s' = max (pt_readyAt t) (logicalTime s)"
    "sc_status s' = (if ts = [] \<and> sc_barriers s = [] then Idle else Running)"
proof -
  let ?s1 = "s\<lparr>sc_status := Running, sc_tasks := alist_del (pt_id t) (sc_tasks s)\<rparr>"
  let ?time = "max (pt_readyAt t) (logicalTime s)"
  have "t \<in> snd ` set (sc_tasks s)" using orderedTasks_head [OF ts] by simp
  then have safe: "safe_time ?time" using inv by (auto simp: sched_inv_def tasks_ok_def log_ok_def max_def)
  obtain s2 where s2: "append_event C (task_event TaskStarted (pt_id t) (pt_lane t) None)
      (?s1\<lparr>logicalTime := ?time, sc_turns := Suc (sc_turns s)\<rparr>) = (Returned (), s2)"
    and s2': "logicalTime s2 = ?time" "sc_tasks s2 = alist_del (pt_id t) (sc_tasks s)"
      "sc_barriers s2 = sc_barriers s" "sc_status s2 = Running" "sc_turns s2 = Suc (sc_turns s)"
    by (rule append_plainE [OF plain, of "task_event TaskStarted (pt_id t) (pt_lane t) None"
          "?s1\<lparr>logicalTime := ?time, sc_turns := Suc (sc_turns s)\<rparr>"]) simp
  have start: "begin_turn C s = (Returned (RunTask t), s2)"
    using ok budget ts by (simp add: begin_turn_def synchronize_plain [OF plain] start_task_def
        advance_plain [OF plain safe] s2)
  obtain e where e: "(case run_result (B t s2 w) of
      TaskGaveUp reason \<Rightarrow> task_event TaskCancelled (pt_id t) (pt_lane t) (nonempty_reason reason)
    | _ \<Rightarrow> task_event TaskCompleted (pt_id t) (pt_lane t) None) = e" by blast
  obtain s3 where s3: "append_event C e s2 = (Returned (), s3)" "logicalTime s3 = logicalTime s2"
    "sc_tasks s3 = sc_tasks s2" "sc_barriers s3 = sc_barriers s2" "sc_status s3 = sc_status s2" "sc_turns s3 = sc_turns s2"
    by (rule append_plainE [OF plain, of e s2])
  define s4 where "s4 = (if sc_tasks s3 = [] \<and> sc_barriers s3 = [] then s3\<lparr>sc_status := Idle\<rparr> else s3)"
  obtain x where x: "take_snapshot C s3 = (Returned x, s3)" "ss_status x = Running"
    using snapshot_plain [OF plain, of s3] s3(5) s2'(4) by auto
  have finish: "end_turn C t (run_result (B t s2 w)) s2 = (Returned (RanTask (pt_id t)), s4)"
    using B s3(5) s2'(4)
    by (auto simp: end_turn_def quiet_def synchronize_plain [OF plain] e s3(1) x s4_def)
  have run: "runNext C B s w = ((Returned (RanTask (pt_id t)), s4), f t w, run_notifies (B t s2 w))"
    using B by (simp add: runNext_def start Let_def quiet_def finish)
  have "sched_inv C s4" using end_turn_inv [OF finish] begin_turn_inv [OF start inv] by simp
  moreover have rest: "orderedTasks s4 = ts"
    using ordered_rest [OF ts, of C s4] inv s3(3) s2'(2) by (simp add: sched_inv_def s4_def)
  moreover have "sc_tasks s3 = [] \<longleftrightarrow> ts = []"
    using orderedTasks_Nil [of s4] rest by (auto simp: s4_def split: if_splits)
  ultimately show thesis
    using run s3 s2' by (intro that [OF run]) (auto simp: s4_def)
qed

lemma quiet_run:
  assumes "\<not> has_clock C" and "quiet B f" and "sched_inv C s" and "sc_tasks s \<noteq> []"
    and "sc_status s \<notin> {Paused, Cancelled, BudgetExceeded}" and "sc_turns s + length (sc_tasks s) \<le> maximumTurns C"
  shows "\<exists>x s'. runUntilIdle C B s w = ((Returned x, s'), foldl (\<lambda>w t. f t w) w (orderedTasks s)) \<and>
    sc_tasks s' = [] \<and> sc_turns s' = sc_turns s + length (sc_tasks s) \<and>
    logicalTime s' = foldl (\<lambda>t u. max (pt_readyAt u) t) (logicalTime s) (orderedTasks s) \<and>
    sc_status s' = (if sc_barriers s = [] then Idle else Deadlocked)"
  using assms(3-6)
proof (induction "orderedTasks s" arbitrary: s w)
  case Nil
  then show ?case using orderedTasks_Nil [of s] by simp
next
  case (Cons t ts)
  have length: "length (sc_tasks s) = Suc (length ts)"
    using Cons.hyps(2) by (metis length_Cons length_map length_sort_by orderedTasks_def)
  obtain s1 b where run: "runNext C B s w = ((Returned (RanTask (pt_id t)), s1), f t w, b)" and "sched_inv C s1"
    and s1: "orderedTasks s1 = ts" "sc_barriers s1 = sc_barriers s" "sc_turns s1 = Suc (sc_turns s)"
      "logicalTime s1 = max (pt_readyAt t) (logicalTime s)"
      "sc_status s1 = (if ts = [] \<and> sc_barriers s = [] then Idle else Running)"
    using quiet_turn [OF assms(1) Cons.prems(1) Cons.prems(3) _ Cons.hyps(2) [symmetric] assms(2), of w thesis]
      Cons.prems(4) length by auto
  have step: "runUntilIdle C B s w = runUntilIdle C B s1 (f t w)"
    using Cons.prems(2,3) by (simp add: runUntilIdle.simps [of C B s] run)
  have tasks: "length (sc_tasks s1) = length ts"
    by (metis length_map length_sort_by orderedTasks_def s1(1))
  show ?case
  proof (cases "ts = []")
    case True
    then have empty: "sc_tasks s1 = []" using tasks by simp
    obtain x s' where "settle_idle C s1 = (Returned x, s')" "sc_tasks s' = []" "sc_turns s' = sc_turns s1"
      "logicalTime s' = logicalTime s1" "sc_status s' = (if sc_barriers s = [] then Idle else Deadlocked)"
    proof (cases "sc_barriers s = []")
      case True
      with empty s1 \<open>ts = []\<close> snapshot_plain [OF assms(1), of s1] that show thesis by (auto simp: settle_idle_def)
    next
      case False
      obtain s2 where s2: "append_event C (body DeadlockSeen) (s1\<lparr>sc_status := Deadlocked\<rparr>) = (Returned (), s2)"
        "logicalTime s2 = logicalTime s1" "sc_tasks s2 = sc_tasks s1" "sc_status s2 = Deadlocked" "sc_turns s2 = sc_turns s1"
        by (rule append_plainE [OF assms(1), of "body DeadlockSeen" "s1\<lparr>sc_status := Deadlocked\<rparr>"]) simp
      obtain x where "take_snapshot C s2 = (Returned x, s2)" using snapshot_plain [OF assms(1), of s2] by blast
      with False s1 empty s2 show thesis by (intro that [of x s2]) (auto simp: settle_idle_def)
    qed
    then show ?thesis
      using True empty length s1 Cons.hyps(2)
      by (auto simp: step runUntilIdle.simps [of C B s1] simp flip: Cons.hyps(2))
  next
    case False
    then have "sc_tasks s1 \<noteq> []" using tasks by auto
    moreover have "sc_status s1 \<notin> {Paused, Cancelled, BudgetExceeded}" using s1(5) by simp
    moreover have "sc_turns s1 + length (sc_tasks s1) \<le> maximumTurns C"
      using Cons.prems(4) length tasks s1(3) by simp
    ultimately show ?thesis
      using Cons.hyps(1) [OF s1(1) [symmetric] \<open>sched_inv C s1\<close>, of "f t w"] s1 length tasks
      by (auto simp: step simp flip: Cons.hyps(2))
  qed
qed


section \<open>Barriers\<close>

text \<open>
  Without a clock of the host an arrival never throws for a declared participant; it opens the
  barrier, which then is gone, exactly when every participant has arrived.
\<close>

lemma arrived_all:
  assumes "barrier_ok b" and "p \<in> set (participants b)"
  shows "length (set_add p (arrived b)) = length (participants b) \<longleftrightarrow>
    set (participants b) \<subseteq> insert p (set (arrived b))"
proof -
  have "distinct (set_add p (arrived b))" and set: "set (set_add p (arrived b)) = insert p (set (arrived b))"
    using assms(1) by (auto simp: barrier_ok_def set_add_def)
  then have "length (set_add p (arrived b)) = card (insert p (set (arrived b)))"
    by (metis distinct_card)
  moreover have "length (participants b) = card (set (participants b))"
    using assms(1) by (metis barrier_ok_def distinct_card)
  moreover have "insert p (set (arrived b)) \<subseteq> set (participants b)"
    using assms by (simp add: barrier_ok_def)
  ultimately show ?thesis by (metis List.finite_set card_subset_eq subset_antisym subset_refl)
qed

lemma arrive_step:
  assumes plain: "\<not> has_clock C" and "canonicalIdentity i = Some i'" and "canonicalIdentity p = Some p'"
    and b: "map_of (sc_barriers s) i' = Some b" "barrier_ok b" and p: "p' \<in> set (participants b)"
  obtains s' where "arrive C i p s = (Returned (set (participants b) \<subseteq> insert p' (set (arrived b))), s')"
    "map_of (sc_barriers s') i' = (if set (participants b) \<subseteq> insert p' (set (arrived b)) then None
       else Some (b\<lparr>arrived := set_add p' (arrived b)\<rparr>))"
proof -
  note all = arrived_all [OF b(2) p]
  obtain s1 where s1: "(if p' \<in> set (arrived b) then (Returned (), s)
       else append_event C (barrier_event BarrierArrived i' (Some p'))
         (s\<lparr>sc_barriers := alist_put i' (b\<lparr>arrived := set_add p' (arrived b)\<rparr>) (sc_barriers s)\<rparr>)) = (Returned (), s1)"
    "map_of (sc_barriers s1) i' = Some (b\<lparr>arrived := set_add p' (arrived b)\<rparr>)"
  proof (cases "p' \<in> set (arrived b)")
    case True
    with b(1) that [of s] show thesis by (simp add: set_add_def)
  next
    case False
    show thesis
      by (rule append_plainE [OF plain, of "barrier_event BarrierArrived i' (Some p')"
            "s\<lparr>sc_barriers := alist_put i' (b\<lparr>arrived := set_add p' (arrived b)\<rparr>) (sc_barriers s)\<rparr>"])
        (use False that in simp)
  qed
  show thesis
  proof (cases "set (participants b) \<subseteq> insert p' (set (arrived b))")
    case True
    obtain s2 where s2: "append_event C (barrier_event BarrierReleased i' None)
        (s1\<lparr>sc_barriers := alist_del i' (sc_barriers s1)\<rparr>) = (Returned (), s2)"
      "sc_barriers s2 = alist_del i' (sc_barriers s1)"
      by (rule append_plainE [OF plain, of "barrier_event BarrierReleased i' None"
            "s1\<lparr>sc_barriers := alist_del i' (sc_barriers s1)\<rparr>"]) simp
    have "map_of (sc_barriers s2) i' = None" by (simp add: s2(2))
    with True show thesis
      by (intro that [of s2]) (use assms s1 s2(1) all in \<open>simp_all add: arrive_def\<close>)
  next
    case False
    show thesis by (rule that [of s1]) (use assms s1 False all in \<open>simp_all add: arrive_def\<close>)
  qed
qed

text \<open>Any sequence of arrivals: the barrier stands until all participants are among them.\<close>

lemma arrivals:
  assumes "\<not> has_clock C" and "canonicalIdentity i = Some i'"
    and "map_of (sc_barriers s) i' = Some b" and "barrier_ok b"
    and "\<forall>p \<in> set ps. \<exists>p'. canonicalIdentity p = Some p' \<and> p' \<in> set (participants b)"
    and "\<not> set (participants b) \<subseteq> set (arrived b) \<union> (the \<circ> canonicalIdentity) ` set ps"
  shows "\<exists>b'. map_of (sc_barriers (foldl (\<lambda>s p. snd (arrive C i p s)) s ps)) i' = Some b' \<and> barrier_ok b' \<and>
    participants b' = participants b \<and> set (arrived b') = set (arrived b) \<union> (the \<circ> canonicalIdentity) ` set ps"
  using assms(3-6)
proof (induction ps arbitrary: s b)
  case (Cons p ps)
  obtain p' where p': "canonicalIdentity p = Some p'" "p' \<in> set (participants b)" using Cons.prems(3) by auto
  have not: "\<not> set (participants b) \<subseteq> insert p' (set (arrived b))" using Cons.prems(4) p'(1) by auto
  obtain s' where s': "arrive C i p s = (Returned (set (participants b) \<subseteq> insert p' (set (arrived b))), s')"
    "map_of (sc_barriers s') i' = (if set (participants b) \<subseteq> insert p' (set (arrived b)) then None
       else Some (b\<lparr>arrived := set_add p' (arrived b)\<rparr>))"
    by (rule arrive_step [OF assms(1,2) p'(1) Cons.prems(1,2) p'(2)])
  let ?b = "b\<lparr>arrived := set_add p' (arrived b)\<rparr>"
  have "set (arrived ?b) = insert p' (set (arrived b))" by (auto simp: set_add_def)
  with Cons.IH [of s' ?b] Cons.prems p' not s' arrived_ok [OF Cons.prems(2) p'(2)]
  show ?case by auto
qed auto

section \<open>Waiting\<close>

text \<open>
  The answer of a wait: a value that satisfies the condition, or one that does not, at the deadline
  at the earliest. Always the value is the one that the source has when the wait returns.
\<close>

definition wait_answer :: "('w, 'v) condition \<Rightarrow> int \<Rightarrow> 'w \<Rightarrow> 'v wait_result \<Rightarrow> bool" where
  "wait_answer Q deadline w r \<longleftrightarrow>
     (case r of
        Satisfied v t cause \<Rightarrow> v = read_source Q w \<and> holds_for Q v
      | TimedOut v t \<Rightarrow> v = read_source Q w \<and> \<not> holds_for Q v \<and> deadline \<le> t
      | Stopped k v t reason \<Rightarrow> v = read_source Q w)"

lemma wait_answer_Stopped [simp]: "wait_answer Q d w (Stopped k v t r) \<longleftrightarrow> v = read_source Q w"
  by (simp add: wait_answer_def)

lemma satisfied_answer:
  "satisfied_now C i (read_source Q w) cause s = (Returned r, s') \<Longrightarrow> holds_for Q (read_source Q w) \<Longrightarrow>
   wait_answer Q d w r"
  unfolding satisfied_now_def by (auto simp: wait_answer_def split: and_then_splits)

lemma timed_out_answer:
  "timed_out C i (read_source Q w) s = (Returned r, s') \<Longrightarrow> \<not> holds_for Q (read_source Q w) \<Longrightarrow>
   d \<le> logicalTime s \<Longrightarrow> wait_answer Q d w r"
  unfolding timed_out_def by (auto simp: wait_answer_def split: and_then_splits dest!: append_time)

lemma no_task_answer:
  "wait_without_task C Q d n s w = (Returned r, s') \<Longrightarrow> \<not> holds_for Q (read_source Q w) \<Longrightarrow> wait_answer Q d w r"
  unfolding wait_without_task_def
  by (auto simp: Let_def split: and_then_splits if_splits
      dest!: advance_time intro: timed_out_answer)

lemma wait_loop_answer:
  "wait_loop C B Q d n s w = ((Returned r, s'), w') \<Longrightarrow> \<not> holds_for Q (read_source Q w) \<Longrightarrow> wait_answer Q d w' r"
proof (induction s w arbitrary: n s' w' rule: run_induct [of C B])
  case (turn s w)
  note run = turn.prems(1) [unfolded wait_loop.simps [of C B Q d n s w] Let_def]
  show ?case
  proof (cases "logicalTime s > d \<or> sc_status s = Cancelled \<or>
      (case orderedTasks s of [] \<Rightarrow> True | task # _ \<Rightarrow> pt_readyAt task > d)")
    case True
    then show ?thesis
      using run turn.prems(2)
      by (auto split: if_splits
          intro: timed_out_answer no_task_answer)
  next
    case False
    obtain x s1 w1 b where next_turn: "runNext C B s w = ((x, s1), w1, b)" by (metis surj_pair)
    consider i where "x = Returned (RanTask i)" "holds_for Q (read_source Q w1)"
      | i where "x = Returned (RanTask i)" "\<not> holds_for Q (read_source Q w1)"
      | y where "x = Returned y" "\<And>i. y \<noteq> RanTask i" | "x = Raised"
      by (cases x) auto
    then show ?thesis
    proof cases
      case 1
      then show ?thesis using run False by (auto simp: next_turn intro: satisfied_answer)
    next
      case 2
      then show ?thesis using turn.IH [of _ s1 w1 b False s' w'] run False by (auto simp: next_turn)
    next
      case 3
      then show ?thesis using run False by (cases y) (auto simp: next_turn)
    next
      case 4
      then show ?thesis using run False by (auto simp: next_turn)
    qed
  qed
qed


section \<open>The fence of attempts\<close>

text \<open>An attempt that was replaced or cancelled never becomes current again.\<close>

lemma stale_attempt:
  assumes "moves \<noteq> []" and "set moves \<subseteq> {fence_next, fence_cancel}"
  shows "\<not> fence_isCurrent (foldl (\<lambda>g move. fst (move g)) generation moves) generation"
proof -
  have "foldl (\<lambda>g move. fst (move g)) generation moves = generation + length moves" for generation
    using assms(2) by (induction moves arbitrary: generation) (auto simp: fence_next_def fence_cancel_def)
  with assms(1) show ?thesis by (metis add_cancel_left_right fence_isCurrent_def length_0_conv)
qed

end
