(* ===== verification/JobLaws.thy ===== *)
theory JobLaws
  imports Job SchedulerLaws
begin

text \<open>
  The laws of execution jobs: what the search over the transitions decides, the invariant of the
  history and the snapshot under every action, the finality of terminal statuses, and the delivery of
  events to subscribers.
\<close>

section \<open>Reachable statuses\<close>

lemma canReach_table:
  "canReachExecutionJobStatus a b \<longleftrightarrow>
     a = b \<or> canTransitionExecutionJob a b \<or> a \<in> {JQueued, JStarting} \<and> b = JSucceeded"
  by (cases a; cases b; simp add: canReachExecutionJobStatus_def canTransitionExecutionJob_def)

lemma canReach_closed:
  "canReachExecutionJobStatus a b \<Longrightarrow> canTransitionExecutionJob b c \<Longrightarrow> canReachExecutionJobStatus a c"
  unfolding canReach_table canTransitionExecutionJob_def by (cases a; cases b; cases c; simp)

lemma canReach_transitions: "canReachExecutionJobStatus a b \<longleftrightarrow> canTransitionExecutionJob\<^sup>*\<^sup>* a b"
proof
  have "canTransitionExecutionJob\<^sup>*\<^sup>* a JSucceeded" if "a \<in> {JQueued, JStarting}"
    using that by (intro converse_rtranclp_into_rtranclp [of _ a JRunning] r_into_rtranclp)
      (auto simp: canTransitionExecutionJob_def)
  then show "canReachExecutionJobStatus a b \<Longrightarrow> canTransitionExecutionJob\<^sup>*\<^sup>* a b"
    unfolding canReach_table by auto
next
  assume "canTransitionExecutionJob\<^sup>*\<^sup>* a b"
  then show "canReachExecutionJobStatus a b"
  proof induction
    case base
    show ?case by (simp add: canReach_table)
  qed (rule canReach_closed)
qed

section \<open>Delivery touches only the subscribers\<close>

definition core :: "'p job \<Rightarrow> 'p job" where
  "core s = s\<lparr>jb_subscribers := [], jb_nextKey := 0, jb_delivered := []\<rparr>"

lemma core_frame [simp]:
  "core (s\<lparr>jb_subscribers := x\<rparr>) = core s" "core (s\<lparr>jb_nextKey := n\<rparr>) = core s"
  "core (s\<lparr>jb_delivered := d\<rparr>) = core s" "core (update_subscriber k f s) = core s"
  "core (unsubscribe k s) = core s" "core (add_subscriber l a s) = core s"
  by (simp_all add: core_def update_subscriber_def unsubscribe_def add_subscriber_def)

lemma delivery_core:
  "drain n L k s = Some s' \<Longrightarrow> core s' = core s"
  "drain_loop n L k s = Some s' \<Longrightarrow> core s' = core s"
  "react n L rs s = Some s' \<Longrightarrow> core s' = core s"
proof (induction n L k s and n L k s and n L rs s arbitrary: s' and s' and s' rule: drain_drain_loop_react.induct)
  case (2 n L k s)
  then show ?case by (cases "map_of (jb_subscribers s) k") (auto split: if_splits)
next
  case (4 n L k s)
  show ?case
  proof (cases "map_of (jb_subscribers s) k")
    case (Some sub)
    show ?thesis
    proof (cases "sub_queue sub")
      case Nil
      with 4(3) Some show ?thesis by auto
    next
      case (Cons e q)
      let ?s = "update_subscriber k (sub_queue_update (\<lambda>_. q)) s"
      obtain s1 where s1: "react n L (L (sub_listener sub) (delivered_to k s) e)
          (?s\<lparr>jb_delivered := jb_delivered s @ [(k, e)]\<rparr>) = Some s1" "drain_loop n L k s1 = Some s'"
        using 4(3) Some Cons by (auto split: option.splits)
      from 4(1) [OF Some Cons refl refl s1(1)] 4(2) [OF Some Cons refl refl s1]
      show ?thesis by simp
    qed
  qed (use 4(3) in simp)
next
  case (7 n L r rs s)
  obtain s1 where "(case r of Resubscribe l a \<Rightarrow> drain n L (jb_nextKey s) (add_subscriber l a s)
      | Unsubscribe k \<Rightarrow> Some (unsubscribe k s)) = Some s1" "react n L rs s1 = Some s'"
    using 7(3) by (auto split: option.splits)
  with 7(1,2) show ?case by (cases r) auto
qed simp_all

lemma deliver_core: "deliver_from n L e p s = Some s' \<Longrightarrow> core s' = core s"
proof (induction n arbitrary: p s)
  case (Suc n)
  then show ?case by (auto split: option.splits dest!: delivery_core)
qed simp

lemma commit_core: "commitEvent n L e s = Some s' \<Longrightarrow> core s' = core (s\<lparr>jb_history := jb_history s @ [e]\<rparr>)"
  unfolding commitEvent_def by (rule deliver_core)

text \<open>What the laws read of the core.\<close>

lemma core_eqD:
  assumes "core s' = core s"
  shows "jb_snapshot s' = jb_snapshot s" "jb_sequence s' = jb_sequence s" "lastTimestamp s' = lastTimestamp s"
    "jb_history s' = jb_history s" "jb_diagnostics s' = jb_diagnostics s" "jb_artifacts s' = jb_artifacts s"
    "jb_cancellation s' = jb_cancellation s" "jb_cancellable s' = jb_cancellable s" "jb_completion s' = jb_completion s"
  using arg_cong [OF assms, of jb_snapshot] arg_cong [OF assms, of jb_sequence] arg_cong [OF assms, of lastTimestamp]
    arg_cong [OF assms, of jb_history] arg_cong [OF assms, of jb_diagnostics] arg_cong [OF assms, of jb_artifacts]
    arg_cong [OF assms, of jb_cancellation] arg_cong [OF assms, of jb_cancellable] arg_cong [OF assms, of jb_completion]
  by (simp_all add: core_def)


section \<open>The invariant\<close>

fun event_status :: "'p event_body \<Rightarrow> job_status option" where
  "event_status (StateChange previous snapshot reason) = Some (js_status snapshot)"
| "event_status _ = None"

definition statuses :: "'p job_event list \<Rightarrow> job_status list" where
  "statuses es = List.map_filter (event_status \<circ> je_body) es"

fun outcome_status :: "'p outcome \<Rightarrow> job_status" where
  "outcome_status (SucceededWith v c) = JSucceeded"
| "outcome_status (FailedWith f c) = JFailed"
| "outcome_status (CancelledWith r) = JCancelled"
| "outcome_status (TimedOutWith t) = JTimedOut"

abbreviation job_status_of :: "'p job \<Rightarrow> job_status" where
  "job_status_of s \<equiv> js_status (jb_snapshot s)"

abbreviation ended :: "'p job \<Rightarrow> bool" where
  "ended s \<equiv> isExecutionJobTerminalStatus (job_status_of s)"

definition completion_ok :: "'p job \<Rightarrow> bool" where
  "completion_ok s \<longleftrightarrow> (case jb_completion s of None \<Rightarrow> True
     | Some r \<Rightarrow> ended s \<and> jr_snapshot r = jb_snapshot s \<and> jr_diagnostics r = jb_diagnostics s \<and>
         jr_artifacts r = jb_artifacts s \<and> outcome_status (jr_outcome r) = job_status_of s)"

definition job_inv :: "'p job \<Rightarrow> bool" where
  "job_inv s \<longleftrightarrow> map je_sequence (jb_history s) = [1..<jb_sequence s + 1] \<and>
     latestEventSequence (jb_snapshot s) = jb_sequence s \<and>
     (\<exists>t. lastTimestamp s = Some t \<and> sorted (map je_emittedAt (jb_history s) @ [t])) \<and>
     statuses (jb_history s) \<noteq> [] \<and> hd (statuses (jb_history s)) = JQueued \<and>
     successively canTransitionExecutionJob (statuses (jb_history s)) \<and>
     last (statuses (jb_history s)) = job_status_of s \<and>
     (completedAt (jb_snapshot s) = None \<longleftrightarrow> \<not> ended s) \<and> completion_ok s"

lemma job_inv_core: "core s' = core s \<Longrightarrow> job_inv s' = job_inv s"
  unfolding job_inv_def completion_ok_def by (simp only: core_eqD [of s' s])

lemma terminal_stuck: "isExecutionJobTerminalStatus a \<Longrightarrow> \<not> canTransitionExecutionJob a b"
  by (cases a) (auto simp: isExecutionJobTerminalStatus_def terminalStatuses_def canTransitionExecutionJob_def)

lemma statuses_append: "statuses (es @ [e]) = statuses es @ (case event_status (je_body e) of None \<Rightarrow> [] | Some x \<Rightarrow> [x])"
  by (simp add: statuses_def map_filter_def split: option.split)

lemma timestamp_push:
  assumes "readTimestamp now s = (Returned t, s')" and "lastTimestamp s = Some u" and "sorted (xs @ [u])"
  shows "s' = s\<lparr>lastTimestamp := Some t\<rparr>" and "sorted (xs @ [t, t])"
  using assms by (auto simp: readTimestamp_def sorted_append max_def Let_def split: js_number.splits)

lemma timestamp_raised: "readTimestamp now s = (Raised, s') \<Longrightarrow> s' = s"
  by (auto simp: readTimestamp_def Let_def split: js_number.splits)

text \<open>A started event and the state it is pushed on.\<close>

lemma start_transition_raised: "start_transition status reason now s = (Raised, s') \<Longrightarrow> s' = s"
  by (auto simp: start_transition_def Let_def split: and_then_splits if_splits dest: timestamp_raised)

lemma start_publication_raised: "start_publication b now s = (Raised, s') \<Longrightarrow> s' = s"
  by (auto simp: start_publication_def Let_def split: and_then_splits if_splits dest: timestamp_raised)

lemma start_transition_returned:
  assumes "start_transition status reason now s = (Returned e, s')"
  obtains t where "canTransitionExecutionJob (job_status_of s) status"
    "readTimestamp now s = (Returned t, s\<lparr>lastTimestamp := Some t\<rparr>)"
    "e = \<lparr>je_sequence = jb_sequence s + 1, je_emittedAt = t, je_body = StateChange (Some (job_status_of s))
       (next_snapshot status t (jb_sequence s + 1) (jb_snapshot s)) (nonempty_reason reason)\<rparr>"
    "s' = s\<lparr>lastTimestamp := Some t, jb_sequence := jb_sequence s + 1,
       jb_snapshot := next_snapshot status t (jb_sequence s + 1) (jb_snapshot s)\<rparr>"
  using assms by (auto simp: start_transition_def readTimestamp_def Let_def split: if_splits js_number.splits)

lemma start_publication_returned:
  assumes "start_publication b now s = (Returned e, s')"
  obtains t where "\<not> ended s" "readTimestamp now s = (Returned t, s\<lparr>lastTimestamp := Some t\<rparr>)"
    "e = \<lparr>je_sequence = jb_sequence s + 1, je_emittedAt = t, je_body = b\<rparr>"
    "s' = s\<lparr>lastTimestamp := Some t, jb_sequence := jb_sequence s + 1,
       jb_snapshot := (jb_snapshot s)\<lparr>latestEventSequence := jb_sequence s + 1\<rparr>\<rparr>"
  using assms by (auto simp: start_publication_def readTimestamp_def Let_def split: if_splits js_number.splits)

lemma transition_push:
  assumes "start_transition status reason now s = (Returned e, s')" and "job_inv s"
  shows "job_inv (s'\<lparr>jb_history := jb_history s' @ [e]\<rparr>)"
proof (rule start_transition_returned [OF assms(1)])
  fix t
  assume allowed: "canTransitionExecutionJob (job_status_of s) status"
    and t: "readTimestamp now s = (Returned t, s\<lparr>lastTimestamp := Some t\<rparr>)"
    and e: "e = \<lparr>je_sequence = jb_sequence s + 1, je_emittedAt = t, je_body = StateChange (Some (job_status_of s))
       (next_snapshot status t (jb_sequence s + 1) (jb_snapshot s)) (nonempty_reason reason)\<rparr>"
    and s': "s' = s\<lparr>lastTimestamp := Some t, jb_sequence := jb_sequence s + 1,
       jb_snapshot := next_snapshot status t (jb_sequence s + 1) (jb_snapshot s)\<rparr>"
  obtain u where "lastTimestamp s = Some u" "sorted (map je_emittedAt (jb_history s) @ [u])"
    using assms(2) by (auto simp: job_inv_def)
  from timestamp_push(2) [OF t this] have "sorted (map je_emittedAt (jb_history s) @ [t, t])" .
  moreover have "\<not> ended s" using allowed terminal_stuck by blast
  moreover have "jb_completion s = None"
    using assms(2) calculation(2) by (auto simp: job_inv_def completion_ok_def split: option.splits)
  moreover have "completedAt (jb_snapshot s) = None" using assms(2) calculation(2) by (simp add: job_inv_def)
  ultimately show ?thesis
    using assms(2) allowed
    by (auto simp: job_inv_def completion_ok_def e s' next_snapshot_def statuses_append successively_append_iff)
qed

lemma publication_push:
  assumes "start_publication b now s = (Returned e, s')" and "job_inv s" and "event_status b = None"
  shows "job_inv (s'\<lparr>jb_history := jb_history s' @ [e]\<rparr>)"
proof (rule start_publication_returned [OF assms(1)])
  fix t
  assume running: "\<not> ended s" and t: "readTimestamp now s = (Returned t, s\<lparr>lastTimestamp := Some t\<rparr>)"
    and e: "e = \<lparr>je_sequence = jb_sequence s + 1, je_emittedAt = t, je_body = b\<rparr>"
    and s': "s' = s\<lparr>lastTimestamp := Some t, jb_sequence := jb_sequence s + 1,
       jb_snapshot := (jb_snapshot s)\<lparr>latestEventSequence := jb_sequence s + 1\<rparr>\<rparr>"
  obtain u where "lastTimestamp s = Some u" "sorted (map je_emittedAt (jb_history s) @ [u])"
    using assms(2) by (auto simp: job_inv_def)
  from timestamp_push(2) [OF t this] have "sorted (map je_emittedAt (jb_history s) @ [t, t])" .
  moreover have "jb_completion s = None"
    using assms(2) running by (auto simp: job_inv_def completion_ok_def split: option.splits)
  ultimately show ?thesis
    using assms(2,3) running by (auto simp: job_inv_def completion_ok_def e s' statuses_append)
qed


section \<open>Actions\<close>

text \<open>Everything the provider and the consumers of a job can do, in any order.\<close>

datatype 'p job_action =
    MarkStarting js_number
  | MarkRunning js_number
  | MarkCancelling "string option" js_number
  | EmitLog 'p js_number
  | EmitDiagnostic 'p js_number
  | EmitArtifact 'p js_number
  | EmitTrace 'p "exec_value option" js_number
  | Succeed "exec_value option" "int option" js_number
  | Fail "'p job_failure" "int option" js_number
  | FinishCancelled "string option" js_number
  | FinishTimedOut "js_number option" js_number
  | Subscribe string "js_number option"
  | Leave nat
  | BeginCancel
  | EndCancel disposition "string option" js_number

text \<open>A step; \<open>None\<close> only where the fuel of a delivery ran out.\<close>

fun job_step :: "nat \<Rightarrow> 'p listeners \<Rightarrow> ('p \<Rightarrow> 'p option) \<Rightarrow> 'p job \<Rightarrow> 'p job_action \<Rightarrow> 'p job option" where
  "job_step n L R s (MarkStarting now) = map_option snd (transition n L JStarting None now s)"
| "job_step n L R s (MarkRunning now) = map_option snd (transition n L JRunning None now s)"
| "job_step n L R s (MarkCancelling reason now) = map_option snd (transition n L JCancelling reason now s)"
| "job_step n L R s (EmitLog x now) = map_option snd (emitLog n L R x now s)"
| "job_step n L R s (EmitDiagnostic x now) = map_option snd (emitDiagnostic n L x now s)"
| "job_step n L R s (EmitArtifact x now) = map_option snd (emitArtifact n L x now s)"
| "job_step n L R s (EmitTrace x v now) = map_option snd (emitTrace n L x v now s)"
| "job_step n L R s (Succeed v c now) = map_option snd (succeed n L v c now s)"
| "job_step n L R s (Fail f c now) = map_option snd (fail n L f c now s)"
| "job_step n L R s (FinishCancelled reason now) = map_option snd (finishCancelled n L reason now s)"
| "job_step n L R s (FinishTimedOut t now) = map_option snd (finishTimedOut n L t now s)"
| "job_step n L R s (Subscribe l a) = map_option snd (job_subscribe n L l a s)"
| "job_step n L R s (Leave k) = Some (unsubscribe k s)"
| "job_step n L R s BeginCancel = Some (snd (begin_cancel s))"
| "job_step n L R s (EndCancel d reason now) = map_option snd (end_cancel n L d reason now s)"

definition job_run :: "nat \<Rightarrow> 'p listeners \<Rightarrow> ('p \<Rightarrow> 'p option) \<Rightarrow> 'p job option \<Rightarrow> 'p job_action \<Rightarrow> 'p job option" where
  "job_run n L R st action = Option.bind st (\<lambda>s. job_step n L R s action)"

lemma job_run_simps [simp]: "job_run n L R (Some s) a = job_step n L R s a" "job_run n L R None a = None"
  by (simp_all add: job_run_def)

lemma job_run_None [simp]: "foldl (job_run n L R) None actions = None"
  by (induction actions) simp_all

lemma deliver_cases:
  assumes "deliver n L start = Some (r, s')"
  obtains "r = Raised" "start = (Raised, s')"
  | e s where "r = Returned e" "start = (Returned e, s)" "core s' = core (s\<lparr>jb_history := jb_history s @ [e]\<rparr>)"
proof (cases "fst start")
  case Raised
  with assms that(1) show thesis by (cases start) (auto simp: deliver_def)
next
  case (Returned e)
  with assms that(2) [of e "snd start"] show thesis
    by (cases start) (auto simp: deliver_def dest: commit_core)
qed

lemma transition_inv: "transition n L status reason now s = Some (r, s') \<Longrightarrow> job_inv s \<Longrightarrow> job_inv s'"
  unfolding transition_def
  by (erule deliver_cases) (auto dest: start_transition_raised transition_push job_inv_core)

lemma publish_inv:
  "publishEvent n L b now s = Some (r, s') \<Longrightarrow> event_status b = None \<Longrightarrow> job_inv s \<Longrightarrow> job_inv s'"
  unfolding publishEvent_def
  by (erule deliver_cases) (auto dest: start_publication_raised publication_push job_inv_core)

lemma transition_status:
  assumes "transition n L status reason now s = Some (Returned e, s')"
  shows "job_status_of s' = status" "\<not> ended s" "jb_completion s' = jb_completion s"
    "completedAt (jb_snapshot s') \<noteq> None \<longleftrightarrow> isExecutionJobTerminalStatus status \<or> completedAt (jb_snapshot s) \<noteq> None"
proof -
  obtain s1 where start: "start_transition status reason now s = (Returned e, s1)"
    and core: "core s' = core (s1\<lparr>jb_history := jb_history s1 @ [e]\<rparr>)"
    using assms unfolding transition_def by (auto elim: deliver_cases)
  show "job_status_of s' = status" "\<not> ended s" "jb_completion s' = jb_completion s"
    "completedAt (jb_snapshot s') \<noteq> None \<longleftrightarrow> isExecutionJobTerminalStatus status \<or> completedAt (jb_snapshot s) \<noteq> None"
    by (rule start_transition_returned [OF start];
        use core_eqD [OF core] terminal_stuck in \<open>auto simp: next_snapshot_def\<close>)+
qed

lemma transition_raised: "transition n L status reason now s = Some (Raised, s') \<Longrightarrow> s' = s"
  unfolding transition_def by (erule deliver_cases) (auto dest: start_transition_raised)

lemma publish_raised: "publishEvent n L b now s = Some (Raised, s') \<Longrightarrow> s' = s"
  unfolding publishEvent_def by (erule deliver_cases) (auto dest: start_publication_raised)

lemma finish_inv:
  assumes "finish n L status reason outcome now s = Some (r, s')" and "job_inv s"
    and "isExecutionJobTerminalStatus status" and "\<And>x. outcome = Some x \<Longrightarrow> outcome_status x = status"
  shows "job_inv s'"
proof -
  obtain x s1 where t: "transition n L status reason now s = Some (x, s1)"
    using assms(1) by (auto simp: finish_def split: option.splits)
  then have inv: "job_inv s1" using assms(2) by (rule transition_inv)
  show ?thesis
  proof (cases x)
    case Raised
    with assms(1) t inv show ?thesis by (simp add: finish_def)
  next
    case (Returned e)
    have "ended s1" using transition_status(1) [OF t [unfolded Returned]] assms(3) by simp
    then have "job_inv (settle (resultBase y s1) s1)" if "outcome_status y = job_status_of s1" for y
      using inv that by (auto simp: job_inv_def settle_def completion_ok_def resultBase_def)
    with assms(1,4) t Returned inv transition_status(1) [OF t [unfolded Returned]] show ?thesis
      by (auto simp: finish_def split: if_splits option.splits)
  qed
qed

lemma job_inv_frame [simp]:
  "job_inv (s\<lparr>jb_cancellation := c\<rparr>) = job_inv s"
  "\<not> ended s \<Longrightarrow> job_inv s \<Longrightarrow> job_inv (s\<lparr>jb_diagnostics := d\<rparr>)"
  "\<not> ended s \<Longrightarrow> job_inv s \<Longrightarrow> job_inv (s\<lparr>jb_artifacts := a\<rparr>)"
  by (auto simp: job_inv_def completion_ok_def split: option.splits)

lemma drain_inv: "drain n L k s = Some s' \<Longrightarrow> job_inv s' = job_inv s"
  by (rule job_inv_core) (rule delivery_core)

lemma job_step_inv:
  assumes "job_step n L R s action = Some s'" and "job_inv s"
  shows "job_inv s'"
proof (cases action)
  case (EmitLog x now)
  with assms show ?thesis by (auto simp: emitLog_def split: option.splits elim: publish_inv)
next
  case (EmitDiagnostic x now)
  with assms show ?thesis by (auto simp: emitDiagnostic_def split: if_splits elim: publish_inv)
next
  case (EmitArtifact x now)
  with assms show ?thesis by (auto simp: emitArtifact_def split: if_splits elim: publish_inv)
next
  case (EmitTrace x v now)
  with assms show ?thesis by (auto simp: emitTrace_def split: option.splits elim: publish_inv)
next
  case (Succeed v c now)
  with assms show ?thesis
    by (auto simp: succeed_def isExecutionJobTerminalStatus_def terminalStatuses_def elim!: finish_inv)
next
  case (Fail f c now)
  with assms show ?thesis
    by (auto simp: fail_def isExecutionJobTerminalStatus_def terminalStatuses_def elim!: finish_inv)
next
  case (FinishCancelled reason now)
  with assms show ?thesis
    by (auto simp: finishCancelled_def isExecutionJobTerminalStatus_def terminalStatuses_def elim!: finish_inv)
next
  case (FinishTimedOut t now)
  with assms show ?thesis
    by (auto simp: finishTimedOut_def isExecutionJobTerminalStatus_def terminalStatuses_def split: if_splits
        elim!: finish_inv)
next
  case (Subscribe l a)
  with assms show ?thesis
    using job_inv_core [of "add_subscriber l _ s" s]
    by (auto simp: job_subscribe_def dest!: drain_inv split: option.splits if_splits)
next
  case (EndCancel d reason now)
  with assms show ?thesis
    by (auto simp: end_cancel_def Let_def split: disposition.splits if_splits option.splits reply.splits
        elim!: transition_inv dest: transition_raised)
next
  case (Leave k)
  with assms show ?thesis using job_inv_core [of "unsubscribe k s" s] by auto
qed (use assms in \<open>auto simp: begin_cancel_def split: if_splits elim: transition_inv\<close>)

interpretation jobs: machine "job_run n L R" "\<lambda>st. case st of None \<Rightarrow> True | Some s \<Rightarrow> job_inv s" for n L R
  by standard (auto simp: job_run_def split: option.splits elim: job_step_inv)

lemma created_job_inv: "createExecutionJobController input = Some s \<Longrightarrow> job_inv s"
  by (auto simp: createExecutionJobController_def Let_def job_inv_def completion_ok_def statuses_def
      isExecutionJobTerminalStatus_def terminalStatuses_def split: option.splits js_number.splits if_splits)


section \<open>The end is final\<close>

definition frozen :: "'p job \<Rightarrow> job_snapshot \<times> nat \<times> 'p job_event list \<times> 'p list \<times> 'p list \<times> 'p job_result option" where
  "frozen s = (jb_snapshot s, jb_sequence s, jb_history s, jb_diagnostics s, jb_artifacts s, jb_completion s)"

lemma ended_transition: "ended s \<Longrightarrow> transition n L status reason now s = Some (Raised, s)"
  by (simp add: transition_def start_transition_def terminal_stuck deliver_def)

lemma ended_publish: "ended s \<Longrightarrow> publishEvent n L b now s = Some (Raised, s)"
  by (simp add: publishEvent_def start_publication_def deliver_def)

lemma frozen_core: "core s' = core s \<Longrightarrow> frozen s' = frozen s"
  unfolding frozen_def by (simp only: core_eqD [of s' s])

lemma ended_step:
  assumes "ended s" and "job_step n L R s action = Some s'"
  shows "frozen s' = frozen s"
proof -
  have fin: "finish n L status reason outcome now s = Some (Raised, s)" for status reason outcome now
    by (simp add: finish_def ended_transition [OF assms(1)])
  show ?thesis
  proof (cases action)
    case (Subscribe l a)
    with assms(2) frozen_core [of "add_subscriber l _ s" s] show ?thesis
      by (auto simp: job_subscribe_def dest!: delivery_core(1) frozen_core split: option.splits if_splits)
  next
    case (Leave k)
    have "frozen (unsubscribe k s) = frozen s" by (rule frozen_core) simp
    with Leave assms(2) show ?thesis by simp
  next
    case (EndCancel d reason now)
    with assms show ?thesis by (auto simp: end_cancel_def frozen_def split: disposition.splits)
  qed (use assms in \<open>auto simp: ended_transition ended_publish fin emitLog_def emitDiagnostic_def emitArtifact_def
      emitTrace_def succeed_def fail_def finishCancelled_def finishTimedOut_def begin_cancel_def split: option.splits if_splits\<close>)
qed

lemma ended_run:
  "ended s \<Longrightarrow> foldl (job_run n L R) (Some s) actions = Some s' \<Longrightarrow> frozen s' = frozen s"
proof (induction actions arbitrary: s)
  case (Cons action actions)
  obtain s1 where s1: "job_step n L R s action = Some s1"
    using Cons.prems(2) by (cases "job_step n L R s action") auto
  then have "frozen s1 = frozen s" by (rule ended_step [OF Cons.prems(1)])
  moreover have "ended s1" using calculation Cons.prems(1) by (simp add: frozen_def)
  ultimately show ?case using Cons.IH [of s1] Cons.prems(2) s1 by simp
qed simp

section \<open>Delivery to observers\<close>

text \<open>
  Listeners that only observe. Between calls nothing is being delivered and the queues are empty, and
  then one commit hands the event to every subscriber once, and a subscription replays the history.
\<close>

definition observing :: "'p listeners \<Rightarrow> bool" where
  "observing L \<longleftrightarrow> (\<forall>l ds e. L l ds e = [])"

definition idle :: "'p job \<Rightarrow> bool" where
  "idle s \<longleftrightarrow> distinct (map fst (jb_subscribers s)) \<and> sorted (map fst (jb_subscribers s)) \<and>
     (\<forall>(k, sub) \<in> set (jb_subscribers s). k < jb_nextKey s \<and> \<not> sub_delivering sub \<and> sub_queue sub = []) \<and>
     (\<forall>(k, e) \<in> set (jb_delivered s). k < jb_nextKey s)"

lemma map_of_update: "map_of (map (\<lambda>(i, x). (i, if i = k then f x else x)) xs) k = map_option f (map_of xs k)"
  by (induction xs) auto

lemma lookup_update [simp]:
  "map_of (jb_subscribers (update_subscriber k f s)) k = map_option f (map_of (jb_subscribers s) k)"
  by (simp add: update_subscriber_def map_of_update)

lemma update_twice [simp]: "update_subscriber k f (update_subscriber k g s) = update_subscriber k (f \<circ> g) s"
  by (auto simp: update_subscriber_def intro!: arg_cong [of _ _ "\<lambda>x. s\<lparr>jb_subscribers := x\<rparr>"])

lemma update_delivered: "(update_subscriber k f s)\<lparr>jb_delivered := d\<rparr> = update_subscriber k f (s\<lparr>jb_delivered := d\<rparr>)"
  by (simp add: update_subscriber_def)

lemma delivered_update [simp]: "jb_delivered (update_subscriber k f s) = jb_delivered s"
  by (simp add: update_subscriber_def)

lemma update_cong:
  assumes "map_of (jb_subscribers s) k = Some sub" and "distinct (map fst (jb_subscribers s))" and "f sub = g sub"
  shows "update_subscriber k f s = update_subscriber k g s"
proof -
  have "(i, if i = k then f x else x) = (i, if i = k then g x else x)" if "(i, x) \<in> set (jb_subscribers s)" for i x
    using that assms(1,3) map_of_is_SomeI [OF assms(2), of k x] by auto
  then show ?thesis by (auto simp: update_subscriber_def intro!: arg_cong [of _ _ "\<lambda>x. s\<lparr>jb_subscribers := x\<rparr>"])
qed

lemma drain_loop_observing:
  assumes "observing L" and "map_of (jb_subscribers s) k = Some sub" and "sub_queue sub = q" and "length q + 2 \<le> n"
    and "distinct (map fst (jb_subscribers s))"
  shows "drain_loop n L k s = Some (update_subscriber k (\<lambda>u. u\<lparr>sub_queue := [], sub_delivering := False\<rparr>)
    (s\<lparr>jb_delivered := jb_delivered s @ map (Pair k) q\<rparr>))"
  using assms(2-5)
proof (induction q arbitrary: n s sub)
  case Nil
  then obtain m where n: "n = Suc m" by (cases n) auto
  show ?case using Nil by (simp add: n) (intro update_cong [of s k sub]; simp)
next
  case (Cons e q)
  then obtain m where n: "n = Suc (Suc m)" by (cases n; cases "n - 1") auto
  let ?s = "(update_subscriber k (sub_queue_update (\<lambda>_. q)) s)\<lparr>jb_delivered := jb_delivered s @ [(k, e)]\<rparr>"
  have sub: "map_of (jb_subscribers ?s) k = Some (sub\<lparr>sub_queue := q\<rparr>)"
    using Cons.prems(1) by (simp del: map_of_eq_Some_iff)
  have distinct: "distinct (map fst (jb_subscribers ?s))"
    using Cons.prems(4) by (simp add: update_subscriber_def comp_def case_prod_unfold)
  have "drain_loop n L k s = drain_loop (Suc m) L k ?s"
    using Cons.prems assms(1) by (simp add: n observing_def Let_def)
  also have "\<dots> = Some (update_subscriber k (\<lambda>u. u\<lparr>sub_queue := [], sub_delivering := False\<rparr>)
      (?s\<lparr>jb_delivered := jb_delivered ?s @ map (Pair k) q\<rparr>))"
    using Cons.prems(3) n by (intro Cons.IH [OF sub _ _ distinct]) simp_all
  finally show ?case by (simp add: update_delivered comp_def)
qed


lemma drain_observing:
  assumes "observing L" and "map_of (jb_subscribers s) k = Some sub" and "\<not> sub_delivering sub"
    and "length (sub_queue sub) + 3 \<le> n" and "distinct (map fst (jb_subscribers s))"
  shows "drain n L k s = Some (update_subscriber k (\<lambda>u. u\<lparr>sub_queue := [], sub_delivering := False\<rparr>)
    (s\<lparr>jb_delivered := jb_delivered s @ map (Pair k) (sub_queue sub)\<rparr>))"
proof -
  obtain m where n: "n = Suc m" "length (sub_queue sub) + 2 \<le> m" using assms(4) by (cases n) auto
  let ?s = "update_subscriber k (sub_delivering_update (\<lambda>_. True)) s"
  have sub: "map_of (jb_subscribers ?s) k = Some (sub\<lparr>sub_delivering := True\<rparr>)"
    using assms(2) by (simp del: map_of_eq_Some_iff)
  have distinct: "distinct (map fst (jb_subscribers ?s))"
    using assms(5) by (simp add: update_subscriber_def comp_def case_prod_unfold)
  have "drain n L k s = drain_loop m L k ?s" using assms(2,3) by (simp add: n)
  also have "\<dots> = Some (update_subscriber k (\<lambda>u. u\<lparr>sub_queue := [], sub_delivering := False\<rparr>)
      (?s\<lparr>jb_delivered := jb_delivered ?s @ map (Pair k) (sub_queue sub)\<rparr>))"
    by (rule drain_loop_observing [OF assms(1) sub _ n(2) distinct]) simp
  finally show ?thesis by (simp add: update_delivered comp_def)
qed

lemma update_same:
  assumes "map_of (jb_subscribers s) k = Some sub" and "distinct (map fst (jb_subscribers s))" and "f sub = sub"
  shows "update_subscriber k f s = s"
  using update_cong [OF assms(1,2), of f "\<lambda>u. u"] assms(3) by (simp add: update_subscriber_def)

lemma idle_distinct: "idle s \<Longrightarrow> distinct (map fst (jb_subscribers s))"
  by (simp add: idle_def)

lemma filter_from_key:
  assumes "sorted (map fst xs)" and "distinct (map fst xs)" and "filter (\<lambda>x. p \<le> fst x) xs = y # ys"
  shows "List.find (\<lambda>x. p \<le> fst x) xs = Some y" and "filter (\<lambda>x. Suc (fst y) \<le> fst x) xs = ys"
  using assms
proof (induction xs)
  case (Cons x xs)
  {
    case 1
    then show ?case using Cons by (auto split: if_splits)
  next
    case 2
    show ?case
    proof (cases "p \<le> fst x")
      case True
      with 2 have y: "x = y" "ys = filter (\<lambda>x. p \<le> fst x) xs" by auto
      have "Suc (fst y) \<le> fst z \<longleftrightarrow> p \<le> fst z" if "z \<in> set xs" for z
        using 2(1,2) True y that by (force simp: Suc_le_eq order.order_iff_strict)
      then show ?thesis using y by (simp cong: filter_cong)
    next
      case False
      with 2 have rest: "filter (\<lambda>x. p \<le> fst x) xs = y # ys" by simp
      then have "y \<in> set xs" by (metis filter_eq_ConsD in_set_conv_decomp)
      then have "fst x \<le> fst y" using 2(1) by auto
      then show ?thesis using Cons.IH(2) rest 2 by simp
    qed
  }
qed simp_all

lemma deliver_from_observing:
  assumes "observing L" and "idle s" and "length (filter (\<lambda>x. p \<le> fst x) (jb_subscribers s)) + 4 \<le> n"
  shows "deliver_from n L e p s =
    Some (s\<lparr>jb_delivered := jb_delivered s @ map (\<lambda>x. (fst x, e)) (filter (\<lambda>x. p \<le> fst x) (jb_subscribers s))\<rparr>)"
  using assms(2,3)
proof (induction "filter (\<lambda>x. p \<le> fst x) (jb_subscribers s)" arbitrary: p s n)
  case Nil
  then obtain m where n: "n = Suc m" by (cases n) auto
  have "List.find (\<lambda>x. p \<le> fst x) (jb_subscribers s) = None"
    using Nil.hyps [symmetric] by (auto simp: find_None_iff filter_empty_conv)
  then show ?case using Nil.hyps [symmetric] by (simp add: n)
next
  case (Cons y ys)
  obtain m where n: "n = Suc m" "length ys + 4 \<le> m" using Cons.hyps(2) [symmetric] Cons.prems(2) by (cases n) auto
  obtain k sub where y: "y = (k, sub)" by (cases y)
  have keys: "sorted (map fst (jb_subscribers s))" "distinct (map fst (jb_subscribers s))"
    using Cons.prems(1) by (auto simp: idle_def)
  note head = filter_from_key [OF keys Cons.hyps(2) [symmetric]]
  have "y \<in> set (filter (\<lambda>x. p \<le> fst x) (jb_subscribers s))" using Cons.hyps(2) by (metis list.set_intros(1))
  then have mem: "(k, sub) \<in> set (jb_subscribers s)" by (simp add: y)
  then have sub: "map_of (jb_subscribers s) k = Some sub" using keys(2) by simp
  have quiet: "\<not> sub_delivering sub" "sub_queue sub = []" using Cons.prems(1) mem by (auto simp: idle_def)
  let ?u = "update_subscriber k (sub_queue_update (\<lambda>q. q @ [e])) s"
  let ?s = "s\<lparr>jb_delivered := jb_delivered s @ [(k, e)]\<rparr>"
  have u: "map_of (jb_subscribers ?u) k = Some (sub\<lparr>sub_queue := [e]\<rparr>)"
    using sub quiet(2) by (simp del: map_of_eq_Some_iff)
  have "distinct (map fst (jb_subscribers ?u))"
    using keys(2) by (simp add: update_subscriber_def comp_def case_prod_unfold)
  from drain_observing [OF assms(1) u _ _ this, of m] quiet n(2)
  have "drain m L k ?u = Some (update_subscriber k (\<lambda>u. u\<lparr>sub_queue := [], sub_delivering := False\<rparr>)
      (?u\<lparr>jb_delivered := jb_delivered s @ [(k, e)]\<rparr>))"
    by simp
  also have "\<dots> = Some (update_subscriber k (\<lambda>u. u\<lparr>sub_queue := [], sub_delivering := False\<rparr>) ?s)"
    by (simp add: update_delivered comp_def)
  also have "update_subscriber k (\<lambda>u. u\<lparr>sub_queue := [], sub_delivering := False\<rparr>) ?s = ?s"
    using sub keys(2) quiet by (intro update_same [of ?s k sub]) (simp_all del: map_of_eq_Some_iff)
  finally have "deliver_from n L e p s = deliver_from m L e (Suc k) ?s"
    using head(1) by (simp add: n(1) y)
  moreover have "idle ?s" using Cons.prems(1) mem by (auto simp: idle_def)
  ultimately show ?case
    using Cons.hyps(1) [of "Suc k" ?s m] head(2) n(2) y Cons.hyps(2) [symmetric] by simp
qed


text \<open>
  What a step of observers does: it keeps the job idle, and every subscription that it keeps has been
  handed the events it added to the history. \<open>load\<close> bounds the fuel that a step needs.
\<close>

abbreviation keys :: "'p job \<Rightarrow> nat set" where
  "keys s \<equiv> fst ` set (jb_subscribers s)"

lemma keys_update [simp]: "keys (update_subscriber k f s) = keys s"
  by (force simp: update_subscriber_def)

definition load :: "'p job \<Rightarrow> nat" where
  "load s = length (jb_history s) + length (jb_subscribers s)"

definition watched :: "'p job \<Rightarrow> nat set \<Rightarrow> 'p job \<Rightarrow> bool" where
  "watched s K s' \<longleftrightarrow> idle s' \<and> load s' \<le> load s + 1 \<and> K \<subseteq> keys s' \<and>
     (\<exists>es. jb_history s' = jb_history s @ es \<and> (\<forall>k \<in> K. delivered_to k s' = delivered_to k s @ es))"

lemma watched_same:
  assumes "idle s" and "jb_subscribers s' = jb_subscribers s" and "jb_nextKey s' = jb_nextKey s"
    and "jb_delivered s' = jb_delivered s" and "jb_history s' = jb_history s"
  shows "watched s (keys s) s'"
  using assms by (auto simp: watched_def idle_def load_def delivered_to_def)

lemma delivered_each:
  "distinct (map fst xs) \<Longrightarrow> filter (\<lambda>x. fst x = k) (map (\<lambda>x. (fst x, e)) xs) = (if k \<in> fst ` set xs then [(k, e)] else [])"
  by (induction xs) auto

lemma watched_deliver:
  assumes "observing L" and "idle s" and "jb_subscribers s1 = jb_subscribers s" and "jb_nextKey s1 = jb_nextKey s"
    and "jb_delivered s1 = jb_delivered s" and "jb_history s1 = jb_history s" and "load s + 4 \<le> n"
    and "start = (r, s1)"
  shows "\<exists>s'. deliver n L start = Some (r, s') \<and> watched s (keys s) s'"
proof (cases r)
  case Raised
  then show ?thesis using assms watched_same [OF assms(2-6)] by (simp add: deliver_def)
next
  case (Returned e)
  let ?s = "s1\<lparr>jb_history := jb_history s1 @ [e]\<rparr>"
  let ?s' = "?s\<lparr>jb_delivered := jb_delivered s1 @ map (\<lambda>x. (fst x, e)) (jb_subscribers s1)\<rparr>"
  have "idle ?s" using assms(2-5) by (simp add: idle_def)
  then have "commitEvent n L e s1 = Some ?s'"
    using deliver_from_observing [OF assms(1), of ?s 0 n e] assms(3,7) by (simp add: commitEvent_def load_def)
  moreover have "idle ?s'" using assms(2-5) by (auto simp: idle_def)
  moreover have "delivered_to k ?s' = delivered_to k s @ [e]" if "k \<in> keys s" for k
    using that by (simp add: delivered_to_def assms(3,5) delivered_each [OF idle_distinct [OF assms(2)]])
  then have "watched s (keys s) ?s'"
    using \<open>idle ?s'\<close> assms(3,6) by (auto simp: watched_def load_def)
  ultimately show ?thesis using assms(8) Returned by (simp add: deliver_def)
qed

lemma start_frame:
  "start_transition status reason now s = (r, s1) \<Longrightarrow> jb_subscribers s1 = jb_subscribers s \<and>
     jb_nextKey s1 = jb_nextKey s \<and> jb_delivered s1 = jb_delivered s \<and> jb_history s1 = jb_history s"
  "start_publication b now s = (r, s1) \<Longrightarrow> jb_subscribers s1 = jb_subscribers s \<and>
     jb_nextKey s1 = jb_nextKey s \<and> jb_delivered s1 = jb_delivered s \<and> jb_history s1 = jb_history s"
  by (auto simp: start_transition_def start_publication_def readTimestamp_def Let_def
      split: if_splits js_number.splits)

lemma watched_transition:
  assumes "observing L" and "idle s" and "load s + 4 \<le> n"
  obtains r s' where "transition n L status reason now s = Some (r, s')" "watched s (keys s) s'"
proof -
  obtain r s1 where start: "start_transition status reason now s = (r, s1)" by (metis surj_pair)
  then show thesis
    using watched_deliver [OF assms(1,2) _ _ _ _ assms(3) start] start_frame(1) [OF start] that
    by (auto simp: transition_def)
qed

lemma watched_publish:
  assumes "observing L" and "idle s" and "load s + 4 \<le> n"
  obtains r s' where "publishEvent n L b now s = Some (r, s')" "watched s (keys s) s'"
proof -
  obtain r s1 where start: "start_publication b now s = (r, s1)" by (metis surj_pair)
  then show thesis
    using watched_deliver [OF assms(1,2) _ _ _ _ assms(3) start] start_frame(2) [OF start] that
    by (auto simp: publishEvent_def)
qed

lemma watched_after:
  assumes "watched s0 K s" and "jb_subscribers s' = jb_subscribers s" and "jb_nextKey s' = jb_nextKey s"
    and "jb_delivered s' = jb_delivered s" and "jb_history s' = jb_history s"
  shows "watched s0 K s'"
  using assms by (auto simp: watched_def idle_def load_def delivered_to_def)

lemma watched_before:
  assumes "watched s1 K s'" and "jb_subscribers s1 = jb_subscribers s" and "jb_delivered s1 = jb_delivered s"
    and "jb_history s1 = jb_history s"
  shows "watched s K s'"
  using assms by (auto simp: watched_def load_def delivered_to_def)

lemma watched_finish:
  assumes "observing L" and "idle s" and "load s + 4 \<le> n"
  shows "\<exists>s'. map_option snd (finish n L status reason outcome now s) = Some s' \<and> watched s (keys s) s'"
proof -
  obtain r s1 where t: "transition n L status reason now s = Some (r, s1)" and w: "watched s (keys s) s1"
    by (rule watched_transition [OF assms])
  then show ?thesis
    using watched_after [OF w, of "settle x s1" for x]
    by (cases r; cases outcome) (auto simp: finish_def settle_def)
qed

lemma watched_subscribe:
  assumes "observing L" and "idle s" and "load s + 4 \<le> n"
  shows "\<exists>r s'. job_subscribe n L l a s = Some (r, s') \<and> watched s (keys s) s' \<and>
    (\<forall>k. r = Returned k \<longrightarrow> k \<in> keys s' \<and> jb_history s' = jb_history s \<and>
       (\<exists>m. safe_integer (or_else a (Finite 0)) = Some m \<and> 0 \<le> m \<and>
          delivered_to k s' = filter (\<lambda>e. je_sequence e > nat m) (jb_history s)))"
proof (cases "\<exists>m. safe_integer (or_else a (Finite 0)) = Some m \<and> 0 \<le> m")
  case False
  then show ?thesis
    using watched_same [OF assms(2) refl refl refl refl] by (auto simp: job_subscribe_def split: option.split)
next
  case True
  then obtain m where m: "safe_integer (or_else a (Finite 0)) = Some m" "0 \<le> m" by blast
  let ?k = "jb_nextKey s" and ?q = "filter (\<lambda>e. je_sequence e > nat m) (jb_history s)"
  let ?sub = "\<lparr>sub_listener = l, sub_delivering = False, sub_queue = ?q\<rparr>"
  let ?s = "add_subscriber l (nat m) s"
  have fresh: "?k \<notin> keys s" "\<forall>e \<in> set (jb_delivered s). fst e \<noteq> ?k" using assms(2) by (auto simp: idle_def)
  then have "map_of (jb_subscribers s) ?k = None" by (simp add: map_of_eq_None_iff)
  then have sub: "map_of (jb_subscribers ?s) ?k = Some ?sub"
    by (simp add: add_subscriber_def map_add_def del: map_of_eq_Some_iff)
  have distinct: "distinct (map fst (jb_subscribers ?s))"
    using fresh idle_distinct [OF assms(2)] by (simp add: add_subscriber_def)
  have short: "length ?q \<le> length (jb_history s)" by simp
  let ?s' = "update_subscriber ?k (\<lambda>u. u\<lparr>sub_queue := [], sub_delivering := False\<rparr>)
    (?s\<lparr>jb_delivered := jb_delivered ?s @ map (Pair ?k) ?q\<rparr>)"
  have "drain n L ?k ?s = Some ?s'"
  proof (cases "n \<ge> length ?q + 3")
    case True
    then show ?thesis using drain_observing [OF assms(1) sub _ _ distinct] by simp
  qed (use assms(3) short in \<open>simp add: load_def\<close>)
  moreover have idle: "idle ?s'"
    using assms(2) fresh
    by (auto simp: idle_def add_subscriber_def update_subscriber_def sorted_append comp_def case_prod_unfold
        less_imp_le split: if_splits)
  have others: "delivered_to k ?s' = delivered_to k s" if "k \<in> keys s" for k
    using that fresh by (auto simp: delivered_to_def add_subscriber_def filter_empty_conv)
  have own: "delivered_to ?k ?s' = ?q"
    using fresh by (auto simp: delivered_to_def add_subscriber_def filter_empty_conv comp_def)
  have shape: "jb_history ?s' = jb_history s" "keys ?s' = insert ?k (keys s)" "load ?s' = load s + 1"
    by (simp_all add: load_def) (simp_all add: add_subscriber_def update_subscriber_def)
  have "watched s (keys s) ?s'" using idle others shape by (auto simp: watched_def)
  ultimately show ?thesis
    using m own shape by (auto simp: job_subscribe_def)
qed


lemma watched_step:
  assumes L: "observing L" and idle: "idle s" and fuel: "load s + 4 \<le> n"
  shows "\<exists>s'. job_step n L R s action = Some s' \<and>
    watched s (case action of Leave k \<Rightarrow> keys s - {k} | _ \<Rightarrow> keys s) s'"
proof -
  have trans: "\<exists>s'. map_option snd (transition n L status reason now s) = Some s' \<and> watched s (keys s) s'"
    for status reason now
    by (rule watched_transition [OF assms, of status reason now]) auto
  have publish: "\<exists>s'. map_option snd (publishEvent n L b now s) = Some s' \<and> watched s (keys s) s'" for b now
    by (rule watched_publish [OF assms, of b now]) auto
  have same: "watched s (keys s) s" by (rule watched_same [OF idle refl refl refl refl])
  have cancelled: "watched s (keys s) (s\<lparr>jb_cancellation := c\<rparr>)" for c
    by (rule watched_same [OF idle]) simp_all
  have published: "\<exists>s'. map_option snd (publishEvent n L b now s1) = Some s' \<and> watched s (keys s) s'"
    if "jb_subscribers s1 = jb_subscribers s" "jb_nextKey s1 = jb_nextKey s" "jb_delivered s1 = jb_delivered s"
      "jb_history s1 = jb_history s" for s1 b now
  proof -
    have "idle s1" "load s1 + 4 \<le> n" using that idle fuel by (auto simp: idle_def load_def)
    then obtain r s' where "publishEvent n L b now s1 = Some (r, s')" "watched s1 (keys s1) s'"
      by (rule watched_publish [OF L])
    then show ?thesis using watched_before [OF _ that(1,3,4), of "keys s"] that(1) by auto
  qed
  show ?thesis
  proof (cases action)
    case (EmitLog x now)
    then show ?thesis using same publish by (auto simp: emitLog_def split: option.split)
  next
    case (EmitDiagnostic x now)
    then show ?thesis using same published [of "s\<lparr>jb_diagnostics := jb_diagnostics s @ [x]\<rparr>"]
      by (auto simp: emitDiagnostic_def)
  next
    case (EmitArtifact x now)
    then show ?thesis using same published [of "s\<lparr>jb_artifacts := jb_artifacts s @ [x]\<rparr>"]
      by (auto simp: emitArtifact_def)
  next
    case (EmitTrace x v now)
    then show ?thesis using same publish by (auto simp: emitTrace_def split: option.split)
  next
    case (Subscribe l a)
    then show ?thesis using watched_subscribe [OF assms, of l a] by force
  next
    case (Leave k)
    have "delivered_to j (unsubscribe k s) = delivered_to j s" for j
      by (simp add: delivered_to_def unsubscribe_def)
    moreover have "idle (unsubscribe k s)"
      using idle by (auto simp: idle_def unsubscribe_def alist_del_def distinct_map_filter sorted_filter)
    ultimately show ?thesis
      using Leave by (auto simp: watched_def load_def unsubscribe_def alist_del_def
          intro!: order_trans [OF length_filter_le])
  next
    case BeginCancel
    then show ?thesis using same cancelled by (auto simp: begin_cancel_def)
  next
    case (EndCancel d reason now)
    let ?s = "s\<lparr>jb_cancellation := CancellationAccepted\<rparr>"
    have "idle ?s" "load ?s + 4 \<le> n" using idle fuel by (auto simp: idle_def load_def)
    then obtain r s1 where t: "transition n L JCancelling reason now ?s = Some (r, s1)" and w1: "watched ?s (keys ?s) s1"
      by (rule watched_transition [OF L])
    then have w: "watched s (keys s) s1" using watched_before [OF w1, of s] by simp
    have "watched s (keys s) (s1\<lparr>jb_cancellation := c\<rparr>)" for c by (rule watched_after [OF w]) simp_all
    then show ?thesis
      using EndCancel t w cancelled by (cases r; cases d) (auto simp: end_cancel_def Let_def)
  qed (use trans watched_finish [OF assms] same in \<open>auto simp: succeed_def fail_def finishCancelled_def finishTimedOut_def\<close>)
qed

text \<open>A run of any length: a subscriber that stays has been handed what the run added to the history.\<close>

lemma observed_run:
  assumes "observing L" and "idle s" and "load s + length actions + 4 \<le> n" and "Leave k \<notin> set actions"
    and "k \<in> keys s"
  shows "\<exists>s' es. foldl (job_run n L R) (Some s) actions = Some s' \<and> jb_history s' = jb_history s @ es \<and>
    delivered_to k s' = delivered_to k s @ es"
  using assms(2-5)
proof (induction actions arbitrary: s)
  case (Cons action actions)
  have "k \<in> (case action of Leave k \<Rightarrow> keys s - {k} | _ \<Rightarrow> keys s)"
    using Cons.prems(3,4) by (cases action) auto
  moreover have "load s + 4 \<le> n" using Cons.prems(2) by simp
  ultimately obtain s1 K where s1: "job_step n L R s action = Some s1" "watched s K s1" "k \<in> K"
    using watched_step [OF assms(1) Cons.prems(1)] by blast
  then obtain es where es: "jb_history s1 = jb_history s @ es" "delivered_to k s1 = delivered_to k s @ es"
    and k: "k \<in> keys s1" "idle s1" "load s1 \<le> load s + 1"
    unfolding watched_def by blast
  with Cons.IH [of s1] Cons.prems(2,3) s1 show ?case by fastforce
qed simp

theorem observer_sees_history:
  assumes "observing L" and "job_inv s" and "idle s" and "load s + length actions + 5 \<le> n"
    and "job_subscribe n L l a s = Some (Returned k, s1)" and "Leave k \<notin> set actions"
    and "safe_integer (or_else a (Finite 0)) = Some m" and "m \<le> int (jb_sequence s)"
  shows "\<exists>s'. foldl (job_run n L R) (Some s1) actions = Some s' \<and>
    delivered_to k s' = filter (\<lambda>e. int (je_sequence e) > m) (jb_history s')"
proof -
  have w: "watched s (keys s) s1" and k: "k \<in> keys s1" "jb_history s1 = jb_history s"
    and m: "0 \<le> m" "delivered_to k s1 = filter (\<lambda>e. je_sequence e > nat m) (jb_history s)"
    using watched_subscribe [OF assms(1,3), of n l a] assms(4,5,7) by auto
  have "core s1 = core s"
    using assms(5) by (auto simp: job_subscribe_def dest!: delivery_core(1) split: option.splits if_splits)
  then have inv: "job_inv s1" using job_inv_core assms(2) by blast
  obtain s' es where run: "foldl (job_run n L R) (Some s1) actions = Some s'" "jb_history s' = jb_history s @ es"
    "delivered_to k s' = delivered_to k s1 @ es"
  proof -
    have "idle s1" "load s1 + length actions + 4 \<le> n" using w assms(4) by (simp_all add: watched_def)
    from observed_run [OF assms(1) this assms(6) k(1), of R] k(2) that show thesis by auto
  qed
  have "job_inv s'" using jobs.run_inv [of "Some s1" n L R actions] inv run(1) by simp
  then have seqs: "map je_sequence (jb_history s @ es) = [1..<jb_sequence s' + 1]" by (simp add: job_inv_def run(2))
  have "map je_sequence (jb_history s) = [1..<jb_sequence s + 1]" using assms(2) by (simp add: job_inv_def)
  then have "length (jb_history s) = jb_sequence s" by (metis add_diff_cancel_right' length_map length_upt)
  then have "je_sequence (es ! i) = jb_sequence s + 1 + i" if "i < length es" for i
    using that arg_cong [OF seqs, of "\<lambda>xs. xs ! (jb_sequence s + i)"] arg_cong [OF seqs, of length]
    by (simp add: nth_append del: upt_Suc)
  then have "\<forall>e \<in> set es. int (je_sequence e) > m" using assms(8) by (force simp: in_set_conv_nth)
  then show ?thesis
    using run m by (auto simp: nat_less_iff filter_id_conv intro!: filter_cong)
qed


section \<open>Values and settlement\<close>

text \<open>The values that can cross a transport: finite numbers and plain containers all the way down.\<close>

fun transportable :: "exec_value \<Rightarrow> bool" where
  "transportable (ExNumber x) \<longleftrightarrow> x \<noteq> NotFinite"
| "transportable (ExArray xs) \<longleftrightarrow> (\<forall>x \<in> set xs. transportable x)"
| "transportable (ExObject kvs) \<longleftrightarrow> (\<forall>(k, v) \<in> set kvs. transportable v)"
| "transportable ExInstance \<longleftrightarrow> False"
| "transportable ExOther \<longleftrightarrow> False"
| "transportable _ \<longleftrightarrow> True"

lemma all_present_map:
  "(\<And>x. x \<in> set xs \<Longrightarrow> f x = (if P x then Some (g x) else None)) \<Longrightarrow>
   all_present (map f xs) = (if \<forall>x \<in> set xs. P x then Some (map g xs) else None)"
  by (induction xs) auto

lemma clone_transportable: "cloneExecutionValue v = (if transportable v then Some v else None)"
proof (induction v)
  case (ExNumber x)
  show ?case by (cases x) simp_all
next
  case (ExArray xs)
  then show ?case using all_present_map [of xs cloneExecutionValue transportable "\<lambda>v. v"] by simp
next
  case (ExObject kvs)
  have "cloneExecutionValue (snd kv) = (if transportable (snd kv) then Some (snd kv) else None)" if "kv \<in> set kvs" for kv
    using ExObject [of kv "snd kv"] that by (cases kv) auto
  then show ?case
    using all_present_map [of kvs "\<lambda>(k, v). cloneExecutionValue v" "\<lambda>(k, v). transportable v" snd]
    by (simp add: case_prod_unfold zip_map_fst_snd)
qed simp_all

text \<open>The job ends before its result is assembled, so a result that cannot be cloned is never settled.\<close>

lemma succeed_unsettled:
  assumes "succeed n L (Some v) c now s = Some (r, s1)" and "\<not> transportable v" and "jb_completion s = None"
    and "s1 \<noteq> s"
  shows "r = Raised \<and> ended s1 \<and> jb_completion s1 = None"
proof -
  obtain x s2 where t: "transition n L JSucceeded None now s = Some (x, s2)"
    using assms(1) by (auto simp: succeed_def finish_def split: option.splits)
  show ?thesis
  proof (cases x)
    case Raised
    with t transition_raised [OF t [unfolded Raised]] assms(1,4) show ?thesis by (simp add: succeed_def finish_def)
  next
    case (Returned e)
    with transition_status [OF t [unfolded Returned]] t assms(1-3) show ?thesis
      by (auto simp: succeed_def finish_def clone_output_def clone_transportable isExecutionJobTerminalStatus_def
          terminalStatuses_def split: if_splits)
  qed
qed

lemma succeed_status:
  assumes "succeed n L v c now s = Some (r, s1)" and "s1 \<noteq> s"
  shows "job_status_of s1 = JSucceeded"
proof -
  obtain x s2 where t: "transition n L JSucceeded None now s = Some (x, s2)"
    using assms(1) by (auto simp: succeed_def finish_def split: option.splits)
  show ?thesis
  proof (cases x)
    case Raised
    with t transition_raised [OF t [unfolded Raised]] assms show ?thesis by (simp add: succeed_def finish_def)
  next
    case (Returned e)
    have "jb_snapshot (settle y s2) = jb_snapshot s2" for y by (simp add: settle_def)
    with Returned transition_status(1) [OF t [unfolded Returned]] t assms(1) show ?thesis
      by (auto simp: succeed_def finish_def split: if_splits option.splits)
  qed
qed

end
