(* ===== verification/RuntimeProperties.thy ===== *)
theory RuntimeProperties
  imports JobLaws "HOL-Library.Code_Target_Numeral"
begin

text \<open>
  The properties of the execution runtime: the deterministic scheduler and execution jobs. The lemmas
  they rest on are those of \<open>SchedulerLaws\<close> and \<open>JobLaws\<close>.
\<close>

section \<open>The scheduler\<close>

text \<open>Sample inputs of the witnesses: a scheduler of three turns, and tasks that record their ids.\<close>

definition sample_creation :: creation where
  "sample_creation = \<lparr>initialTime = None, cr_turns = Finite 3, cr_tasks = None, cr_events = None, cr_clock = None\<rparr>"

definition recording :: "string list behaviour" where
  "recording t s w = \<lparr>run_calls = [], run_world = w @ [pt_id t], run_notifies = False, run_result = TaskDone\<rparr>"

definition sample_config :: config where
  "sample_config = \<lparr>maximumTurns = 3, maximumTasks = 12, maximumEvents = 24, has_clock = False,
     advanceTo = (\<lambda>_ reading. reading)\<rparr>"

definition sample_scheduler :: scheduler where
  "sample_scheduler = \<lparr>sc_tasks = [], sc_barriers = [], sc_events = [], droppedEventCount = 0, eventSequence = 0,
     taskSequence = 0, logicalTime = 0, sc_turns = 0, sc_status = Idle, cancellationReason = None,
     clock_reading = NotFinite\<rparr>"

definition sample_tasks :: scheduler where
  "sample_tasks = foldl (perform sample_config) sample_scheduler
     [Enqueue ''late'' ''a'' (Finite 9), Enqueue ''y'' ''b'' (Finite 2), Enqueue ''x'' ''a'' (Finite 2)]"

lemma sample_created: "createDeterministicScheduler sample_creation = Some (sample_config, sample_scheduler)"
  by (simp add: createDeterministicScheduler_def sample_creation_def sample_config_def sample_scheduler_def
      positiveSafeInteger_def safe_integer_def readClockTime_def max_safe_integer_def or_else_def)

text \<open>C17. Whatever is called in whatever order, the two halves of turns and the waits interleaved: task ids
  and sequence numbers are distinct and the task budget holds, the turns stay within their budget, the
  log has consecutive sequence numbers, at most its budget of events, in the order of time, and every
  barrier has distinct participants and only declared arrivals.\<close>

theorem scheduler_reachable_inv:
  assumes "createDeterministicScheduler input = Some (C, s)"
  shows "sched_inv C (foldl (sched_step C) s steps)"
  by (rule sched.run_inv [OF created_inv [OF assms]])

theorem scheduler_reachable_inv_witness:
  "sched_inv sample_config (foldl (sched_step sample_config) sample_scheduler
     [CallStep (Enqueue ''a'' ''l'' (Finite 1)), BeginTurn, CallStep Pause,
      WaitTimedOutNow ''c'' (0 :: nat) :: (nat, nat) sched_action])"
  by (rule scheduler_reachable_inv [OF sample_created])

text \<open>C20. A turn takes the task that is least by ready time, then lane, then order of the calls; time does not
  go back and reaches the ready time; and a paused, cancelled or exhausted scheduler takes nothing.\<close>

theorem turn_takes_least:
  assumes "begin_turn C s = (Returned (RunTask t), s')"
  shows "t \<in> snd ` set (sc_tasks s) \<and>
    (\<forall>u \<in> snd ` set (sc_tasks s). pt_readyAt t < pt_readyAt u \<or> pt_readyAt t = pt_readyAt u \<and>
       (compareUnicodeCodePoints (pt_lane t) (pt_lane u) < 0 \<or>
        pt_lane t = pt_lane u \<and> pt_sequence t \<le> pt_sequence u)) \<and>
    sc_tasks s' = alist_del (pt_id t) (sc_tasks s) \<and> max (pt_readyAt t) (logicalTime s) \<le> logicalTime s' \<and>
    sc_status s \<notin> {Paused, Cancelled, BudgetExceeded}"
  using begin_turn_takes [OF assms] by (simp add: compare_tasks_le [symmetric])

theorem turn_takes_least_witness:
  "\<exists>t s'. begin_turn sample_config sample_tasks = (Returned (RunTask t), s') \<and> pt_id t = ''x'' \<and>
     sc_tasks s' = alist_del ''x'' (sc_tasks sample_tasks)"
proof -
  have "(case begin_turn sample_config sample_tasks of
      (Returned (RunTask t), s') \<Rightarrow> pt_id t = ''x'' | _ \<Rightarrow> False)" by code_simp
  then obtain t s' where t: "begin_turn sample_config sample_tasks = (Returned (RunTask t), s')" "pt_id t = ''x''"
    by (auto split: prod.splits reply.splits turn_start.splits)
  with turn_takes_least [OF t(1)] show ?thesis by auto
qed

text \<open>C18. The loop of a run ends within its budget of turns, whatever the tasks call, new tasks included; and
  when it returns, no task is left or the scheduler was paused, cancelled or has exhausted a budget.\<close>

theorem run_terminates:
  "run_bounded (Suc (maximumTurns C - sc_turns s)) C B s w = Some (runUntilIdle C B s w) \<and>
   (case runUntilIdle C B s w of
      ((Returned _, s'), _) \<Rightarrow> sc_tasks s' = [] \<or> sc_status s' \<in> {Paused, Cancelled, BudgetExceeded}
    | ((Raised, _), _) \<Rightarrow> True)"
  using run_bounded_enough [of C s "Suc (maximumTurns C - sc_turns s)" B w] run_stops [of C B s w]
  by (auto split: prod.split reply.split)



text \<open>A barrier stands, with exactly the participants that have arrived, until all of them have; the arrival
  that completes it opens it and returns true, every other arrival returns false.\<close>

theorem barrier_opens_when_complete:
  assumes "\<not> has_clock C" and "canonicalIdentity i = Some i'" and "map_of (sc_barriers s) i' = Some b"
    and "barrier_ok b" and "\<forall>q \<in> set (p # ps). \<exists>q'. canonicalIdentity q = Some q' \<and> q' \<in> set (participants b)"
    and "\<not> set (participants b) \<subseteq> set (arrived b) \<union> (the \<circ> canonicalIdentity) ` set ps"
  shows "fst (arrive C i p (foldl (\<lambda>s q. snd (arrive C i q s)) s ps)) =
    Returned (set (participants b) \<subseteq> set (arrived b) \<union> (the \<circ> canonicalIdentity) ` set (p # ps))"
proof -
  obtain b' where b': "map_of (sc_barriers (foldl (\<lambda>s q. snd (arrive C i q s)) s ps)) i' = Some b'" "barrier_ok b'"
    "participants b' = participants b" "set (arrived b') = set (arrived b) \<union> (the \<circ> canonicalIdentity) ` set ps"
    using arrivals [OF assms(1-4), of ps] assms(5,6) by auto
  obtain p' where "canonicalIdentity p = Some p'" "p' \<in> set (participants b')" using assms(5) b'(3) by auto
  then show ?thesis
    using arrive_step [OF assms(1,2) _ b'(1,2), of p p' ?thesis] b'(3,4) by (auto simp: insert_commute)
qed

theorem barrier_opens_when_complete_witness:
  "fst (arrive sample_config ''b'' ''q'' (foldl (\<lambda>s q. snd (arrive sample_config ''b'' q s))
     (snd (createBarrier sample_config ''b'' [''p'', ''q''] sample_scheduler)) [''p'', '' p''])) = Returned True"
proof -
  have b: "map_of (sc_barriers (snd (createBarrier sample_config ''b'' [''p'', ''q''] sample_scheduler))) ''b'' =
      Some \<lparr>participants = [''p'', ''q''], arrived = []\<rparr>"
    by code_simp
  have i: "canonicalIdentity ''b'' = Some ''b''" "canonicalIdentity ''p'' = Some ''p''"
    "canonicalIdentity '' p'' = Some ''p''" "canonicalIdentity ''q'' = Some ''q''"
    by code_simp+
  have "\<not> has_clock sample_config" by (simp add: sample_config_def)
  from barrier_opens_when_complete [OF this i(1) b, of "''q''" "[''p'', '' p'']"] i show ?thesis
    by (simp add: barrier_ok_def insert_commute)
qed

text \<open>A wait answers truthfully: the value it returns is the one the source has then; it says satisfied only
  of a value that satisfies the condition, and timed out only of one that does not, at the deadline or
  later.\<close>

theorem wait_answers_truthfully:
  "case (waitForCondition C B Q deadline s w, safe_integer deadline) of
     (((Returned r, s'), w'), Some d) \<Rightarrow> wait_answer Q d w' r
   | (((Returned r, s'), w'), None) \<Rightarrow> False
   | _ \<Rightarrow> True"
proof -
  have "wait_answer (Q\<lparr>conditionId := i\<rparr>) d w' r = wait_answer Q d w' r" for i d w' r
    by (simp add: wait_answer_def split: wait_result.split)
  moreover have "wait_answer Q d w' r"
    if "wait_loop C B (Q\<lparr>conditionId := i\<rparr>) d False s1 w = ((Returned r, s'), w')" "\<not> holds_for Q (read_source Q w)"
    for i d s1 r s' w'
    using wait_loop_answer [OF that(1)] that(2) calculation by simp
  ultimately show ?thesis
    by (auto simp: waitForCondition_def split: prod.split reply.split option.split if_splits intro: satisfied_answer)
qed

text \<open>C32. A wait on a paused scheduler with a barrier and no task due before the deadline marks it deadlocked:
  the pause is lost, and the next turn runs a task although nobody resumed.\<close>

theorem waiting_lifts_pause:
  assumes "\<not> has_clock C" and "sc_status s = Paused" and "sc_barriers s \<noteq> []" and "orderedTasks s = t # ts"
    and "safe_integer deadline = Some d" and "logicalTime s \<le> d" and "d < pt_readyAt t"
    and "canonicalIdentity (conditionId Q) \<noteq> None" and "\<not> holds_for Q (read_source Q w)"
  shows "sc_status (snd (fst (waitForCondition C B Q deadline s w))) = Deadlocked"
proof -
  obtain i where i: "canonicalIdentity (conditionId Q) = Some i" using assms(8) by blast
  obtain s1 where "append_event C (condition_event DeadlockSeen i) (s\<lparr>sc_status := Deadlocked\<rparr>) = (Returned (), s1)"
    "sc_barriers s1 = sc_barriers s" "sc_status s1 = Deadlocked"
    by (rule append_plainE [OF assms(1), of "condition_event DeadlockSeen i" "s\<lparr>sc_status := Deadlocked\<rparr>"]) simp
  then show ?thesis
    using assms by (simp add: waitForCondition_def synchronize_plain i wait_loop.simps [of C B _ d] Let_def
        wait_without_task_def)
qed

definition paused_sample :: scheduler where
  "paused_sample = foldl (perform sample_config) sample_scheduler
     [Enqueue ''late'' ''a'' (Finite 9), CreateBarrier ''b'' [''p''], Pause]"

definition never :: "(string list, string list) condition" where
  "never = \<lparr>conditionId = ''c'', read_source = (\<lambda>w. w), holds_for = (\<lambda>_. False)\<rparr>"

theorem waiting_lifts_pause_witness:
  "begin_turn sample_config paused_sample = (Returned (NoTask TurnPaused), paused_sample) \<and>
   sc_status (snd (fst (waitForCondition sample_config recording never (Finite 5) paused_sample []))) = Deadlocked \<and>
   snd (runNext sample_config recording
     (snd (fst (waitForCondition sample_config recording never (Finite 5) paused_sample []))) []) = ([''late''], False)"
proof -
  have "orderedTasks paused_sample = [\<lparr>pt_id = ''late'', pt_lane = ''a'', pt_readyAt = 9, pt_sequence = 1\<rparr>]"
    "\<not> has_clock sample_config" "sc_status paused_sample = Paused" "sc_barriers paused_sample \<noteq> []"
    "safe_integer (Finite 5) = Some 5" "logicalTime paused_sample \<le> 5"
    "canonicalIdentity (conditionId never) \<noteq> None"
    by code_simp+
  moreover have "begin_turn sample_config paused_sample = (Returned (NoTask TurnPaused), paused_sample)"
    "snd (runNext sample_config recording
       (snd (fst (waitForCondition sample_config recording never (Finite 5) paused_sample []))) []) = ([''late''], False)"
    by code_simp+
  ultimately show ?thesis
    using waiting_lifts_pause [of sample_config paused_sample _ "[]" "Finite 5" 5 never "[]" recording]
    by (simp add: never_def)
qed

section \<open>Execution jobs\<close>

lemma react_code [code]:
  "react n L rs s =
     (if n = 0 then None
      else case rs of
        [] \<Rightarrow> Some s
      | r # rs \<Rightarrow>
          (case (case r of
             Resubscribe l afterSequence \<Rightarrow> drain (n - 1) L (jb_nextKey s) (add_subscriber l afterSequence s)
           | Unsubscribe k \<Rightarrow> Some (unsubscribe k s)) of
             None \<Rightarrow> None
           | Some s' \<Rightarrow> react (n - 1) L rs s'))"
  by (cases n; cases rs) (simp_all split: option.split reaction.split)

definition sample_job_input :: job_creation where
  "sample_job_input = \<lparr>cj_jobId = '' job '', cj_requestId = ''r'', cj_providerId = ''p'', cj_capabilities = [],
     cj_handler = False, cj_now = Finite 5\<rparr>"

definition sample_job :: "string job" where
  "sample_job = the (createExecutionJobController sample_job_input)"

definition observers :: "string listeners" where
  "observers l ds e = []"

definition keep_logs :: "string \<Rightarrow> string option" where
  "keep_logs x = Some x"




text \<open>The search over the table of transitions decides exactly the reflexive and transitive closure of the
  allowed transitions.\<close>

theorem reach_is_closure: "canReachExecutionJobStatus source target \<longleftrightarrow> canTransitionExecutionJob\<^sup>*\<^sup>* source target"
  by (rule canReach_transitions)

text \<open>C23. A terminal status is final: no later action changes the snapshot, the history, the diagnostics, the
  artifacts or the completion.\<close>

theorem terminal_is_final:
  assumes "isExecutionJobTerminalStatus (js_status (jb_snapshot s))"
    and "foldl (job_run n L R) (Some s) actions = Some s'"
  shows "jb_snapshot s' = jb_snapshot s \<and> jb_history s' = jb_history s \<and> jb_diagnostics s' = jb_diagnostics s \<and>
    jb_artifacts s' = jb_artifacts s \<and> jb_completion s' = jb_completion s"
  using ended_run [OF assms] by (simp add: frozen_def)

definition ended_job :: "string job" where
  "ended_job = the (job_step 20 observers keep_logs sample_job (FinishCancelled (Some ''r'') (Finite 7)))"

theorem terminal_is_final_witness:
  "\<exists>s'. foldl (job_run 20 observers keep_logs) (Some ended_job)
      [MarkRunning (Finite 8), EmitDiagnostic ''d'' (Finite 8), Succeed None None (Finite 9)] = Some s' \<and>
    jb_snapshot s' = jb_snapshot ended_job \<and> js_status (jb_snapshot ended_job) = JCancelled"
proof -
  have "foldl (job_run 20 observers keep_logs) (Some ended_job)
      [MarkRunning (Finite 8), EmitDiagnostic ''d'' (Finite 8), Succeed None None (Finite 9)] \<noteq> None"
    "js_status (jb_snapshot ended_job) = JCancelled" "isExecutionJobTerminalStatus (js_status (jb_snapshot ended_job))"
    by code_simp+
  with terminal_is_final [OF this(3)] show ?thesis by fast
qed





text \<open>C33. A call of succeed whose output cannot cross a transport throws only after the job has become
  succeeded: the job is over, but its completion is never settled, whatever happens later.\<close>

theorem lost_completion:
  assumes "succeed n L (Some v) c now s = Some (r, s1)" and "\<not> transportable v" and "jb_completion s = None"
    and "s1 \<noteq> s" and "foldl (job_run n L R) (Some s1) actions = Some s'"
  shows "r = Raised \<and> js_status (jb_snapshot s') = JSucceeded \<and> jb_completion s' = None"
proof -
  have over: "r = Raised \<and> isExecutionJobTerminalStatus (js_status (jb_snapshot s1)) \<and> jb_completion s1 = None"
    by (rule succeed_unsettled [OF assms(1-4)])
  have "frozen s' = frozen s1" using ended_run [OF _ assms(5)] over by blast
  moreover have "js_status (jb_snapshot s1) = JSucceeded" by (rule succeed_status [OF assms(1,4)])
  ultimately show ?thesis using over by (simp add: frozen_def)
qed

definition running_job :: "string job" where
  "running_job = the (job_step 20 observers keep_logs sample_job (MarkRunning (Finite 6)))"

theorem lost_completion_witness:
  "\<exists>s1 s'. succeed 20 observers (Some (ExArray [ExNumber NotFinite])) (Some 0) (Finite 9) running_job = Some (Raised, s1) \<and>
     foldl (job_run 20 observers keep_logs) (Some s1) [Succeed None (Some 0) (Finite 10), FinishCancelled None (Finite 11)] = Some s' \<and>
     js_status (jb_snapshot s') = JSucceeded \<and> jb_completion s' = None"
proof -
  let ?actions = "[Succeed None (Some 0) (Finite 10), FinishCancelled None (Finite 11)]"
  let ?v = "ExArray [ExNumber NotFinite]"
  have "map_option (\<lambda>(r, s). (r = Raised, js_status (jb_snapshot s), js_status (jb_snapshot running_job),
      jb_completion running_job = None, foldl (job_run 20 observers keep_logs) (Some s) ?actions \<noteq> None))
      (succeed 20 observers (Some ?v) (Some 0) (Finite 9) running_job) = Some (True, JSucceeded, JRunning, True, True)"
    by code_simp
  then obtain s1 where s1: "succeed 20 observers (Some ?v) (Some 0) (Finite 9) running_job = Some (Raised, s1)"
    and facts: "js_status (jb_snapshot s1) \<noteq> js_status (jb_snapshot running_job)" "jb_completion running_job = None"
      "foldl (job_run 20 observers keep_logs) (Some s1) ?actions \<noteq> None"
    by (auto simp del: foldl_Cons)
  then obtain s' where run: "foldl (job_run 20 observers keep_logs) (Some s1) ?actions = Some s'" by blast
  have "s1 \<noteq> running_job" using facts(1) by auto
  moreover have "\<not> transportable ?v" by simp
  ultimately show ?thesis using lost_completion [OF s1 _ facts(2) _ run] s1 run by blast
qed


end
