(* ===== verification/Vfs.thy ===== *)
theory Vfs
  imports Command Canonical
begin

text \<open>
  The validation of a workspace's file tree and documents:
  \<open>packages/workspace/src/validateWorkspaceVfs.ts\<close> and \<open>workspaceDocumentValidation.ts\<close>.

  The tree \<open>treeById\<close> and the documents \<open>docsById\<close> are lists of entries whose values are run-time
  values: the code inspects them without trusting their types. The recursion of the code over the
  tree is a loop over the list of calls still to make (the stack), which visits the nodes in the
  same order. Messages of issues are not modelled. A node whose name is not text is refused; the
  text such a name has inside a path is not modelled.
\<close>

section \<open>Issues\<close>

datatype vfs_code =
    SnapshotRevisionInvalid | DocumentsEmpty | RootIdInvalid | RootMissing | RootParentInvalid
  | RootKindInvalid | NodeIdInvalid | NodeIdMismatch | NodeFieldInvalid | NodeKindInvalid
  | NodeNameInvalid | NodeParentIdInvalid | NodeParentMissing | NodeParentLinkMissing
  | DirChildrenMissing | DirChildIdInvalid | DirChildMissing | DirChildParentMismatch
  | DirDuplicateChild | DirDuplicateName | DocRefMissing | DocRefIdInvalid | DocRefDuplicate
  | DocNodeChildrenInvalid | DocumentIdMismatch | DocumentFieldInvalid | DocumentTypeInvalid
  | DocumentNameInvalid | DocumentUpdatedAtInvalid | DocumentContentInvalid
  | DocumentRevisionInvalid | DocumentCapabilitiesInvalid | DocumentPathInvalid
  | DocumentCardinalityInvalid | DocumentOrphaned | DocumentPathMismatch | TreeCycle
  | TreeOrphanedNode | ActiveDocumentMissing

record vfs_issue =
  vi_code :: vfs_code
  vi_path :: string
  vi_node :: "string option"
  vi_document :: "json option"

definition node_issue :: "vfs_code \<Rightarrow> string \<Rightarrow> string \<Rightarrow> vfs_issue" where
  "node_issue code path nodeId =
     \<lparr>vi_code = code, vi_path = path, vi_node = Some nodeId, vi_document = None\<rparr>"

definition document_issue :: "vfs_code \<Rightarrow> string \<Rightarrow> string \<Rightarrow> vfs_issue" where
  "document_issue code path documentId =
     \<lparr>vi_code = code, vi_path = path, vi_node = None, vi_document = Some (JStr documentId)\<rparr>"

definition plain_issue :: "vfs_code \<Rightarrow> string \<Rightarrow> vfs_issue" where
  "plain_issue code path = \<lparr>vi_code = code, vi_path = path, vi_node = None, vi_document = None\<rparr>"

section \<open>Names, ids and members\<close>

type_synonym entries = "(string \<times> json) list"

text \<open>\<open>treeById[id]\<close> where the code goes on only with a value that is not falsy.\<close>

definition truthy_at :: "entries \<Rightarrow> string \<Rightarrow> json option" where
  "truthy_at entries i =
     (case map_of entries i of Some v \<Rightarrow> if truthy v then Some v else None | None \<Rightarrow> None)"

definition has_kind :: "json \<Rightarrow> string \<Rightarrow> bool" where
  "has_kind node k \<longleftrightarrow> own node ''kind'' = Some (JStr k)"

definition text_of :: "json \<Rightarrow> string \<Rightarrow> string" where
  "text_of v k = (case own v k of Some (JStr s) \<Rightarrow> s | _ \<Rightarrow> '''')"

definition joinPath :: "string \<Rightarrow> string \<Rightarrow> string" where
  "joinPath parentPath name = (if parentPath = ''/'' then ''/'' @ name else parentPath @ ''/'' @ name)"

definition canonical_name :: "string \<Rightarrow> bool" where
  "canonical_name name \<longleftrightarrow>
     name \<noteq> '''' \<and> name = js_trim name \<and> name \<noteq> ''.'' \<and> name \<noteq> ''..'' \<and>
     CHR ''/'' \<notin> set name \<and> CHR 0x5C \<notin> set name"

fun isCanonicalNodeName :: "json option \<Rightarrow> bool \<Rightarrow> bool" where
  "isCanonicalNodeName (Some (JStr name)) isRoot \<longleftrightarrow>
     name \<noteq> '''' \<and> name = js_trim name \<and>
     (isRoot \<and> name = ''/'' \<or>
      name \<noteq> ''.'' \<and> name \<noteq> ''..'' \<and> CHR ''/'' \<notin> set name \<and> CHR 0x5C \<notin> set name)"
| "isCanonicalNodeName _ isRoot \<longleftrightarrow> False"

definition canonical_id :: "string \<Rightarrow> bool" where
  "canonical_id s \<longleftrightarrow> s \<noteq> '''' \<and> s = js_trim s"

fun isCanonicalWorkspaceId :: "json option \<Rightarrow> bool" where
  "isCanonicalWorkspaceId (Some (JStr s)) \<longleftrightarrow> canonical_id s"
| "isCanonicalWorkspaceId _ \<longleftrightarrow> False"

definition getDirectoryChildren :: "json \<Rightarrow> json list" where
  "getDirectoryChildren node = (case own node ''children'' of Some (JArr xs) \<Rightarrow> xs | _ \<Rightarrow> [])"

text \<open>\<open>getDirectoryChildren(node).filter(isCanonicalWorkspaceId)\<close>\<close>

definition canonical_children :: "json \<Rightarrow> string list" where
  "canonical_children node =
     concat (map (\<lambda>c. case c of JStr s \<Rightarrow> if canonical_id s then [s] else [] | _ \<Rightarrow> [])
       (getDirectoryChildren node))"

definition node_pointer :: "string \<Rightarrow> string" where
  "node_pointer nodeId = ''/treeById/'' @ escapeJsonPointerSegment nodeId"

definition document_pointer :: "string \<Rightarrow> string" where
  "document_pointer documentId = ''/docsById/'' @ escapeJsonPointerSegment documentId"

section \<open>Directories\<close>

text \<open>
  Keys of a \<open>Map\<close>: arrays and objects are the same key only if they are the same object, and two
  members of one JSON value never are.
\<close>

definition same_key :: "json option \<Rightarrow> json option \<Rightarrow> bool" where
  "same_key a b \<longleftrightarrow> a = b \<and> (case a of Some (JArr _) \<Rightarrow> False | Some (JObj _) \<Rightarrow> False | _ \<Rightarrow> True)"

record child_scan =
  seenChildIds :: "string list"
  seenNames :: "json option list"
  scan_issues :: "vfs_issue list"

definition add_scan_issue :: "vfs_issue \<Rightarrow> child_scan \<Rightarrow> child_scan" where
  "add_scan_issue i s = s\<lparr>scan_issues := scan_issues s @ [i]\<rparr>"

definition validate_child :: "string \<Rightarrow> entries \<Rightarrow> nat \<Rightarrow> json \<Rightarrow> child_scan \<Rightarrow> child_scan" where
  "validate_child nodeId treeById index childId s =
     (let childPath = node_pointer nodeId @ ''/children/'' @ nat_text index in
      case childId of
        JStr c \<Rightarrow>
          if \<not> canonical_id c then add_scan_issue (node_issue DirChildIdInvalid childPath nodeId) s
          else if c \<in> set (seenChildIds s) then add_scan_issue (node_issue DirDuplicateChild childPath c) s
          else let s = s\<lparr>seenChildIds := c # seenChildIds s\<rparr> in
            (case truthy_at treeById c of
               None \<Rightarrow> add_scan_issue (node_issue DirChildMissing childPath c) s
             | Some child \<Rightarrow>
                 let s = (if own child ''parentId'' \<noteq> Some (JStr nodeId)
                   then add_scan_issue (node_issue DirChildParentMismatch (node_pointer c @ ''/parentId'') c) s
                   else s)
                 in if list_ex (same_key (own child ''name'')) (seenNames s)
                    then add_scan_issue (node_issue DirDuplicateName (node_pointer c @ ''/name'') c) s
                    else s\<lparr>seenNames := own child ''name'' # seenNames s\<rparr>)
      | _ \<Rightarrow> add_scan_issue (node_issue DirChildIdInvalid childPath nodeId) s)"

definition validateDirectoryChildren :: "string \<Rightarrow> json \<Rightarrow> entries \<Rightarrow> vfs_issue list" where
  "validateDirectoryChildren nodeId node treeById =
     (case own node ''children'' of
        Some (JArr children) \<Rightarrow>
          scan_issues (foldl (\<lambda>s (index, childId). validate_child nodeId treeById index childId s)
            \<lparr>seenChildIds = [], seenNames = [], scan_issues = []\<rparr> (List.enumerate 0 children))
      | _ \<Rightarrow> [node_issue DirChildrenMissing (node_pointer nodeId @ ''/children'') nodeId])"

section \<open>Document nodes\<close>

text \<open>The documents referenced so far, with the node that references each, and the issues.\<close>

definition validateDocumentNode ::
  "string \<Rightarrow> json \<Rightarrow> entries \<Rightarrow> (string \<times> string) list \<Rightarrow> vfs_issue list \<times> (string \<times> string) list" where
  "validateDocumentNode nodeId node docsById referenced =
     (let path = node_pointer nodeId;
          children_issue = (if own node ''children'' \<noteq> None
            then [node_issue DocNodeChildrenInvalid (path @ ''/children'') nodeId] else []);
          ref_issue = (\<lambda>code d. \<lparr>vi_code = code, vi_path = path @ ''/docId'', vi_node = Some nodeId, vi_document = d\<rparr>)
      in case own node ''docId'' of
           None \<Rightarrow> (children_issue @ [ref_issue DocRefMissing None], referenced)
         | Some (JStr d) \<Rightarrow>
             if \<not> canonical_id d then (children_issue @ [ref_issue DocRefIdInvalid (Some (JStr d))], referenced)
             else if truthy_at docsById d = None
               then (children_issue @ [ref_issue DocRefMissing (Some (JStr d))], referenced)
             else (case map_of referenced d of
                     Some previous \<Rightarrow>
                       if previous \<noteq> '''' then (children_issue @ [ref_issue DocRefDuplicate (Some (JStr d))], referenced)
                       else (children_issue, alist_put d nodeId referenced)
                   | None \<Rightarrow> (children_issue, alist_put d nodeId referenced))
         | Some v \<Rightarrow> (children_issue @ [ref_issue DocRefIdInvalid (Some v)], referenced))"

section \<open>Walks over the tree\<close>

text \<open>
  \<open>visitReachableTree\<close>: a stack of calls to make (\<open>Enter\<close>) and of nodes to leave when their
  children are done (\<open>Leave\<close>).
\<close>

datatype frame = Enter string | Leave string

function visitReachableTree ::
  "entries \<Rightarrow> frame list \<Rightarrow> string list \<Rightarrow> string list \<Rightarrow> vfs_issue list \<Rightarrow> vfs_issue list \<times> string list" where
  "visitReachableTree treeById [] reachable visiting issues = (issues, reachable)"
| "visitReachableTree treeById (Leave i # stack) reachable visiting issues =
     visitReachableTree treeById stack reachable (removeAll i visiting) issues"
| "visitReachableTree treeById (Enter i # stack) reachable visiting issues =
     (if i \<in> set visiting
      then visitReachableTree treeById stack reachable visiting
             (issues @ [node_issue TreeCycle (node_pointer i) i])
      else case truthy_at treeById i of
        None \<Rightarrow> visitReachableTree treeById stack reachable visiting issues
      | Some node \<Rightarrow>
          if i \<in> set reachable then visitReachableTree treeById stack reachable visiting issues
          else visitReachableTree treeById
                 ((if has_kind node ''dir'' then map Enter (canonical_children node) else []) @ Leave i # stack)
                 (i # reachable) (i # visiting) issues)"
  by pat_completeness auto

lemma truthy_at_dom: "truthy_at entries i = Some v \<Longrightarrow> i \<in> fst ` set entries"
  by (auto simp: truthy_at_def in_dom_map_of simp del: map_of_eq_Some_iff split: option.splits if_splits)

lemma unvisited_less:
  "i \<in> fst ` set entries \<Longrightarrow> i \<notin> set seen \<Longrightarrow>
   card (fst ` set entries - insert i (set seen)) < card (fst ` set entries - set seen)"
  by (intro psubset_card_mono) auto

termination visitReachableTree
  by (relation "measures [\<lambda>(T, stack, reachable, _). card (fst ` set T - set reachable),
      \<lambda>(T, stack, reachable, _). length stack]")
    (auto intro: unvisited_less dest: truthy_at_dom)

text \<open>
  The walks that collect something for every node, each node once, in the order of the calls:
  \<open>kids\<close> are the children the walk goes on with, \<open>enter\<close> computes what is recorded at a node and
  handed to its children.
\<close>

function collect_walk ::
  "entries \<Rightarrow> (json \<Rightarrow> string list) \<Rightarrow> ('c \<Rightarrow> json \<Rightarrow> 'c) \<Rightarrow> (string \<times> 'c) list \<Rightarrow> (string \<times> 'c) list \<Rightarrow>
   (string \<times> 'c) list" where
  "collect_walk treeById kids enter [] collected = collected"
| "collect_walk treeById kids enter ((i, c) # stack) collected =
     (case truthy_at treeById i of
        None \<Rightarrow> collect_walk treeById kids enter stack collected
      | Some node \<Rightarrow>
          if i \<in> fst ` set collected then collect_walk treeById kids enter stack collected
          else let c' = enter c node
               in collect_walk treeById kids enter (map (\<lambda>k. (k, c')) (kids node) @ stack)
                    (collected @ [(i, c')]))"
  by pat_completeness auto
termination
  by (relation "measures [\<lambda>(T, k, f, stack, seen). card (fst ` set T - set (map fst seen)),
      \<lambda>(T, k, f, stack, seen). length stack]")
    (auto dest!: truthy_at_dom intro!: psubset_card_mono)

definition tree_kids :: "json \<Rightarrow> string list" where
  "tree_kids node = (if has_kind node ''dir'' then canonical_children node else [])"

definition tree_path :: "string \<Rightarrow> json \<Rightarrow> string" where
  "tree_path currentPath node =
     (if own node ''parentId'' = Some JNull then ''/'' else joinPath currentPath (text_of node ''name''))"

definition collectTreePaths :: "string \<Rightarrow> entries \<Rightarrow> string \<Rightarrow> (string \<times> string) list" where
  "collectTreePaths nodeId treeById currentPath =
     collect_walk treeById tree_kids tree_path [(nodeId, currentPath)] []"

section \<open>Documents\<close>

definition lowercase :: "string \<Rightarrow> string" where
  "lowercase s = map (\<lambda>c. if 65 \<le> (of_char c :: nat) \<and> (of_char c :: nat) \<le> 90 \<or>
      192 \<le> (of_char c :: nat) \<and> (of_char c :: nat) \<le> 222 \<and> (of_char c :: nat) \<noteq> 215
     then char_of ((of_char c :: nat) + 32) else c) s"

fun isCanonicalWorkspaceDocumentPath :: "json option \<Rightarrow> bool" where
  "isCanonicalWorkspaceDocumentPath (Some (JStr value)) \<longleftrightarrow>
     value = js_trim value \<and> value \<noteq> ''/'' \<and> starts_with value ''/'' \<and> CHR 0x5C \<notin> set value \<and>
     (let segments = split_on CHR ''/'' (drop 1 value)
      in lowercase (hd segments) \<noteq> ''.prodivix'' \<and>
         list_all (\<lambda>segment. segment \<noteq> '''' \<and> segment \<noteq> ''.'' \<and> segment \<noteq> ''..'') segments)"
| "isCanonicalWorkspaceDocumentPath _ \<longleftrightarrow> False"

fun isValidWorkspaceDocumentName :: "json \<Rightarrow> bool" where
  "isValidWorkspaceDocumentName (JStr s) \<longleftrightarrow> js_trim s \<noteq> ''''"
| "isValidWorkspaceDocumentName _ \<longleftrightarrow> False"

definition isLeapYear :: "nat \<Rightarrow> bool" where
  "isLeapYear year \<longleftrightarrow> year mod 4 = 0 \<and> (year mod 100 \<noteq> 0 \<or> year mod 400 = 0)"

definition daysInMonth :: "nat \<Rightarrow> nat \<Rightarrow> nat" where
  "daysInMonth year month =
     (if 1 \<le> month \<and> month \<le> 12
      then [31, if isLeapYear year then 29 else 28, 31, 30, 31, 30, 31, 31, 30, 31, 30, 31] ! (month - 1)
      else 0)"

text \<open>
  The pattern \<open>RFC3339_TIMESTAMP\<close>: nineteen characters of date and time, an optional fraction, and
  a zone.
\<close>

definition date_time_shape :: "string \<Rightarrow> bool" where
  "date_time_shape s \<longleftrightarrow>
     length s = 19 \<and> list_all (\<lambda>i. is_digit (s ! i)) [0, 1, 2, 3, 5, 6, 8, 9, 11, 12, 14, 15, 17, 18] \<and>
     s ! 4 = CHR ''-'' \<and> s ! 7 = CHR ''-'' \<and> s ! 10 = CHR ''T'' \<and> s ! 13 = CHR '':'' \<and> s ! 16 = CHR '':''"

definition after_fraction :: "string \<Rightarrow> string option" where
  "after_fraction s =
     (case s of
        c # rest \<Rightarrow>
          if c = CHR ''.''
          then (if takeWhile is_digit rest = [] then None else Some (dropWhile is_digit rest))
          else Some s
      | [] \<Rightarrow> Some s)"

text \<open>The hours and minutes of the offset; \<open>Z\<close> has none, which counts as zero.\<close>

definition zone_offset :: "string \<Rightarrow> (nat \<times> nat) option" where
  "zone_offset s =
     (if s = ''Z'' then Some (0, 0)
      else if length s = 6 \<and> (s ! 0 = CHR ''+'' \<or> s ! 0 = CHR ''-'') \<and>
        list_all (\<lambda>i. is_digit (s ! i)) [1, 2, 4, 5] \<and> s ! 3 = CHR '':''
      then Some (digits_value (take 2 (drop 1 s)), digits_value (drop 4 s))
      else None)"

definition isCanonicalWorkspaceDocumentUpdatedAt :: "json \<Rightarrow> bool" where
  "isCanonicalWorkspaceDocumentUpdatedAt value =
     (case value of
        JStr s \<Rightarrow>
          s = js_trim s \<and> date_time_shape (take 19 s) \<and>
          (case Option.bind (after_fraction (drop 19 s)) zone_offset of
             None \<Rightarrow> False
           | Some (offsetHour, offsetMinute) \<Rightarrow>
               let field = (\<lambda>i n. digits_value (take n (drop i s)));
                   year = field 0 4; month = field 5 2; day = field 8 2
               in 1 \<le> month \<and> month \<le> 12 \<and> 1 \<le> day \<and> day \<le> daysInMonth year month \<and>
                  field 11 2 \<le> 23 \<and> field 14 2 \<le> 59 \<and> field 17 2 \<le> 59 \<and>
                  offsetHour \<le> 23 \<and> offsetMinute \<le> 59)
      | _ \<Rightarrow> False)"

definition isValidDocumentContent :: "validators \<Rightarrow> json \<Rightarrow> doc_type \<Rightarrow> string \<Rightarrow> bool" where
  "isValidDocumentContent V document documentType documentId =
     (case own document ''content'' of
        None \<Rightarrow> False
      | Some content \<Rightarrow>
          if isPirWorkspaceDocumentType documentType then v_pir V content
          else (case documentType of
             PirAnimation \<Rightarrow> v_animation V content
           | PirGraph \<Rightarrow> v_nodegraph V content
           | DesignTokens \<Rightarrow> v_tokens V content
           | DesignTokenResolver \<Rightarrow> v_tokenResolver V content
           | Asset \<Rightarrow> v_asset V content
           | ProjectConfig \<Rightarrow> v_config V content
           | DataSource \<Rightarrow> v_dataSource V content documentId
           | BehaviorScenario \<Rightarrow> v_behavior V documentType content documentId
           | BehaviorControlProfile \<Rightarrow> v_behavior V documentType content documentId
           | BehaviorFixtureSet \<Rightarrow> v_behavior V documentType content documentId
           | VerificationPolicy \<Rightarrow> v_behavior V documentType content documentId
           | VerificationBaselineSet \<Rightarrow> v_behavior V documentType content documentId
           | AgentPolicy \<Rightarrow> v_agentPolicy V content documentId
           | Code \<Rightarrow> isWorkspaceCodeDocumentContent V content \<and> js_trim (text_of content ''language'') \<noteq> '''' \<and>
               (case own content ''metadata'' of None \<Rightarrow> True | Some m \<Rightarrow> isRecord m)
           | _ \<Rightarrow> True))"

definition positive_safe :: "json option \<Rightarrow> bool" where
  "positive_safe v \<longleftrightarrow> (case v of Some (JNum n) \<Rightarrow> isSafeInteger (Finite n) \<and> n > 0 | _ \<Rightarrow> False)"

text \<open>
  \<open>[...capabilities].sort(compareUnicodeCodePoints)\<close> reads every element of an array of two or more
  with \<open>Array.from(value, (c) => c.codePointAt(0))\<close>, which throws for \<open>null\<close>, for an array with an
  element that is not text and for an object with a positive length.
\<close>

fun code_points_throw :: "json \<Rightarrow> bool" where
  "code_points_throw JNull \<longleftrightarrow> True"
| "code_points_throw (JArr xs) \<longleftrightarrow> \<not> list_all (\<lambda>x. case x of JStr _ \<Rightarrow> True | _ \<Rightarrow> False) xs"
| "code_points_throw (JObj kvs) \<longleftrightarrow>
     (case map_of kvs ''length'' of Some (JNum n) \<Rightarrow> 1 \<le> n | Some (JBool b) \<Rightarrow> b | _ \<Rightarrow> False)"
| "code_points_throw _ \<longleftrightarrow> False"

definition capability_text :: "json \<Rightarrow> string option" where
  "capability_text c =
     (case c of JStr s \<Rightarrow> if s \<noteq> '''' \<and> s = js_trim s then Some s else None | _ \<Rightarrow> None)"

text \<open>Whether the capabilities are canonical; \<open>None\<close> is a thrown TypeError.\<close>

definition canonical_capabilities :: "json \<Rightarrow> bool option" where
  "canonical_capabilities capabilities =
     (case capabilities of
        JArr xs \<Rightarrow>
          if 2 \<le> length xs \<and> list_ex code_points_throw xs then None
          else Some (xs \<noteq> [] \<and>
            (case those (map capability_text xs) of
               None \<Rightarrow> False
             | Some texts \<Rightarrow> distinct texts \<and> sort_by compareUnicodeCodePoints texts = texts))
      | _ \<Rightarrow> Some False)"

definition WORKSPACE_DOCUMENT_FIELDS :: "string list" where
  "WORKSPACE_DOCUMENT_FIELDS =
     [''id'', ''type'', ''name'', ''path'', ''contentRev'', ''metaRev'', ''content'', ''updatedAt'', ''capabilities'']"

definition document_type_of :: "json \<Rightarrow> doc_type option" where
  "document_type_of document =
     (case own document ''type'' of Some (JStr s) \<Rightarrow> doc_type_of_text s | _ \<Rightarrow> None)"

definition document_checks :: "validators \<Rightarrow> string \<Rightarrow> json \<Rightarrow> vfs_issue list" where
  "document_checks V documentId value =
     (let path = document_pointer documentId;
          issue = (\<lambda>code p. [document_issue code p documentId])
      in (case List.find (\<lambda>field. field \<notin> set WORKSPACE_DOCUMENT_FIELDS) (json_keys value) of
            Some unknownField \<Rightarrow>
              if unknownField \<noteq> '''' then issue DocumentFieldInvalid (path @ ''/'' @ escapeJsonPointerSegment unknownField)
              else []
          | None \<Rightarrow> []) @
         (if canonical_id (text_of value ''id'') \<and> own value ''id'' = Some (JStr documentId) then []
          else issue DocumentIdMismatch (path @ ''/id'')) @
         (case own value ''name'' of
            Some name \<Rightarrow> if isValidWorkspaceDocumentName name then [] else issue DocumentNameInvalid (path @ ''/name'')
          | None \<Rightarrow> []) @
         (case document_type_of value of
            None \<Rightarrow> issue DocumentTypeInvalid (path @ ''/type'')
          | Some documentType \<Rightarrow>
              if isValidDocumentContent V value documentType documentId then []
              else issue DocumentContentInvalid (path @ ''/content'')) @
         (if positive_safe (own value ''contentRev'') \<and> positive_safe (own value ''metaRev'') then []
          else issue DocumentRevisionInvalid path) @
         (if isCanonicalWorkspaceDocumentPath (own value ''path'') then []
          else issue DocumentPathInvalid (path @ ''/path'')) @
         (case own value ''updatedAt'' of
            Some t \<Rightarrow> if isCanonicalWorkspaceDocumentUpdatedAt t then []
                      else issue DocumentUpdatedAtInvalid (path @ ''/updatedAt'')
          | None \<Rightarrow> []))"

definition validateWorkspaceDocumentRecord :: "validators \<Rightarrow> string \<Rightarrow> json \<Rightarrow> vfs_issue list option" where
  "validateWorkspaceDocumentRecord V documentId value =
     (if \<not> isRecord value
      then Some [document_issue DocumentTypeInvalid (document_pointer documentId) documentId]
      else let issues = document_checks V documentId value in
        (case own value ''capabilities'' of
           None \<Rightarrow> Some issues
         | Some capabilities \<Rightarrow>
             map_option (\<lambda>ok. if ok then issues
                 else issues @ [document_issue DocumentCapabilitiesInvalid
                   (document_pointer documentId @ ''/capabilities'') documentId])
               (canonical_capabilities capabilities)))"

section \<open>The whole tree\<close>

record vfs_input =
  in_treeRootId :: string
  in_treeById :: entries
  in_docsById :: entries
  in_activeDocumentId :: "json option"

definition node_fields :: "json \<Rightarrow> string list" where
  "node_fields node =
     [''id'', ''kind'', ''name'', ''parentId''] @ (if has_kind node ''dir'' then [''children''] else [''docId''])"

definition parent_links :: "vfs_input \<Rightarrow> string \<Rightarrow> json \<Rightarrow> vfs_issue list" where
  "parent_links v nodeId node =
     (let path = node_pointer nodeId @ ''/parentId'';
          parentId = own node ''parentId''
      in (if nodeId \<noteq> in_treeRootId v \<and> \<not> isCanonicalWorkspaceId parentId
          then [node_issue NodeParentIdInvalid path nodeId] else []) @
         (case parentId of
            Some (JStr p) \<Rightarrow>
              if canonical_id p
              then (if truthy_at (in_treeById v) p = None then [node_issue NodeParentMissing path nodeId] else []) @
                (case map_of (in_treeById v) p of
                   Some parent \<Rightarrow>
                     if has_kind parent ''dir'' \<and> JStr nodeId \<notin> set (getDirectoryChildren parent)
                     then [node_issue NodeParentLinkMissing (node_pointer p @ ''/children'') nodeId] else []
                 | None \<Rightarrow> [])
              else []
          | _ \<Rightarrow> []))"

definition node_checks :: "vfs_input \<Rightarrow> string \<Rightarrow> json \<Rightarrow> vfs_issue list" where
  "node_checks v nodeId node =
     (let path = node_pointer nodeId in
      (if canonical_id nodeId then [] else [node_issue NodeIdInvalid path nodeId]) @
      (if isCanonicalWorkspaceId (own node ''id'') then [] else [node_issue NodeIdInvalid (path @ ''/id'') nodeId]) @
      (if own node ''id'' = Some (JStr nodeId) then [] else [node_issue NodeIdMismatch (path @ ''/id'') nodeId]) @
      (if isCanonicalNodeName (own node ''name'') (nodeId = in_treeRootId v) then []
       else [node_issue NodeNameInvalid (path @ ''/name'') nodeId]) @
      (if has_kind node ''dir'' \<or> has_kind node ''doc'' then []
       else [node_issue NodeKindInvalid (path @ ''/kind'') nodeId]) @
      (case List.find (\<lambda>field. field \<notin> set (node_fields node)) (json_keys node) of
         Some unknownField \<Rightarrow>
           if unknownField \<noteq> ''''
           then [node_issue NodeFieldInvalid (path @ ''/'' @ escapeJsonPointerSegment unknownField) nodeId] else []
       | None \<Rightarrow> []) @
      parent_links v nodeId node)"

definition validate_node ::
  "vfs_input \<Rightarrow> string \<Rightarrow> json \<Rightarrow> vfs_issue list \<times> (string \<times> string) list \<Rightarrow>
   vfs_issue list \<times> (string \<times> string) list" where
  "validate_node v nodeId node s =
     (case s of (issues, referenced) \<Rightarrow>
        if \<not> isRecord node
        then (issues @ [node_issue NodeKindInvalid (node_pointer nodeId) nodeId], referenced)
        else let issues = issues @ node_checks v nodeId node in
          if has_kind node ''dir''
          then (issues @ validateDirectoryChildren nodeId node (in_treeById v), referenced)
          else (case validateDocumentNode nodeId node (in_docsById v) referenced of
                  (found, referenced') \<Rightarrow> (issues @ found, referenced')))"

definition root_checks :: "vfs_input \<Rightarrow> json \<Rightarrow> vfs_issue list" where
  "root_checks v rootNode =
     (let path = node_pointer (in_treeRootId v) in
      (if in_docsById v = [] then [plain_issue DocumentsEmpty ''/docsById''] else []) @
      (if own rootNode ''parentId'' = Some JNull then []
       else [node_issue RootParentInvalid (path @ ''/parentId'') (in_treeRootId v)]) @
      (if has_kind rootNode ''dir'' then [] else [node_issue RootKindInvalid (path @ ''/kind'') (in_treeRootId v)]))"

text \<open>The cardinality, the mount and the path of one document, after its record.\<close>

definition mount_checks ::
  "(string \<times> string) list \<Rightarrow> (string \<times> string) list \<Rightarrow> string \<Rightarrow> json \<Rightarrow> vfs_issue list" where
  "mount_checks referenced paths documentId document =
     (case map_of referenced documentId of
        None \<Rightarrow> [document_issue DocumentOrphaned (document_pointer documentId) documentId]
      | Some nodeId \<Rightarrow>
          if nodeId = '''' then [document_issue DocumentOrphaned (document_pointer documentId) documentId]
          else if \<not> isRecord document then []
          else (case map_of paths nodeId of
                  None \<Rightarrow> []
                | Some expectedPath \<Rightarrow>
                    if expectedPath \<noteq> '''' \<and> own document ''path'' \<noteq> Some (JStr expectedPath)
                    then [\<lparr>vi_code = DocumentPathMismatch, vi_path = document_pointer documentId @ ''/path'',
                           vi_node = Some nodeId, vi_document = Some (JStr documentId)\<rparr>]
                    else []))"

definition cardinality_step ::
  "string \<Rightarrow> json \<Rightarrow> (doc_type \<times> string) list \<Rightarrow> vfs_issue list \<times> (doc_type \<times> string) list" where
  "cardinality_step documentId document singletons =
     (case document_type_of document of
        Some t \<Rightarrow>
          if policy_cardinality (getWorkspaceDocumentPolicy t) = Single
          then (case map_of singletons t of
                  Some previous \<Rightarrow>
                    if previous \<noteq> ''''
                    then ([document_issue DocumentCardinalityInvalid (document_pointer documentId @ ''/type'') documentId], singletons)
                    else ([], alist_put t documentId singletons)
                | None \<Rightarrow> ([], alist_put t documentId singletons))
          else ([], singletons)
      | None \<Rightarrow> ([], singletons))"

fun validate_documents ::
  "validators \<Rightarrow> (string \<times> string) list \<Rightarrow> (string \<times> string) list \<Rightarrow> entries \<Rightarrow> (doc_type \<times> string) list \<Rightarrow>
   vfs_issue list option" where
  "validate_documents V referenced paths [] singletons = Some []"
| "validate_documents V referenced paths ((documentId, document) # docs) singletons =
     (case validateWorkspaceDocumentRecord V documentId document of
        None \<Rightarrow> None
      | Some issues \<Rightarrow>
          (case cardinality_step documentId document singletons of
             (found, singletons') \<Rightarrow>
               map_option (\<lambda>rest. issues @ found @ mount_checks referenced paths documentId document @ rest)
                 (validate_documents V referenced paths docs singletons')))"

text \<open>The issues of a workspace; \<open>None\<close> is a thrown TypeError.\<close>

definition validateWorkspaceVfs :: "validators \<Rightarrow> vfs_input \<Rightarrow> vfs_issue list option" where
  "validateWorkspaceVfs V v =
     (let rootId = in_treeRootId v;
          root_issue = (if canonical_id rootId then [] else [node_issue RootIdInvalid ''/treeRootId'' rootId])
      in case truthy_at (in_treeById v) rootId of
           None \<Rightarrow> Some (root_issue @ [node_issue RootMissing ''/treeRootId'' rootId])
         | Some rootNode \<Rightarrow>
             (case foldl (\<lambda>s (nodeId, node). validate_node v nodeId node s) ([], []) (in_treeById v) of
                (node_issues, referenced) \<Rightarrow>
                  (case visitReachableTree (in_treeById v) [Enter rootId] [] [] [] of
                     (cycles, reachable) \<Rightarrow>
                       let orphans = map (\<lambda>i. node_issue TreeOrphanedNode (node_pointer i) i)
                             (filter (\<lambda>i. i \<notin> set reachable) (map fst (in_treeById v)));
                           paths = collectTreePaths rootId (in_treeById v) ''/'';
                           active = (case in_activeDocumentId v of
                             Some a \<Rightarrow>
                               if truthy a \<and> (case a of JStr s \<Rightarrow> truthy_at (in_docsById v) s = None | _ \<Rightarrow> True)
                               then [\<lparr>vi_code = ActiveDocumentMissing, vi_path = ''/activeDocumentId'',
                                      vi_node = None, vi_document = Some a\<rparr>] else []
                           | None \<Rightarrow> [])
                       in map_option (\<lambda>documents. root_issue @ root_checks v rootNode @ node_issues @ cycles @
                              orphans @ documents @ active)
                            (validate_documents V referenced paths (in_docsById v) []))))"

text \<open>
  \<open>Object.entries\<close> of a value; \<open>None\<close> for \<open>undefined\<close> and \<open>null\<close>, whose members cannot be read.
\<close>

fun entries_of :: "json option \<Rightarrow> entries option" where
  "entries_of None = None"
| "entries_of (Some JNull) = None"
| "entries_of (Some (JObj kvs)) = Some kvs"
| "entries_of (Some (JArr xs)) = Some (map (\<lambda>(i, x). (nat_text i, x)) (List.enumerate 0 xs))"
| "entries_of (Some (JStr s)) = Some (map (\<lambda>(i, c). (nat_text i, JStr [c])) (List.enumerate 0 s))"
| "entries_of (Some _) = Some []"

text \<open>
  \<open>validateWorkspaceSnapshot\<close>: whether a snapshot is valid. The checks of animation targets and of
  the component graph are arguments (whether they raise no issue). \<open>None\<close> is a thrown exception; a
  root id that is not text is refused or makes the code throw, which the model does not tell apart.
\<close>

definition validateWorkspaceSnapshot ::
  "validators \<Rightarrow> (json \<Rightarrow> bool option) \<Rightarrow> (json \<Rightarrow> bool option) \<Rightarrow> json \<Rightarrow> bool option" where
  "validateWorkspaceSnapshot V animationTargets componentGraph snapshot =
     (case (own snapshot ''treeRootId'', entries_of (own snapshot ''treeById'')) of
        (Some (JStr rootId), Some tree) \<Rightarrow>
          if truthy_at tree rootId = None
          then Option.bind (animationTargets snapshot) (\<lambda>_. map_option (\<lambda>_. False) (componentGraph snapshot))
          else Option.bind (entries_of (own snapshot ''docsById'')) (\<lambda>docs.
            Option.bind (validateWorkspaceVfs V \<lparr>in_treeRootId = rootId, in_treeById = tree, in_docsById = docs,
                in_activeDocumentId = own snapshot ''activeDocumentId''\<rparr>) (\<lambda>issues.
              Option.bind (animationTargets snapshot) (\<lambda>targets_ok.
                map_option (\<lambda>graph_ok. issues = [] \<and> targets_ok \<and>
                    list_all (\<lambda>field. positive_safe (own snapshot field)) [''workspaceRev'', ''routeRev'', ''opSeq''] \<and>
                    graph_ok)
                  (componentGraph snapshot))))
      | _ \<Rightarrow> None)"

end
