(* ===== verification/VfsTree.thy ===== *)
theory VfsTree
  imports Vfs
begin

text \<open>
  The abstract specification of a workspace's file tree: an inductive tree of directories and
  documents. \<open>represents\<close> says that \<open>treeById\<close> is exactly the table of the nodes of a tree, and the
  theory shows what the walks of the code compute on such a table.
\<close>

section \<open>Trees\<close>

datatype vtree =
    VDir (vid: string) (vname: string) (vkids: "vtree list")
  | VDoc (vid: string) (vname: string) (vdoc: string)
where
  "vkids (VDoc _ _ _) = []"

fun ids :: "vtree \<Rightarrow> string list" where
  "ids (VDir i n cs) = i # concat (map ids cs)"
| "ids (VDoc i n d) = [i]"

text \<open>The members of the node of a tree with a given parent; the node may have others besides.\<close>

fun fields :: "json \<Rightarrow> vtree \<Rightarrow> (string \<times> json) list" where
  "fields p (VDir i n cs) =
     [(''id'', JStr i), (''kind'', JStr ''dir''), (''name'', JStr n), (''parentId'', p),
      (''children'', JArr (map (\<lambda>c. JStr (vid c)) cs))]"
| "fields p (VDoc i n d) =
     [(''id'', JStr i), (''kind'', JStr ''doc''), (''name'', JStr n), (''parentId'', p), (''docId'', JStr d)]"

definition matches :: "json \<Rightarrow> vtree \<Rightarrow> json \<Rightarrow> bool" where
  "matches p t node \<longleftrightarrow>
     isRecord node \<and> (\<forall>(k, v) \<in> set (fields p t). own node k = Some v) \<and>
     (\<not> is_VDir t \<longrightarrow> own node ''children'' = None)"

text \<open>The subtrees of a tree, each with the id of its parent.\<close>

fun subs :: "json \<Rightarrow> vtree \<Rightarrow> (json \<times> vtree) list" where
  "subs p (VDir i n cs) = (p, VDir i n cs) # concat (map (subs (JStr i)) cs)"
| "subs p (VDoc i n d) = [(p, VDoc i n d)]"

definition stored :: "entries \<Rightarrow> json \<Rightarrow> vtree \<Rightarrow> bool" where
  "stored T p t \<longleftrightarrow> (\<exists>node. map_of T (vid t) = Some node \<and> matches p t node)"

definition rep :: "entries \<Rightarrow> json \<Rightarrow> vtree \<Rightarrow> bool" where
  "rep T p t \<longleftrightarrow> (\<forall>(q, s) \<in> set (subs p t). stored T q s)"

definition represents :: "entries \<Rightarrow> vtree \<Rightarrow> bool" where
  "represents T t \<longleftrightarrow> rep T JNull t \<and> distinct (ids t) \<and> fst ` set T = set (ids t)"

fun names_ok :: "vtree \<Rightarrow> bool" where
  "names_ok (VDir i n cs) \<longleftrightarrow>
     canonical_id i \<and> canonical_name n \<and> distinct (map vname cs) \<and> (\<forall>c \<in> set cs. names_ok c)"
| "names_ok (VDoc i n d) \<longleftrightarrow> canonical_id i \<and> canonical_name n \<and> canonical_id d"

fun root_ok :: "vtree \<Rightarrow> bool" where
  "root_ok (VDir i n cs) \<longleftrightarrow>
     canonical_id i \<and> (canonical_name n \<or> n = ''/'') \<and> distinct (map vname cs) \<and> (\<forall>c \<in> set cs. names_ok c)"
| "root_ok (VDoc i n d) \<longleftrightarrow> False"

text \<open>The path of every node below a path, and below the root.\<close>

fun paths_below :: "string \<Rightarrow> vtree \<Rightarrow> (string \<times> string) list" where
  "paths_below p (VDir i n cs) = (i, joinPath p n) # concat (map (paths_below (joinPath p n)) cs)"
| "paths_below p (VDoc i n d) = [(i, joinPath p n)]"

fun node_paths :: "vtree \<Rightarrow> (string \<times> string) list" where
  "node_paths t = (vid t, ''/'') # concat (map (paths_below ''/'') (vkids t))"

declare node_paths.simps [simp del]

text \<open>The documents mounted in a tree, each with its node.\<close>

fun mounts :: "vtree \<Rightarrow> (string \<times> string) list" where
  "mounts (VDir i n cs) = concat (map mounts cs)"
| "mounts (VDoc i n d) = [(d, i)]"

lemma ids_subs: "ids t = map (\<lambda>(q, s). vid s) (subs p t)"
  by (induction t arbitrary: p) (simp_all add: map_concat comp_def cong: map_cong)

lemma vid_in_ids [simp]: "vid t \<in> set (ids t)"
  by (cases t) auto

lemma self_in_subs [simp]: "(p, t) \<in> set (subs p t)"
  by (cases t) auto

lemma subs_ids: "(q, s) \<in> set (subs p t) \<Longrightarrow> vid s \<in> set (ids t)"
  by (force simp: ids_subs [of t p])

lemma ids_subsE:
  assumes "i \<in> set (ids t)"
  obtains q s where "(q, s) \<in> set (subs p t)" and "vid s = i"
  using assms by (auto simp: ids_subs [of t p])

lemma fst_paths_below: "map fst (paths_below p t) = ids t"
  by (induction t arbitrary: p) (simp_all add: map_concat comp_def cong: map_cong)

lemma fst_node_paths: "map fst (node_paths t) = ids t"
  by (cases t) (simp_all add: node_paths.simps map_concat comp_def fst_paths_below)

lemma rep_Dir [simp]:
  "rep T p (VDir i n cs) \<longleftrightarrow> stored T p (VDir i n cs) \<and> (\<forall>c \<in> set cs. rep T (JStr i) c)"
  by (auto simp: rep_def)

lemma rep_Doc [simp]: "rep T p (VDoc i n d) \<longleftrightarrow> stored T p (VDoc i n d)"
  by (simp add: rep_def)

lemma rep_stored: "rep T p t \<Longrightarrow> stored T p t"
  by (cases t) auto

lemma matches_own:
  assumes "matches p t node"
  shows "own node ''id'' = Some (JStr (vid t))" and "own node ''name'' = Some (JStr (vname t))"
    and "own node ''parentId'' = Some p" and "has_kind node ''dir'' \<longleftrightarrow> is_VDir t"
    and "has_kind node ''doc'' \<longleftrightarrow> \<not> is_VDir t" and "truthy node" and "isRecord node"
    and "is_VDir t \<Longrightarrow> own node ''children'' = Some (JArr (map (\<lambda>c. JStr (vid c)) (vkids t)))"
    and "\<not> is_VDir t \<Longrightarrow> own node ''children'' = None \<and> own node ''docId'' = Some (JStr (vdoc t))"
  using assms by (cases t; cases node; simp add: matches_def has_kind_def)+

lemma stored_truthy: "stored T p t \<Longrightarrow> \<exists>node. truthy_at T (vid t) = Some node \<and> matches p t node"
  by (auto simp: stored_def truthy_at_def matches_own(6))

lemma concat_if_all: "\<forall>x \<in> set xs. P x \<Longrightarrow> concat (map (\<lambda>x. if P x then [f x] else []) xs) = map f xs"
  by (induction xs) auto

lemma matches_kids:
  assumes "matches p t node" and "\<forall>c \<in> set (vkids t). canonical_id (vid c)"
  shows "tree_kids node = map vid (vkids t)"
proof (cases t)
  case (VDir i n cs)
  then have "getDirectoryChildren node = map (\<lambda>c. JStr (vid c)) cs"
    using matches_own(8) [OF assms(1)] by (simp add: getDirectoryChildren_def)
  moreover have "concat (map (\<lambda>c. if canonical_id (vid c) then [vid c] else []) cs) = map vid cs"
    using assms(2) VDir by (intro concat_if_all) simp
  ultimately show ?thesis
    using VDir matches_own(4) [OF assms(1)] by (simp add: tree_kids_def canonical_children_def comp_def)
next
  case (VDoc i n d)
  then show ?thesis using matches_own(4) [OF assms(1)] by (simp add: tree_kids_def)
qed

section \<open>Walks over a represented tree\<close>

text \<open>What a collecting walk records on a tree, when \<open>child\<close> computes the context from the tree.\<close>

fun walk_tree :: "('c \<Rightarrow> vtree \<Rightarrow> 'c) \<Rightarrow> 'c \<Rightarrow> vtree \<Rightarrow> (string \<times> 'c) list" where
  "walk_tree f c (VDir i n cs) = (i, f c (VDir i n cs)) # concat (map (walk_tree f (f c (VDir i n cs))) cs)"
| "walk_tree f c (VDoc i n d) = [(i, f c (VDoc i n d))]"

lemma fst_walk_tree: "map fst (walk_tree f c t) = ids t"
  by (induction t arbitrary: c) (simp_all add: map_concat comp_def cong: map_cong)

declare collect_walk.simps(2) [simp del]

definition walkable ::
  "entries \<Rightarrow> (json \<Rightarrow> string list) \<Rightarrow> ('c \<Rightarrow> json \<Rightarrow> 'c) \<Rightarrow> ('c \<Rightarrow> vtree \<Rightarrow> 'c) \<Rightarrow> json \<Rightarrow> vtree \<Rightarrow> bool" where
  "walkable T kids enter f q t \<longleftrightarrow>
     (\<forall>(p, s) \<in> set (subs q t). \<exists>node. truthy_at T (vid s) = Some node \<and>
       kids node = map vid (vkids s) \<and> (\<forall>c. enter c node = f c s))"

lemma walkable_Dir:
  "walkable T kids enter f q (VDir i n cs) \<longleftrightarrow>
     (\<exists>node. truthy_at T i = Some node \<and> kids node = map vid cs \<and> (\<forall>c. enter c node = f c (VDir i n cs))) \<and>
     (\<forall>t \<in> set cs. walkable T kids enter f (JStr i) t)"
  by (auto simp: walkable_def)

lemma collect_walk_forest:
  assumes "\<And>t c stack seen. t \<in> set ts \<Longrightarrow> fst ` set seen \<inter> set (ids t) = {} \<Longrightarrow>
      collect_walk T kids enter ((vid t, c) # stack) seen = collect_walk T kids enter stack (seen @ walk_tree f c t)"
    and "distinct (concat (map ids ts))" and "fst ` set seen \<inter> set (concat (map ids ts)) = {}"
  shows "collect_walk T kids enter (map (\<lambda>t. (vid t, c)) ts @ stack) seen =
    collect_walk T kids enter stack (seen @ concat (map (walk_tree f c) ts))"
  using assms
proof (induction ts arbitrary: seen)
  case (Cons t ts)
  have "fst ` set (walk_tree f c t) = set (ids t)" by (metis fst_walk_tree set_map)
  then have "collect_walk T kids enter (map (\<lambda>t. (vid t, c)) ts @ stack) (seen @ walk_tree f c t) =
      collect_walk T kids enter stack ((seen @ walk_tree f c t) @ concat (map (walk_tree f c) ts))"
    using Cons.prems by (intro Cons.IH) (auto simp: image_Un)
  moreover have "collect_walk T kids enter ((vid t, c) # map (\<lambda>t. (vid t, c)) ts @ stack) seen =
      collect_walk T kids enter (map (\<lambda>t. (vid t, c)) ts @ stack) (seen @ walk_tree f c t)"
    using Cons.prems by (intro Cons.prems(1)) auto
  ultimately show ?case by simp
qed simp

lemma collect_walk_below:
  assumes "walkable T kids enter f q t" and "distinct (ids t)" and "fst ` set seen \<inter> set (ids t) = {}"
  shows "collect_walk T kids enter ((vid t, c) # stack) seen =
    collect_walk T kids enter stack (seen @ walk_tree f c t)"
  using assms
proof (induction t arbitrary: q seen c stack)
  case (VDir i n cs)
  obtain node where node: "truthy_at T i = Some node" "kids node = map vid cs" "enter c node = f c (VDir i n cs)"
    using VDir.prems(1) unfolding walkable_Dir by blast
  let ?c = "f c (VDir i n cs)"
  have "collect_walk T kids enter (map (\<lambda>t. (vid t, ?c)) cs @ stack) (seen @ [(i, ?c)]) =
      collect_walk T kids enter stack ((seen @ [(i, ?c)]) @ concat (map (walk_tree f ?c) cs))"
  proof (rule collect_walk_forest)
    fix t c stack and seen :: "(string \<times> 'a) list"
    assume "t \<in> set cs" "fst ` set seen \<inter> set (ids t) = {}"
    then show "collect_walk T kids enter ((vid t, c) # stack) seen =
        collect_walk T kids enter stack (seen @ walk_tree f c t)"
      using VDir.prems(1,2) by (intro VDir.IH) (auto simp: walkable_Dir distinct_concat_iff)
  qed (use VDir.prems in auto)
  moreover have "i \<notin> fst ` set seen" using VDir.prems(3) by simp
  ultimately show ?case using node by (simp add: Let_def comp_def collect_walk.simps(2))
next
  case (VDoc i n d)
  then show ?case by (auto simp: walkable_def Let_def collect_walk.simps(2))
qed

text \<open>The walk that looks for cycles finds none in a tree and reaches exactly its nodes.\<close>

lemma visit_forest:
  assumes "\<And>t stack reachable. t \<in> set ts \<Longrightarrow> set reachable \<inter> set (ids t) = {} \<Longrightarrow>
      visitReachableTree T (Enter (vid t) # stack) reachable visiting issues =
      visitReachableTree T stack (rev (ids t) @ reachable) visiting issues"
    and "distinct (concat (map ids ts))" and "set reachable \<inter> set (concat (map ids ts)) = {}"
  shows "visitReachableTree T (map Enter (map vid ts) @ stack) reachable visiting issues =
    visitReachableTree T stack (rev (concat (map ids ts)) @ reachable) visiting issues"
  using assms
proof (induction ts arbitrary: reachable)
  case (Cons t ts)
  have "visitReachableTree T (map Enter (map vid ts) @ stack) (rev (ids t) @ reachable) visiting issues =
      visitReachableTree T stack (rev (concat (map ids ts)) @ rev (ids t) @ reachable) visiting issues"
    using Cons.prems by (intro Cons.IH) auto
  moreover have "visitReachableTree T (Enter (vid t) # map Enter (map vid ts) @ stack) reachable visiting issues =
      visitReachableTree T (map Enter (map vid ts) @ stack) (rev (ids t) @ reachable) visiting issues"
    using Cons.prems by (intro Cons.prems(1)) auto
  ultimately show ?case by simp
qed simp

lemma visit_tree:
  assumes "walkable T tree_kids (\<lambda>c node. c) (\<lambda>c t. c) q t" and "distinct (ids t)"
    and "set reachable \<inter> set (ids t) = {}" and "set visiting \<inter> set (ids t) = {}"
  shows "visitReachableTree T (Enter (vid t) # stack) reachable visiting issues =
    visitReachableTree T stack (rev (ids t) @ reachable) visiting issues"
  using assms
proof (induction t arbitrary: q reachable visiting stack)
  case (VDir i n cs)
  obtain node where node: "truthy_at T i = Some node" "tree_kids node = map vid cs"
    using VDir.prems(1) unfolding walkable_Dir by blast
  have "visitReachableTree T (map Enter (map vid cs) @ Leave i # stack) (i # reachable) (i # visiting) issues =
      visitReachableTree T (Leave i # stack) (rev (concat (map ids cs)) @ i # reachable) (i # visiting) issues"
  proof (rule visit_forest)
    fix t stack reachable
    assume "t \<in> set cs" "set reachable \<inter> set (ids t) = {}"
    then show "visitReachableTree T (Enter (vid t) # stack) reachable (i # visiting) issues =
        visitReachableTree T stack (rev (ids t) @ reachable) (i # visiting) issues"
      using VDir.prems by (intro VDir.IH) (auto simp: walkable_Dir distinct_concat_iff)
  qed (use VDir.prems in auto)
  moreover have "removeAll i (i # visiting) = visiting" "i \<notin> set visiting" "i \<notin> set reachable"
    using VDir.prems(3,4) by (auto simp: removeAll_id)
  moreover have "(if has_kind node ''dir'' then map Enter (canonical_children node) else []) = map Enter (map vid cs)"
    using node(2) by (auto simp: tree_kids_def split: if_splits)
  ultimately show ?case using node(1) by (simp del: map_map)
next
  case (VDoc i n d)
  then obtain node where "truthy_at T i = Some node" "tree_kids node = []" by (auto simp: walkable_def)
  moreover have "removeAll i (i # visiting) = visiting" "i \<notin> set visiting" "i \<notin> set reachable"
    using VDoc.prems(3,4) by (auto simp: removeAll_id)
  ultimately show ?case by (auto simp: tree_kids_def split: if_splits)
qed

lemma collect_walk_tree:
  "walkable T kids enter f q t \<Longrightarrow> distinct (ids t) \<Longrightarrow> collect_walk T kids enter [(vid t, c)] [] = walk_tree f c t"
  by (simp add: collect_walk_below)

end
