(* ===== verification/VfsLaws.thy ===== *)
theory VfsLaws
  imports VfsTree
begin

text \<open>
  What the validation decides: it raises no issue exactly when \<open>treeById\<close> is the table of a file
  tree whose documents are the workspace's documents, at their paths.
\<close>

section \<open>Parent links make a tree\<close>

lemma rooted_acyclic:
  assumes unique: "\<And>x y z. (x, z) \<in> R \<Longrightarrow> (y, z) \<in> R \<Longrightarrow> x = y"
    and rootless: "\<And>x. (x, r) \<notin> R" and reach: "(r, z) \<in> R\<^sup>*"
  shows "(z, z) \<notin> R\<^sup>+"
  using reach
proof induction
  case base
  show ?case using rootless by (meson tranclE)
next
  case (step y z)
  show ?case
  proof
    assume "(z, z) \<in> R\<^sup>+"
    then obtain w where "(z, w) \<in> R\<^sup>*" "(w, z) \<in> R" by (meson tranclD2)
    with unique [OF \<open>(y, z) \<in> R\<close>] have "(z, y) \<in> R\<^sup>*" by metis
    with \<open>(y, z) \<in> R\<close> have "(y, y) \<in> R\<^sup>+" by (rule rtrancl_into_trancl2)
    with step.IH show False ..
  qed
qed

lemma common_descendant:
  assumes unique: "\<And>x y z. (x, z) \<in> R \<Longrightarrow> (y, z) \<in> R \<Longrightarrow> x = y"
    and "(a, z) \<in> R\<^sup>*" and "(b, z) \<in> R\<^sup>*"
  shows "(a, b) \<in> R\<^sup>* \<or> (b, a) \<in> R\<^sup>*"
  using assms(2,3)
proof (induction arbitrary: b)
  case base
  then show ?case by blast
next
  case (step y z)
  then show ?case
    using unique [OF step.hyps(2)] by (metis rtrancl.simps)
qed

text \<open>
  A predicate that is established at a node from its children, when their images are disjoint,
  holds at every node.
\<close>

lemma rooted_induct:
  assumes fin: "finite R" and unique: "\<And>x y z. (x, z) \<in> R \<Longrightarrow> (y, z) \<in> R \<Longrightarrow> x = y"
    and rootless: "\<And>x. (x, r) \<notin> R" and reach: "(r, x) \<in> R\<^sup>*"
    and step: "\<And>x. (r, x) \<in> R\<^sup>* \<Longrightarrow> (\<And>y. (x, y) \<in> R \<Longrightarrow> P y) \<Longrightarrow>
      (\<And>y. (x, y) \<in> R \<Longrightarrow> x \<notin> R\<^sup>* `` {y}) \<Longrightarrow>
      (\<And>y z. (x, y) \<in> R \<Longrightarrow> (x, z) \<in> R \<Longrightarrow> y \<noteq> z \<Longrightarrow> R\<^sup>* `` {y} \<inter> R\<^sup>* `` {z} = {}) \<Longrightarrow> P x"
  shows "P x"
proof -
  let ?S = "{(x, y) \<in> R. (r, x) \<in> R\<^sup>*}"
  have cyc: "(z, z) \<notin> R\<^sup>+" if "(r, z) \<in> R\<^sup>*" for z
    by (rule rooted_acyclic [OF _ rootless that]) (rule unique)
  have "acyclic ?S"
  proof (rule acyclicI, intro allI notI)
    fix z assume z: "(z, z) \<in> ?S\<^sup>+"
    then have "(z, z) \<in> R\<^sup>+" by (rule trancl_mono) auto
    moreover obtain y where "(z, y) \<in> ?S" using tranclD [OF z] by blast
    ultimately show False using cyc [of z] by simp
  qed
  moreover have "finite ?S" using fin by (rule finite_subset [rotated]) auto
  ultimately have "wf (?S\<inverse>)" by (rule finite_acyclic_wf_converse [rotated])
  then show ?thesis using reach
  proof (induction x rule: wf_induct_rule)
    case (less x)
    have down: "(r, y) \<in> R\<^sup>*" if "(x, y) \<in> R" for y using less.prems that by (rule rtrancl_into_rtrancl)
    show ?case
    proof (rule step [OF less.prems])
      fix y assume "(x, y) \<in> R"
      then show "P y" using less.IH down less.prems by blast
    next
      fix y assume "(x, y) \<in> R"
      then show "x \<notin> R\<^sup>* `` {y}" using cyc [OF less.prems] by (meson Image_singleton_iff rtrancl_into_trancl2)
    next
      fix y z assume y: "(x, y) \<in> R" and z: "(x, z) \<in> R" and "y \<noteq> z"
      have "False" if w: "(y, w) \<in> R\<^sup>*" "(z, w) \<in> R\<^sup>*" for w
      proof -
        have no: "(a, b) \<notin> R\<^sup>*" if "(x, a) \<in> R" "(x, b) \<in> R" "a \<noteq> b" for a b
        proof
          assume "(a, b) \<in> R\<^sup>*"
          with \<open>a \<noteq> b\<close> obtain c where "(a, c) \<in> R\<^sup>*" "(c, b) \<in> R" by (meson rtranclE)
          with unique [OF \<open>(x, b) \<in> R\<close>] have "(a, x) \<in> R\<^sup>*" by metis
          with \<open>(x, a) \<in> R\<close> cyc [OF less.prems] show False by (meson rtrancl_into_trancl2)
        qed
        have "(y, z) \<in> R\<^sup>* \<or> (z, y) \<in> R\<^sup>*" by (rule common_descendant [OF _ w]) (rule unique)
        with no [OF y z \<open>y \<noteq> z\<close>] no [OF z y] \<open>y \<noteq> z\<close> show False by blast
      qed
      then show "R\<^sup>* `` {y} \<inter> R\<^sup>* `` {z} = {}" by blast
    qed
  qed
qed

section \<open>The checks of one node\<close>

definition fields_known :: "json \<Rightarrow> bool" where
  "fields_known node \<longleftrightarrow>
     (case List.find (\<lambda>field. field \<notin> set (node_fields node)) (json_keys node) of None \<Rightarrow> True | Some f \<Rightarrow> f = '''')"

definition link_ok :: "vfs_input \<Rightarrow> string \<Rightarrow> json \<Rightarrow> bool" where
  "link_ok v i node \<longleftrightarrow>
     (i = in_treeRootId v \<or> isCanonicalWorkspaceId (own node ''parentId'')) \<and>
     (\<forall>p. own node ''parentId'' = Some (JStr p) \<longrightarrow> canonical_id p \<longrightarrow>
        (\<exists>parent. truthy_at (in_treeById v) p = Some parent \<and>
           (has_kind parent ''dir'' \<longrightarrow> JStr i \<in> set (getDirectoryChildren parent))))"

lemma parent_links_Nil: "parent_links v i node = [] \<longleftrightarrow> link_ok v i node"
  by (auto simp: parent_links_def link_ok_def truthy_at_def Let_def simp del: map_of_eq_Some_iff
      split: option.splits json.splits if_splits)

definition shape_ok :: "vfs_input \<Rightarrow> string \<Rightarrow> json \<Rightarrow> bool" where
  "shape_ok v i node \<longleftrightarrow>
     isRecord node \<and> canonical_id i \<and> own node ''id'' = Some (JStr i) \<and>
     isCanonicalNodeName (own node ''name'') (i = in_treeRootId v) \<and>
     (has_kind node ''dir'' \<or> has_kind node ''doc'') \<and> fields_known node \<and> link_ok v i node"

lemma node_checks_Nil: "isRecord node \<and> node_checks v i node = [] \<longleftrightarrow> shape_ok v i node"
  by (auto simp: node_checks_def shape_ok_def fields_known_def parent_links_Nil Let_def split: option.splits)

text \<open>The names of the nodes, as far as they are text.\<close>

definition named :: "entries \<Rightarrow> bool" where
  "named T \<longleftrightarrow> (\<forall>i node. truthy_at T i = Some node \<longrightarrow> (\<exists>s. own node ''name'' = Some (JStr s)))"

lemma namedE:
  assumes "named T" and "truthy_at T i = Some node"
  obtains s where "own node ''name'' = Some (JStr s)"
  using assms by (auto simp: named_def)

definition child_ok :: "entries \<Rightarrow> string \<Rightarrow> string \<Rightarrow> bool" where
  "child_ok T p c \<longleftrightarrow>
     canonical_id c \<and> (\<exists>node. truthy_at T c = Some node \<and> own node ''parentId'' = Some (JStr p))"

definition name_at :: "entries \<Rightarrow> string \<Rightarrow> json option" where
  "name_at T c = Option.bind (truthy_at T c) (\<lambda>node. own node ''name'')"

lemma validate_child_issues:
  "\<exists>is. scan_issues (validate_child p T n c s) = scan_issues s @ is"
  by (auto simp: validate_child_def add_scan_issue_def Let_def split: json.split option.split)

lemma fold_child_issues:
  "\<exists>is. scan_issues (foldl (\<lambda>s (n, c). validate_child p T n c s) s xs) = scan_issues s @ is"
proof (induction xs arbitrary: s)
  case (Cons x xs)
  obtain n c where "x = (n, c)" by (cases x)
  with Cons [of "validate_child p T n c s"] validate_child_issues [of p T n c s] show ?case by fastforce
qed simp

lemma validate_child_Nil:
  assumes "named T" and "\<forall>a \<in> set (seenNames s). \<exists>x. a = Some (JStr x)" and "scan_issues s = []"
  shows "scan_issues (validate_child p T n c s) = [] \<longleftrightarrow>
    (\<exists>k. c = JStr k \<and> child_ok T p k \<and> k \<notin> set (seenChildIds s) \<and> name_at T k \<notin> set (seenNames s) \<and>
      validate_child p T n c s =
        s\<lparr>seenChildIds := k # seenChildIds s, seenNames := name_at T k # seenNames s\<rparr>)"
proof (cases c)
  case (JStr k)
  show ?thesis
  proof (cases "truthy_at T k")
    case (Some node)
    then obtain x where "own node ''name'' = Some (JStr x)" using assms(1) by (auto simp: named_def)
    then have "list_ex (same_key (own node ''name'')) (seenNames s) \<longleftrightarrow> name_at T k \<in> set (seenNames s)"
      using Some assms(2) by (auto simp: list_ex_iff same_key_def name_at_def)
    then show ?thesis
      using JStr Some assms(3) by (auto simp: validate_child_def add_scan_issue_def child_ok_def name_at_def Let_def)
  qed (use JStr assms(3) in \<open>auto simp: validate_child_def add_scan_issue_def child_ok_def Let_def\<close>)
qed (use assms(3) in \<open>auto simp: validate_child_def add_scan_issue_def\<close>)

lemma Cons_JStr: "(\<exists>ks. JStr k # xs = map JStr ks \<and> P ks) \<longleftrightarrow> (\<exists>ks. xs = map JStr ks \<and> P (k # ks))"
  by (auto simp: Cons_eq_map_conv)

lemma fold_children_Nil:
  assumes "named T" and "\<forall>a \<in> set (seenNames s). \<exists>x. a = Some (JStr x)" and "scan_issues s = []"
  shows "scan_issues (foldl (\<lambda>s (n, c). validate_child p T n c s) s (List.enumerate n xs)) = [] \<longleftrightarrow>
    (\<exists>ks. xs = map JStr ks \<and> (\<forall>k \<in> set ks. child_ok T p k) \<and> distinct ks \<and> distinct (map (name_at T) ks) \<and>
      set ks \<inter> set (seenChildIds s) = {} \<and> name_at T ` set ks \<inter> set (seenNames s) = {})"
  using assms(2,3)
proof (induction xs arbitrary: n s)
  case (Cons x xs)
  let ?s = "validate_child p T n x s"
  let ?fold = "\<lambda>s. scan_issues (foldl (\<lambda>s (n, c). validate_child p T n c s) s (List.enumerate (Suc n) xs))"
  show ?case
  proof (cases "scan_issues ?s = []")
    case True
    then obtain k where k: "x = JStr k" "child_ok T p k" "k \<notin> set (seenChildIds s)" "name_at T k \<notin> set (seenNames s)"
      "?s = s\<lparr>seenChildIds := k # seenChildIds s, seenNames := name_at T k # seenNames s\<rparr>"
      using validate_child_Nil [OF assms(1) Cons.prems, of p n x] by blast
    obtain node where node: "truthy_at T k = Some node" using k(2) by (auto simp: child_ok_def)
    obtain y where "own node ''name'' = Some (JStr y)" by (rule namedE [OF assms(1) node])
    then have "name_at T k = Some (JStr y)" using node by (simp add: name_at_def)
    then have "?fold ?s = [] \<longleftrightarrow> (\<exists>ks. xs = map JStr ks \<and> (\<forall>k \<in> set ks. child_ok T p k) \<and> distinct ks \<and>
        distinct (map (name_at T) ks) \<and> set ks \<inter> insert k (set (seenChildIds s)) = {} \<and>
        name_at T ` set ks \<inter> insert (name_at T k) (set (seenNames s)) = {})"
      using Cons.IH [of ?s "Suc n"] Cons.prems k(5) by simp
    moreover have "?fold ?s = scan_issues (foldl (\<lambda>s (n, c). validate_child p T n c s) s (List.enumerate n (x # xs)))"
      by simp
    moreover have "(\<forall>k \<in> set ks. child_ok T p k) \<and> distinct ks \<and> distinct (map (name_at T) ks) \<and>
          set ks \<inter> insert k (set (seenChildIds s)) = {} \<and>
          name_at T ` set ks \<inter> insert (name_at T k) (set (seenNames s)) = {} \<longleftrightarrow>
        (\<forall>j \<in> set (k # ks). child_ok T p j) \<and> distinct (k # ks) \<and> distinct (map (name_at T) (k # ks)) \<and>
          set (k # ks) \<inter> set (seenChildIds s) = {} \<and> name_at T ` set (k # ks) \<inter> set (seenNames s) = {}" for ks
      using k(2-4) by auto
    ultimately show ?thesis by (simp only: k(1) Cons_JStr)
  next
    case False
    then have "?fold ?s \<noteq> []" using fold_child_issues [of p T ?s "List.enumerate (Suc n) xs"] by auto
    moreover have "\<not> (\<exists>ks. x # xs = map JStr ks \<and> (\<forall>k \<in> set ks. child_ok T p k) \<and> distinct ks \<and>
        distinct (map (name_at T) ks) \<and> set ks \<inter> set (seenChildIds s) = {} \<and>
        name_at T ` set ks \<inter> set (seenNames s) = {})"
    proof
      assume "\<exists>ks. x # xs = map JStr ks \<and> (\<forall>k \<in> set ks. child_ok T p k) \<and> distinct ks \<and>
        distinct (map (name_at T) ks) \<and> set ks \<inter> set (seenChildIds s) = {} \<and>
        name_at T ` set ks \<inter> set (seenNames s) = {}"
      then obtain k where k: "x = JStr k" "child_ok T p k" "k \<notin> set (seenChildIds s)" "name_at T k \<notin> set (seenNames s)"
        by (auto simp: Cons_eq_map_conv)
      obtain node where "truthy_at T k = Some node" "own node ''parentId'' = Some (JStr p)" "canonical_id k"
        using k(2) by (auto simp: child_ok_def)
      moreover obtain y where "own node ''name'' = Some (JStr y)"
        using assms(1) \<open>truthy_at T k = Some node\<close> by (auto simp: named_def)
      ultimately have "scan_issues ?s = []"
        using k(3,4) Cons.prems(2)
        by (auto simp: k(1) validate_child_def Let_def name_at_def list_ex_iff same_key_def)
      with False show False ..
    qed
    ultimately show ?thesis by simp
  qed
qed simp

lemma directory_Nil:
  assumes "named T"
  shows "validateDirectoryChildren p node T = [] \<longleftrightarrow>
    (\<exists>ks. own node ''children'' = Some (JArr (map JStr ks)) \<and> (\<forall>k \<in> set ks. child_ok T p k) \<and>
       distinct ks \<and> distinct (map (name_at T) ks))"
  using fold_children_Nil [OF assms, of "\<lparr>seenChildIds = [], seenNames = [], scan_issues = []\<rparr>" p 0]
  by (auto simp: validateDirectoryChildren_def split: option.split json.split)

section \<open>Documents and their mounts\<close>

definition doc_node_ok :: "entries \<Rightarrow> json \<Rightarrow> bool" where
  "doc_node_ok docs node \<longleftrightarrow>
     own node ''children'' = None \<and>
     (\<exists>d. own node ''docId'' = Some (JStr d) \<and> canonical_id d \<and> truthy_at docs d \<noteq> None)"

lemma validateDocumentNode_Nil:
  assumes "\<forall>(d, i) \<in> set ref. i \<noteq> ''''"
  shows "fst (validateDocumentNode i node docs ref) = [] \<longleftrightarrow>
      doc_node_ok docs node \<and> map_of ref (text_of node ''docId'') = None"
    and "fst (validateDocumentNode i node docs ref) = [] \<Longrightarrow>
      snd (validateDocumentNode i node docs ref) = ref @ [(text_of node ''docId'', i)]"
proof -
  have "i \<noteq> ''''" if "map_of ref d = Some i" for d i using assms map_of_SomeD [OF that] by blast
  then show "fst (validateDocumentNode i node docs ref) = [] \<longleftrightarrow>
      doc_node_ok docs node \<and> map_of ref (text_of node ''docId'') = None"
    and "fst (validateDocumentNode i node docs ref) = [] \<Longrightarrow>
      snd (validateDocumentNode i node docs ref) = ref @ [(text_of node ''docId'', i)]"
    by (auto simp: validateDocumentNode_def doc_node_ok_def text_of_def Let_def alist_put_new
        simp del: map_of_eq_Some_iff split: option.splits json.splits if_splits)
qed

definition node_ok :: "vfs_input \<Rightarrow> string \<Rightarrow> json \<Rightarrow> bool" where
  "node_ok v i node \<longleftrightarrow>
     shape_ok v i node \<and>
     (if has_kind node ''dir'' then validateDirectoryChildren i node (in_treeById v) = []
      else doc_node_ok (in_docsById v) node)"

definition mounted :: "entries \<Rightarrow> (string \<times> string) list" where
  "mounted T =
     concat (map (\<lambda>(i, node). if has_kind node ''dir'' then [] else [(text_of node ''docId'', i)]) T)"

lemma validate_node_issues: "\<exists>is. fst (validate_node v i node s) = fst s @ is"
  by (cases s) (auto simp: validate_node_def Let_def split: prod.split)

lemma fold_node_issues: "\<exists>is. fst (foldl (\<lambda>s (i, node). validate_node v i node s) s T) = fst s @ is"
proof (induction T arbitrary: s)
  case (Cons e T)
  obtain i node where "e = (i, node)" by (cases e)
  with Cons [of "validate_node v i node s"] validate_node_issues [of v i node s] show ?case by fastforce
qed simp

lemma validate_node_Nil:
  assumes "\<forall>(d, i) \<in> set ref. i \<noteq> ''''"
  shows "fst (validate_node v i node ([], ref)) = [] \<longleftrightarrow>
      node_ok v i node \<and> (\<not> has_kind node ''dir'' \<longrightarrow> map_of ref (text_of node ''docId'') = None)"
    and "fst (validate_node v i node ([], ref)) = [] \<Longrightarrow>
      snd (validate_node v i node ([], ref)) = ref @ mounted [(i, node)]"
proof -
  obtain found ref' where doc: "validateDocumentNode i node (in_docsById v) ref = (found, ref')"
    by (cases "validateDocumentNode i node (in_docsById v) ref")
  have checks: "isRecord node \<Longrightarrow> node_checks v i node = [] \<longleftrightarrow> shape_ok v i node"
    using node_checks_Nil by blast
  show "fst (validate_node v i node ([], ref)) = [] \<longleftrightarrow>
      node_ok v i node \<and> (\<not> has_kind node ''dir'' \<longrightarrow> map_of ref (text_of node ''docId'') = None)"
    using validateDocumentNode_Nil(1) [OF assms, of i node "in_docsById v"] checks
    by (auto simp: validate_node_def node_ok_def doc Let_def shape_ok_def)
  show "snd (validate_node v i node ([], ref)) = ref @ mounted [(i, node)]"
    if "fst (validate_node v i node ([], ref)) = []"
    using that validateDocumentNode_Nil(2) [OF assms, of i node "in_docsById v"]
    by (auto simp: validate_node_def mounted_def doc Let_def split: if_splits)
qed

lemma fold_nodes_Nil:
  assumes "\<forall>(d, i) \<in> set ref. i \<noteq> ''''"
  shows "(fst (foldl (\<lambda>s (i, node). validate_node v i node s) ([], ref) T) = [] \<longleftrightarrow>
      (\<forall>(i, node) \<in> set T. node_ok v i node) \<and> distinct (map fst (mounted T)) \<and>
      fst ` set (mounted T) \<inter> fst ` set ref = {}) \<and>
    (fst (foldl (\<lambda>s (i, node). validate_node v i node s) ([], ref) T) = [] \<longrightarrow>
      snd (foldl (\<lambda>s (i, node). validate_node v i node s) ([], ref) T) = ref @ mounted T)"
  using assms
proof (induction T arbitrary: ref)
  case Nil
  then show ?case by (simp add: mounted_def)
next
  case (Cons e T)
  obtain i node where e: "e = (i, node)" by (cases e)
  obtain "is" ref' where step: "validate_node v i node ([], ref) = (is, ref')"
    by (cases "validate_node v i node ([], ref)")
  have split: "mounted (e # T) = mounted [(i, node)] @ mounted T" by (simp add: mounted_def e)
  show ?case
  proof (cases "is = []")
    case True
    then have now: "node_ok v i node" "\<not> has_kind node ''dir'' \<longrightarrow> map_of ref (text_of node ''docId'') = None"
      "ref' = ref @ mounted [(i, node)]"
      using validate_node_Nil [OF Cons.prems, of v i node] by (auto simp: step)
    then have "\<forall>(d, i) \<in> set ref'. i \<noteq> ''''"
      using Cons.prems by (auto simp: mounted_def node_ok_def shape_ok_def canonical_id_def)
    from Cons.IH [OF this] show ?thesis
      using now unfolding split
      by (auto simp: e step True mounted_def map_of_eq_None_iff split: if_splits)
  next
    case False
    then have "fst (foldl (\<lambda>s (i, node). validate_node v i node s) ([], ref) (e # T)) \<noteq> []"
      using fold_node_issues [of v "(is, ref')" T] by (auto simp: e step)
    moreover have "\<not> ((\<forall>(i, node) \<in> set (e # T). node_ok v i node) \<and>
        fst ` set (mounted (e # T)) \<inter> fst ` set ref = {})"
      using validate_node_Nil(1) [OF Cons.prems, of v i node] False unfolding split
      by (auto simp: e step mounted_def map_of_eq_None_iff)
    ultimately show ?thesis by simp
  qed
qed

text \<open>The document types of which a workspace has at most one document, as they occur.\<close>

definition singles :: "entries \<Rightarrow> doc_type list" where
  "singles docs =
     concat (map (\<lambda>(d, document).
       case document_type_of document of
         Some t \<Rightarrow> if policy_cardinality (getWorkspaceDocumentPolicy t) = Single then [t] else []
       | None \<Rightarrow> []) docs)"

definition record_ok :: "validators \<Rightarrow> string \<Rightarrow> json \<Rightarrow> bool" where
  "record_ok V d document \<longleftrightarrow> validateWorkspaceDocumentRecord V d document = Some []"

lemma record_ok_facts:
  assumes "record_ok V d document"
  shows "isRecord document" and "canonical_id d"
  using assms
  by (auto simp: record_ok_def validateWorkspaceDocumentRecord_def document_checks_def Let_def text_of_def
      split: if_splits option.splits)

lemma cardinality_step_Nil:
  assumes "\<forall>(t, d) \<in> set sing. d \<noteq> ''''"
  shows "fst (cardinality_step d document sing) = [] \<longleftrightarrow>
      set (singles [(d, document)]) \<inter> fst ` set sing = {}"
    and "fst (cardinality_step d document sing) = [] \<Longrightarrow>
      snd (cardinality_step d document sing) = sing @ map (\<lambda>t. (t, d)) (singles [(d, document)])"
proof -
  have "d \<noteq> ''''" if "map_of sing t = Some d" for t d using assms map_of_SomeD [OF that] by blast
  then show "fst (cardinality_step d document sing) = [] \<longleftrightarrow>
      set (singles [(d, document)]) \<inter> fst ` set sing = {}"
    and "fst (cardinality_step d document sing) = [] \<Longrightarrow>
      snd (cardinality_step d document sing) = sing @ map (\<lambda>t. (t, d)) (singles [(d, document)])"
    by (auto simp: cardinality_step_def singles_def alist_put_new in_dom_map_of simp del: map_of_eq_Some_iff
        dest: weak_map_of_SomeI split: option.splits if_splits)
qed

lemma validate_documents_Nil:
  assumes "\<forall>(t, d) \<in> set sing. d \<noteq> ''''"
  shows "validate_documents V ref paths docs sing = Some [] \<longleftrightarrow>
    (\<forall>(d, document) \<in> set docs. record_ok V d document \<and> mount_checks ref paths d document = []) \<and>
    distinct (singles docs) \<and> set (singles docs) \<inter> fst ` set sing = {}"
  using assms
proof (induction V ref paths docs sing rule: validate_documents.induct)
  case (2 V ref paths d document docs sing)
  obtain found sing' where step: "cardinality_step d document sing = (found, sing')"
    by (cases "cardinality_step d document sing")
  have split: "singles ((d, document) # docs) = singles [(d, document)] @ singles docs"
    "distinct (singles [(d, document)])"
    by (auto simp: singles_def split: option.split)
  show ?case
  proof (cases "record_ok V d document \<and> found = []")
    case True
    then have "d \<noteq> ''''" using record_ok_facts(2) by (auto simp: canonical_id_def)
    moreover have now: "sing' = sing @ map (\<lambda>t. (t, d)) (singles [(d, document)])"
      "set (singles [(d, document)]) \<inter> fst ` set sing = {}"
      using cardinality_step_Nil [OF "2.prems", of d document] True by (simp_all add: step)
    ultimately have "\<forall>(t, d) \<in> set sing'. d \<noteq> ''''" using "2.prems" by auto
    from "2.IH" [OF _ step [symmetric] this] show ?thesis
      using True now unfolding split(1)
      by (auto simp: record_ok_def step image_Un image_image split(2))
  next
    case False
    then have "\<not> (record_ok V d document \<and> set (singles [(d, document)]) \<inter> fst ` set sing = {})"
      using cardinality_step_Nil(1) [OF "2.prems", of d document] by (auto simp: step)
    moreover have "validate_documents V ref paths ((d, document) # docs) sing \<noteq> Some []"
      using False by (auto simp: step record_ok_def split: option.split)
    ultimately show ?thesis unfolding split(1) by auto
  qed
qed (simp add: singles_def)

section \<open>When the validation is silent\<close>

definition active_ok :: "vfs_input \<Rightarrow> bool" where
  "active_ok v \<longleftrightarrow>
     (case in_activeDocumentId v of
        Some a \<Rightarrow> truthy a \<longrightarrow> (\<exists>s. a = JStr s \<and> truthy_at (in_docsById v) s \<noteq> None)
      | None \<Rightarrow> True)"

lemma validateWorkspaceVfs_Nil:
  "validateWorkspaceVfs V v = Some [] \<longleftrightarrow>
    canonical_id (in_treeRootId v) \<and>
    (\<exists>rootNode. truthy_at (in_treeById v) (in_treeRootId v) = Some rootNode \<and>
       own rootNode ''parentId'' = Some JNull \<and> has_kind rootNode ''dir'') \<and>
    in_docsById v \<noteq> [] \<and>
    (\<forall>(i, node) \<in> set (in_treeById v). node_ok v i node) \<and> distinct (map fst (mounted (in_treeById v))) \<and>
    fst (visitReachableTree (in_treeById v) [Enter (in_treeRootId v)] [] [] []) = [] \<and>
    fst ` set (in_treeById v) \<subseteq> set (snd (visitReachableTree (in_treeById v) [Enter (in_treeRootId v)] [] [] [])) \<and>
    (\<forall>(d, document) \<in> set (in_docsById v). record_ok V d document \<and>
       mount_checks (mounted (in_treeById v)) (collectTreePaths (in_treeRootId v) (in_treeById v) ''/'') d document = []) \<and>
    distinct (singles (in_docsById v)) \<and> active_ok v"
proof (cases "truthy_at (in_treeById v) (in_treeRootId v)")
  case None
  then show ?thesis by (simp add: validateWorkspaceVfs_def Let_def)
next
  case (Some rootNode)
  let ?fold = "foldl (\<lambda>s (i, node). validate_node v i node s) ([], []) (in_treeById v)"
  obtain node_issues ref where fold: "?fold = (node_issues, ref)" by (cases ?fold)
  obtain cycles reach where visit: "visitReachableTree (in_treeById v) [Enter (in_treeRootId v)] [] [] [] = (cycles, reach)"
    by (cases "visitReachableTree (in_treeById v) [Enter (in_treeRootId v)] [] [] []")
  have nodes: "node_issues = [] \<longleftrightarrow> (\<forall>(i, node) \<in> set (in_treeById v). node_ok v i node) \<and>
      distinct (map fst (mounted (in_treeById v)))" "node_issues = [] \<Longrightarrow> ref = mounted (in_treeById v)"
    using fold_nodes_Nil [of "[]" v "in_treeById v"] by (auto simp: fold)
  have root: "root_checks v rootNode = [] \<longleftrightarrow>
      in_docsById v \<noteq> [] \<and> own rootNode ''parentId'' = Some JNull \<and> has_kind rootNode ''dir''"
    by (simp add: root_checks_def Let_def)
  have orphans: "filter (\<lambda>i. i \<notin> set reach) (map fst (in_treeById v)) = [] \<longleftrightarrow> fst ` set (in_treeById v) \<subseteq> set reach"
    by (auto simp: filter_empty_conv)
  let ?active = "case in_activeDocumentId v of
      Some a \<Rightarrow> if truthy a \<and> (case a of JStr s \<Rightarrow> truthy_at (in_docsById v) s = None | _ \<Rightarrow> True)
        then [\<lparr>vi_code = ActiveDocumentMissing, vi_path = ''/activeDocumentId'', vi_node = None, vi_document = Some a\<rparr>] else []
    | None \<Rightarrow> []"
  have active: "?active = [] \<longleftrightarrow> active_ok v"
    by (auto simp: active_ok_def split: option.split json.split)
  have "validateWorkspaceVfs V v = Some [] \<longleftrightarrow>
      canonical_id (in_treeRootId v) \<and> root_checks v rootNode = [] \<and> node_issues = [] \<and> cycles = [] \<and>
      filter (\<lambda>i. i \<notin> set reach) (map fst (in_treeById v)) = [] \<and>
      validate_documents V ref (collectTreePaths (in_treeRootId v) (in_treeById v) ''/'') (in_docsById v) [] = Some [] \<and>
      ?active = []"
    unfolding validateWorkspaceVfs_def Let_def Some fold visit by (auto split: if_splits)
  also have "\<dots> \<longleftrightarrow> canonical_id (in_treeRootId v) \<and> root_checks v rootNode = [] \<and> node_issues = [] \<and> cycles = [] \<and>
      fst ` set (in_treeById v) \<subseteq> set reach \<and>
      validate_documents V (mounted (in_treeById v)) (collectTreePaths (in_treeRootId v) (in_treeById v) ''/'')
        (in_docsById v) [] = Some [] \<and> active_ok v"
    unfolding orphans active using nodes(2) by blast
  finally show ?thesis
    by (simp add: nodes(1) root validate_documents_Nil Some visit conj_ac del: visitReachableTree.simps)
qed

section \<open>The nodes of a represented tree\<close>

lemma subs_parent:
  assumes "(q, s) \<in> set (subs p t)"
  shows "(q, s) = (p, t) \<or> (\<exists>q' s'. (q', s') \<in> set (subs p t) \<and> q = JStr (vid s') \<and> s \<in> set (vkids s'))"
  using assms
proof (induction t arbitrary: p)
  case (VDir i n cs)
  show ?case
  proof (cases "(q, s) = (p, VDir i n cs)")
    case False
    then obtain c where c: "c \<in> set cs" "(q, s) \<in> set (subs (JStr i) c)" using VDir.prems by auto
    from VDir.IH [OF c] show ?thesis
    proof
      assume "(q, s) = (JStr i, c)"
      then show ?thesis using c(1) by (intro disjI2 exI [of _ p] exI [of _ "VDir i n cs"]) simp
    qed (use c(1) in auto)
  qed simp
qed simp

lemma names_ok_subs:
  "names_ok t \<Longrightarrow> (q, s) \<in> set (subs p t) \<Longrightarrow> names_ok s"
  by (induction t arbitrary: p) auto

lemma names_ok_facts:
  "names_ok s \<Longrightarrow> canonical_id (vid s) \<and> canonical_name (vname s) \<and> distinct (map vname (vkids s)) \<and>
    (\<forall>c \<in> set (vkids s). names_ok c) \<and> (\<not> is_VDir s \<longrightarrow> canonical_id (vdoc s))"
  by (cases s) auto

lemma root_ok_subs:
  assumes "root_ok t" and "(q, s) \<in> set (subs p t)"
  shows "s = t \<or> names_ok s"
  using assms by (cases t) (auto dest: names_ok_subs)

lemma root_ok_facts:
  assumes "root_ok t" and "(q, s) \<in> set (subs p t)"
  shows "canonical_id (vid s)" and "distinct (map vname (vkids s))" and "\<forall>c \<in> set (vkids s). names_ok c"
    and "\<not> is_VDir s \<Longrightarrow> canonical_id (vdoc s)"
    and "isCanonicalNodeName (Some (JStr (vname s))) (s = t)"
proof -
  have root: "canonical_id (vid t)" "distinct (map vname (vkids t))" "\<forall>c \<in> set (vkids t). names_ok c" "is_VDir t"
    "canonical_name (vname t) \<or> vname t = ''/''"
    using assms(1) by (cases t; simp)+
  from root_ok_subs [OF assms]
  show "canonical_id (vid s)" "distinct (map vname (vkids s))" "\<forall>c \<in> set (vkids s). names_ok c"
    "\<not> is_VDir s \<Longrightarrow> canonical_id (vdoc s)"
    using root names_ok_facts by blast+
  have "js_trim ''/'' = ''/''" by code_simp
  then show "isCanonicalNodeName (Some (JStr (vname s))) (s = t)"
    using root_ok_subs [OF assms] root(5) names_ok_facts [of s] by (auto simp: canonical_name_def)
qed

lemma subs_unique:
  assumes "distinct (ids t)" and "(q, s) \<in> set (subs p t)" and "(q', s') \<in> set (subs p t)" and "vid s = vid s'"
  shows "q = q' \<and> s = s'"
proof -
  have "inj_on (\<lambda>(q, s). vid s) (set (subs p t))"
    using assms(1) by (simp add: ids_subs [of t p] distinct_map)
  from inj_onD [OF this _ assms(2,3)] assms(4) show ?thesis by simp
qed

lemma subs_kid:
  "(q, s) \<in> set (subs p t) \<Longrightarrow> c \<in> set (vkids s) \<Longrightarrow> (JStr (vid s), c) \<in> set (subs p t)"
proof (induction t arbitrary: p)
  case (VDir i n cs)
  then show ?case by (cases "s = VDir i n cs") (auto intro: bexI [of _ c])
qed simp

lemma vkids_dir: "c \<in> set (vkids s) \<Longrightarrow> is_VDir s"
  by (cases s) auto

lemma concat_map_concat: "concat (map f (concat (map g xs))) = concat (map (\<lambda>x. concat (map f (g x))) xs)"
  by (induction xs) auto

lemma mounts_subs: "mounts t = concat (map (\<lambda>(q, s). if is_VDir s then [] else [(vdoc s, vid s)]) (subs p t))"
  by (induction t arbitrary: p) (simp_all add: concat_map_concat cong: map_cong)

lemma snd_mounts:
  "map snd (concat (map (\<lambda>(q, s). if is_VDir s then [] else [(vdoc s, vid s)]) xs)) =
    map vid (filter (\<lambda>s. \<not> is_VDir s) (map snd xs))"
  by (induction xs) auto

lemma set_mounts: "(d, i) \<in> set (mounts t) \<longleftrightarrow> (\<exists>(q, s) \<in> set (subs p t). \<not> is_VDir s \<and> vdoc s = d \<and> vid s = i)"
  by (auto simp: mounts_subs [of t p] split: if_splits)

lemma distinct_mounts: "distinct (ids t) \<Longrightarrow> distinct (mounts t)"
proof -
  have "map snd (mounts t) = map vid (filter (\<lambda>s. \<not> is_VDir s) (map snd (subs JNull t)))"
    unfolding mounts_subs [of t JNull] by (rule snd_mounts)
  moreover assume "distinct (ids t)"
  then have "distinct (map vid (map snd (subs JNull t)))"
    by (simp add: ids_subs [of t JNull] comp_def case_prod_unfold)
  ultimately have "distinct (map snd (mounts t))" using distinct_map_filter by metis
  then show "distinct (mounts t)" by (simp add: distinct_map)
qed

text \<open>What a table of nodes that represents a tree says of its entries.\<close>

lemma represents_entry:
  assumes "represents T t" and "distinct (map fst T)" and "(i, node) \<in> set T"
  obtains q s where "(q, s) \<in> set (subs JNull t)" and "vid s = i" and "matches q s node"
proof -
  have "i \<in> set (ids t)" using assms by (force simp: represents_def)
  then obtain q s where s: "(q, s) \<in> set (subs JNull t)" "vid s = i" by (rule ids_subsE)
  then obtain n where "map_of T i = Some n" "matches q s n"
    using assms(1) by (force simp: represents_def rep_def stored_def)
  moreover have "map_of T i = Some node" using assms(2,3) by simp
  ultimately show thesis using that s by auto
qed

lemma represents_sub:
  assumes "represents T t" and "(q, s) \<in> set (subs JNull t)"
  obtains node where "(vid s, node) \<in> set T" and "truthy_at T (vid s) = Some node" and "matches q s node"
proof -
  have "stored T q s" using assms by (auto simp: represents_def rep_def)
  then obtain node where "truthy_at T (vid s) = Some node" "matches q s node" using stored_truthy by blast
  moreover from this have "(vid s, node) \<in> set T"
    by (auto simp: truthy_at_def simp del: map_of_eq_Some_iff dest: map_of_SomeD split: option.splits if_splits)
  ultimately show thesis using that by blast
qed

lemma represents_walkable:
  assumes "represents T t" and "root_ok t"
    and "\<And>q s c node. (q, s) \<in> set (subs JNull t) \<Longrightarrow> matches q s node \<Longrightarrow> enter c node = f c s"
  shows "walkable T tree_kids enter f JNull t"
  unfolding walkable_def
proof clarify
  fix q s
  assume s: "(q, s) \<in> set (subs JNull t)"
  obtain node where node: "truthy_at T (vid s) = Some node" "matches q s node" by (rule represents_sub [OF assms(1) s])
  have "\<forall>c \<in> set (vkids s). canonical_id (vid c)"
    using root_ok_facts(3) [OF assms(2) s] names_ok_facts by blast
  with node assms(3) [OF s node(2)] matches_kids [OF node(2)]
  show "\<exists>node. truthy_at T (vid s) = Some node \<and> tree_kids node = map vid (vkids s) \<and> (\<forall>c. enter c node = f c s)"
    by blast
qed

lemma visit_represents:
  assumes "represents T t" and "root_ok t"
  shows "visitReachableTree T [Enter (vid t)] [] [] [] = ([], rev (ids t))"
  using visit_tree [OF represents_walkable [OF assms, of "\<lambda>c node. c" "\<lambda>c t. c"], of "[]" "[]" "[]" "[]"] assms(1)
  by (simp add: represents_def)

lemma walk_tree_below:
  assumes "\<And>c q s. (q, s) \<in> set (subs p t) \<Longrightarrow> f c s = joinPath c (vname s)"
  shows "walk_tree f c t = paths_below c t"
  using assms
proof (induction t arbitrary: p c)
  case (VDir i n cs)
  have "f c (VDir i n cs) = joinPath c n" for c using VDir.prems [of p "VDir i n cs"] by simp
  moreover have "map (walk_tree f c) cs = map (paths_below c) cs" for c
    using VDir.prems by (intro map_cong refl VDir.IH) auto
  ultimately show ?case by (simp cong: map_cong)
next
  case (VDoc i n d)
  then show ?case using VDoc [of p "VDoc i n d"] by simp
qed

lemma collectTreePaths_represents:
  assumes "represents T t" and "root_ok t"
  shows "collectTreePaths (vid t) T ''/'' = node_paths t"
proof -
  let ?f = "\<lambda>c s. if vid s = vid t then ''/'' else joinPath c (vname s)"
  have d: "distinct (ids t)" using assms(1) by (simp add: represents_def)
  have "walkable T tree_kids tree_path ?f JNull t"
  proof (rule represents_walkable [OF assms])
    fix q s c node
    assume s: "(q, s) \<in> set (subs JNull t)" "matches q s node"
    have "q = JNull \<longleftrightarrow> vid s = vid t"
      using subs_parent [OF s(1)] subs_unique [OF d s(1) self_in_subs] by auto
    then show "tree_path c node = ?f c s"
      using matches_own(2,3) [OF s(2)] by (simp add: tree_path_def text_of_def)
  qed
  then have "collectTreePaths (vid t) T ''/'' = walk_tree ?f ''/'' t"
    unfolding collectTreePaths_def using d by (rule collect_walk_tree)
  also obtain i n cs where t: "t = VDir i n cs" using assms(2) by (cases t) auto
  have "map (walk_tree ?f ''/'') cs = map (paths_below ''/'') cs"
  proof (intro map_cong refl walk_tree_below)
    fix k c q s
    assume "k \<in> set cs" "(q, s) \<in> set (subs (JStr i) k)"
    then have "vid s \<noteq> i" using d subs_ids [of q s "JStr i" k] by (auto simp: t)
    then show "?f c s = joinPath c (vname s)" by (simp add: t)
  qed
  then have "walk_tree ?f ''/'' t = node_paths t" by (simp add: t node_paths.simps cong: map_cong)
  finally show ?thesis .
qed

section \<open>Validity is being a file tree\<close>

text \<open>
  The specification: the table of nodes is that of a tree with canonical names, distinct among
  siblings; the mounted documents are the documents of the workspace, each mounted once, with a
  valid record that holds its path in the tree.
\<close>

definition file_tree :: "validators \<Rightarrow> vfs_input \<Rightarrow> vtree \<Rightarrow> bool" where
  "file_tree V v t \<longleftrightarrow>
     represents (in_treeById v) t \<and> vid t = in_treeRootId v \<and> root_ok t \<and>
     (\<forall>(i, node) \<in> set (in_treeById v). fields_known node) \<and>
     in_docsById v \<noteq> [] \<and> distinct (map fst (mounts t)) \<and> fst ` set (mounts t) = fst ` set (in_docsById v) \<and>
     (\<forall>(d, document) \<in> set (in_docsById v). record_ok V d document \<and>
        (\<forall>i. (d, i) \<in> set (mounts t) \<longrightarrow> own document ''path'' = map_option JStr (map_of (node_paths t) i))) \<and>
     distinct (singles (in_docsById v)) \<and> active_ok v"

lemma set_mounted:
  assumes "represents T t" and "distinct (map fst T)"
  shows "set (mounted T) = set (mounts t)"
proof -
  have "(d, i) \<in> set (mounted T) \<longleftrightarrow> (d, i) \<in> set (mounts t)" for d i
  proof
    assume "(d, i) \<in> set (mounted T)"
    then obtain node where node: "(i, node) \<in> set T" "\<not> has_kind node ''dir''" "text_of node ''docId'' = d"
      by (auto simp: mounted_def split: if_splits)
    obtain q s where "(q, s) \<in> set (subs JNull t)" "vid s = i" "matches q s node"
      by (rule represents_entry [OF assms node(1)])
    then show "(d, i) \<in> set (mounts t)"
      using node(2,3) matches_own(4,9) [of q s node] by (auto simp: set_mounts [of d i t JNull] text_of_def)
  next
    assume "(d, i) \<in> set (mounts t)"
    then obtain q s where s: "(q, s) \<in> set (subs JNull t)" "\<not> is_VDir s" "vdoc s = d" "vid s = i"
      by (auto simp: set_mounts [of d i t JNull])
    obtain node where "(i, node) \<in> set T" "matches q s node"
      using represents_sub [OF assms(1) s(1)] s(4) by blast
    then show "(d, i) \<in> set (mounted T)"
      using s(2,3) matches_own(4,9) [of q s node] by (force simp: mounted_def text_of_def)
  qed
  then show ?thesis by auto
qed

lemma distinct_mounted:
  assumes "represents T t" and "distinct (map fst T)"
  shows "distinct (map fst (mounted T)) \<longleftrightarrow> distinct (map fst (mounts t))"
proof -
  have "map snd (mounted T) = map fst (filter (\<lambda>(i, node). \<not> has_kind node ''dir'') T)"
    unfolding mounted_def by (induction T) auto
  then have "distinct (map snd (mounted T))" using assms(2) distinct_map_filter by metis
  then have "distinct (mounted T)" by (simp add: distinct_map)
  moreover have "distinct (mounts t)" using assms(1) by (intro distinct_mounts) (simp add: represents_def)
  ultimately show ?thesis by (simp add: distinct_map set_mounted [OF assms])
qed

lemma mount_checks_Nil:
  assumes "represents T t" and "distinct (map fst T)" and "root_ok t" and "distinct (map fst (mounts t))"
    and "isRecord document"
  shows "mount_checks (mounted T) (node_paths t) d document = [] \<longleftrightarrow>
    d \<in> fst ` set (mounts t) \<and>
    (\<forall>i. (d, i) \<in> set (mounts t) \<longrightarrow> own document ''path'' = map_option JStr (map_of (node_paths t) i))"
proof (cases "map_of (mounted T) d")
  case None
  then have "d \<notin> fst ` set (mounts t)" by (simp add: map_of_eq_None_iff set_mounted [OF assms(1,2)])
  moreover have "mount_checks (mounted T) (node_paths t) d document \<noteq> []"
    unfolding mount_checks_def None by simp
  ultimately show ?thesis by simp
next
  case (Some i)
  then have i: "(d, i) \<in> set (mounts t)" using set_mounted [OF assms(1,2)] by (metis map_of_SomeD)
  then have only: "(d, j) \<in> set (mounts t) \<longleftrightarrow> j = i" for j
    using eq_key_imp_eq_value [OF assms(4) i] i by blast
  obtain q s where s: "(q, s) \<in> set (subs JNull t)" "vid s = i" using i by (auto simp: set_mounts [of d i t JNull])
  then have "i \<noteq> ''''" using root_ok_facts(1) [OF assms(3) s(1)] by (auto simp: canonical_id_def)
  moreover have "i \<in> fst ` set (node_paths t)"
    using subs_ids [OF s(1)] s(2) fst_node_paths [of t] by (metis set_map)
  then obtain path where path: "map_of (node_paths t) i = Some path" by (auto simp: in_dom_map_of)
  moreover have "path \<noteq> ''''"
  proof -
    have "snd e \<noteq> ''''" if "e \<in> set (paths_below p k)" for e p k
      using that by (induction k arbitrary: p) (auto simp: joinPath_def split: if_splits)
    then have "\<forall>e \<in> set (node_paths t). snd e \<noteq> ''''" by (auto simp: node_paths.simps)
    with map_of_SomeD [OF path] show ?thesis by auto
  qed
  ultimately show ?thesis
    using Some i assms(5) by (auto simp: mount_checks_def only image_iff intro: bexI [of _ "(d, i)"])
qed

lemma represents_named: "represents T t \<Longrightarrow> distinct (map fst T) \<Longrightarrow> named T"
  unfolding named_def
proof clarify
  fix i node
  assume T: "represents T t" "distinct (map fst T)" and "truthy_at T i = Some node"
  then have "(i, node) \<in> set T"
    by (auto simp: truthy_at_def simp del: map_of_eq_Some_iff dest: map_of_SomeD split: option.splits if_splits)
  then obtain q s where "matches q s node" by (rule represents_entry [OF T])
  then show "\<exists>s. own node ''name'' = Some (JStr s)" using matches_own(2) by blast
qed

lemma distinct_sub: "distinct (ids t) \<Longrightarrow> (q, s) \<in> set (subs p t) \<Longrightarrow> distinct (ids s)"
  by (induction t arbitrary: p) (auto simp: distinct_concat_iff)

lemma distinct_kids: "distinct (ids s) \<Longrightarrow> distinct (map vid (vkids s))"
proof (cases s)
  case (VDir i n cs)
  moreover have "distinct (concat (map ids cs)) \<Longrightarrow> distinct (map vid cs)"
  proof (induction cs)
    case (Cons c cs)
    have "vid c \<noteq> vid k" if "k \<in> set cs" for k
      using Cons.prems that vid_in_ids [of c] vid_in_ids [of k] by fastforce
    with Cons show ?case by auto
  qed simp
  ultimately show "distinct (ids s) \<Longrightarrow> distinct (map vid (vkids s))" by simp
qed simp

lemma tree_directory:
  assumes "represents T t" and "distinct (map fst T)" and "root_ok t" and "(q, s) \<in> set (subs JNull t)"
    and "matches q s node" and "is_VDir s"
  shows "validateDirectoryChildren (vid s) node T = []"
proof -
  let ?ks = "map vid (vkids s)"
  have kid: "\<exists>n. truthy_at T (vid c) = Some n \<and> matches (JStr (vid s)) c n" if "c \<in> set (vkids s)" for c
    using represents_sub [OF assms(1) subs_kid [OF assms(4) that]] by metis
  have "child_ok T (vid s) (vid c) \<and> name_at T (vid c) = Some (JStr (vname c))" if "c \<in> set (vkids s)" for c
    using kid [OF that] matches_own(2,3) root_ok_facts(1) [OF assms(3) subs_kid [OF assms(4) that]]
    by (auto simp: child_ok_def name_at_def)
  moreover have "distinct ?ks"
    using assms(1) by (intro distinct_kids distinct_sub [OF _ assms(4)]) (simp add: represents_def)
  moreover have "distinct (map (\<lambda>c. Some (JStr (vname c))) (vkids s))"
    using root_ok_facts(2) [OF assms(3,4)] by (auto simp: distinct_map inj_on_def)
  ultimately show ?thesis
    using matches_own(8) [OF assms(5,6)] assms(1,2)
    by (subst directory_Nil [OF represents_named]) (auto simp: comp_def intro!: exI [of _ ?ks] cong: map_cong)
qed

lemma tree_node_ok:
  assumes "represents (in_treeById v) t" and "distinct (map fst (in_treeById v))" and "root_ok t"
    and "vid t = in_treeRootId v" and "(q, s) \<in> set (subs JNull t)" and "matches q s node" and "fields_known node"
    and "\<not> is_VDir s \<Longrightarrow> truthy_at (in_docsById v) (vdoc s) \<noteq> None"
  shows "node_ok v (vid s) node"
proof -
  have own: "isRecord node" "own node ''id'' = Some (JStr (vid s))" "own node ''name'' = Some (JStr (vname s))"
    "own node ''parentId'' = Some q" "has_kind node ''dir'' \<longleftrightarrow> is_VDir s" "has_kind node ''doc'' \<longleftrightarrow> \<not> is_VDir s"
    using matches_own [OF assms(6)] by simp_all
  have "vid s = vid t \<longleftrightarrow> s = t"
    using subs_unique [OF _ assms(5) self_in_subs] assms(1) by (auto simp: represents_def)
  moreover have "link_ok v (vid s) node"
    using subs_parent [OF assms(5)]
  proof
    assume "(q, s) = (JNull, t)"
    then show ?thesis using assms(4) own(4) by (simp add: link_ok_def)
  next
    assume "\<exists>q' s'. (q', s') \<in> set (subs JNull t) \<and> q = JStr (vid s') \<and> s \<in> set (vkids s')"
    then obtain q' s' where s': "(q', s') \<in> set (subs JNull t)" "q = JStr (vid s')" "s \<in> set (vkids s')" by blast
    obtain parent where parent: "truthy_at (in_treeById v) (vid s') = Some parent" "matches q' s' parent"
      by (rule represents_sub [OF assms(1) s'(1)])
    moreover have "JStr (vid s) \<in> set (getDirectoryChildren parent)"
      using matches_own(8) [OF parent(2) vkids_dir [OF s'(3)]] s'(3) by (simp add: getDirectoryChildren_def)
    moreover have "canonical_id (vid s')" by (rule root_ok_facts(1) [OF assms(3) s'(1)])
    ultimately show ?thesis using own(4) s'(2) by (simp add: link_ok_def)
  qed
  ultimately have "shape_ok v (vid s) node"
    using own root_ok_facts(1,5) [OF assms(3,5)] assms(4,7) by (auto simp: shape_ok_def)
  moreover have "validateDirectoryChildren (vid s) node (in_treeById v) = []" if "is_VDir s"
    by (rule tree_directory [OF assms(1-3,5,6) that])
  moreover have "doc_node_ok (in_docsById v) node" if "\<not> is_VDir s"
    using matches_own(9) [OF assms(6) that] root_ok_facts(4) [OF assms(3,5) that] assms(8) [OF that]
    by (simp add: doc_node_ok_def)
  ultimately show ?thesis using own(5) by (simp add: node_ok_def)
qed

lemma record_truthy: "isRecord x \<Longrightarrow> truthy x"
  by (cases x) auto

lemma file_tree_valid:
  assumes "distinct (map fst (in_treeById v))" and "distinct (map fst (in_docsById v))" and "file_tree V v t"
  shows "validateWorkspaceVfs V v = Some []"
proof -
  let ?T = "in_treeById v"
  have t: "represents ?T t" "vid t = in_treeRootId v" "root_ok t" "\<forall>(i, node) \<in> set ?T. fields_known node"
    "distinct (map fst (mounts t))" "fst ` set (mounts t) = fst ` set (in_docsById v)"
    using assms(3) by (auto simp: file_tree_def)
  have node: "node_ok v i node" if entry: "(i, node) \<in> set ?T" for i node
  proof -
    obtain q s where s: "(q, s) \<in> set (subs JNull t)" "vid s = i" "matches q s node"
      by (rule represents_entry [OF t(1) assms(1) entry])
    have "truthy_at (in_docsById v) (vdoc s) \<noteq> None" if "\<not> is_VDir s"
    proof -
      have "(vdoc s, i) \<in> set (mounts t)" using s(1,2) that by (auto simp: set_mounts [of _ _ t JNull])
      then obtain document where "(vdoc s, document) \<in> set (in_docsById v)" using t(6) by force
      moreover from this have "isRecord document"
        using assms(3) record_ok_facts(1) by (force simp: file_tree_def)
      ultimately show ?thesis using assms(2) by (simp add: truthy_at_def record_truthy)
    qed
    with tree_node_ok [OF t(1) assms(1) t(3,2) s(1,3)] entry t(4) s(2) show ?thesis by auto
  qed
  obtain rootNode where "truthy_at ?T (vid t) = Some rootNode" "matches JNull t rootNode"
    by (rule represents_sub [OF t(1) self_in_subs])
  moreover have "is_VDir t" using t(3) by (cases t) auto
  ultimately have root: "\<exists>rootNode. truthy_at ?T (in_treeRootId v) = Some rootNode \<and>
      own rootNode ''parentId'' = Some JNull \<and> has_kind rootNode ''dir''"
    using t(2) matches_own(3,4) by auto
  have documents: "record_ok V d document \<and>
      mount_checks (mounted ?T) (collectTreePaths (in_treeRootId v) ?T ''/'') d document = []"
    if d: "(d, document) \<in> set (in_docsById v)" for d document
  proof -
    from d assms(3) have "record_ok V d document"
      "\<forall>i. (d, i) \<in> set (mounts t) \<longrightarrow> own document ''path'' = map_option JStr (map_of (node_paths t) i)"
      by (auto simp: file_tree_def)
    moreover have "d \<in> fst ` set (mounts t)" using d t(6) by force
    ultimately show ?thesis
      using mount_checks_Nil [OF t(1) assms(1) t(3,5)] record_ok_facts(1)
        collectTreePaths_represents [OF t(1,3)] t(2) by auto
  qed
  have "canonical_id (in_treeRootId v)" using root_ok_facts(1) [OF t(3) self_in_subs] t(2) by simp
  moreover have "fst ` set ?T \<subseteq> set (ids t)" using t(1) by (simp add: represents_def)
  ultimately show ?thesis
    using node documents root assms(3) visit_represents [OF t(1,3)] t(2) distinct_mounted [OF t(1) assms(1)]
    unfolding validateWorkspaceVfs_Nil file_tree_def by (auto simp del: visitReachableTree.simps)
qed

text \<open>Conversely, the links between the nodes of a valid table are those of a tree.\<close>

definition links :: "entries \<Rightarrow> (string \<times> string) set" where
  "links T = {(x, y). \<exists>node. truthy_at T x = Some node \<and> y \<in> set (tree_kids node)}"

lemma subset_insert_Un: "S \<subseteq> set (i # r) \<union> X \<Longrightarrow> X \<subseteq> Y \<Longrightarrow> i \<in> Y \<Longrightarrow> S \<subseteq> set r \<union> Y"
  by auto

lemma visit_reach:
  "set (snd (visitReachableTree T stack reachable visiting issues)) \<subseteq>
    set reachable \<union> (links T)\<^sup>* `` {i. Enter i \<in> set stack}"
proof (induction T stack reachable visiting issues rule: visitReachableTree.induct)
  case (3 T i stack reachable visiting issues)
  have more: "(links T)\<^sup>* `` {k. Enter k \<in> set stack} \<subseteq> (links T)\<^sup>* `` {k. Enter k \<in> set (Enter i # stack)}"
    by (rule Image_mono) auto
  show ?case
  proof (cases "i \<in> set visiting \<or> truthy_at T i = None \<or> i \<in> set reachable")
    case True
    let ?issues = "if i \<in> set visiting then issues @ [node_issue TreeCycle (node_pointer i) i] else issues"
    have "visitReachableTree T (Enter i # stack) reachable visiting issues =
        visitReachableTree T stack reachable visiting ?issues"
      using True by (cases "truthy_at T i") auto
    moreover have "set (snd (visitReachableTree T stack reachable visiting ?issues)) \<subseteq>
        set reachable \<union> (links T)\<^sup>* `` {i. Enter i \<in> set stack}"
      using True "3.IH"(1-3) by (cases "i \<in> set visiting"; cases "truthy_at T i") simp_all
    note subset_trans [OF this Un_mono [OF order_refl more]]
    ultimately show ?thesis by (simp only:)
  next
    case False
    then obtain node where node: "i \<notin> set visiting" "truthy_at T i = Some node" "i \<notin> set reachable" by auto
    let ?stack = "(if has_kind node ''dir'' then map Enter (canonical_children node) else []) @ Leave i # stack"
    have "set (snd (visitReachableTree T ?stack (i # reachable) (i # visiting) issues)) \<subseteq>
        set (i # reachable) \<union> (links T)\<^sup>* `` {k. Enter k \<in> set ?stack}"
      using "3.IH"(4) [OF node] .
    moreover have "(links T)\<^sup>* `` {k. Enter k \<in> set ?stack} \<subseteq> (links T)\<^sup>* `` {k. Enter k \<in> set (Enter i # stack)}"
    proof -
      have "(i, k) \<in> links T" if "k \<in> set (tree_kids node)" for k
        using node(2) that by (auto simp: links_def)
      moreover have "{k. Enter k \<in> set ?stack} = set (tree_kids node) \<union> {k. Enter k \<in> set stack}"
        by (auto simp: tree_kids_def)
      ultimately show ?thesis by (auto intro: converse_rtrancl_into_rtrancl)
    qed
    moreover have "i \<in> (links T)\<^sup>* `` {k. Enter k \<in> set (Enter i # stack)}" by auto
    ultimately have "set (snd (visitReachableTree T ?stack (i # reachable) (i # visiting) issues)) \<subseteq>
        set reachable \<union> (links T)\<^sup>* `` {k. Enter k \<in> set (Enter i # stack)}"
      by (rule subset_insert_Un)
    moreover have "visitReachableTree T (Enter i # stack) reachable visiting issues =
        visitReachableTree T ?stack (i # reachable) (i # visiting) issues"
      using node by simp
    ultimately show ?thesis by (simp only:)
  qed
qed auto

lemma truthy_at_entry: "truthy_at T i = Some node \<Longrightarrow> (i, node) \<in> set T"
  by (auto simp: truthy_at_def simp del: map_of_eq_Some_iff dest: map_of_SomeD split: option.splits if_splits)

lemma node_ok_record: "node_ok v i node \<Longrightarrow> isRecord node"
  by (simp add: node_ok_def shape_ok_def)

lemma entry_truthy:
  assumes "\<forall>(i, node) \<in> set (in_treeById v). node_ok v i node" and "distinct (map fst (in_treeById v))"
    and "(i, node) \<in> set (in_treeById v)"
  shows "truthy_at (in_treeById v) i = Some node"
  using assms node_ok_record [of v i node] record_truthy [of node] by (auto simp: truthy_at_def)

lemma nodes_ok_named:
  assumes "\<forall>(i, node) \<in> set (in_treeById v). node_ok v i node"
  shows "named (in_treeById v)"
  unfolding named_def
proof clarify
  fix i node assume "truthy_at (in_treeById v) i = Some node"
  then have "shape_ok v i node" using assms truthy_at_entry by (fastforce simp: node_ok_def)
  then show "\<exists>s. own node ''name'' = Some (JStr s)"
    by (cases "own node ''name''"; cases "the (own node ''name'')") (auto simp: shape_ok_def)
qed

text \<open>The children of a directory that passes the checks.\<close>

lemma node_ok_kids:
  assumes "named (in_treeById v)" and "node_ok v i node"
  shows "has_kind node ''dir'' \<Longrightarrow> own node ''children'' = Some (JArr (map JStr (tree_kids node)))"
    and "\<forall>k \<in> set (tree_kids node). child_ok (in_treeById v) i k"
    and "distinct (tree_kids node)" and "distinct (map (name_at (in_treeById v)) (tree_kids node))"
proof -
  have "(has_kind node ''dir'' \<longrightarrow> own node ''children'' = Some (JArr (map JStr (tree_kids node)))) \<and>
    (\<forall>k \<in> set (tree_kids node). child_ok (in_treeById v) i k) \<and> distinct (tree_kids node) \<and>
    distinct (map (name_at (in_treeById v)) (tree_kids node))"
  proof (cases "has_kind node ''dir''")
    case True
    then have "validateDirectoryChildren i node (in_treeById v) = []" using assms(2) by (simp add: node_ok_def)
    then obtain ks where ks: "own node ''children'' = Some (JArr (map JStr ks))"
      "\<forall>k \<in> set ks. child_ok (in_treeById v) i k" "distinct ks" "distinct (map (name_at (in_treeById v)) ks)"
      unfolding directory_Nil [OF assms(1)] by blast
    moreover have "concat (map (\<lambda>k. if canonical_id k then [k] else []) ks) = map (\<lambda>k. k) ks"
      using ks(2) by (intro concat_if_all) (simp add: child_ok_def)
    then have "tree_kids node = ks"
      using True ks(1) by (simp add: tree_kids_def canonical_children_def getDirectoryChildren_def comp_def)
    ultimately show ?thesis by simp
  qed (simp add: tree_kids_def)
  then show "has_kind node ''dir'' \<Longrightarrow> own node ''children'' = Some (JArr (map JStr (tree_kids node)))"
    and "\<forall>k \<in> set (tree_kids node). child_ok (in_treeById v) i k"
    and "distinct (tree_kids node)" and "distinct (map (name_at (in_treeById v)) (tree_kids node))"
    by blast+
qed

lemma names_at_kids:
  assumes "\<forall>c \<in> set cs. \<exists>node. truthy_at T (vid c) = Some node \<and> own node ''name'' = Some (JStr (vname c))"
    and "distinct (map (name_at T) (map vid cs))"
  shows "distinct (map vname cs)"
proof -
  have "map (name_at T) (map vid cs) = map (Some \<circ> JStr) (map vname cs)"
    using assms(1) by (induction cs) (auto simp: name_at_def)
  with assms(2) have "distinct (map (Some \<circ> JStr) (map vname cs))" by (simp only:)
  then show ?thesis unfolding distinct_map by blast
qed

lemma concat_distinct:
  assumes "distinct xs" and "\<And>x. x \<in> set xs \<Longrightarrow> distinct (f x)"
    and "\<And>x y. x \<in> set xs \<Longrightarrow> y \<in> set xs \<Longrightarrow> x \<noteq> y \<Longrightarrow> set (f x) \<inter> set (f y) = {}"
  shows "distinct (concat (map f xs))"
  using assms
proof (induction xs)
  case (Cons x xs)
  have "set (f x) \<inter> set (f y) = {}" if "y \<in> set xs" for y
    using Cons.prems(1) that by (intro Cons.prems(3)) auto
  moreover have "distinct (concat (map f xs))" using Cons.prems by (intro Cons.IH) auto
  ultimately show ?case using Cons.prems(2) by auto
qed simp

text \<open>The step of the construction: a node whose children have trees has a tree.\<close>

definition grown :: "vfs_input \<Rightarrow> string \<Rightarrow> vtree \<Rightarrow> bool" where
  "grown v x t \<longleftrightarrow>
     vid t = x \<and> (\<exists>node p. truthy_at (in_treeById v) x = Some node \<and> own node ''parentId'' = Some p \<and> rep (in_treeById v) p t) \<and>
     distinct (ids t) \<and> set (ids t) = (links (in_treeById v))\<^sup>* `` {x} \<and>
     (if x = in_treeRootId v then is_VDir t \<longrightarrow> root_ok t else names_ok t)"

lemma rtrancl_down: "R\<^sup>* `` {x} = insert x (\<Union>y \<in> R `` {x}. R\<^sup>* `` {y})"
  by (auto elim: converse_rtranclE intro: converse_rtrancl_into_rtrancl)

lemma canonical_name_iff:
  "isCanonicalNodeName (Some (JStr n)) r \<longleftrightarrow> canonical_name n \<or> r \<and> n = ''/''"
proof -
  have "js_trim ''/'' = ''/''" by code_simp
  then show ?thesis by (auto simp: canonical_name_def)
qed

lemma grow:
  assumes ok: "\<forall>(i, node) \<in> set (in_treeById v). node_ok v i node"
    and x: "truthy_at (in_treeById v) x = Some node" and parent: "own node ''parentId'' = Some p"
    and kids: "\<And>y. y \<in> set (tree_kids node) \<Longrightarrow> \<exists>t. grown v y t"
    and above: "\<And>y. y \<in> set (tree_kids node) \<Longrightarrow> x \<notin> (links (in_treeById v))\<^sup>* `` {y}"
    and apart: "\<And>y z. y \<in> set (tree_kids node) \<Longrightarrow> z \<in> set (tree_kids node) \<Longrightarrow> y \<noteq> z \<Longrightarrow>
      (links (in_treeById v))\<^sup>* `` {y} \<inter> (links (in_treeById v))\<^sup>* `` {z} = {}"
    and rootless: "in_treeRootId v \<notin> set (tree_kids node)"
  shows "\<exists>t. grown v x t"
proof -
  let ?T = "in_treeById v"
  have named: "named ?T" by (rule nodes_ok_named [OF ok])
  have node: "node_ok v x node" using ok truthy_at_entry [OF x] by blast
  then have shape: "shape_ok v x node" by (simp add: node_ok_def)
  obtain n where name: "own node ''name'' = Some (JStr n)" by (rule namedE [OF named x])
  show ?thesis
  proof (cases "has_kind node ''dir''")
    case True
    note node_kids = node_ok_kids(1) [OF named node True] node_ok_kids(2-4) [OF named node]
    obtain f where f: "\<And>y. y \<in> set (tree_kids node) \<Longrightarrow> grown v y (f y)" using kids by metis
    let ?cs = "map f (tree_kids node)" and ?t = "VDir x n (map f (tree_kids node))"
    have vid_f: "vid (f y) = y" if "y \<in> set (tree_kids node)" for y using f [OF that] by (simp add: grown_def)
    then have vids: "map vid ?cs = tree_kids node" by (auto intro!: map_idI)
    have below: "rep ?T (JStr x) c \<and> names_ok c \<and> (\<exists>node. truthy_at ?T (vid c) = Some node \<and> own node ''name'' = Some (JStr (vname c)))"
      if "c \<in> set ?cs" for c
    proof -
      from that obtain y where y: "y \<in> set (tree_kids node)" "c = f y" by auto
      obtain kid q where kid: "truthy_at ?T y = Some kid" "own kid ''parentId'' = Some q" "rep ?T q c" "vid c = y" "names_ok c"
        using f [OF y(1)] y rootless by (auto simp: grown_def split: if_splits)
      have "q = JStr x" using node_kids(2) y(1) kid(1,2) by (auto simp: child_ok_def)
      moreover obtain kid' where "truthy_at ?T y = Some kid'" "matches q c kid'"
        using stored_truthy [OF rep_stored [OF kid(3)]] kid(4) by auto
      ultimately show ?thesis using kid matches_own(2) by auto
    qed
    have "stored ?T p ?t"
      using x shape True name node_kids(1) vid_f parent
      by (auto simp: stored_def truthy_at_def matches_def shape_ok_def has_kind_def comp_def
          simp del: map_of_eq_Some_iff split: option.splits if_splits)
    then have "rep ?T p ?t" using below by simp
    moreover have "distinct (ids ?t)"
    proof -
      have "set (ids (f y)) = (links ?T)\<^sup>* `` {y}" "distinct (ids (f y))" if "y \<in> set (tree_kids node)" for y
        using f [OF that] by (auto simp: grown_def)
      then have "distinct (concat (map (\<lambda>y. ids (f y)) (tree_kids node)))"
        using apart node_kids(3) by (intro concat_distinct) auto
      moreover have "x \<notin> set (ids (f y))" if "y \<in> set (tree_kids node)" for y
        using above [OF that] f [OF that] by (auto simp: grown_def)
      ultimately show ?thesis by (auto simp: comp_def)
    qed
    moreover have "set (ids ?t) = (links ?T)\<^sup>* `` {x}"
      unfolding rtrancl_down [of "links ?T" x] using x f by (auto simp: links_def grown_def)
    moreover have "distinct (map vname ?cs)"
      using below node_kids(4) vids by (intro names_at_kids) auto
    then have "if x = in_treeRootId v then is_VDir ?t \<longrightarrow> root_ok ?t else names_ok ?t"
      using below shape by (auto simp: shape_ok_def name canonical_name_iff simp del: isCanonicalNodeName.simps)
    ultimately have "grown v x ?t" using x parent by (simp add: grown_def)
    then show ?thesis ..
  next
    case False
    then obtain d where d: "own node ''children'' = None" "own node ''docId'' = Some (JStr d)" "canonical_id d"
      using node by (auto simp: node_ok_def doc_node_ok_def)
    have none: "tree_kids node = []" using False by (simp add: tree_kids_def)
    have "stored ?T p (VDoc x n d)"
      using x shape False name d parent
      by (auto simp: stored_def truthy_at_def matches_def shape_ok_def has_kind_def
          simp del: map_of_eq_Some_iff split: option.splits if_splits)
    moreover have "(links ?T)\<^sup>* `` {x} = {x}"
      unfolding rtrancl_down [of "links ?T" x] using x none by (auto simp: links_def)
    moreover have "x \<noteq> in_treeRootId v \<longrightarrow> canonical_name n"
      using shape by (auto simp: shape_ok_def name canonical_name_iff simp del: isCanonicalNodeName.simps)
    ultimately have "grown v x (VDoc x n d)"
      using x parent d(3) shape by (auto simp: grown_def shape_ok_def)
    then show ?thesis ..
  qed
qed

lemma root_not_kid:
  assumes "\<forall>(i, node) \<in> set (in_treeById v). node_ok v i node"
    and "truthy_at (in_treeById v) (in_treeRootId v) = Some rootNode" and "own rootNode ''parentId'' = Some JNull"
    and "truthy_at (in_treeById v) x = Some node"
  shows "in_treeRootId v \<notin> set (tree_kids node)"
proof
  assume "in_treeRootId v \<in> set (tree_kids node)"
  moreover have "node_ok v x node" using assms(1) truthy_at_entry [OF assms(4)] by blast
  ultimately have "child_ok (in_treeById v) x (in_treeRootId v)"
    using node_ok_kids(2) [OF nodes_ok_named [OF assms(1)]] by blast
  with assms(2,3) show False by (auto simp: child_ok_def)
qed

lemma valid_tree:
  assumes ok: "\<forall>(i, node) \<in> set (in_treeById v). node_ok v i node" and d: "distinct (map fst (in_treeById v))"
    and root: "truthy_at (in_treeById v) (in_treeRootId v) = Some rootNode" "own rootNode ''parentId'' = Some JNull"
      "has_kind rootNode ''dir''"
    and reach: "fst ` set (in_treeById v) \<subseteq> set (snd (visitReachableTree (in_treeById v) [Enter (in_treeRootId v)] [] [] []))"
  obtains t where "represents (in_treeById v) t" and "vid t = in_treeRootId v" and "root_ok t"
proof -
  let ?T = "in_treeById v" and ?r = "in_treeRootId v"
  let ?R = "links ?T"
  have named: "named ?T" by (rule nodes_ok_named [OF ok])
  have node_at: "node_ok v x node" if "truthy_at ?T x = Some node" for x node
    using ok truthy_at_entry [OF that] by blast
  have child: "child_ok ?T x y" if "(x, y) \<in> ?R" for x y
    using that node_ok_kids(2) [OF named node_at] by (auto simp: links_def)
  have unique: "x = y" if "(x, z) \<in> ?R" and "(y, z) \<in> ?R" for x y z
    using child [OF that(1)] child [OF that(2)] by (auto simp: child_ok_def)
  have rootless: "\<And>x. (x, ?r) \<notin> ?R" using root_not_kid [OF ok root(1,2)] by (auto simp: links_def)
  have "?R \<subseteq> fst ` set ?T \<times> fst ` set ?T"
    using child by (auto simp: links_def child_ok_def dest: truthy_at_dom)
  then have fin: "finite ?R" by (rule finite_subset) simp
  have "\<exists>t. grown v ?r t"
  proof (rule rooted_induct [where R = "?R" and r = "?r" and P = "\<lambda>x. \<exists>t. grown v x t"])
    fix x
    assume x: "(?r, x) \<in> ?R\<^sup>*" and IH: "\<And>y. (x, y) \<in> ?R \<Longrightarrow> \<exists>t. grown v y t"
      and above: "\<And>y. (x, y) \<in> ?R \<Longrightarrow> x \<notin> ?R\<^sup>* `` {y}"
      and apart: "\<And>y z. (x, y) \<in> ?R \<Longrightarrow> (x, z) \<in> ?R \<Longrightarrow> y \<noteq> z \<Longrightarrow> ?R\<^sup>* `` {y} \<inter> ?R\<^sup>* `` {z} = {}"
    obtain node p where node: "truthy_at ?T x = Some node" "own node ''parentId'' = Some p"
    proof (cases "x = ?r")
      case True
      then show thesis using that root by blast
    next
      case False
      obtain y where "(y, x) \<in> ?R" using x by (rule rtranclE) (use False in blast)+
      from child [OF this] show thesis using that by (auto simp: child_ok_def)
    qed
    then have link: "(x, y) \<in> ?R \<longleftrightarrow> y \<in> set (tree_kids node)" for y by (simp add: links_def)
    show "\<exists>t. grown v x t"
      using IH above apart root_not_kid [OF ok root(1,2) node(1)] unfolding link
      by (intro grow [OF ok node]) blast+
  qed (use fin unique rootless in blast)+
  then obtain t where t: "grown v ?r t" ..
  then have "rep ?T JNull t" "vid t = ?r" "distinct (ids t)" "set (ids t) = ?R\<^sup>* `` {?r}" "is_VDir t \<longrightarrow> root_ok t"
    using root(1,2) by (auto simp: grown_def)
  moreover have "is_VDir t"
  proof -
    obtain node where "truthy_at ?T ?r = Some node" "matches JNull t node"
      using stored_truthy [OF rep_stored [OF calculation(1)]] calculation(2) by auto
    then show ?thesis using root(1,3) matches_own(4) by auto
  qed
  moreover have "fst ` set ?T = ?R\<^sup>* `` {?r}"
  proof
    show "fst ` set ?T \<subseteq> ?R\<^sup>* `` {?r}" using reach visit_reach [of ?T "[Enter ?r]" "[]" "[]" "[]"] by auto
    have "x \<in> fst ` set ?T" if "(?r, x) \<in> ?R\<^sup>*" for x
      using that root(1) child
      by (cases rule: rtranclE) (auto simp: child_ok_def dest!: truthy_at_dom)
    then show "?R\<^sup>* `` {?r} \<subseteq> fst ` set ?T" by blast
  qed
  ultimately show thesis using that by (auto simp: represents_def)
qed

theorem valid_iff_file_tree:
  assumes "distinct (map fst (in_treeById v))" and "distinct (map fst (in_docsById v))"
  shows "validateWorkspaceVfs V v = Some [] \<longleftrightarrow> (\<exists>t. file_tree V v t)"
proof
  assume valid: "validateWorkspaceVfs V v = Some []"
  let ?T = "in_treeById v"
  from valid obtain rootNode where facts: "\<forall>(i, node) \<in> set ?T. node_ok v i node"
    "truthy_at ?T (in_treeRootId v) = Some rootNode" "own rootNode ''parentId'' = Some JNull" "has_kind rootNode ''dir''"
    "fst ` set ?T \<subseteq> set (snd (visitReachableTree ?T [Enter (in_treeRootId v)] [] [] []))"
    and rest: "in_docsById v \<noteq> []" "distinct (map fst (mounted ?T))" "distinct (singles (in_docsById v))" "active_ok v"
      "\<forall>(d, document) \<in> set (in_docsById v). record_ok V d document \<and>
        mount_checks (mounted ?T) (collectTreePaths (in_treeRootId v) ?T ''/'') d document = []"
    unfolding validateWorkspaceVfs_Nil by blast
  obtain t where t: "represents ?T t" "vid t = in_treeRootId v" "root_ok t"
    by (rule valid_tree [OF facts(1) assms(1) facts(2-5)])
  have mounts: "distinct (map fst (mounts t))" using rest(2) distinct_mounted [OF t(1) assms(1)] by simp
  have documents: "record_ok V d document \<and> d \<in> fst ` set (mounts t) \<and>
      (\<forall>i. (d, i) \<in> set (mounts t) \<longrightarrow> own document ''path'' = map_option JStr (map_of (node_paths t) i))"
    if "(d, document) \<in> set (in_docsById v)" for d document
    using that rest(5) mount_checks_Nil [OF t(1) assms(1) t(3) mounts] record_ok_facts(1)
      collectTreePaths_represents [OF t(1,3)] t(2) by fastforce
  have "fst ` set (mounts t) \<subseteq> fst ` set (in_docsById v)"
  proof
    fix d assume "d \<in> fst ` set (mounts t)"
    then obtain i where "(d, i) \<in> set (mounted ?T)" using set_mounted [OF t(1) assms(1)] by auto
    then obtain node where "(i, node) \<in> set ?T" "\<not> has_kind node ''dir''" "text_of node ''docId'' = d"
      by (auto simp: mounted_def split: if_splits)
    then have "truthy_at (in_docsById v) d \<noteq> None"
      using facts(1) by (fastforce simp: node_ok_def doc_node_ok_def text_of_def)
    then show "d \<in> fst ` set (in_docsById v)" by (auto dest: truthy_at_dom)
  qed
  moreover have "fst ` set (in_docsById v) \<subseteq> fst ` set (mounts t)" using documents by force
  moreover have "\<forall>(i, node) \<in> set ?T. fields_known node" using facts(1) by (auto simp: node_ok_def shape_ok_def)
  ultimately have "file_tree V v t"
    using t mounts documents rest by (auto simp: file_tree_def)
  then show "\<exists>t. file_tree V v t" ..
qed (use file_tree_valid [OF assms] in blast)

end
