(* ===== verification/VfsCommands.thy ===== *)
theory VfsCommands
  imports VfsLaws TransactionLaws
begin

text \<open>
  Commands and transactions with the validation of the file tree in its place: a record of
  validators whose \<open>v_snapshot\<close> is \<open>validateWorkspaceSnapshot\<close>. What commands commit is a file tree.
\<close>

section \<open>Distinct keys\<close>

text \<open>The results of commands are well formed, whatever the validators of contents do.\<close>

lemma patch_and_restore_wf:
  assumes "wf_json a" and "\<forall>op \<in> set fs. wf_op op" and "patch_and_restore a fs rs = Inr b"
  shows "wf_json b"
  using assms(3) applyPatchOperations_wf [OF assms(1,2)]
  by (auto simp: patch_and_restore_def split: sum.splits if_splits)

lemma wf_set_document_content: "wf_json s \<Longrightarrow> wf_json c \<Longrightarrow> wf_json (set_document_content s d c)"
  using set_document_content_eqv [of s s c c d] by simp

lemma document_view_wf:
  assumes "wf_json s" and "document_view s d = Some (Some (t, content))"
  shows "wf_json content"
proof -
  obtain document where doc: "map_of (docs_of s) d = Some document" "own document ''content'' = Some content"
    using assms(2) by (auto simp: document_view_def split: option.splits json.splits if_splits)
  have "wf_json document" using wf_json_map_of [OF wf_docs_of [OF assms(1)] doc(1)] .
  then show ?thesis using doc(2) own_eqv [of document document "''content''"] by simp
qed

lemma command_wf:
  assumes "wf_json s" and "wf_command c" and "applyWorkspaceCommandInternal V s c False = Inr s'"
  shows "wf_json s'"
proof -
  have ops: "\<forall>op \<in> set (forwardOps c). wf_op op" using assms(2) by (auto simp: wf_command_def)
  have "wf_json r" if r: "apply_document_command V s c d = Inr r" for d r
  proof -
    obtain t content patched where p: "document_view s d = Some (Some (t, content))"
        "patch_and_restore content (forwardOps c) (reverseOps c) = Inr patched" "r = set_document_content s d patched"
      using r by (auto simp: apply_document_command_eq applyWorkspaceDocumentCommand_eq
          split: option.splits sum.splits if_splits)
    have "wf_json patched" using patch_and_restore_wf [OF document_view_wf [OF assms(1) p(1)] ops p(2)] .
    then show ?thesis unfolding p(3) by (rule wf_set_document_content [OF assms(1)])
  qed
  moreover have "wf_json r" if "apply_workspace_patch V s c False = Inr r" for r
    using that patch_and_restore_wf [OF assms(1) ops]
    by (auto simp: apply_workspace_patch_eq Let_def split: sum.splits if_splits)
  ultimately show ?thesis
    using assms(3) by (auto simp: applyWorkspaceCommandInternal_def split: if_splits)
qed

lemma commands_wf:
  assumes "\<forall>c \<in> set cs. wf_command c"
  shows "wf_json s \<Longrightarrow> apply_commands V w s i cs = Inr s' \<Longrightarrow> wf_json s'"
  using assms
proof (induction cs arbitrary: s i)
  case (Cons c cs)
  then obtain m where m: "applyWorkspaceCommandInternal V s c False = Inr m"
      "apply_commands V w m (Suc i) cs = Inr s'"
    unfolding apply_commands_Cons_Inr by blast
  have "wf_json m" using command_wf [OF Cons.prems(1) _ m(1)] Cons.prems(3) by simp
  then show ?case using m(2) Cons.prems(3) by (intro Cons.IH) auto
qed simp

lemma distinct_positions: "distinct (map fst (map (\<lambda>(i, x). (nat_text i, f x)) (List.enumerate 0 xs)))"
proof -
  have "map fst (map (\<lambda>(i, x). (nat_text i, f x)) (List.enumerate 0 xs)) = map nat_text [0..<length xs]"
    by (rule nth_equalityI) (simp_all add: nth_enumerate_eq case_prod_beta)
  then show ?thesis by (simp add: distinct_map inj_on_def)
qed

lemma entries_of_distinct:
  assumes "wf_json v" and "entries_of (Some v) = Some es"
  shows "distinct (map fst es)"
  using assms
  by (cases v) (auto intro: distinct_positions simp del: map_map)

lemma validate_documents_None:
  assumes "validateWorkspaceDocumentRecord V d document = None" and "(d, document) \<in> set docs"
  shows "validate_documents V referenced paths docs single = None"
  using assms(2)
proof (induction docs arbitrary: single)
  case (Cons e docs)
  then show ?case using assms(1) by (cases e) (auto split: option.split prod.split)
qed simp

section \<open>The file tree of a snapshot\<close>

definition snapshot_input :: "json \<Rightarrow> vfs_input option" where
  "snapshot_input snapshot =
     (case (own snapshot ''treeRootId'', entries_of (own snapshot ''treeById''),
            entries_of (own snapshot ''docsById'')) of
        (Some (JStr rootId), Some tree, Some docs) \<Rightarrow>
          Some \<lparr>in_treeRootId = rootId, in_treeById = tree, in_docsById = docs,
                in_activeDocumentId = own snapshot ''activeDocumentId''\<rparr>
      | _ \<Rightarrow> None)"

definition has_file_tree :: "validators \<Rightarrow> json \<Rightarrow> bool" where
  "has_file_tree V snapshot \<longleftrightarrow> (\<exists>v t. snapshot_input snapshot = Some v \<and> file_tree V v t)"

definition with_vfs :: "(json \<Rightarrow> bool option) \<Rightarrow> (json \<Rightarrow> bool option) \<Rightarrow> validators \<Rightarrow> validators" where
  "with_vfs animationTargets componentGraph V =
     V\<lparr>v_snapshot := validateWorkspaceSnapshot V animationTargets componentGraph\<rparr>"

lemma snapshot_input_distinct:
  assumes "wf_json s" and "snapshot_input s = Some v"
  shows "distinct (map fst (in_treeById v))" and "distinct (map fst (in_docsById v))"
proof -
  have "distinct (map fst es)" if "entries_of (own s k) = Some es" for k es
    using that entries_of_distinct own_eqv [of s s k] assms(1) by (cases "own s k") auto
  then show "distinct (map fst (in_treeById v))" "distinct (map fst (in_docsById v))"
    using assms(2) by (auto simp: snapshot_input_def split: option.splits json.splits)
qed

lemma valid_snapshot_input:
  assumes "validateWorkspaceSnapshot V animationTargets componentGraph s = Some True"
  shows "\<exists>v. snapshot_input s = Some v \<and> validateWorkspaceVfs V v = Some []"
  using assms
  by (auto simp: validateWorkspaceSnapshot_def snapshot_input_def bind_eq_Some_conv
      split: option.splits json.splits if_splits)

lemma valid_snapshot_file_tree:
  assumes "wf_json s" and "validateWorkspaceSnapshot V animationTargets componentGraph s = Some True"
  shows "has_file_tree V s"
proof -
  obtain v where v: "snapshot_input s = Some v" "validateWorkspaceVfs V v = Some []"
    using valid_snapshot_input [OF assms(2)] by blast
  then show ?thesis
    using valid_iff_file_tree [OF snapshot_input_distinct [OF assms(1) v(1)]] by (auto simp: has_file_tree_def)
qed

theorem transaction_file_tree:
  assumes "applyWorkspaceTransaction (with_vfs animationTargets componentGraph V) s t = Inr s'"
    and "wf_json s" and "\<forall>c \<in> set (tx_commands t). wf_command c"
  shows "has_file_tree V s'"
proof (rule valid_snapshot_file_tree)
  show "wf_json s'" using assms commands_wf by (auto simp: applyWorkspaceTransaction_Inr)
  show "validateWorkspaceSnapshot V animationTargets componentGraph s' = Some True"
    using assms(1) by (auto simp: applyWorkspaceTransaction_Inr accepted_iff with_vfs_def)
qed

end
