(* ===== verification/VfsProperties.thy ===== *)
theory VfsProperties
  imports VfsCommands "HOL-Library.Code_Target_Numeral"
begin

text \<open>
  The properties of the file tree and of its validation. The lemmas they rest on are those of
  \<open>VfsLaws\<close> and \<open>VfsCommands\<close>; the small workspace, a directory and a code document below the root, is
  for the witnesses.
\<close>

section \<open>A small workspace\<close>

definition vfs_validators :: validators where
  "vfs_validators =
     \<lparr>v_pir = (\<lambda>_. True), v_nodegraph = (\<lambda>_. True), v_animation = (\<lambda>_. True),
      v_lifecycle = (\<lambda>_. True), v_shader = (\<lambda>_ _. True), v_server = (\<lambda>_ _. True),
      v_dataSource = (\<lambda>_ _. True), v_behavior = (\<lambda>_ _ _. True), v_agentPolicy = (\<lambda>_ _. True),
      v_tokens = (\<lambda>_. True), v_tokenResolver = (\<lambda>_. True), v_asset = (\<lambda>_. True),
      v_config = (\<lambda>_. True), v_snapshot = (\<lambda>_. Some True)\<rparr>"

definition vfs_dir :: "string \<Rightarrow> string \<Rightarrow> json \<Rightarrow> string list \<Rightarrow> (string \<times> json) list \<Rightarrow> json" where
  "vfs_dir i n p cs rest =
     JObj ([(''id'', JStr i), (''kind'', JStr ''dir''), (''name'', JStr n), (''parentId'', p),
       (''children'', JArr (map JStr cs))] @ rest)"

definition vfs_doc :: "string \<Rightarrow> string \<Rightarrow> string \<Rightarrow> string \<Rightarrow> json" where
  "vfs_doc i n p d =
     JObj [(''id'', JStr i), (''kind'', JStr ''doc''), (''name'', JStr n), (''parentId'', JStr p), (''docId'', JStr d)]"

definition vfs_record :: "string \<Rightarrow> string \<Rightarrow> string \<Rightarrow> string \<Rightarrow> json" where
  "vfs_record d n path source =
     JObj [(''id'', JStr d), (''type'', JStr ''code''), (''name'', JStr n), (''path'', JStr path),
       (''contentRev'', JNum 1), (''metaRev'', JNum 1),
       (''content'', JObj [(''language'', JStr ''ts''), (''source'', JStr source)])]"

text \<open>The workspace with further members in the node of its directory.\<close>

definition vfs_workspace :: "(string \<times> json) list \<Rightarrow> string \<Rightarrow> json" where
  "vfs_workspace rest source =
     JObj [(''id'', JStr ''w''), (''workspaceRev'', JNum 1), (''routeRev'', JNum 1), (''opSeq'', JNum 1),
       (''treeRootId'', JStr ''root''),
       (''treeById'', JObj [(''root'', vfs_dir ''root'' ''/'' JNull [''src''] []),
          (''src'', vfs_dir ''src'' ''src'' (JStr ''root'') [''n''] rest), (''n'', vfs_doc ''n'' ''a.ts'' ''src'' ''c'')]),
       (''docsById'', JObj [(''c'', vfs_record ''c'' ''a.ts'' ''/src/a.ts'' source)]),
       (''routeManifest'', JObj [(''root'', JObj [(''id'', JStr ''root'')])]),
       (''activeDocumentId'', JStr ''c'')]"

definition vfs_sample :: "(string \<times> json) list \<Rightarrow> vfs_input" where
  "vfs_sample rest = the (snapshot_input (vfs_workspace rest ''a''))"

definition vfs_command :: command where
  "vfs_command =
     \<lparr>cmd_id = ''1'', cmd_namespace = ''core.code'', cmd_type = ''source.update'', cmd_version = ''1.0'',
      cmd_issuedAt = ''t'',
      forwardOps = [\<lparr>op_kind = OpReplace, op_path = ''/source'', op_from = None, op_value = Some (JStr ''b'')\<rparr>],
      reverseOps = [\<lparr>op_kind = OpReplace, op_path = ''/source'', op_from = None, op_value = Some (JStr ''a'')\<rparr>],
      cmd_target = \<lparr>target_workspaceId = ''w'', target_documentId = Some ''c'', target_routeNodeId = None\<rparr>,
      cmd_mergeKey = None, cmd_label = None, domainHint = Some DomCode\<rparr>"

definition vfs_transaction :: transaction where
  "vfs_transaction =
     \<lparr>tx_id = ''tx'', tx_workspaceId = ''w'', tx_issuedAt = ''t'', tx_commands = [vfs_command],
      tx_label = None, tx_mergeKey = None\<rparr>"

section \<open>What is valid\<close>

text \<open>C2. The validation accepts exactly the flattened file trees. The input, two tables of run-time
  values, raises no issue exactly when there is a tree of directories and documents such that
  \<open>treeById\<close> is the table of its nodes (every node under its id, with its name, its parent and, for a
  directory, the ids of its children in order, and no other node), the root is a directory with the
  root id, every id and name is canonical and siblings have different names, the documents mounted
  in it are exactly the documents of the workspace, each once, each record is valid and has the path
  of its node in the tree, types of which there may be one occur once, and the active document
  exists. Cycles, shared children, orphans and dangling references are all refused by this one
  equivalence.\<close>

theorem vfs_accepts_file_trees:
  assumes "distinct (map fst (in_treeById v))" and "distinct (map fst (in_docsById v))"
  shows "validateWorkspaceVfs V v = Some [] \<longleftrightarrow> (\<exists>t. file_tree V v t)"
  using assms by (rule valid_iff_file_tree)

theorem vfs_accepts_file_trees_witness: "\<exists>t. file_tree vfs_validators (vfs_sample []) t"
proof -
  have "distinct (map fst (in_treeById (vfs_sample [])))" "distinct (map fst (in_docsById (vfs_sample [])))"
    "validateWorkspaceVfs vfs_validators (vfs_sample []) = Some []"
    by code_simp+
  then show ?thesis using vfs_accepts_file_trees by blast
qed

text \<open>C3. Whatever commands a transaction consists of, when it commits the workspace is a file tree
  again: with \<open>validateWorkspaceSnapshot\<close> as the validation of snapshots, no committed sequence of
  patches of \<open>treeById\<close> and \<open>docsById\<close> leaves an orphan, a cycle, a document mounted twice or a stale
  path.\<close>

theorem transaction_commits_file_tree:
  assumes "applyWorkspaceTransaction (with_vfs animationTargets componentGraph V) s t = Inr s'"
    and "wf_json s" and "\<forall>c \<in> set (tx_commands t). wf_command c"
  shows "has_file_tree V s'"
  using assms by (rule transaction_file_tree)

theorem transaction_commits_file_tree_witness: "has_file_tree vfs_validators (vfs_workspace [] ''b'')"
proof -
  have "applyWorkspaceTransaction (with_vfs (\<lambda>_. Some True) (\<lambda>_. Some True) vfs_validators)
      (vfs_workspace [] ''a'') vfs_transaction = Inr (vfs_workspace [] ''b'')"
    "wf_json (vfs_workspace [] ''a'')" "\<forall>c \<in> set (tx_commands vfs_transaction). wf_command c"
    by code_simp+
  then show ?thesis by (rule transaction_commits_file_tree)
qed

section \<open>What goes wrong\<close>


text \<open>C38. A document whose capabilities are a list of two or more with a \<open>null\<close> makes the validation
  throw: the list is sorted before its elements are checked to be text, and the comparison reads
  their code points. No issue is returned, for this document or any other.\<close>

theorem null_capability_throws:
  assumes "(d, document) \<in> set (in_docsById v)" and "isRecord document"
    and "own document ''capabilities'' = Some (JArr xs)" and "JNull \<in> set xs" and "2 \<le> length xs"
    and "truthy_at (in_treeById v) (in_treeRootId v) \<noteq> None"
  shows "validateWorkspaceVfs V v = None"
proof -
  have "list_ex code_points_throw xs" using assms(4) by (force simp: list_ex_iff)
  then have "validateWorkspaceDocumentRecord V d document = None"
    using assms(2,3,5) by (simp add: validateWorkspaceDocumentRecord_def canonical_capabilities_def)
  then have "validate_documents V referenced paths (in_docsById v) single = None" for referenced paths single
    using assms(1) by (rule validate_documents_None)
  then show ?thesis using assms(6) by (auto simp: validateWorkspaceVfs_def Let_def split: prod.split)
qed

theorem null_capability_throws_witness:
  "validateWorkspaceVfs vfs_validators (vfs_sample []
     \<lparr>in_docsById := [(''c'', JObj [(''capabilities'', JArr [JNull, JNull])])]\<rparr>) = None"
  by (rule null_capability_throws
      [where d = "''c''" and document = "JObj [(''capabilities'', JArr [JNull, JNull])]" and xs = "[JNull, JNull]"])
    code_simp+

end
