(* ===== verification/VfsIntent.thy ===== *)
theory VfsIntent
  imports Vfs
begin

text \<open>
  The edits of the file tree: \<open>packages/workspace/src/workspaceVfsIntent.ts\<close>, the path and node ids of
  \<open>workspaceDocumentFactory.ts\<close> and the requests that \<open>workspaceCommand.ts\<close> creates.

  The workspace is a value of the declared type \<open>WorkspaceSnapshot\<close>; a member of another type, which
  the type checker excludes, counts as missing. The code clones the tree and then assigns to the
  clone; the model threads the table of nodes. A \<open>null\<close> result is \<open>None\<close>.
\<close>

section \<open>Reading and writing a workspace\<close>

definition tree_entries :: "json \<Rightarrow> entries" where
  "tree_entries workspace = (case own workspace ''treeById'' of Some (JObj es) \<Rightarrow> es | _ \<Rightarrow> [])"

text \<open>\<open>{ ...value, k: v }\<close> and an assignment to a member.\<close>

fun put_own :: "string \<Rightarrow> json \<Rightarrow> json \<Rightarrow> json" where
  "put_own k v (JObj kvs) = JObj (alist_put k v kvs)"
| "put_own k v j = j"

fun delete_own :: "string \<Rightarrow> json \<Rightarrow> json" where
  "delete_own k (JObj kvs) = JObj (alist_del k kvs)"
| "delete_own k j = j"

text \<open>The children of a node that are ids of nodes, the children changed, and a new node.\<close>

definition child_ids :: "json \<Rightarrow> string list" where
  "child_ids node =
     concat (map (\<lambda>c. case c of JStr s \<Rightarrow> [s] | _ \<Rightarrow> []) (getDirectoryChildren node))"

definition append_child :: "string \<Rightarrow> json \<Rightarrow> json" where
  "append_child i node = put_own ''children'' (JArr (getDirectoryChildren node @ [JStr i])) node"

definition remove_child_id :: "string \<Rightarrow> json \<Rightarrow> json" where
  "remove_child_id i node =
     put_own ''children'' (JArr (filter (\<lambda>c. c \<noteq> JStr i) (getDirectoryChildren node))) node"

definition dir_node :: "string \<Rightarrow> string \<Rightarrow> string \<Rightarrow> json" where
  "dir_node i name parentId =
     JObj [(''id'', JStr i), (''kind'', JStr ''dir''), (''name'', JStr name), (''parentId'', JStr parentId),
       (''children'', JArr [])]"

definition doc_node :: "string \<Rightarrow> string \<Rightarrow> string \<Rightarrow> string \<Rightarrow> json" where
  "doc_node i name parentId documentId =
     JObj [(''id'', JStr i), (''kind'', JStr ''doc''), (''name'', JStr name), (''parentId'', JStr parentId),
       (''docId'', JStr documentId)]"

section \<open>Paths and names\<close>

definition normalizePath :: "string \<Rightarrow> string list option" where
  "normalizePath value =
     (let segments = filter (\<lambda>s. s \<noteq> '''') (split_on CHR ''/'' (replace_char CHR 0x5C ''/'' (js_trim value)))
      in if segments = [] \<or> list_ex (\<lambda>s. s = ''.'' \<or> s = ''..'') segments then None else Some segments)"

text \<open>The text of a normal path, whose segments the code splits again where it needs them.\<close>

definition path_text :: "string list \<Rightarrow> string" where
  "path_text segments = ''/'' @ join_with ''/'' segments"

definition normalizeName :: "string \<Rightarrow> string option" where
  "normalizeName value =
     (let name = js_trim value in
      if name = '''' \<or> name = ''.'' \<or> name = ''..'' \<or> CHR ''/'' \<in> set name \<or> CHR 0x5C \<in> set name
      then None else Some name)"

section \<open>Ids of nodes\<close>

definition id_char :: "char \<Rightarrow> bool" where
  "id_char c \<longleftrightarrow>
     (let n = of_char c :: nat in
      97 \<le> n \<and> n \<le> 122 \<or> 65 \<le> n \<and> n \<le> 90 \<or> 48 \<le> n \<and> n \<le> 57 \<or> c = CHR ''_'' \<or> c = CHR ''-'')"

text \<open>\<open>value.replace(/[^a-zA-Z0-9_-]+/g, '_')\<close>\<close>

function squeeze_others :: "string \<Rightarrow> string" where
  "squeeze_others [] = []"
| "squeeze_others (c # cs) =
     (if id_char c then c # squeeze_others cs
      else CHR ''_'' # squeeze_others (dropWhile (\<lambda>d. \<not> id_char d) cs))"
  by pat_completeness auto
termination by (relation "measure length") (auto simp: length_dropWhile_le less_Suc_eq_le)

definition normalizePathNodeIdSegment :: "string \<Rightarrow> string" where
  "normalizePathNodeIdSegment value =
     (let stripped = rev (dropWhile (\<lambda>c. c = CHR ''_'') (rev (dropWhile (\<lambda>c. c = CHR ''_'') (squeeze_others value))))
      in if stripped = '''' then ''item'' else stripped)"

definition createWorkspacePathNodeId :: "string \<Rightarrow> string list \<Rightarrow> string" where
  "createWorkspacePathNodeId pre segments =
     (if segments = [] then pre else pre @ ''_'' @ join_with ''_'' (map normalizePathNodeIdSegment segments))"

definition createWorkspaceDocumentNodeId :: "string \<Rightarrow> string" where
  "createWorkspaceDocumentNodeId documentId = createWorkspacePathNodeId ''doc'' [documentId]"

lemma card_less_member: "finite A \<Longrightarrow> B \<subseteq> A \<Longrightarrow> x \<in> A \<Longrightarrow> x \<notin> B \<Longrightarrow> card B < card A"
  by (intro psubset_card_mono) auto

text \<open>The loop over the suffixes, from the given one on.\<close>

lemma finite_suffixes: "finite {k. preferred @ ''-'' @ nat_text k \<in> fst ` set (T :: entries)}"
  by (rule finite_vimageI [where F = "fst ` set T" and h = "\<lambda>k. preferred @ ''-'' @ nat_text k", unfolded vimage_def])
    (auto simp: inj_on_def)

function next_suffix :: "entries \<Rightarrow> string \<Rightarrow> nat \<Rightarrow> nat" where
  "next_suffix T preferred n =
     (if truthy_at T (preferred @ ''-'' @ nat_text n) = None then n
      else next_suffix T preferred (n + 1))"
  by pat_completeness auto
termination
proof (relation "measure (\<lambda>(T, preferred, n).
    card {k \<in> {k. preferred @ ''-'' @ nat_text k \<in> fst ` set T}. n \<le> k})")
  fix T :: entries and preferred n
  assume "truthy_at T (preferred @ ''-'' @ nat_text n) \<noteq> None"
  then have "preferred @ ''-'' @ nat_text n \<in> fst ` set T" by (auto dest: truthy_at_dom)
  then show "((T, preferred, n + 1), T, preferred, n) \<in> measure (\<lambda>(T, preferred, n).
      card {k \<in> {k. preferred @ ''-'' @ nat_text k \<in> fst ` set T}. n \<le> k})"
    using finite_suffixes [of preferred T] by (auto intro!: card_less_member [where x = n])
qed simp

definition createAvailableNodeId :: "entries \<Rightarrow> string \<Rightarrow> string" where
  "createAvailableNodeId T preferredId =
     (if truthy_at T preferredId = None then preferredId
      else preferredId @ ''-'' @ nat_text (next_suffix T preferredId 2))"

section \<open>Nodes of the tree\<close>

definition getChildByName :: "entries \<Rightarrow> json \<Rightarrow> string \<Rightarrow> json option" where
  "getChildByName T parent name =
     List.find (\<lambda>child. own child ''name'' = Some (JStr name))
       (concat (map (\<lambda>i. case truthy_at T i of Some child \<Rightarrow> [child] | None \<Rightarrow> []) (child_ids parent)))"

fun ensureDirectoryPath ::
  "entries \<Rightarrow> string \<Rightarrow> string list \<Rightarrow> string list \<Rightarrow> (entries \<times> string) option" where
  "ensureDirectoryPath T parentId authored [] = Some (T, parentId)"
| "ensureDirectoryPath T parentId authored (segment # segments) =
     (case truthy_at T parentId of
        None \<Rightarrow> None
      | Some parent \<Rightarrow>
          if \<not> has_kind parent ''dir'' then None
          else (case getChildByName T parent segment of
             Some existing \<Rightarrow>
               if has_kind existing ''dir''
               then ensureDirectoryPath T (text_of existing ''id'') (authored @ [segment]) segments else None
           | None \<Rightarrow>
               let i = createAvailableNodeId T (createWorkspacePathNodeId ''dir'' (authored @ [segment]));
                   T' = alist_put parentId (append_child i parent) (alist_put i (dir_node i segment parentId) T)
               in ensureDirectoryPath T' i (authored @ [segment]) segments))"

definition findDocumentNode :: "entries \<Rightarrow> string \<Rightarrow> json option" where
  "findDocumentNode T documentId =
     List.find (\<lambda>node. has_kind node ''doc'' \<and> own node ''docId'' = Some (JStr documentId)) (map snd T)"

definition collectSubtreeNodeIds :: "entries \<Rightarrow> string \<Rightarrow> string list" where
  "collectSubtreeNodeIds T nodeId =
     map fst (collect_walk T (\<lambda>node. if has_kind node ''dir'' then child_ids node else []) (\<lambda>_ _. ()) [(nodeId, ())] [])"

text \<open>The segments of the path of a node, from the node up to the root.\<close>

function path_up ::
  "entries \<Rightarrow> string \<Rightarrow> string list \<Rightarrow> string list \<Rightarrow> string \<Rightarrow> string list option" where
  "path_up T rootId visited segments nodeId =
     (case truthy_at T nodeId of
        None \<Rightarrow> None
      | Some node \<Rightarrow>
          if text_of node ''id'' = rootId then Some segments
          else if text_of node ''id'' \<in> set visited then None
          else (case own node ''parentId'' of
                  Some (JStr p) \<Rightarrow>
                    path_up T rootId (text_of node ''id'' # visited) (text_of node ''name'' # segments) p
                | _ \<Rightarrow> None))"
  by pat_completeness auto
termination
proof (relation "measure (\<lambda>(T, rootId, visited, segments, nodeId).
    card ((\<lambda>e. text_of (snd e) ''id'') ` set T - set visited))")
  fix T :: entries and rootId visited segments nodeId node v p
  assume a: "truthy_at T nodeId = Some node" "text_of node ''id'' \<notin> set visited"
  then have "(nodeId, node) \<in> set T"
    by (auto simp: truthy_at_def dest: weak_map_of_SomeI map_of_SomeD split: option.splits if_splits
        simp del: map_of_eq_Some_iff)
  then have "text_of node ''id'' \<in> (\<lambda>e. text_of (snd e) ''id'') ` set T" by force
  then show "((T, rootId, text_of node ''id'' # visited, text_of node ''name'' # segments, p),
      T, rootId, visited, segments, nodeId) \<in> measure (\<lambda>(T, rootId, visited, segments, nodeId).
        card ((\<lambda>e. text_of (snd e) ''id'') ` set T - set visited))"
    using a(2) unfolding in_measure prod.case
    by (intro card_less_member [where x = "text_of node ''id''"]) auto
qed simp

declare next_suffix.simps [simp del] path_up.simps [simp del]

definition getNodePath :: "entries \<Rightarrow> string \<Rightarrow> string \<Rightarrow> string option" where
  "getNodePath T rootId nodeId = map_option path_text (path_up T rootId [] [] nodeId)"

text \<open>The parent of a node where it is a directory, with the id it is stored under.\<close>

definition parent_dir :: "entries \<Rightarrow> json \<Rightarrow> (string \<times> json) option" where
  "parent_dir T node =
     (case own node ''parentId'' of
        Some (JStr p) \<Rightarrow>
          (case truthy_at T p of
             Some parent \<Rightarrow> if has_kind parent ''dir'' then Some (p, parent) else None
           | None \<Rightarrow> None)
      | _ \<Rightarrow> None)"

section \<open>The edits\<close>

text \<open>
  The payloads of the requests. \<open>code-document.*\<close> requests have no type; the other document requests
  do.
\<close>

datatype vfs_intent =
    CreateDocument (in_documentId: string) (in_nodeId: "string option") (in_parentNodeId: "string option")
      (in_path: string) (in_type: "string option") (in_content: json)
  | RenameDocument (in_documentId: string) (in_path: string) (in_type: "string option")
  | DeleteDocument (in_documentId: string) (in_type: "string option")
  | CreateDirectory (in_directoryId: string) (in_parentNodeId: "string option") (in_name: string)
  | RenameDirectory (in_directoryId: string) (in_name: string)
  | DeleteDirectory (in_directoryId: string)

definition path_taken :: "string list \<Rightarrow> json list \<Rightarrow> bool" where
  "path_taken path documents \<longleftrightarrow>
     list_ex (\<lambda>document. normalizePath (text_of document ''path'') = Some path) documents"

definition type_differs :: "string option \<Rightarrow> json \<Rightarrow> bool" where
  "type_differs t document \<longleftrightarrow> (case t of Some s \<Rightarrow> own document ''type'' \<noteq> Some (JStr s) | None \<Rightarrow> False)"

definition with_tree :: "entries \<Rightarrow> json \<Rightarrow> json" where
  "with_tree T workspace = put_own ''treeById'' (JObj T) workspace"

definition with_docs :: "entries \<Rightarrow> json \<Rightarrow> json" where
  "with_docs docs workspace = put_own ''docsById'' (JObj docs) workspace"

definition new_document :: "string \<Rightarrow> string \<Rightarrow> string \<Rightarrow> string list \<Rightarrow> json \<Rightarrow> json" where
  "new_document documentId type name path content =
     JObj [(''id'', JStr documentId), (''type'', JStr type), (''name'', JStr name), (''path'', JStr (path_text path)),
       (''contentRev'', JNum 1), (''metaRev'', JNum 1), (''content'', content)]"

definition createDocument ::
  "json \<Rightarrow> string \<Rightarrow> string option \<Rightarrow> string \<Rightarrow> string option \<Rightarrow> json \<Rightarrow> json option" where
  "createDocument workspace documentId nodeId path type content =
     (let docs = docs_of workspace in
      case normalizePath path of
        None \<Rightarrow> None
      | Some segments \<Rightarrow>
          if truthy_at docs documentId \<noteq> None then None
          else if path_taken segments (map snd docs) then None
          else let name = last segments in
            (case ensureDirectoryPath (tree_entries workspace) (text_of workspace ''treeRootId'') [] (butlast segments) of
               None \<Rightarrow> None
             | Some (T, parentId) \<Rightarrow>
                 if parentId = '''' then None
                 else (case truthy_at T parentId of
                    None \<Rightarrow> None
                  | Some parent \<Rightarrow>
                      if \<not> has_kind parent ''dir'' \<or> getChildByName T parent name \<noteq> None then None
                      else let trimmed = js_trim (or_else nodeId '''');
                               preferredNodeId = (if trimmed \<noteq> '''' then trimmed
                                 else createWorkspaceDocumentNodeId documentId)
                        in if truthy_at T preferredNodeId \<noteq> None then None
                           else let T' = alist_put parentId (append_child preferredNodeId parent)
                                  (alist_put preferredNodeId (doc_node preferredNodeId name parentId documentId) T)
                             in Some (put_own ''activeDocumentId'' (JStr documentId)
                                  (with_docs (alist_put documentId
                                      (new_document documentId (or_else type ''code'') name segments content) docs)
                                    (with_tree T' workspace))))))"

definition move_node :: "entries \<Rightarrow> json \<Rightarrow> string \<times> json \<Rightarrow> string \<times> json \<Rightarrow> string \<Rightarrow> entries" where
  "move_node T node current next name =
     (let i = text_of node ''id''; parentId = text_of (snd next) ''id'';
          T = (if text_of (snd current) ''id'' \<noteq> parentId
            then alist_put (fst next) (append_child i (snd next))
              (alist_put (fst current) (remove_child_id i (snd current)) T)
            else T)
      in alist_put i (put_own ''parentId'' (JStr parentId) (put_own ''name'' (JStr name) node)) T)"

definition renameDocument :: "json \<Rightarrow> string \<Rightarrow> string \<Rightarrow> string option \<Rightarrow> json option" where
  "renameDocument workspace documentId path type =
     (let docs = docs_of workspace in
      case (truthy_at docs documentId, normalizePath path) of
        (Some document, Some segments) \<Rightarrow>
          if type_differs type document then None
          else if path_taken segments (filter (\<lambda>candidate. text_of candidate ''id'' \<noteq> text_of document ''id'') (map snd docs))
            then None
          else (case findDocumentNode (tree_entries workspace) (text_of document ''id'') of
             None \<Rightarrow> None
           | Some node \<Rightarrow>
               let name = last segments in
               if own node ''parentId'' = Some JNull then None
               else (case ensureDirectoryPath (tree_entries workspace) (text_of workspace ''treeRootId'') [] (butlast segments) of
                  None \<Rightarrow> None
                | Some (T, nextParentId) \<Rightarrow>
                    if nextParentId = '''' then None
                    else (case (parent_dir T node, truthy_at T nextParentId) of
                       (Some current, Some nextParent) \<Rightarrow>
                         if \<not> has_kind nextParent ''dir'' then None
                         else if (case getChildByName T nextParent name of
                                    Some duplicate \<Rightarrow> text_of duplicate ''id'' \<noteq> text_of node ''id'' | None \<Rightarrow> False)
                           then None
                         else Some (with_docs (alist_put (text_of document ''id'')
                             (put_own ''path'' (JStr (path_text segments)) (put_own ''name'' (JStr name) document)) docs)
                           (with_tree (move_node T node current (nextParentId, nextParent) name) workspace))
                     | _ \<Rightarrow> None)))
      | _ \<Rightarrow> None)"

text \<open>\<open>Object.keys(docsById).sort()[0]\<close>; of no documents it is \<open>undefined\<close>.\<close>

definition updateActiveDocument :: "json \<Rightarrow> json" where
  "updateActiveDocument snapshot =
     (let active = text_of snapshot ''activeDocumentId''; docs = docs_of snapshot in
      if active \<noteq> '''' \<and> truthy_at docs active = None
      then (case sort (map fst docs) of
              [] \<Rightarrow> delete_own ''activeDocumentId'' snapshot
            | d # _ \<Rightarrow> put_own ''activeDocumentId'' (JStr d) snapshot)
      else snapshot)"

definition deleteDocument :: "json \<Rightarrow> string \<Rightarrow> string option \<Rightarrow> json option" where
  "deleteDocument workspace documentId type =
     (let docs = docs_of workspace; T = tree_entries workspace in
      case truthy_at docs documentId of
        None \<Rightarrow> None
      | Some document \<Rightarrow>
          if length docs \<le> 1 \<or> type_differs type document then None
          else (case findDocumentNode T (text_of document ''id'') of
             None \<Rightarrow> None
           | Some node \<Rightarrow>
               (case parent_dir T node of
                  None \<Rightarrow> None
                | Some (p, parent) \<Rightarrow>
                    let i = text_of node ''id'';
                        T' = alist_del i (alist_put p (remove_child_id i parent) T)
                    in Some (updateActiveDocument (with_docs (alist_del (text_of document ''id'') docs)
                         (with_tree T' workspace))))))"

definition createDirectory :: "json \<Rightarrow> string \<Rightarrow> string option \<Rightarrow> string \<Rightarrow> json option" where
  "createDirectory workspace directoryId parentNodeId newName =
     (let T = tree_entries workspace; nodeId = js_trim directoryId;
          trimmed = js_trim (or_else parentNodeId '''');
          parentId = (if trimmed \<noteq> '''' then trimmed else text_of workspace ''treeRootId'')
      in case (normalizeName newName, truthy_at T parentId) of
           (Some name, Some parent) \<Rightarrow>
             if nodeId = '''' \<or> truthy_at T nodeId \<noteq> None then None
             else if \<not> has_kind parent ''dir'' \<or> getChildByName T parent name \<noteq> None then None
             else Some (with_tree (alist_put parentId (append_child nodeId parent)
                 (alist_put nodeId (dir_node nodeId name parentId) T)) workspace)
         | _ \<Rightarrow> None)"

text \<open>The documents below a renamed directory get their paths anew; \<open>None\<close> ends the edit.\<close>

definition rename_descendant :: "entries \<Rightarrow> string \<Rightarrow> entries \<Rightarrow> string \<Rightarrow> entries option" where
  "rename_descendant T rootId docs descendantId =
     (case truthy_at T descendantId of
        None \<Rightarrow> Some docs
      | Some descendant \<Rightarrow>
          if \<not> has_kind descendant ''doc'' \<or> text_of descendant ''docId'' = '''' then Some docs
          else (case (truthy_at docs (text_of descendant ''docId''), getNodePath T rootId (text_of descendant ''id'')) of
                  (Some document, Some path) \<Rightarrow>
                    Some (alist_put (text_of document ''id'')
                      (put_own ''path'' (JStr path) (put_own ''name'' (JStr (text_of descendant ''name'')) document)) docs)
                | _ \<Rightarrow> None))"

fun rename_descendants :: "entries \<Rightarrow> string \<Rightarrow> entries \<Rightarrow> string list \<Rightarrow> entries option" where
  "rename_descendants T rootId docs [] = Some docs"
| "rename_descendants T rootId docs (i # is) =
     (case rename_descendant T rootId docs i of
        None \<Rightarrow> None
      | Some docs' \<Rightarrow> rename_descendants T rootId docs' is)"

definition renameDirectory :: "json \<Rightarrow> string \<Rightarrow> string \<Rightarrow> json option" where
  "renameDirectory workspace directoryId newName =
     (let T = tree_entries workspace in
      case (normalizeName newName, truthy_at T directoryId) of
        (Some name, Some node) \<Rightarrow>
          if \<not> has_kind node ''dir'' then None
          else (case parent_dir T node of
             None \<Rightarrow> None
           | Some (p, parent) \<Rightarrow>
               let i = text_of node ''id'' in
               if (case getChildByName T parent name of Some child \<Rightarrow> text_of child ''id'' \<noteq> i | None \<Rightarrow> False) then None
               else let T' = alist_put i (put_own ''name'' (JStr name) node) T in
                 map_option (\<lambda>docs. with_docs docs (with_tree T' workspace))
                   (rename_descendants T' (text_of workspace ''treeRootId'') (docs_of workspace)
                     (collectSubtreeNodeIds T' i)))
      | _ \<Rightarrow> None)"

definition deleteDirectory :: "json \<Rightarrow> string \<Rightarrow> json option" where
  "deleteDirectory workspace directoryId =
     (let T = tree_entries workspace; docs = docs_of workspace in
      case truthy_at T directoryId of
        None \<Rightarrow> None
      | Some node \<Rightarrow>
          if \<not> has_kind node ''dir'' then None
          else (case parent_dir T node of
             None \<Rightarrow> None
           | Some (p, parent) \<Rightarrow>
               let i = text_of node ''id'';
                   removedNodeIds = collectSubtreeNodeIds T i;
                   removedDocumentIds = concat (map (\<lambda>k. case truthy_at T k of
                     Some n \<Rightarrow> if has_kind n ''doc'' \<and> text_of n ''docId'' \<noteq> '''' then [text_of n ''docId''] else []
                   | None \<Rightarrow> []) removedNodeIds)
               in if length docs \<le> length removedDocumentIds then None
                  else let T' = foldl (\<lambda>T k. alist_del k T) (alist_put p (remove_child_id i parent) T) removedNodeIds
                    in Some (updateActiveDocument
                         (with_docs (foldl (\<lambda>docs d. alist_del d docs) docs removedDocumentIds)
                           (with_tree T' workspace)))))"

section \<open>The command of an edit\<close>

definition patch_at :: "op_kind \<Rightarrow> string \<Rightarrow> json option \<Rightarrow> patch_op" where
  "patch_at kind path v = \<lparr>op_kind = kind, op_path = path, op_from = None, op_value = v\<rparr>"

text \<open>
  A change of an optional member at a pointer, with its reversal: \<open>metadataPatch\<close> and the same three
  cases for the active document.
\<close>

definition member_patch :: "string \<Rightarrow> json option \<Rightarrow> json option \<Rightarrow> (patch_op \<times> patch_op) option" where
  "member_patch path before after =
     (if before = after then None
      else case (before, after) of
        (None, _) \<Rightarrow> Some (patch_at OpAdd path after, patch_at OpRemove path None)
      | (_, None) \<Rightarrow> Some (patch_at OpRemove path None, patch_at OpAdd path before)
      | _ \<Rightarrow> Some (patch_at OpReplace path after, patch_at OpReplace path before))"

definition metadataPatch :: "string \<Rightarrow> string \<Rightarrow> json option \<Rightarrow> json option \<Rightarrow> (patch_op \<times> patch_op) option" where
  "metadataPatch documentId field before after =
     member_patch (document_pointer documentId @ ''/'' @ field) before after"

text \<open>
  The pairs of a forward and a reverse operation: the code pushes the one to the end of the forward
  operations and the other to the front of the reverse operations.
\<close>

definition document_patches :: "entries \<Rightarrow> entries \<Rightarrow> string \<Rightarrow> (patch_op \<times> patch_op) list" where
  "document_patches before after documentId =
     (let path = document_pointer documentId in
      case (truthy_at before documentId, truthy_at after documentId) of
        (None, Some v) \<Rightarrow> [(patch_at OpAdd path (Some v), patch_at OpRemove path None)]
      | (Some v, None) \<Rightarrow> [(patch_at OpRemove path None, patch_at OpAdd path (Some v))]
      | (None, None) \<Rightarrow> []
      | (Some v, Some w) \<Rightarrow>
          concat (map (\<lambda>field. case metadataPatch documentId field (own v field) (own w field) of
              Some p \<Rightarrow> [p] | None \<Rightarrow> []) [''name'', ''path'']))"

definition intent_patches :: "json \<Rightarrow> json \<Rightarrow> (patch_op \<times> patch_op) list" where
  "intent_patches before after =
     concat (map (document_patches (docs_of before) (docs_of after))
       (sort (js_set (map fst (docs_of before) @ map fst (docs_of after))))) @
     (if own before ''treeById'' = own after ''treeById'' then []
      else [(patch_at OpReplace ''/treeById'' (own after ''treeById''),
             patch_at OpReplace ''/treeById'' (own before ''treeById''))]) @
     (case member_patch ''/activeDocumentId'' (own before ''activeDocumentId'') (own after ''activeDocumentId'') of
        Some p \<Rightarrow> [p] | None \<Rightarrow> [])"

definition intent_type :: "vfs_intent \<Rightarrow> string" where
  "intent_type i =
     (case i of
        CreateDocument _ _ _ _ None _ \<Rightarrow> ''code-document.create''
      | CreateDocument _ _ _ _ (Some _) _ \<Rightarrow> ''document.create''
      | RenameDocument _ _ None \<Rightarrow> ''code-document.rename''
      | RenameDocument _ _ (Some _) \<Rightarrow> ''document.rename''
      | DeleteDocument _ None \<Rightarrow> ''code-document.delete''
      | DeleteDocument _ (Some _) \<Rightarrow> ''document.delete''
      | CreateDirectory _ _ _ \<Rightarrow> ''directory.create''
      | RenameDirectory _ _ \<Rightarrow> ''directory.rename''
      | DeleteDirectory _ \<Rightarrow> ''directory.delete'')"

record vfs_request =
  expectedWorkspaceRev :: rat
  vr_id :: string
  vr_issuedAt :: string
  vr_intent :: vfs_intent
  vr_clientMutationId :: "string option"

definition createCommand :: "json \<Rightarrow> json \<Rightarrow> vfs_request \<Rightarrow> command option" where
  "createCommand before after request =
     (let patches = intent_patches before after; type = intent_type (vr_intent request) in
      if patches = [] then None
      else Some \<lparr>cmd_id = vr_id request, cmd_namespace = ''core.workspace'', cmd_type = type,
        cmd_version = ''1.0'', cmd_issuedAt = vr_issuedAt request,
        forwardOps = map fst patches, reverseOps = rev (map snd patches),
        cmd_target = \<lparr>target_workspaceId = text_of before ''id'', target_documentId = None,
          target_routeNodeId = None\<rparr>,
        cmd_mergeKey = None, cmd_label = Some type, domainHint = Some DomWorkspace\<rparr>)"

definition apply_intent :: "json \<Rightarrow> vfs_intent \<Rightarrow> json option" where
  "apply_intent workspace intent =
     (case intent of
        CreateDocument documentId nodeId _ path type content \<Rightarrow>
          createDocument workspace documentId nodeId path type content
      | RenameDocument documentId path type \<Rightarrow> renameDocument workspace documentId path type
      | DeleteDocument documentId type \<Rightarrow> deleteDocument workspace documentId type
      | CreateDirectory directoryId parentNodeId name \<Rightarrow> createDirectory workspace directoryId parentNodeId name
      | RenameDirectory directoryId name \<Rightarrow> renameDirectory workspace directoryId name
      | DeleteDirectory directoryId \<Rightarrow> deleteDirectory workspace directoryId)"

definition createWorkspaceVfsIntentCommandPlan :: "json \<Rightarrow> vfs_request \<Rightarrow> command option" where
  "createWorkspaceVfsIntentCommandPlan workspace request =
     (if own workspace ''workspaceRev'' \<noteq> Some (JNum (expectedWorkspaceRev request)) then None
      else case apply_intent workspace (vr_intent request) of
             None \<Rightarrow> None
           | Some after \<Rightarrow> createCommand workspace after request)"

text \<open>The outer \<open>None\<close> is an exception of the validation.\<close>

definition createWorkspaceVfsIntentPlan :: "validators \<Rightarrow> json \<Rightarrow> vfs_request \<Rightarrow> command option option" where
  "createWorkspaceVfsIntentPlan V workspace request =
     (case createWorkspaceVfsIntentCommandPlan workspace request of
        None \<Rightarrow> Some None
      | Some command \<Rightarrow>
          (case applyWorkspaceCommand V workspace command of
             Inr _ \<Rightarrow> Some (Some command)
           | Inl (Issues _) \<Rightarrow> Some None
           | Inl Thrown \<Rightarrow> None))"

end
