(* ===== verification/VfsFactory.thy ===== *)
theory VfsFactory
  imports VfsIntent
begin

text \<open>
  The creators of commands and requests: \<open>workspaceDocumentFactory.ts\<close>, which mounts a document at its
  path and collects the patches on the way, and the creators of \<open>workspaceCommand.ts\<close>. A thrown
  \<open>WorkspaceDocumentFactoryError\<close> is \<open>Inl\<close> with its code and path; its message is not modelled. The
  workspace and the document are values of their declared types, as in \<open>VfsIntent\<close>.
\<close>

section \<open>Documents at a path\<close>

datatype factory_error_code = FactoryInvalidId | FactoryInvalidPath | FactoryDuplicateId
  | FactoryDuplicatePath | FactoryVfsConflict | FactoryNodeIdCollision

record factory_error =
  fe_code :: factory_error_code
  fe_path :: string

definition refuse_with :: "factory_error_code \<Rightarrow> string \<Rightarrow> factory_error" where
  "refuse_with code path = \<lparr>fe_code = code, fe_path = path\<rparr>"

definition normalizeCanonicalDocumentPath :: "string \<Rightarrow> factory_error + string list" where
  "normalizeCanonicalDocumentPath path =
     (let source = replace_char CHR 0x5C ''/'' (js_trim path);
          refused = Inl (refuse_with FactoryInvalidPath ''/document/path'');
          segments = drop 1 (split_on CHR ''/'' source)
      in if \<not> starts_with source ''/'' then refused
         else if segments = [] \<or> list_ex (\<lambda>s. s = '''' \<or> s \<noteq> js_trim s \<or> s = ''.'' \<or> s = ''..'') segments then refused
         else if source \<noteq> path_text segments then refused
         else Inr segments)"

definition tryNormalizeDocumentPath :: "string \<Rightarrow> string option" where
  "tryNormalizeDocumentPath path =
     (case normalizeCanonicalDocumentPath path of Inl _ \<Rightarrow> None | Inr segments \<Rightarrow> Some (path_text segments))"

text \<open>
  The id of a new node. The id factory of the caller is given by what its calls return: the number
  of the call and the preferred id determine the id.
\<close>

type_synonym id_factory = "nat \<Rightarrow> string \<Rightarrow> string"

definition factory_node_id :: "id_factory option \<Rightarrow> nat \<Rightarrow> entries \<Rightarrow> string \<Rightarrow> factory_error + string" where
  "factory_node_id idFactory call T preferredId =
     (case idFactory of
        Some f \<Rightarrow>
          let candidate = js_trim (f call preferredId) in
          if candidate = '''' then Inl (refuse_with FactoryInvalidId ''/idFactory'')
          else if truthy_at T candidate \<noteq> None
            then Inl (refuse_with FactoryNodeIdCollision (node_pointer candidate))
          else Inr candidate
      | None \<Rightarrow>
          if truthy_at T preferredId \<noteq> None
          then Inl (refuse_with FactoryNodeIdCollision (node_pointer preferredId)) else Inr preferredId)"

text \<open>The tree so far and the pairs of a forward and a reverse operation.\<close>

record at_path_plan =
  ap_tree :: entries
  ap_patches :: "(patch_op \<times> patch_op) list"

definition appendNode :: "string \<Rightarrow> string \<Rightarrow> json \<Rightarrow> at_path_plan \<Rightarrow> factory_error + at_path_plan" where
  "appendNode parentId i node plan =
     (let conflict = Inl (refuse_with FactoryVfsConflict (node_pointer parentId)) in
      case truthy_at (ap_tree plan) parentId of
        None \<Rightarrow> conflict
      | Some parent \<Rightarrow>
          (case own parent ''children'' of
             Some (JArr children) \<Rightarrow>
               if \<not> has_kind parent ''dir'' then conflict
               else let childIndex = length children in
                 Inr \<lparr>ap_tree = alist_put parentId (put_own ''children'' (JArr (children @ [JStr i])) parent)
                          (alist_put i node (ap_tree plan)),
                      ap_patches = ap_patches plan @
                        [(patch_at OpAdd (node_pointer i) (Some node), patch_at OpRemove (node_pointer i) None),
                         (patch_at OpAdd (node_pointer parentId @ ''/children/-'') (Some (JStr i)),
                          patch_at OpRemove (node_pointer parentId @ ''/children/'' @ nat_text childIndex) None)]\<rparr>
           | _ \<Rightarrow> conflict))"

text \<open>The directories of the path, each found or created; with the id of the last and the calls of the id factory.\<close>

fun append_directories ::
  "id_factory option \<Rightarrow> nat \<Rightarrow> string list \<Rightarrow> string list \<Rightarrow> string \<Rightarrow> at_path_plan \<Rightarrow>
   factory_error + (at_path_plan \<times> string \<times> nat)" where
  "append_directories idFactory call authored [] parentId plan = Inr (plan, parentId, call)"
| "append_directories idFactory call authored (directoryName # names) parentId plan =
     (case truthy_at (ap_tree plan) parentId of
        None \<Rightarrow> Inl (refuse_with FactoryVfsConflict (node_pointer parentId))
      | Some parent \<Rightarrow>
          if \<not> has_kind parent ''dir'' then Inl (refuse_with FactoryVfsConflict (node_pointer parentId))
          else (case getChildByName (ap_tree plan) parent directoryName of
             Some existing \<Rightarrow>
               if has_kind existing ''dir''
               then append_directories idFactory call (authored @ [directoryName]) names (text_of existing ''id'') plan
               else Inl (refuse_with FactoryVfsConflict (node_pointer (text_of existing ''id'')))
           | None \<Rightarrow>
               (case factory_node_id idFactory call (ap_tree plan)
                       (createWorkspacePathNodeId ''dir'' (authored @ [directoryName])) of
                  Inl e \<Rightarrow> Inl e
                | Inr directoryId \<Rightarrow>
                    (case appendNode parentId directoryId (dir_node directoryId directoryName parentId) plan of
                       Inl e \<Rightarrow> Inl e
                     | Inr plan' \<Rightarrow>
                         append_directories idFactory (Suc call) (authored @ [directoryName]) names directoryId plan'))))"

record document_plan =
  dp_snapshot :: json
  dp_documentNodeId :: string
  dp_patches :: "(patch_op \<times> patch_op) list"

definition planWorkspaceDocumentAtPath ::
  "json \<Rightarrow> json \<Rightarrow> id_factory option \<Rightarrow> factory_error + document_plan" where
  "planWorkspaceDocumentAtPath workspace document idFactory =
     (let documentId = text_of document ''id''; docs = docs_of workspace; T = tree_entries workspace;
          rootId = text_of workspace ''treeRootId''
      in if js_trim documentId = '''' \<or> documentId \<noteq> js_trim documentId
         then Inl (refuse_with FactoryInvalidId ''/document/id'')
         else if truthy_at docs documentId \<noteq> None
         then Inl (refuse_with FactoryDuplicateId (document_pointer documentId))
         else (case normalizeCanonicalDocumentPath (text_of document ''path'') of
           Inl e \<Rightarrow> Inl e
         | Inr segments \<Rightarrow>
             if list_ex (\<lambda>candidate. tryNormalizeDocumentPath (text_of candidate ''path'') = Some (path_text segments)) (map snd docs)
             then Inl (refuse_with FactoryDuplicatePath ''/document/path'')
             else if (case truthy_at T rootId of
                 None \<Rightarrow> True
               | Some rootNode \<Rightarrow> \<not> has_kind rootNode ''dir'' \<or> own rootNode ''parentId'' \<noteq> Some JNull \<or>
                   (case own rootNode ''children'' of Some (JArr _) \<Rightarrow> False | _ \<Rightarrow> True))
             then Inl (refuse_with FactoryVfsConflict ''/treeRootId'')
             else (case append_directories idFactory 0 [] (butlast segments) rootId
                 \<lparr>ap_tree = T, ap_patches =
                    [(patch_at OpAdd (document_pointer documentId) (Some document),
                      patch_at OpRemove (document_pointer documentId) None)]\<rparr> of
               Inl e \<Rightarrow> Inl e
             | Inr (plan, parentId, call) \<Rightarrow>
                 let fileName = last segments in
                 (case truthy_at (ap_tree plan) parentId of
                    None \<Rightarrow> Inl (refuse_with FactoryVfsConflict (node_pointer parentId))
                  | Some parent \<Rightarrow>
                      if \<not> has_kind parent ''dir'' then Inl (refuse_with FactoryVfsConflict (node_pointer parentId))
                      else if getChildByName (ap_tree plan) parent fileName \<noteq> None
                      then Inl (refuse_with FactoryDuplicatePath ''/document/path'')
                      else (case factory_node_id idFactory call (ap_tree plan) (createWorkspaceDocumentNodeId documentId) of
                         Inl e \<Rightarrow> Inl e
                       | Inr documentNodeId \<Rightarrow>
                           (case appendNode parentId documentNodeId
                                (doc_node documentNodeId fileName parentId documentId) plan of
                              Inl e \<Rightarrow> Inl e
                            | Inr plan' \<Rightarrow>
                                Inr \<lparr>dp_snapshot = with_docs (alist_put documentId document docs)
                                       (with_tree (ap_tree plan') workspace),
                                     dp_documentNodeId = documentNodeId, dp_patches = ap_patches plan'\<rparr>))))))"

definition workspace_command ::
  "string \<Rightarrow> string \<Rightarrow> string \<Rightarrow> string \<Rightarrow> string option \<Rightarrow> (patch_op \<times> patch_op) list \<Rightarrow> command" where
  "workspace_command commandId type issuedAt workspaceId label patches =
     \<lparr>cmd_id = commandId, cmd_namespace = ''core.workspace'', cmd_type = type, cmd_version = ''1.0'',
      cmd_issuedAt = issuedAt, forwardOps = map fst patches, reverseOps = rev (map snd patches),
      cmd_target = \<lparr>target_workspaceId = workspaceId, target_documentId = None, target_routeNodeId = None\<rparr>,
      cmd_mergeKey = None, cmd_label = label, domainHint = Some DomWorkspace\<rparr>"

definition createWorkspaceDocumentAtPathCommand ::
  "json \<Rightarrow> json \<Rightarrow> string \<Rightarrow> string \<Rightarrow> id_factory option \<Rightarrow> string option \<Rightarrow> factory_error + command" where
  "createWorkspaceDocumentAtPathCommand workspace document commandId issuedAt idFactory label =
     (case planWorkspaceDocumentAtPath workspace document idFactory of
        Inl e \<Rightarrow> Inl e
      | Inr plan \<Rightarrow>
          Inr (workspace_command commandId ''document.create-at-path'' issuedAt (text_of workspace ''id'')
            (Some (or_else label (''Create '' @ text_of document ''path''))) (dp_patches plan)))"

section \<open>Code documents\<close>

definition joinWorkspacePath :: "string \<Rightarrow> string \<Rightarrow> string" where
  "joinWorkspacePath parentPath name =
     (let normalizedName = js_trim name in
      if normalizedName = '''' \<or> normalizedName = ''/'' then parentPath
      else if parentPath = ''/'' then ''/'' @ normalizedName
      else parentPath @ ''/'' @ normalizedName)"

definition getWorkspaceNodePath :: "json \<Rightarrow> string \<Rightarrow> string option" where
  "getWorkspaceNodePath snapshot nodeId =
     map_of (collect_walk (tree_entries snapshot) (\<lambda>node. if has_kind node ''dir'' then child_ids node else [])
       (\<lambda>currentPath node. if own node ''parentId'' = Some JNull then ''/''
          else joinWorkspacePath currentPath (text_of node ''name''))
       [(text_of snapshot ''treeRootId'', ''/'')] []) nodeId"

text \<open>The ids go into the pointers as they are.\<close>

definition createWorkspaceCodeDocumentCommand ::
  "json \<Rightarrow> string \<Rightarrow> string \<Rightarrow> string \<Rightarrow> string \<Rightarrow> string \<Rightarrow> string \<Rightarrow> json \<Rightarrow> string option \<Rightarrow> command" where
  "createWorkspaceCodeDocumentCommand workspace commandId issuedAt parentNodeId documentId nodeId name content label =
     (let parentNode = truthy_at (tree_entries workspace) parentNodeId;
          parentChildren = (case parentNode of
            Some node \<Rightarrow> if has_kind node ''dir'' then getDirectoryChildren node else [] | None \<Rightarrow> []);
          parentPath = (case parentNode of Some _ \<Rightarrow> getWorkspaceNodePath workspace parentNodeId | None \<Rightarrow> None);
          document = JObj [(''id'', JStr documentId), (''type'', JStr ''code''), (''name'', JStr name),
            (''path'', JStr (joinWorkspacePath (or_else parentPath ''/'') name)),
            (''contentRev'', JNum 1), (''metaRev'', JNum 1), (''content'', content)]
      in workspace_command commandId ''code-document.create'' issuedAt (text_of workspace ''id'')
           (case label of Some l \<Rightarrow> if l = '''' then None else Some l | None \<Rightarrow> None)
           [(patch_at OpAdd (''/docsById/'' @ documentId) (Some document), patch_at OpRemove (''/docsById/'' @ documentId) None),
            (patch_at OpAdd (''/treeById/'' @ nodeId) (Some (doc_node nodeId name parentNodeId documentId)),
             patch_at OpRemove (''/treeById/'' @ nodeId) None),
            (patch_at OpAdd (''/treeById/'' @ parentNodeId @ ''/children/-'') (Some (JStr nodeId)),
             patch_at OpRemove (''/treeById/'' @ parentNodeId @ ''/children/'' @ nat_text (length parentChildren)) None)])"

definition document_command ::
  "string \<Rightarrow> string \<Rightarrow> string \<Rightarrow> string \<Rightarrow> string \<Rightarrow> string \<Rightarrow> string \<Rightarrow> (patch_op \<times> patch_op) list \<Rightarrow> command" where
  "document_command commandId type issuedAt workspaceId documentId mergeKey label patches =
     \<lparr>cmd_id = commandId, cmd_namespace = ''core.code'', cmd_type = type, cmd_version = ''1.0'',
      cmd_issuedAt = issuedAt, forwardOps = map fst patches, reverseOps = rev (map snd patches),
      cmd_target = \<lparr>target_workspaceId = workspaceId, target_documentId = Some documentId, target_routeNodeId = None\<rparr>,
      cmd_mergeKey = Some mergeKey, cmd_label = Some label, domainHint = Some DomCode\<rparr>"

definition createWorkspaceCodeSourceUpdateCommand ::
  "validators \<Rightarrow> string \<Rightarrow> json \<Rightarrow> string \<Rightarrow> string \<Rightarrow> string \<Rightarrow> string option \<Rightarrow> string option \<Rightarrow> command option" where
  "createWorkspaceCodeSourceUpdateCommand V workspaceId document source commandId issuedAt mergeKey label =
     (case own document ''content'' of
        Some content \<Rightarrow>
          if own document ''type'' \<noteq> Some (JStr ''code'') \<or> \<not> isWorkspaceCodeDocumentContent V content \<or>
             text_of content ''source'' = source
          then None
          else Some (document_command commandId ''source.update'' issuedAt workspaceId (text_of document ''id'')
            (or_else mergeKey (''code-source:'' @ text_of document ''id''))
            (or_else label (''Update '' @ text_of document ''path''))
            [(patch_at OpReplace ''/source'' (Some (JStr source)),
              patch_at OpReplace ''/source'' (own content ''source''))])
      | None \<Rightarrow> None)"

text \<open>Equality of optional members with \<open>valuesEqual\<close>; an absent member equals only an absent one.\<close>

definition members_equal :: "json option \<Rightarrow> json option \<Rightarrow> bool" where
  "members_equal a b \<longleftrightarrow>
     (case (a, b) of (None, None) \<Rightarrow> True | (Some x, Some y) \<Rightarrow> valuesEqual x y | _ \<Rightarrow> False)"

definition content_patches :: "json \<Rightarrow> json \<Rightarrow> (patch_op \<times> patch_op) list" where
  "content_patches old new =
     concat (map (\<lambda>field.
         if own old field = own new field then []
         else [(patch_at OpReplace (''/'' @ field) (own new field), patch_at OpReplace (''/'' @ field) (own old field))])
       [''language'', ''source'']) @
     (if members_equal (own old ''metadata'') (own new ''metadata'') then []
      else (case member_patch ''/metadata'' (own old ''metadata'') (own new ''metadata'') of Some p \<Rightarrow> [p] | None \<Rightarrow> []))"

definition createWorkspaceCodeContentUpdateCommand ::
  "validators \<Rightarrow> string \<Rightarrow> json \<Rightarrow> json \<Rightarrow> string \<Rightarrow> string \<Rightarrow> string option \<Rightarrow> string option \<Rightarrow> command option" where
  "createWorkspaceCodeContentUpdateCommand V workspaceId document content commandId issuedAt mergeKey label =
     (case own document ''content'' of
        Some old \<Rightarrow>
          if own document ''type'' \<noteq> Some (JStr ''code'') \<or> \<not> isWorkspaceCodeDocumentContent V old \<or>
             content_patches old content = []
          then None
          else Some (document_command commandId ''content.update'' issuedAt workspaceId (text_of document ''id'')
            (or_else mergeKey (''code-content:'' @ text_of document ''id''))
            (or_else label (''Update '' @ text_of document ''path'')) (content_patches old content))
      | None \<Rightarrow> None)"

section \<open>Requests\<close>

text \<open>\<open>...(value ? { value } : {})\<close>\<close>

definition when_truthy :: "string option \<Rightarrow> string option" where
  "when_truthy v = (case v of Some s \<Rightarrow> if s = '''' then None else Some s | None \<Rightarrow> None)"

definition vfs_request_of :: "rat \<Rightarrow> string \<Rightarrow> string \<Rightarrow> string option \<Rightarrow> vfs_intent \<Rightarrow> vfs_request" where
  "vfs_request_of workspaceRev intentId issuedAt clientMutationId intent =
     \<lparr>expectedWorkspaceRev = workspaceRev, vr_id = intentId, vr_issuedAt = issuedAt, vr_intent = intent,
      vr_clientMutationId = when_truthy clientMutationId\<rparr>"

definition createWorkspaceCodeDocumentIntentRequest ::
  "rat \<Rightarrow> string \<Rightarrow> string \<Rightarrow> string \<Rightarrow> string option \<Rightarrow> string option \<Rightarrow> string \<Rightarrow> json \<Rightarrow> string option \<Rightarrow> vfs_request" where
  "createWorkspaceCodeDocumentIntentRequest workspaceRev intentId issuedAt documentId nodeId parentNodeId path content clientMutationId =
     vfs_request_of workspaceRev intentId issuedAt clientMutationId
       (CreateDocument documentId (when_truthy nodeId) (when_truthy parentNodeId) path None content)"

definition renameWorkspaceCodeDocumentIntentRequest ::
  "rat \<Rightarrow> string \<Rightarrow> string \<Rightarrow> string \<Rightarrow> string \<Rightarrow> string option \<Rightarrow> vfs_request" where
  "renameWorkspaceCodeDocumentIntentRequest workspaceRev intentId issuedAt documentId path clientMutationId =
     vfs_request_of workspaceRev intentId issuedAt clientMutationId (RenameDocument documentId path None)"

definition deleteWorkspaceCodeDocumentIntentRequest ::
  "rat \<Rightarrow> string \<Rightarrow> string \<Rightarrow> string \<Rightarrow> string option \<Rightarrow> vfs_request" where
  "deleteWorkspaceCodeDocumentIntentRequest workspaceRev intentId issuedAt documentId clientMutationId =
     vfs_request_of workspaceRev intentId issuedAt clientMutationId (DeleteDocument documentId None)"

definition createWorkspaceDocumentIntentRequest ::
  "rat \<Rightarrow> string \<Rightarrow> string \<Rightarrow> string \<Rightarrow> string option \<Rightarrow> string option \<Rightarrow> string \<Rightarrow> string \<Rightarrow> json \<Rightarrow> string option \<Rightarrow> vfs_request" where
  "createWorkspaceDocumentIntentRequest workspaceRev intentId issuedAt documentId nodeId parentNodeId path type content clientMutationId =
     vfs_request_of workspaceRev intentId issuedAt clientMutationId
       (CreateDocument documentId (when_truthy nodeId) (when_truthy parentNodeId) path (Some type) content)"

definition renameWorkspaceDocumentIntentRequest ::
  "rat \<Rightarrow> string \<Rightarrow> string \<Rightarrow> string \<Rightarrow> string \<Rightarrow> string \<Rightarrow> string option \<Rightarrow> vfs_request" where
  "renameWorkspaceDocumentIntentRequest workspaceRev intentId issuedAt documentId path type clientMutationId =
     vfs_request_of workspaceRev intentId issuedAt clientMutationId (RenameDocument documentId path (Some type))"

definition deleteWorkspaceDocumentIntentRequest ::
  "rat \<Rightarrow> string \<Rightarrow> string \<Rightarrow> string \<Rightarrow> string \<Rightarrow> string option \<Rightarrow> vfs_request" where
  "deleteWorkspaceDocumentIntentRequest workspaceRev intentId issuedAt documentId type clientMutationId =
     vfs_request_of workspaceRev intentId issuedAt clientMutationId (DeleteDocument documentId (Some type))"

definition createWorkspaceDirectoryIntentRequest ::
  "rat \<Rightarrow> string \<Rightarrow> string \<Rightarrow> string \<Rightarrow> string option \<Rightarrow> string \<Rightarrow> string option \<Rightarrow> vfs_request" where
  "createWorkspaceDirectoryIntentRequest workspaceRev intentId issuedAt nodeId parentNodeId name clientMutationId =
     vfs_request_of workspaceRev intentId issuedAt clientMutationId (CreateDirectory nodeId (when_truthy parentNodeId) name)"

definition renameWorkspaceDirectoryIntentRequest ::
  "rat \<Rightarrow> string \<Rightarrow> string \<Rightarrow> string \<Rightarrow> string \<Rightarrow> string option \<Rightarrow> vfs_request" where
  "renameWorkspaceDirectoryIntentRequest workspaceRev intentId issuedAt nodeId name clientMutationId =
     vfs_request_of workspaceRev intentId issuedAt clientMutationId (RenameDirectory nodeId name)"

definition deleteWorkspaceDirectoryIntentRequest ::
  "rat \<Rightarrow> string \<Rightarrow> string \<Rightarrow> string \<Rightarrow> string option \<Rightarrow> vfs_request" where
  "deleteWorkspaceDirectoryIntentRequest workspaceRev intentId issuedAt nodeId clientMutationId =
     vfs_request_of workspaceRev intentId issuedAt clientMutationId (DeleteDirectory nodeId)"

end
