(* ===== verification/VfsPatches.thy ===== *)
theory VfsPatches
  imports VfsFactory VfsCommands
begin

text \<open>
  The laws of the commands that the edits of the file tree become. \<open>exact_run\<close> is a run of patch pairs
  in which the reverse operation of every pair undoes its forward operation; the operations of such a
  run lead from its first state to its last and, reversed, back. The pairs \<open>intent_patches\<close> collects
  are such a run from the workspace before an edit to the workspace after it.
\<close>

section \<open>Runs of patch pairs\<close>

inductive exact_run :: "json \<Rightarrow> (patch_op \<times> patch_op) list \<Rightarrow> json \<Rightarrow> bool" where
  exact_Nil: "exact_run s [] s"
| exact_Cons: "apply_patch_op s f = Inr m \<Longrightarrow> apply_patch_op m r = Inr s' \<Longrightarrow> json_eqv s' s \<Longrightarrow> wf_op f \<Longrightarrow> wf_op r \<Longrightarrow>
    exact_run m ps t \<Longrightarrow> exact_run s ((f, r) # ps) t"

lemma exact_run_append: "exact_run s ps m \<Longrightarrow> exact_run m qs t \<Longrightarrow> exact_run s (ps @ qs) t"
  by (induction rule: exact_run.induct) (auto intro: exact_run.intros)

lemma exact_run_ops: "exact_run s ps t \<Longrightarrow> \<forall>p \<in> set ps. wf_op (fst p) \<and> wf_op (snd p)"
  by (induction rule: exact_run.induct) auto

lemma exact_run_forward: "exact_run s ps t \<Longrightarrow> applyPatchOperations s (map fst ps) = Inr t"
  by (induction rule: exact_run.induct) auto

lemma exact_run_reverse:
  "exact_run s ps t \<Longrightarrow> wf_json s \<Longrightarrow> \<exists>b. applyPatchOperations t (rev (map snd ps)) = Inr b \<and> json_eqv b s"
proof (induction rule: exact_run.induct)
  case (exact_Cons s f m r s' ps t)
  have "wf_json m" using applyPatchOperations_wf [of s "[f]" m] exact_Cons by simp
  then obtain b where b: "applyPatchOperations t (rev (map snd ps)) = Inr b" "json_eqv b m"
    using exact_Cons.IH by blast
  have "rel_sum (=) json_eqv (applyPatchOperations b [r]) (applyPatchOperations m [r])"
    using exact_Cons b(2) by (intro applyPatchOperations_eqv) auto
  then obtain c where "applyPatchOperations b [r] = Inr c" "json_eqv c s'"
    using exact_Cons by (auto elim: rel_sum.cases)
  then show ?case
    using b exact_Cons(3) json_eqv_trans by (auto simp: applyPatchOperations_append)
qed simp

theorem exact_run_restores:
  assumes "exact_run s ps t" and "wf_json s"
  shows "patch_and_restore s (map fst ps) (rev (map snd ps)) = Inr t"
  using exact_run_forward [OF assms(1)] exact_run_reverse [OF assms]
  by (auto simp: patch_and_restore_def json_eqv_def)

section \<open>Changing one member\<close>

definition set_opt :: "string \<Rightarrow> json option \<Rightarrow> entries \<Rightarrow> entries" where
  "set_opt k v kvs = (case v of Some x \<Rightarrow> alist_put k x kvs | None \<Rightarrow> alist_del k kvs)"

lemma map_of_set_opt [simp]: "map_of (set_opt k v kvs) = (map_of kvs)(k := v)"
  by (cases v) (simp_all add: set_opt_def)

lemma distinct_set_opt [simp]: "distinct (map fst kvs) \<Longrightarrow> distinct (map fst (set_opt k v kvs))"
  by (cases v) (simp_all add: set_opt_def)

lemma alist_put_same: "map_of kvs k = Some v \<Longrightarrow> alist_put k v kvs = kvs"
  by (induction kvs) (auto split: if_splits)

lemma set_opt_same: "map_of kvs k = v \<Longrightarrow> set_opt k v kvs = kvs"
proof (cases v)
  case None
  moreover assume "map_of kvs k = v"
  ultimately have "k \<notin> fst ` set kvs" by (simp add: in_dom_map_of)
  with None show ?thesis by (auto simp: set_opt_def alist_del_def filter_id_conv)
qed (simp add: set_opt_def alist_put_same)

lemma update_parent_same: "value_at pre s = Some x \<Longrightarrow> update_parent pre (\<lambda>_. Some x) s = Some s"
  by (induction pre arbitrary: s) (auto simp: alist_put_same split: json.splits option.splits)

abbreviation member_pairs :: "string \<Rightarrow> json option \<Rightarrow> json option \<Rightarrow> (patch_op \<times> patch_op) list" where
  "member_pairs path before after \<equiv> (case member_patch path before after of Some p \<Rightarrow> [p] | None \<Rightarrow> [])"

lemma update_parent_const:
  "value_at pre s = Some x \<Longrightarrow> update_parent pre f s = update_parent pre (\<lambda>_. f x) s"
  by (induction pre arbitrary: s) (auto split: json.splits option.splits)

lemma member_run:
  assumes path: "parsePointer path = Some (pre @ [k])" and wf: "wf_json s"
    and parent: "value_at pre s = Some (JObj kvs)" and before: "map_of kvs k = before"
    and after: "\<forall>v. after = Some v \<longrightarrow> wf_json v"
    and s': "update_parent pre (\<lambda>_. Some (JObj (set_opt k after kvs))) s = Some s'"
  shows "exact_run s (member_pairs path before after) s'"
proof (cases "before = after")
  case True
  then have "s' = s" using s' before update_parent_same [OF parent] by (simp add: set_opt_same)
  then show ?thesis using True by (simp add: member_patch_def exact_Nil)
next
  case False
  have wf_before: "\<forall>v. before = Some v \<longrightarrow> wf_json v"
    using wf_json_map_of [OF value_at_wf [OF wf parent]] before by blast
  let ?t = "JObj (set_opt k after kvs)"
  have onward: "with_parent path f s = Some s'" if "f k (JObj kvs) = Some ?t" for f
    using that s' path update_parent_const [OF parent, of "f k"] by (simp add: with_parent_def)
  have backward: "\<exists>a. with_parent path g s' = Some a \<and> json_eqv a s"
    if "\<exists>x. g k ?t = Some x \<and> json_eqv x (JObj kvs)" for g
  proof -
    have "\<exists>a. update_parent pre (g k) s' = Some a \<and> json_eqv a s"
      using that parent by (intro update_parent_inverse [OF _ wf s']) auto
    then show ?thesis using path by (simp add: with_parent_def)
  qed
  have eqv: "json_eqv (JObj (set_opt k before (set_opt k after kvs))) (JObj kvs)"
    using value_at_wf [OF wf parent] before by (auto simp: json_eqv_JObj wf_json_JObj_iff option.rel_refl_strong)
  show ?thesis
  proof (cases before)
    case None
    then obtain v where v: "after = Some v" using False by (cases after) auto
    have "setValue s path v ModeAdd = Some s'"
      unfolding setValue_def using v by (intro onward) (simp add: set_child_def set_opt_def)
    moreover have "\<exists>a. removeValue s' path = Some a \<and> json_eqv a s"
      unfolding removeValue_def using v None eqv by (intro backward) (simp add: remove_child_def set_opt_def)
    ultimately show ?thesis
      using None v after
      by (auto simp: member_patch_def patch_at_def apply_patch_op_def Let_def wf_op_def intro!: exact_run.intros)
  next
    case w: (Some w)
    show ?thesis
    proof (cases after)
      case None
      have "removeValue s path = Some s'"
        unfolding removeValue_def using None w before by (intro onward) (simp add: remove_child_def set_opt_def)
      moreover have "\<exists>a. setValue s' path w ModeAdd = Some a \<and> json_eqv a s"
        unfolding setValue_def using None w eqv by (intro backward) (simp add: set_child_def set_opt_def)
      ultimately show ?thesis
        using None w wf_before
        by (auto simp: member_patch_def patch_at_def apply_patch_op_def Let_def wf_op_def intro!: exact_run.intros)
    next
      case v: (Some v)
      have "setValue s path v ModeReplace = Some s'"
        unfolding setValue_def using v w before by (intro onward) (simp add: set_child_def set_opt_def)
      moreover have "\<exists>a. setValue s' path w ModeReplace = Some a \<and> json_eqv a s"
        unfolding setValue_def using v w eqv by (intro backward) (simp add: set_child_def set_opt_def)
      ultimately show ?thesis
        using v w wf_before after False
        by (auto simp: member_patch_def patch_at_def apply_patch_op_def Let_def wf_op_def intro!: exact_run.intros)
    qed
  qed
qed

section \<open>The pointers\<close>

lemma parse_document_pointer: "parsePointer (document_pointer d) = Some [''docsById'', d]"
proof -
  have "document_pointer d = printJsonPointer [''docsById'', d]"
    by (simp add: document_pointer_def printJsonPointer_def appendJsonPointer_def escape_Cons)
  then show ?thesis by (simp add: parsePointer_print)
qed

lemma parse_field_pointer:
  assumes "field \<in> {''name'', ''path''}"
  shows "parsePointer (document_pointer d @ ''/'' @ field) = Some [''docsById'', d, field]"
proof -
  have "document_pointer d @ ''/'' @ field = printJsonPointer [''docsById'', d, field]"
    using assms by (auto simp: document_pointer_def printJsonPointer_def appendJsonPointer_def escape_Cons)
  then show ?thesis by (simp add: parsePointer_print)
qed

lemma parse_root_pointers:
  "parsePointer ''/treeById'' = Some [''treeById'']" "parsePointer ''/activeDocumentId'' = Some [''activeDocumentId'']"
  by code_simp+

section \<open>The documents\<close>

lemma alist_put_twice [simp]: "alist_put k v (alist_put k w kvs) = alist_put k v kvs"
  by (induction kvs) auto

lemma with_docs_simps:
  "with_docs D (JObj kvs) = JObj (alist_put ''docsById'' (JObj D) kvs)"
  "with_tree T (JObj kvs) = JObj (alist_put ''treeById'' (JObj T) kvs)"
  by (simp_all add: with_docs_def with_tree_def)

lemma wf_with_docs:
  "wf_json (JObj kvs) \<Longrightarrow> wf_json (JObj D) \<Longrightarrow> wf_json (with_docs D (JObj kvs))"
  unfolding with_docs_simps wf_json_JObj_iff by auto

lemma document_run:
  assumes wf: "wf_json (JObj kvs)" "wf_json (JObj D)" and D: "map_of D d = before"
    and after: "\<forall>v. after = Some v \<longrightarrow> wf_json v"
  shows "exact_run (with_docs D (JObj kvs)) (member_pairs (document_pointer d) before after)
    (with_docs (set_opt d after D) (JObj kvs))"
  by (rule member_run [where pre = "[''docsById'']" and k = d and kvs = D])
    (use assms wf_with_docs [OF wf] in \<open>simp_all add: parse_document_pointer with_docs_simps\<close>)

lemma field_run:
  assumes wf: "wf_json (JObj kvs)" "wf_json (JObj D)" and D: "map_of D d = Some (JObj m)"
    and field: "field \<in> {''name'', ''path''}" and after: "\<forall>v. after = Some v \<longrightarrow> wf_json v"
  shows "exact_run (with_docs D (JObj kvs)) (member_pairs (document_pointer d @ ''/'' @ field) (map_of m field) after)
    (with_docs (alist_put d (JObj (set_opt field after m)) D) (JObj kvs))"
  by (rule member_run [where pre = "[''docsById'', d]" and k = field and kvs = m])
    (use assms wf_with_docs [OF wf] parse_field_pointer [OF field] in \<open>simp_all add: with_docs_simps\<close>)

text \<open>Two versions of a document that differ in name and path only.\<close>

definition same_document :: "json \<Rightarrow> json \<Rightarrow> bool" where
  "same_document v w \<longleftrightarrow>
     isRecord v \<and> isRecord w \<and> (\<forall>k. k \<notin> {''name'', ''path''} \<longrightarrow> own v k = own w k)"

lemma wf_put: "wf_json (JObj kvs) \<Longrightarrow> wf_json v \<Longrightarrow> wf_json (JObj (alist_put k v kvs))"
  unfolding wf_json_JObj_iff by auto

lemma wf_set_opt: "wf_json (JObj kvs) \<Longrightarrow> \<forall>v. x = Some v \<longrightarrow> wf_json v \<Longrightarrow> wf_json (JObj (set_opt k x kvs))"
  unfolding wf_json_JObj_iff by auto

lemma rel_option_eqv_same: "\<forall>v. x = Some v \<longrightarrow> wf_json v \<Longrightarrow> rel_option json_eqv x x"
  by (cases x) auto

lemma truthy_record: "isRecord v \<Longrightarrow> truthy v"
  by (cases v) auto

lemma truthy_at_records: "\<forall>v. map_of E d = Some v \<longrightarrow> isRecord v \<Longrightarrow> truthy_at E d = map_of E d"
  by (cases "map_of E d") (simp_all add: truthy_at_def truthy_record del: map_of_eq_Some_iff)

lemma document_patches_run:
  assumes wf: "wf_json (JObj kvs)" "wf_json (JObj D)" "wf_json (JObj A)" and D: "map_of D d = map_of B d"
    and records: "\<forall>v. map_of B d = Some v \<longrightarrow> isRecord v" "\<forall>v. map_of A d = Some v \<longrightarrow> isRecord v"
    and same: "\<And>v w. map_of B d = Some v \<Longrightarrow> map_of A d = Some w \<Longrightarrow> same_document v w"
  shows "\<exists>D'. exact_run (with_docs D (JObj kvs)) (document_patches B A d) (with_docs D' (JObj kvs)) \<and>
    wf_json (JObj D') \<and> rel_option json_eqv (map_of D' d) (map_of A d) \<and> (\<forall>e. e \<noteq> d \<longrightarrow> map_of D' e = map_of D e)"
proof (cases "map_of B d \<noteq> None \<and> map_of A d \<noteq> None")
  case False
  have "truthy_at B d = map_of B d" "truthy_at A d = map_of A d"
    using records by (simp_all add: truthy_at_records)
  then have "document_patches B A d = member_pairs (document_pointer d) (map_of B d) (map_of A d)"
    using False by (auto simp: document_patches_def member_patch_def Let_def split: option.split)
  moreover have a: "\<forall>v. map_of A d = Some v \<longrightarrow> wf_json v" using wf_json_map_of [OF wf(3)] by blast
  ultimately show ?thesis
    using document_run [OF wf(1,2) D a] wf_set_opt [OF wf(2) a] rel_option_eqv_same [OF a]
    by (intro exI [of _ "set_opt d (map_of A d) D"]) (simp del: wf_json.simps)
next
  case True
  then obtain v w where vw: "map_of B d = Some v" "map_of A d = Some w" by auto
  obtain m n where mn: "v = JObj m" "w = JObj n"
    using same [OF vw] by (cases v; cases w) (simp_all add: same_document_def)
  have wf_n: "wf_json (JObj n)" "wf_json (JObj m)"
    using wf_json_map_of [OF wf(3), of d] wf_json_map_of [OF wf(2), of d] vw mn D by (simp_all del: wf_json.simps)
  let ?m = "set_opt ''name'' (map_of n ''name'') m"
  let ?D = "alist_put d (JObj ?m) D"
  let ?D' = "alist_put d (JObj (set_opt ''path'' (map_of n ''path'') ?m)) D"
  have members: "\<forall>v. map_of n k = Some v \<longrightarrow> wf_json v" for k using wf_json_map_of [OF wf_n(1)] by blast
  have wf_D: "wf_json (JObj ?D)" by (intro wf_put wf_set_opt wf(2) wf_n members)
  have "exact_run (with_docs D (JObj kvs)) (member_pairs (document_pointer d @ ''/'' @ ''name'') (map_of m ''name'') (map_of n ''name''))
      (with_docs ?D (JObj kvs))"
    using D vw mn members by (intro field_run wf(1,2)) (simp_all del: wf_json.simps)
  moreover have "exact_run (with_docs ?D (JObj kvs)) (member_pairs (document_pointer d @ ''/'' @ ''path'') (map_of ?m ''path'') (map_of n ''path''))
      (with_docs (alist_put d (JObj (set_opt ''path'' (map_of n ''path'') ?m)) ?D) (JObj kvs))"
    using members by (intro field_run wf(1) wf_D) (simp_all del: wf_json.simps)
  moreover have "document_patches B A d =
      member_pairs (document_pointer d @ ''/'' @ ''name'') (map_of m ''name'') (map_of n ''name'') @
      member_pairs (document_pointer d @ ''/'' @ ''path'') (map_of ?m ''path'') (map_of n ''path'')"
    using vw mn by (simp add: document_patches_def truthy_at_def metadataPatch_def)
  ultimately have "exact_run (with_docs D (JObj kvs)) (document_patches B A d) (with_docs ?D' (JObj kvs))"
    using exact_run_append by simp
  moreover have "json_eqv (JObj (set_opt ''path'' (map_of n ''path'') ?m)) (JObj n)"
  proof -
    have "map_of (set_opt ''path'' (map_of n ''path'') ?m) = map_of n"
      using same [OF vw] mn by (auto simp: same_document_def fun_eq_iff)
    then show ?thesis
      using wf_n members unfolding json_eqv_JObj wf_json_JObj_iff by (simp add: rel_option_eqv_same)
  qed
  moreover have "wf_json (JObj ?D')" by (intro wf_put wf_set_opt wf(2) wf_n members)
  ultimately show ?thesis using vw mn by (intro exI [of _ ?D']) (simp del: wf_json.simps)
qed

lemma documents_run:
  assumes wf: "wf_json (JObj kvs)" "wf_json (JObj A)"
    and records: "\<And>d v. map_of B d = Some v \<Longrightarrow> isRecord v" "\<And>d v. map_of A d = Some v \<Longrightarrow> isRecord v"
    and same: "\<And>d v w. map_of B d = Some v \<Longrightarrow> map_of A d = Some w \<Longrightarrow> same_document v w"
  shows "distinct ds \<Longrightarrow> wf_json (JObj D) \<Longrightarrow> \<forall>d \<in> set ds. map_of D d = map_of B d \<Longrightarrow>
    \<exists>D'. exact_run (with_docs D (JObj kvs)) (concat (map (document_patches B A) ds)) (with_docs D' (JObj kvs)) \<and>
      wf_json (JObj D') \<and> (\<forall>d \<in> set ds. rel_option json_eqv (map_of D' d) (map_of A d)) \<and>
      (\<forall>d. d \<notin> set ds \<longrightarrow> map_of D' d = map_of D d)"
proof (induction ds arbitrary: D)
  case Nil
  then show ?case using exact_Nil by auto
next
  case (Cons d ds)
  obtain M where M: "exact_run (with_docs D (JObj kvs)) (document_patches B A d) (with_docs M (JObj kvs))" "wf_json (JObj M)"
      "rel_option json_eqv (map_of M d) (map_of A d)" "\<forall>e. e \<noteq> d \<longrightarrow> map_of M e = map_of D e"
    using document_patches_run [OF wf(1) Cons.prems(2) wf(2), of d B] records same Cons.prems(3) by auto
  have "\<forall>e \<in> set ds. map_of M e = map_of B e" using M(4) Cons.prems(1,3) by auto
  then obtain D' where "exact_run (with_docs M (JObj kvs)) (concat (map (document_patches B A) ds)) (with_docs D' (JObj kvs))"
      "wf_json (JObj D')" "\<forall>d \<in> set ds. rel_option json_eqv (map_of D' d) (map_of A d)"
      "\<forall>d. d \<notin> set ds \<longrightarrow> map_of D' d = map_of M d"
    using Cons.IH [OF _ M(2)] Cons.prems(1) by auto
  moreover have "map_of D' d = map_of M d" using calculation(4) Cons.prems(1) by simp
  ultimately show ?case
    using M exact_run_append [OF M(1)] by (intro exI [of _ D']) (simp del: wf_json.simps)
qed

section \<open>The commands of edits\<close>

text \<open>
  An edit changes the tree, the documents and the active document and nothing else; documents it
  keeps change in name and path only.
\<close>

definition edits :: "json \<Rightarrow> json \<Rightarrow> bool" where
  "edits before after \<longleftrightarrow>
     isRecord before \<and> isRecord after \<and> wf_json before \<and> wf_json after \<and>
     (\<forall>k. k \<notin> {''treeById'', ''docsById'', ''activeDocumentId''} \<longrightarrow> own after k = own before k) \<and>
     own before ''treeById'' \<noteq> None \<and> own after ''treeById'' \<noteq> None \<and>
     own before ''docsById'' = Some (JObj (docs_of before)) \<and> own after ''docsById'' = Some (JObj (docs_of after)) \<and>
     (\<forall>d v. map_of (docs_of before) d = Some v \<longrightarrow> isRecord v) \<and>
     (\<forall>d v. map_of (docs_of after) d = Some v \<longrightarrow> isRecord v) \<and>
     (\<forall>d v w. map_of (docs_of before) d = Some v \<longrightarrow> map_of (docs_of after) d = Some w \<longrightarrow> same_document v w)"

lemma top_member_run:
  assumes "wf_json (JObj kvs)" and "parsePointer path = Some [k]" and "\<forall>v. after = Some v \<longrightarrow> wf_json v"
  shows "exact_run (JObj kvs) (member_pairs path (map_of kvs k) after) (JObj (set_opt k after kvs))"
  by (rule member_run [where pre = "[]" and k = k and kvs = kvs]) (use assms in simp_all)

theorem edit_run:
  assumes "edits before after"
  shows "\<exists>r. exact_run before (intent_patches before after) r \<and> json_eqv r after"
proof -
  obtain kvs where b: "before = JObj kvs" using assms by (cases before) (auto simp: edits_def)
  obtain avs where a: "after = JObj avs" using assms by (cases after) (auto simp: edits_def)
  let ?B = "docs_of before" and ?A = "docs_of after"
  have docs: "map_of kvs ''docsById'' = Some (JObj ?B)" "map_of avs ''docsById'' = Some (JObj ?A)"
    using assms a b by (auto simp: edits_def)
  have wf: "wf_json (JObj kvs)" "wf_json (JObj avs)" using assms a b by (auto simp: edits_def)
  have wf_docs: "wf_json (JObj ?B)" "wf_json (JObj ?A)"
    using wf_json_map_of [OF wf(1) docs(1)] wf_json_map_of [OF wf(2) docs(2)] .
  let ?ds = "sort (js_set (map fst ?B @ map fst ?A))"
  have start: "with_docs ?B (JObj kvs) = before" using docs(1) b by (simp add: with_docs_simps alist_put_same)
  obtain D where D: "exact_run before (concat (map (document_patches ?B ?A) ?ds)) (with_docs D (JObj kvs))"
      "wf_json (JObj D)" "\<forall>d \<in> set ?ds. rel_option json_eqv (map_of D d) (map_of ?A d)"
      "\<forall>d. d \<notin> set ?ds \<longrightarrow> map_of D d = map_of ?B d"
  proof (atomize_elim, rule documents_run [of kvs ?A ?B ?ds ?B, unfolded start])
    show "map_of ?B d = Some v \<Longrightarrow> map_of ?A d = Some w \<Longrightarrow> same_document v w" for d v w
      using assms unfolding edits_def by blast
  qed (use assms wf wf_docs in \<open>auto simp: edits_def\<close>)
  have docs_eqv: "json_eqv (JObj D) (JObj ?A)"
  proof -
    have "rel_option json_eqv (map_of D d) (map_of ?A d)" for d
    proof (cases "d \<in> set ?ds")
      case False
      then have "map_of D d = None" "map_of ?A d = None" using D(4) by (simp_all add: map_of_eq_None_iff)
      then show ?thesis by simp
    qed (use D(3) in blast)
    then show ?thesis using D(2) wf_docs(2) unfolding json_eqv_JObj wf_json_JObj_iff by blast
  qed
  let ?s = "alist_put ''docsById'' (JObj D) kvs"
  let ?t = "set_opt ''treeById'' (map_of avs ''treeById'') ?s"
  let ?u = "set_opt ''activeDocumentId'' (map_of avs ''activeDocumentId'') ?t"
  have members: "\<forall>v. map_of avs k = Some v \<longrightarrow> wf_json v" for k using wf_json_map_of [OF wf(2)] by blast
  have wf_s: "wf_json (JObj ?s)" by (intro wf_put wf D(2))
  have wf_t: "wf_json (JObj ?t)" by (intro wf_set_opt wf_s members)
  have "exact_run (JObj ?s) (member_pairs ''/treeById'' (map_of kvs ''treeById'') (map_of avs ''treeById'')) (JObj ?t)"
    using top_member_run [OF wf_s parse_root_pointers(1) members] by simp
  moreover have "exact_run (JObj ?t)
      (member_pairs ''/activeDocumentId'' (map_of kvs ''activeDocumentId'') (map_of avs ''activeDocumentId'')) (JObj ?u)"
    using top_member_run [OF wf_t parse_root_pointers(2) members] by simp
  moreover have "intent_patches before after = concat (map (document_patches ?B ?A) ?ds) @
      member_pairs ''/treeById'' (map_of kvs ''treeById'') (map_of avs ''treeById'') @
      member_pairs ''/activeDocumentId'' (map_of kvs ''activeDocumentId'') (map_of avs ''activeDocumentId'')"
  proof -
    obtain T T' where "map_of kvs ''treeById'' = Some T" "map_of avs ''treeById'' = Some T'"
      using assms a b by (auto simp: edits_def)
    then show ?thesis unfolding intent_patches_def using a b by (simp add: member_patch_def)
  qed
  ultimately have "exact_run before (intent_patches before after) (JObj ?u)"
    using D(1) unfolding with_docs_simps by (auto intro!: exact_run_append)
  moreover have "json_eqv (JObj ?u) after"
  proof -
    have "rel_option json_eqv (map_of ?u k) (map_of avs k)" for k
    proof -
      have "map_of kvs k = map_of avs k" if "k \<notin> {''treeById'', ''docsById'', ''activeDocumentId''}"
        using assms that a b by (auto simp: edits_def)
      then show ?thesis
        using rel_option_eqv_same [OF members [of k]] docs_eqv docs(2) by (auto simp del: wf_json.simps)
    qed
    moreover have "distinct (map fst ?u)" using wf_t unfolding wf_json_JObj_iff by simp
    ultimately show ?thesis using wf(2) unfolding a json_eqv_JObj wf_json_JObj_iff by blast
  qed
  ultimately show ?thesis by blast
qed

end
