(* ===== verification/VfsEdits.thy ===== *)
theory VfsEdits
  imports VfsPatches
begin

text \<open>
  Every edit of the file tree changes the tree, the documents and the active document only, so that
  the command it becomes leads exactly from the workspace before the edit to the workspace after it.
\<close>

declare wf_json.simps(2) [simp del]

section \<open>Typed workspaces\<close>

definition typed_docs :: "entries \<Rightarrow> bool" where
  "typed_docs docs \<longleftrightarrow>
     wf_json (JObj docs) \<and> (\<forall>d v. map_of docs d = Some v \<longrightarrow> isRecord v \<and> own v ''id'' = Some (JStr d))"

definition typed_workspace :: "json \<Rightarrow> bool" where
  "typed_workspace ws \<longleftrightarrow>
     wf_json ws \<and> (\<exists>T. own ws ''treeById'' = Some (JObj T)) \<and> (\<exists>D. own ws ''docsById'' = Some (JObj D)) \<and>
     typed_docs (docs_of ws)"

lemma typed_workspaceE:
  assumes "typed_workspace ws"
  obtains kvs where "ws = JObj kvs" and "wf_json (JObj kvs)" and "map_of kvs ''treeById'' = Some (JObj (tree_entries ws))"
    and "map_of kvs ''docsById'' = Some (JObj (docs_of ws))" and "wf_json (JObj (tree_entries ws))"
    and "typed_docs (docs_of ws)"
proof -
  obtain kvs where kvs: "ws = JObj kvs" using assms by (cases ws) (auto simp: typed_workspace_def)
  moreover have "map_of kvs ''treeById'' = Some (JObj (tree_entries ws))" "map_of kvs ''docsById'' = Some (JObj (docs_of ws))"
    using assms kvs by (auto simp: typed_workspace_def tree_entries_def docs_of_def)
  ultimately show thesis
    using that assms wf_json_map_of [of kvs "''treeById''"] by (auto simp: typed_workspace_def)
qed

lemma wf_del: "wf_json (JObj kvs) \<Longrightarrow> wf_json (JObj (alist_del k kvs))"
  unfolding wf_json_JObj_iff by auto

lemma wf_put_own: "wf_json j \<Longrightarrow> wf_json v \<Longrightarrow> wf_json (put_own k v j)"
  by (cases j) (auto simp: wf_put)

lemma wf_delete_own: "wf_json j \<Longrightarrow> wf_json (delete_own k j)"
  by (cases j) (auto simp: wf_del)

lemma wf_children: "wf_json node \<Longrightarrow> \<forall>c \<in> set (getDirectoryChildren node). wf_json c"
  using own_eqv [of node node "''children''"]
  by (cases "own node ''children''") (auto simp: getDirectoryChildren_def split: json.splits)

lemma wf_append_child: "wf_json node \<Longrightarrow> wf_json (append_child i node)"
  unfolding append_child_def using wf_children by (intro wf_put_own) auto

lemma wf_remove_child: "wf_json node \<Longrightarrow> wf_json (remove_child_id i node)"
  unfolding remove_child_id_def using wf_children by (intro wf_put_own) auto

lemma wf_truthy_at: "wf_json (JObj T) \<Longrightarrow> truthy_at T i = Some v \<Longrightarrow> wf_json v"
  using wf_json_map_of by (auto simp: truthy_at_def split: option.splits if_splits)

lemma wf_new_nodes [simp]: "wf_json (dir_node i n p)" "wf_json (doc_node i n p d)"
  by (simp_all add: dir_node_def doc_node_def wf_json.simps(2))

lemma wf_ensure: "ensureDirectoryPath T p authored segments = Some (T', q) \<Longrightarrow> wf_json (JObj T) \<Longrightarrow> wf_json (JObj T')"
proof (induction T p authored segments rule: ensureDirectoryPath.induct)
  case (2 T p authored segment segments)
  then show ?case
    by (auto simp: Let_def wf_put wf_append_child [OF wf_truthy_at] split: option.splits if_splits)
qed simp

section \<open>Evolving documents\<close>

definition evolves :: "entries \<Rightarrow> entries \<Rightarrow> bool" where
  "evolves B A \<longleftrightarrow> typed_docs A \<and>
     (\<forall>d v w. map_of B d = Some v \<longrightarrow> map_of A d = Some w \<longrightarrow> same_document v w)"

lemma same_document_refl: "isRecord v \<Longrightarrow> same_document v v"
  by (simp add: same_document_def)

lemma evolves_refl: "typed_docs B \<Longrightarrow> evolves B B"
  by (auto simp: evolves_def typed_docs_def same_document_refl)

lemma typed_put:
  "typed_docs A \<Longrightarrow> wf_json v \<Longrightarrow> isRecord v \<Longrightarrow> own v ''id'' = Some (JStr d) \<Longrightarrow> typed_docs (alist_put d v A)"
  by (auto simp: typed_docs_def wf_put)

lemma evolves_add:
  assumes "evolves B A" and "map_of B d = None" and "wf_json v" and "isRecord v" and "own v ''id'' = Some (JStr d)"
  shows "evolves B (alist_put d v A)"
  using assms typed_put by (auto simp: evolves_def)

lemma evolves_delete: "evolves B A \<Longrightarrow> evolves B (alist_del d A)"
  by (auto simp: evolves_def typed_docs_def wf_del split: if_splits)

text \<open>A document with a new name and path.\<close>

lemma evolves_rename:
  assumes "evolves B A" and "truthy_at A d = Some document"
  shows "evolves B (alist_put (text_of document ''id'')
    (put_own ''path'' (JStr path) (put_own ''name'' (JStr name) document)) A)"
proof -
  have at: "map_of A d = Some document" using assms(2) by (auto simp: truthy_at_def split: option.splits if_splits)
  then have doc: "isRecord document" "own document ''id'' = Some (JStr d)" "wf_json document"
    using assms(1) wf_json_map_of by (auto simp: evolves_def typed_docs_def)
  then obtain m where m: "document = JObj m" by (cases document) auto
  let ?w = "put_own ''path'' (JStr path) (put_own ''name'' (JStr name) document)"
  have w: "wf_json ?w" "isRecord ?w" "own ?w ''id'' = Some (JStr d)" "same_document document ?w"
    using doc m by (auto simp: wf_put same_document_def)
  moreover have "same_document v ?w" if "map_of B d = Some v" for v
    using assms(1) that at w(4) by (auto simp: evolves_def same_document_def)
  moreover have "text_of document ''id'' = d" using doc(2) by (simp add: text_of_def)
  ultimately show ?thesis using assms(1) typed_put [of A ?w d] by (auto simp: evolves_def)
qed

lemma evolves_rename_descendants:
  "rename_descendants T r docs is = Some docs' \<Longrightarrow> evolves B docs \<Longrightarrow> evolves B docs'"
proof (induction "is" arbitrary: docs)
  case (Cons i "is")
  then obtain M where M: "rename_descendant T r docs i = Some M" "rename_descendants T r M is = Some docs'"
    by (auto split: option.splits)
  have "evolves B M"
    using M(1) Cons.prems(2) evolves_rename
    by (auto simp: rename_descendant_def split: option.splits if_splits)
  then show ?case using Cons.IH [OF M(2)] by blast
qed simp

section \<open>Edits\<close>

lemma edits_intro:
  assumes typed: "typed_workspace ws" and T: "wf_json (JObj T)" and D: "evolves (docs_of ws) D"
  shows "edits ws (with_docs D (with_tree T ws))"
proof -
  obtain kvs where kvs: "ws = JObj kvs" "wf_json (JObj kvs)" "map_of kvs ''treeById'' = Some (JObj (tree_entries ws))"
      "map_of kvs ''docsById'' = Some (JObj (docs_of ws))" "typed_docs (docs_of ws)"
    using typed by (rule typed_workspaceE)
  have wf_D: "wf_json (JObj D)" using D by (simp add: evolves_def typed_docs_def)
  have "with_docs D (with_tree T ws) = JObj (alist_put ''docsById'' (JObj D) (alist_put ''treeById'' (JObj T) kvs))"
    by (simp add: kvs(1) with_docs_simps)
  moreover have "wf_json (JObj (alist_put ''docsById'' (JObj D) (alist_put ''treeById'' (JObj T) kvs)))"
    by (intro wf_put kvs(2) T wf_D)
  moreover have "docs_of (with_docs D (with_tree T ws)) = D"
    by (simp add: kvs(1) with_docs_simps docs_of_def)
  ultimately show ?thesis
    using kvs D by (auto simp: edits_def evolves_def typed_docs_def)
qed

lemma edits_same:
  assumes "edits ws after" and "isRecord after'" and "wf_json after'" and "docs_of after' = docs_of after"
    and "\<And>k. k \<noteq> ''activeDocumentId'' \<Longrightarrow> own after' k = own after k"
  shows "edits ws after'"
  using assms by (simp add: edits_def)

lemma edits_active:
  assumes "edits ws after"
  shows "edits ws (put_own ''activeDocumentId'' (JStr d) after)" and "edits ws (delete_own ''activeDocumentId'' after)"
proof -
  obtain kvs where kvs: "after = JObj kvs" using assms by (cases after) (auto simp: edits_def)
  have wf: "wf_json after" using assms by (simp add: edits_def)
  show "edits ws (put_own ''activeDocumentId'' (JStr d) after)"
    by (rule edits_same [OF assms]) (use wf_put_own [OF wf] in \<open>simp_all add: kvs docs_of_def\<close>)
  show "edits ws (delete_own ''activeDocumentId'' after)"
    by (rule edits_same [OF assms]) (use wf_delete_own [OF wf] in \<open>simp_all add: kvs docs_of_def\<close>)
qed

lemma edits_update_active: "edits ws after \<Longrightarrow> edits ws (updateActiveDocument after)"
  by (auto simp: updateActiveDocument_def Let_def edits_active split: list.split)

lemma wf_deletes: "wf_json (JObj T) \<Longrightarrow> wf_json (JObj (foldl (\<lambda>T k. alist_del k T) T ks))"
  by (induction ks arbitrary: T) (simp_all add: wf_del)

lemma evolves_deletes: "evolves B A \<Longrightarrow> evolves B (foldl (\<lambda>docs d. alist_del d docs) A ds)"
  by (induction ds arbitrary: A) (simp_all add: evolves_delete)

text \<open>The intents one by one; the content of a new document is a well formed value.\<close>

lemma wf_move_node:
  assumes "wf_json (JObj T)" and "wf_json node" and "wf_json (snd current)" and "wf_json (snd nxt)"
  shows "wf_json (JObj (move_node T node current nxt name))"
  using assms by (auto simp: move_node_def Let_def intro!: wf_put wf_put_own wf_append_child wf_remove_child)

lemma wf_found:
  assumes "wf_json (JObj T)" and "findDocumentNode T d = Some node"
  shows "wf_json node"
proof -
  have "node \<in> snd ` set T" using assms(2) by (auto simp: findDocumentNode_def find_Some_iff nth_mem)
  then show ?thesis using assms(1) by (auto simp: wf_json.simps(2))
qed

lemma parent_dir_Some:
  "parent_dir T node = Some (p, parent) \<longleftrightarrow>
     own node ''parentId'' = Some (JStr p) \<and> truthy_at T p = Some parent \<and> has_kind parent ''dir''"
  by (auto simp: parent_dir_def split: option.splits json.splits if_splits)

definition document_node_id :: "string option \<Rightarrow> string \<Rightarrow> string" where
  "document_node_id nodeId documentId =
     (if js_trim (or_else nodeId '''') \<noteq> '''' then js_trim (or_else nodeId '''')
      else createWorkspaceDocumentNodeId documentId)"

lemma createDocument_Some:
  assumes "createDocument ws d nodeId path type content = Some after"
  obtains segments T p parent where "normalizePath path = Some segments" and "truthy_at (docs_of ws) d = None"
    and "\<not> path_taken segments (map snd (docs_of ws))"
    and "ensureDirectoryPath (tree_entries ws) (text_of ws ''treeRootId'') [] (butlast segments) = Some (T, p)"
    and "truthy_at T p = Some parent" and "has_kind parent ''dir''" and "getChildByName T parent (last segments) = None"
    and "truthy_at T (document_node_id nodeId d) = None"
    and "after = put_own ''activeDocumentId'' (JStr d)
      (with_docs (alist_put d (new_document d (or_else type ''code'') (last segments) segments content) (docs_of ws))
        (with_tree (alist_put p (append_child (document_node_id nodeId d) parent)
          (alist_put (document_node_id nodeId d) (doc_node (document_node_id nodeId d) (last segments) p d) T)) ws))"
  using assms unfolding createDocument_def Let_def document_node_id_def [symmetric]
  by (simp split: option.splits prod.splits if_splits)

lemma renameDocument_Some:
  assumes "renameDocument ws d path type = Some after"
  obtains document segments node T q nxt current where "truthy_at (docs_of ws) d = Some document"
    and "normalizePath path = Some segments" and "\<not> type_differs type document"
    and "\<not> path_taken segments (filter (\<lambda>c. text_of c ''id'' \<noteq> text_of document ''id'') (map snd (docs_of ws)))"
    and "findDocumentNode (tree_entries ws) (text_of document ''id'') = Some node"
    and "ensureDirectoryPath (tree_entries ws) (text_of ws ''treeRootId'') [] (butlast segments) = Some (T, q)"
    and "parent_dir T node = Some current" and "truthy_at T q = Some nxt" and "has_kind nxt ''dir''"
    and "\<forall>duplicate. getChildByName T nxt (last segments) = Some duplicate \<longrightarrow> text_of duplicate ''id'' = text_of node ''id''"
    and "after = with_docs (alist_put (text_of document ''id'')
        (put_own ''path'' (JStr (path_text segments)) (put_own ''name'' (JStr (last segments)) document)) (docs_of ws))
      (with_tree (move_node T node current (q, nxt) (last segments)) ws)"
  using assms unfolding renameDocument_def Let_def
  by (simp split: option.splits prod.splits if_splits)

lemma wf_tree: "typed_workspace ws \<Longrightarrow> wf_json (JObj (tree_entries ws))"
  by (rule typed_workspaceE)

lemma docs_evolve: "typed_workspace ws \<Longrightarrow> evolves (docs_of ws) (docs_of ws)"
  by (auto simp: typed_workspace_def intro: evolves_refl)

lemma createDocument_edits:
  assumes typed: "typed_workspace ws" and edit: "createDocument ws d nodeId path type content = Some after" and content: "wf_json content"
  shows "edits ws after"
proof -
  obtain T' segments name ty where after: "after = put_own ''activeDocumentId'' (JStr d)
      (with_docs (alist_put d (new_document d ty name segments content) (docs_of ws)) (with_tree T' ws))"
    and T': "wf_json (JObj T')" and fresh: "truthy_at (docs_of ws) d = None"
    using edit
  proof (rule createDocument_Some, goal_cases)
    case (1 segments T p parent)
    have T: "wf_json (JObj T)" using wf_ensure [OF 1(5) wf_tree [OF typed]] .
    show ?case
      by (rule 1(1) [OF 1(10) _ 1(3)])
        (intro wf_put wf_append_child [OF wf_truthy_at [OF T 1(6)]] T wf_new_nodes)
  qed
  have "\<forall>v. map_of (docs_of ws) d = Some v \<longrightarrow> isRecord v"
    using typed by (auto simp: typed_workspace_def typed_docs_def)
  then have "map_of (docs_of ws) d = None" using fresh truthy_at_records by metis
  then have "evolves (docs_of ws) (alist_put d (new_document d ty name segments content) (docs_of ws))"
    using content by (intro evolves_add docs_evolve [OF typed]) (auto simp: new_document_def wf_json.simps(2))
  then show ?thesis unfolding after by (intro edits_active edits_intro typed T')
qed

lemma renameDocument_edits:
  assumes typed: "typed_workspace ws" and edit: "renameDocument ws d path type = Some after"
  shows "edits ws after"
proof -
  obtain document segments name T node current nxt where doc: "truthy_at (docs_of ws) d = Some document"
    and after: "after = with_docs (alist_put (text_of document ''id'')
        (put_own ''path'' (JStr (path_text segments)) (put_own ''name'' (JStr name) document)) (docs_of ws))
      (with_tree (move_node T node current nxt name) ws)"
    and T: "wf_json (JObj T)" "wf_json node" "wf_json (snd current)" "wf_json (snd nxt)"
    using edit
  proof (rule renameDocument_Some, goal_cases)
    case (1 document segments node T q nxt current)
    have T: "wf_json (JObj T)" using wf_ensure [OF 1(7) wf_tree [OF typed]] .
    have p: "truthy_at T (fst current) = Some (snd current)"
      using 1(8) by (cases current) (simp add: parent_dir_Some)
    show ?case
      by (rule 1(1) [OF 1(2) 1(12) T wf_found [OF wf_tree [OF typed] 1(6)] wf_truthy_at [OF T p]])
        (simp add: wf_truthy_at [OF T 1(9)])
  qed
  show ?thesis
    unfolding after by (intro edits_intro typed wf_move_node T evolves_rename [OF docs_evolve [OF typed] doc])
qed

lemma deleteDocument_edits:
  assumes typed: "typed_workspace ws" and edit: "deleteDocument ws d type = Some after"
  shows "edits ws after"
proof -
  obtain T' e where after: "after = updateActiveDocument (with_docs (alist_del e (docs_of ws)) (with_tree T' ws))"
    and T': "wf_json (JObj T')"
    using edit wf_tree [OF typed]
    by (auto simp: deleteDocument_def Let_def parent_dir_Some wf_put wf_del wf_remove_child [OF wf_truthy_at]
        split: option.splits if_splits)
  show ?thesis unfolding after by (intro edits_update_active edits_intro typed T' evolves_delete docs_evolve [OF typed])
qed

lemma with_docs_same: "typed_workspace ws \<Longrightarrow> with_tree T ws = with_docs (docs_of ws) (with_tree T ws)"
  by (elim typed_workspaceE) (simp add: with_docs_simps alist_put_same)

lemma createDirectory_edits:
  assumes typed: "typed_workspace ws" and edit: "createDirectory ws directoryId parentNodeId name = Some after"
  shows "edits ws after"
proof -
  obtain T' where after: "after = with_tree T' ws" and T': "wf_json (JObj T')"
    using edit wf_tree [OF typed]
    by (auto simp: createDirectory_def Let_def wf_put wf_append_child [OF wf_truthy_at] split: option.splits if_splits)
  show ?thesis unfolding after by (subst with_docs_same [OF typed]) (intro edits_intro typed T' docs_evolve [OF typed])
qed

lemma renameDirectory_edits:
  assumes typed: "typed_workspace ws" and edit: "renameDirectory ws directoryId name = Some after"
  shows "edits ws after"
proof -
  obtain T' docs r "is" where after: "after = with_docs docs (with_tree T' ws)" and T': "wf_json (JObj T')"
    and docs: "rename_descendants T' r (docs_of ws) is = Some docs"
    using edit wf_tree [OF typed]
    by (auto simp: renameDirectory_def Let_def parent_dir_Some wf_put wf_put_own [OF wf_truthy_at] split: option.splits if_splits)
  show ?thesis
    unfolding after by (intro edits_intro typed T' evolves_rename_descendants [OF docs] docs_evolve [OF typed])
qed

lemma deleteDirectory_edits:
  assumes typed: "typed_workspace ws" and edit: "deleteDirectory ws directoryId = Some after"
  shows "edits ws after"
proof -
  obtain T' ds where after: "after = updateActiveDocument
      (with_docs (foldl (\<lambda>docs d. alist_del d docs) (docs_of ws) ds) (with_tree T' ws))"
    and T': "wf_json (JObj T')"
    using edit wf_tree [OF typed]
    by (auto simp: deleteDirectory_def Let_def parent_dir_Some wf_put wf_deletes wf_remove_child [OF wf_truthy_at]
        split: option.splits if_splits)
  show ?thesis unfolding after by (intro edits_update_active edits_intro typed T' evolves_deletes docs_evolve [OF typed])
qed

definition wf_intent :: "vfs_intent \<Rightarrow> bool" where
  "wf_intent i \<longleftrightarrow> (case i of CreateDocument _ _ _ _ _ content \<Rightarrow> wf_json content | _ \<Rightarrow> True)"

theorem intent_edits:
  assumes "typed_workspace ws" and "wf_intent i" and "apply_intent ws i = Some after"
  shows "edits ws after"
  using assms(2,3) createDocument_edits [OF assms(1)] renameDocument_edits [OF assms(1)] deleteDocument_edits [OF assms(1)]
    createDirectory_edits [OF assms(1)] renameDirectory_edits [OF assms(1)] deleteDirectory_edits [OF assms(1)]
  by (auto simp: apply_intent_def wf_intent_def split: vfs_intent.splits)

end
