(* ===== verification/VfsPlans.thy ===== *)
theory VfsPlans
  imports VfsEdits
begin

text \<open>
  The patches of \<open>planWorkspaceDocumentAtPath\<close> lead exactly to the snapshot of the plan, and back.
\<close>

section \<open>Appending to an array\<close>

lemma digit_char_zero: "d < 10 \<Longrightarrow> digit_char d = CHR ''0'' \<longleftrightarrow> d = 0"
proof -
  have "digit_char 0 = CHR ''0''" by code_simp
  then show "d < 10 \<Longrightarrow> digit_char d = CHR ''0'' \<longleftrightarrow> d = 0"
    by (metis digit_value_digit_char zero_less_numeral)
qed

lemma array_index_nat_text: "array_index_text (nat_text n)"
proof (cases "n < 10")
  case True
  then have "nat_text n = [digit_char n]" by (subst nat_text.simps) simp
  then show ?thesis using True
    by (cases "n = 0") (auto simp: array_index_text_def digit_char_def is_digit_def char_of_eq_iff)
next
  case False
  have "list_all is_digit (nat_text n)" using nat_text_digits by (auto simp: list_all_iff)
  moreover have "hd (nat_text n) \<noteq> CHR ''0''" if "0 < n" for n
    using that
  proof (induction n rule: nat_text.induct)
    case (1 n)
    show ?case
    proof (cases "n < 10")
      case True
      then show ?thesis using 1(2) digit_char_zero by (subst nat_text.simps) simp
    next
      case False
      then have "hd (nat_text (n div 10)) \<noteq> CHR ''0''" using 1 by simp
      then show ?thesis using False by (subst nat_text.simps) simp
    qed
  qed
  ultimately show ?thesis using False by (simp add: array_index_text_def)
qed

lemma parse_position: "n \<le> max_safe_integer \<Longrightarrow> n < len \<Longrightarrow> parseArrayIndex (nat_text n) len False = Some n"
  using array_index_nat_text [of n] nat_text_digits [of "CHR ''-''" n]
  by (auto simp: parseArrayIndex_def Let_def is_digit_def)

lemma child_pointers:
  "parsePointer (node_pointer p @ ''/children/-'') = Some [''treeById'', p, ''children'', ''-'']"
  "parsePointer (node_pointer p @ ''/children/'' @ nat_text n) = Some [''treeById'', p, ''children'', nat_text n]"
  "parsePointer (node_pointer p) = Some [''treeById'', p]"
proof -
  have plain: "escapeJsonPointerSegment (nat_text n) = nat_text n"
  proof -
    have "escapeJsonPointerSegment w = w" if "\<forall>c \<in> set w. is_digit c" for w
      using that by (induction w) (auto simp: escape_Cons is_digit_def)
    then show ?thesis using nat_text_digits by blast
  qed
  have "node_pointer p @ ''/children/-'' = printJsonPointer [''treeById'', p, ''children'', ''-'']"
    "node_pointer p @ ''/children/'' @ nat_text n = printJsonPointer [''treeById'', p, ''children'', nat_text n]"
    "node_pointer p = printJsonPointer [''treeById'', p]"
    by (simp_all add: node_pointer_def printJsonPointer_def appendJsonPointer_def escape_Cons plain)
  then show "parsePointer (node_pointer p @ ''/children/-'') = Some [''treeById'', p, ''children'', ''-'']"
    "parsePointer (node_pointer p @ ''/children/'' @ nat_text n) = Some [''treeById'', p, ''children'', nat_text n]"
    "parsePointer (node_pointer p) = Some [''treeById'', p]"
    by (simp_all only: parsePointer_print)
qed

text \<open>The pair of patches that appends a child, on the table of nodes.\<close>

lemma append_child_run:
  assumes wf: "wf_json (JObj kvs)" and T: "map_of kvs ''treeById'' = Some (JObj T)"
    and parent: "map_of T p = Some (JObj m)" "map_of m ''children'' = Some (JArr xs)"
    and small: "length xs \<le> max_safe_integer"
  shows "exact_run (JObj kvs)
    [(patch_at OpAdd (node_pointer p @ ''/children/-'') (Some (JStr i)),
      patch_at OpRemove (node_pointer p @ ''/children/'' @ nat_text (length xs)) None)]
    (with_tree (alist_put p (put_own ''children'' (JArr (xs @ [JStr i])) (JObj m)) T) (JObj kvs))"
    (is "exact_run _ [(?f, ?r)] ?t")
proof (rule exact_Cons)
  show "apply_patch_op (JObj kvs) ?f = Inr ?t"
    using T parent
    by (simp add: patch_at_def apply_patch_op_def Let_def setValue_def with_parent_def child_pointers set_child_def
        parseArrayIndex_def splice_insert_def with_docs_simps)
  show "apply_patch_op ?t ?r = Inr (JObj kvs)"
    using T parent small child_pointers(2) [of p "length xs"]
    by (simp add: patch_at_def apply_patch_op_def Let_def removeValue_def with_parent_def remove_child_def
        parse_position splice_remove_def with_docs_simps alist_put_same)
qed (use wf in \<open>simp_all add: patch_at_def wf_op_def exact_Nil\<close>)

lemma add_node_run:
  assumes "wf_json (JObj kvs)" and "map_of kvs ''treeById'' = Some (JObj T)" and "map_of T i = None" and "wf_json node"
  shows "exact_run (JObj kvs)
    [(patch_at OpAdd (node_pointer i) (Some node), patch_at OpRemove (node_pointer i) None)]
    (with_tree (alist_put i node T) (JObj kvs))"
proof -
  have "exact_run (JObj kvs) (member_pairs (node_pointer i) None (Some node))
      (with_tree (set_opt i (Some node) T) (JObj kvs))"
    by (rule member_run [where pre = "[''treeById'']" and k = i and kvs = T])
      (use assms in \<open>simp_all add: child_pointers with_docs_simps\<close>)
  then show ?thesis by (simp add: member_patch_def set_opt_def)
qed

section \<open>The plan\<close>

definition room :: "nat \<Rightarrow> entries \<Rightarrow> bool" where
  "room n T \<longleftrightarrow> wf_json (JObj T) \<and>
     (\<forall>i node. map_of T i = Some node \<longrightarrow> isRecord node \<and>
       (\<forall>xs. own node ''children'' = Some (JArr xs) \<longrightarrow> length xs + n \<le> max_safe_integer))"

definition planned :: "json \<Rightarrow> json \<Rightarrow> nat \<Rightarrow> at_path_plan \<Rightarrow> bool" where
  "planned ws W n plan \<longleftrightarrow> exact_run ws (ap_patches plan) (with_tree (ap_tree plan) W) \<and> room n (ap_tree plan)"

lemma room_put:
  assumes "room (Suc n) T" and "wf_json node" and "isRecord node"
    and "\<And>xs. own node ''children'' = Some (JArr xs) \<Longrightarrow> length xs + n \<le> max_safe_integer"
  shows "room n (alist_put i node T)"
proof -
  have "length xs + n \<le> max_safe_integer" if "map_of T j = Some v" "own v ''children'' = Some (JArr xs)" for j v xs
    using assms(1) that by (fastforce simp: room_def)
  then show ?thesis using assms wf_put [of T node i] by (auto simp: room_def)
qed

lemma room_less: "room (Suc n) T \<Longrightarrow> room n T"
  by (fastforce simp: room_def)

lemma appendNode_Inr:
  assumes "appendNode p i node plan = Inr plan'"
  obtains parent xs where "truthy_at (ap_tree plan) p = Some parent" and "own parent ''children'' = Some (JArr xs)"
    and "plan' = \<lparr>ap_tree = alist_put p (put_own ''children'' (JArr (xs @ [JStr i])) parent) (alist_put i node (ap_tree plan)),
      ap_patches = ap_patches plan @
        [(patch_at OpAdd (node_pointer i) (Some node), patch_at OpRemove (node_pointer i) None),
         (patch_at OpAdd (node_pointer p @ ''/children/-'') (Some (JStr i)),
          patch_at OpRemove (node_pointer p @ ''/children/'' @ nat_text (length xs)) None)]\<rparr>"
  using assms unfolding appendNode_def Let_def by (auto split: option.splits json.splits if_splits)

lemma appendNode_planned:
  assumes append: "appendNode p i node plan = Inr plan'" and plan: "planned ws W (Suc (Suc n)) plan"
    and fresh: "truthy_at (ap_tree plan) i = None" and node: "wf_json node" "isRecord node"
      "\<And>xs. own node ''children'' = Some (JArr xs) \<Longrightarrow> xs = []"
    and W: "W = JObj K" "wf_json W" "map_of K ''treeById'' \<noteq> None"
  shows "planned ws W n plan'"
proof -
  let ?T = "ap_tree plan" and ?S = "alist_put i node (ap_tree plan)"
  obtain parent xs where p: "truthy_at ?T p = Some parent" "own parent ''children'' = Some (JArr xs)"
    and plan': "plan' = \<lparr>ap_tree = alist_put p (put_own ''children'' (JArr (xs @ [JStr i])) parent) ?S,
      ap_patches = ap_patches plan @
        [(patch_at OpAdd (node_pointer i) (Some node), patch_at OpRemove (node_pointer i) None),
         (patch_at OpAdd (node_pointer p @ ''/children/-'') (Some (JStr i)),
          patch_at OpRemove (node_pointer p @ ''/children/'' @ nat_text (length xs)) None)]\<rparr>"
    using append by (rule appendNode_Inr)
  have room: "room (Suc (Suc n)) ?T" using plan by (simp add: planned_def)
  have at: "truthy_at ?T j = map_of ?T j" for j using room by (intro truthy_at_records) (auto simp: room_def)
  have new: "map_of ?T i = None" and old: "map_of ?T p = Some parent" using fresh p(1) at by simp_all
  have ip: "i \<noteq> p" using new old by auto
  obtain m where m: "parent = JObj m" using p(2) by (cases parent) auto
  have small: "length xs + Suc (Suc n) \<le> max_safe_integer" using room old p(2) by (fastforce simp: room_def)
  have wf_T: "wf_json (JObj ?T)" "wf_json parent" using room old wf_json_map_of by (auto simp: room_def)
  have wf_S: "wf_json (JObj ?S)" by (intro wf_put wf_T node)
  have tree: "wf_json (with_tree X W)" if "wf_json (JObj X)" for X
    using W that by (simp add: with_docs_simps wf_put)
  have again: "with_tree X (JObj (alist_put ''treeById'' (JObj Y) K)) = with_tree X W" for X Y
    by (simp add: with_docs_simps W(1))
  have node_run: "exact_run (with_tree ?T W)
      [(patch_at OpAdd (node_pointer i) (Some node), patch_at OpRemove (node_pointer i) None)] (with_tree ?S W)"
    using add_node_run [of "alist_put ''treeById'' (JObj ?T) K" ?T i node] tree [OF wf_T(1)] new node(1)
    by (simp add: with_docs_simps W(1))
  have child_run: "exact_run (with_tree ?S W) [(patch_at OpAdd (node_pointer p @ ''/children/-'') (Some (JStr i)),
        patch_at OpRemove (node_pointer p @ ''/children/'' @ nat_text (length xs)) None)] (with_tree (ap_tree plan') W)"
    using append_child_run [of "alist_put ''treeById'' (JObj ?S) K" ?S p m xs i] tree [OF wf_S] old ip p(2) small
    by (simp add: with_docs_simps W(1) m plan')
  have "exact_run ws (ap_patches plan) (with_tree ?T W)" using plan by (simp add: planned_def)
  from exact_run_append [OF this exact_run_append [OF node_run child_run]]
  have "exact_run ws (ap_patches plan') (with_tree (ap_tree plan') W)" by (simp add: plan')
  moreover have "room n (ap_tree plan')"
  proof -
    have wf_p: "wf_json (put_own ''children'' (JArr (xs @ [JStr i])) parent)"
      using wf_T(2) p(2) wf_children [OF wf_T(2)] by (intro wf_put_own) (auto simp: getDirectoryChildren_def)
    have "room (Suc n) ?S" using room node small by (intro room_put) auto
    then show ?thesis unfolding plan' at_path_plan.simps by (rule room_put) (use wf_p small m in auto)
  qed
  ultimately show ?thesis by (simp add: planned_def)
qed

lemma factory_node_id_fresh: "factory_node_id f call T preferred = Inr i \<Longrightarrow> truthy_at T i = None"
  by (auto simp: factory_node_id_def Let_def split: option.splits if_splits)

lemma append_directories_planned:
  assumes W: "W = JObj K" "wf_json W" "map_of K ''treeById'' \<noteq> None"
  shows "append_directories f call authored names p plan = Inr (plan', q, call') \<Longrightarrow>
    planned ws W (2 * length names + n) plan \<Longrightarrow> planned ws W n plan'"
proof (induction f call authored names p plan rule: append_directories.induct)
  case (2 f call authored name names p plan)
  have less: "planned ws W (2 * length names + n) plan"
    using 2(4) room_less [OF room_less] by (simp add: planned_def)
  obtain parent where parent: "truthy_at (ap_tree plan) p = Some parent" "has_kind parent ''dir''"
    using 2(3) by (auto split: option.splits if_splits)
  show ?case
  proof (cases "getChildByName (ap_tree plan) parent name")
    case (Some existing)
    then show ?thesis using 2(2) [OF parent(1) _ Some] 2(3) parent less by (auto split: if_splits)
  next
    case None
    then obtain i m where i: "factory_node_id f call (ap_tree plan) (createWorkspacePathNodeId ''dir'' (authored @ [name])) = Inr i"
        "appendNode p i (dir_node i name p) plan = Inr m"
        "append_directories f (Suc call) (authored @ [name]) names i m = Inr (plan', q, call')"
      using 2(3) parent by (auto split: sum.splits)
    have "planned ws W (2 * length names + n) m"
      using 2(4) by (intro appendNode_planned [OF i(2) _ factory_node_id_fresh [OF i(1)] _ _ _ W]) (auto simp: dir_node_def wf_json.simps(2))
    then show ?thesis using 2(1) [OF parent(1) _ None i] parent(2) by simp
  qed
qed simp

lemma planWorkspaceDocumentAtPath_Inr:
  assumes "planWorkspaceDocumentAtPath ws document f = Inr result"
  obtains segments plan p call i plan' where
    "normalizeCanonicalDocumentPath (text_of document ''path'') = Inr segments"
    and "truthy_at (docs_of ws) (text_of document ''id'') = None"
    and "append_directories f 0 [] (butlast segments) (text_of ws ''treeRootId'')
      \<lparr>ap_tree = tree_entries ws, ap_patches =
        [(patch_at OpAdd (document_pointer (text_of document ''id'')) (Some document),
          patch_at OpRemove (document_pointer (text_of document ''id'')) None)]\<rparr> = Inr (plan, p, call)"
    and "factory_node_id f call (ap_tree plan) (createWorkspaceDocumentNodeId (text_of document ''id'')) = Inr i"
    and "appendNode p i (doc_node i (last segments) p (text_of document ''id'')) plan = Inr plan'"
    and "result = \<lparr>dp_snapshot = with_docs (alist_put (text_of document ''id'') document (docs_of ws))
        (with_tree (ap_tree plan') ws), dp_documentNodeId = i, dp_patches = ap_patches plan'\<rparr>"
  using assms unfolding planWorkspaceDocumentAtPath_def Let_def
  by (simp split: sum.splits option.splits prod.splits if_splits)

theorem plan_run:
  assumes typed: "typed_workspace ws" and doc: "wf_json document" "isRecord document"
    and room: "\<And>segments. normalizeCanonicalDocumentPath (text_of document ''path'') = Inr segments \<Longrightarrow>
      room (2 * length segments) (tree_entries ws)"
    and plan: "planWorkspaceDocumentAtPath ws document f = Inr result"
  shows "exact_run ws (dp_patches result) (dp_snapshot result)"
  using plan
proof (rule planWorkspaceDocumentAtPath_Inr)
  fix segments plan p call i plan'
  let ?d = "text_of document ''id''"
  let ?W = "with_docs (alist_put ?d document (docs_of ws)) ws"
  assume path: "normalizeCanonicalDocumentPath (text_of document ''path'') = Inr segments"
    and fresh: "truthy_at (docs_of ws) ?d = None"
    and dirs: "append_directories f 0 [] (butlast segments) (text_of ws ''treeRootId'')
      \<lparr>ap_tree = tree_entries ws, ap_patches =
        [(patch_at OpAdd (document_pointer ?d) (Some document), patch_at OpRemove (document_pointer ?d) None)]\<rparr> =
      Inr (plan, p, call)"
    and i: "factory_node_id f call (ap_tree plan) (createWorkspaceDocumentNodeId ?d) = Inr i"
    and append: "appendNode p i (doc_node i (last segments) p ?d) plan = Inr plan'"
    and result: "result = \<lparr>dp_snapshot = with_docs (alist_put ?d document (docs_of ws)) (with_tree (ap_tree plan') ws),
      dp_documentNodeId = i, dp_patches = ap_patches plan'\<rparr>"
  obtain kvs where kvs: "ws = JObj kvs" "wf_json (JObj kvs)" "map_of kvs ''treeById'' = Some (JObj (tree_entries ws))"
      "map_of kvs ''docsById'' = Some (JObj (docs_of ws))" "typed_docs (docs_of ws)"
    using typed by (rule typed_workspaceE)
  have D: "wf_json (JObj (docs_of ws))" using kvs(5) by (simp add: typed_docs_def)
  have new: "map_of (docs_of ws) ?d = None"
    using fresh truthy_at_records [of "docs_of ws" ?d] kvs(5) by (auto simp: typed_docs_def)
  have W: "?W = JObj (alist_put ''docsById'' (JObj (alist_put ?d document (docs_of ws))) kvs)" "wf_json ?W"
    using kvs(1,2) wf_with_docs [OF kvs(2) wf_put [OF D doc(1)]] by (simp_all add: with_docs_simps)
  have "segments \<noteq> []" using path by (auto simp: normalizeCanonicalDocumentPath_def Let_def split: if_splits)
  then have len: "2 * length segments = 2 * length (butlast segments) + 2" by (cases segments) auto
  have "exact_run ws (member_pairs (document_pointer ?d) None (Some document)) (with_docs (set_opt ?d (Some document) (docs_of ws)) ws)"
    using document_run [OF kvs(2) D new, of "Some document"] doc(1) kvs(4) by (simp add: kvs(1) with_docs_simps alist_put_same)
  moreover have same: "with_tree (tree_entries ws) ?W = ?W"
    using kvs(3) by (simp add: W(1) with_docs_simps alist_put_same)
  ultimately have "planned ws ?W (2 * length (butlast segments) + 2) \<lparr>ap_tree = tree_entries ws, ap_patches =
        [(patch_at OpAdd (document_pointer ?d) (Some document), patch_at OpRemove (document_pointer ?d) None)]\<rparr>"
    using room [OF path] unfolding len by (simp add: planned_def member_patch_def set_opt_def)
  then have "planned ws ?W 2 plan"
    using append_directories_planned [OF W _ dirs] kvs(3) by simp
  then have "planned ws ?W 0 plan'"
    using kvs(3) by (intro appendNode_planned [OF append _ factory_node_id_fresh [OF i] _ _ _ W])
      (auto simp: doc_node_def wf_json.simps(2) numeral_2_eq_2)
  moreover have "with_tree T ?W = with_docs (alist_put ?d document (docs_of ws)) (with_tree T ws)" for T
  proof -
    have swap: "alist_put a x (alist_put b y zs) = alist_put b y (alist_put a x zs)"
      if "a \<noteq> b" "map_of zs a \<noteq> None" "map_of zs b \<noteq> None" for a b x y and zs :: entries
      using that by (induction zs) (auto split: if_splits)
    show ?thesis using kvs(1,3,4) by (simp add: with_docs_simps swap)
  qed
  ultimately show ?thesis using result by (simp add: planned_def)
qed

section \<open>The content of a code document\<close>

lemma parse_content_pointers:
  "parsePointer (''/'' @ ''language'') = Some [''language'']" "parsePointer (''/'' @ ''source'') = Some [''source'']"
  "parsePointer ''/metadata'' = Some [''metadata'']"
  by code_simp+

theorem content_run:
  assumes "wf_json old" and "wf_json new" and "\<forall>k \<in> {''language'', ''source''}. own old k \<noteq> None \<and> own new k \<noteq> None"
  shows "\<exists>r. exact_run old (content_patches old new) r \<and>
    (\<forall>k \<in> {''language'', ''source'', ''metadata''}. rel_option json_eqv (own r k) (own new k)) \<and>
    (\<forall>k. k \<notin> {''language'', ''source'', ''metadata''} \<longrightarrow> own r k = own old k)"
proof -
  obtain kvs where old: "old = JObj kvs" using assms(3) by (cases old) auto
  obtain nvs where new: "new = JObj nvs" using assms(3) by (cases new) auto
  have members: "\<forall>v. map_of nvs k = Some v \<longrightarrow> wf_json v" for k using wf_json_map_of assms(2) new by blast
  let ?l = "set_opt ''language'' (map_of nvs ''language'') kvs"
  let ?s = "set_opt ''source'' (map_of nvs ''source'') ?l"
  let ?m = "if members_equal (own old ''metadata'') (own new ''metadata'') then ?s
    else set_opt ''metadata'' (map_of nvs ''metadata'') ?s"
  have wf: "wf_json (JObj kvs)" "wf_json (JObj ?l)" "wf_json (JObj ?s)"
    using assms(1) old wf_set_opt [OF _ members] by auto
  have "exact_run (JObj kvs) (member_pairs (''/'' @ ''language'') (map_of kvs ''language'') (map_of nvs ''language'')) (JObj ?l)"
    by (rule top_member_run [OF wf(1) parse_content_pointers(1) members])
  moreover have "exact_run (JObj ?l) (member_pairs (''/'' @ ''source'') (map_of kvs ''source'') (map_of nvs ''source'')) (JObj ?s)"
    using top_member_run [OF wf(2) parse_content_pointers(2) members] by simp
  moreover have "exact_run (JObj ?s) (if members_equal (own old ''metadata'') (own new ''metadata'') then []
      else member_pairs ''/metadata'' (map_of kvs ''metadata'') (map_of nvs ''metadata'')) (JObj ?m)"
    using top_member_run [OF wf(3) parse_content_pointers(3) members] exact_Nil by simp
  moreover have "content_patches old new =
      member_pairs (''/'' @ ''language'') (map_of kvs ''language'') (map_of nvs ''language'') @
      member_pairs (''/'' @ ''source'') (map_of kvs ''source'') (map_of nvs ''source'') @
      (if members_equal (own old ''metadata'') (own new ''metadata'') then []
       else member_pairs ''/metadata'' (map_of kvs ''metadata'') (map_of nvs ''metadata''))"
    using assms(3) by (auto simp: content_patches_def old new member_patch_def)
  ultimately have run: "exact_run old (content_patches old new) (JObj ?m)"
    unfolding old by (simp only: exact_run_append)
  have "rel_option json_eqv (map_of kvs ''metadata'') (map_of nvs ''metadata'')"
    if "members_equal (own old ''metadata'') (own new ''metadata'')"
    using that wf_json_map_of [OF wf(1)] members
    by (auto simp: members_equal_def old new json_eqv_def split: option.splits)
  then have "\<forall>k \<in> {''language'', ''source'', ''metadata''}. rel_option json_eqv (map_of ?m k) (map_of nvs k)"
    using members rel_option_eqv_same by auto
  then show ?thesis using run by (intro exI [of _ "JObj ?m"]) (auto simp: old new)
qed

end
