(* ===== verification/VfsAttach.thy ===== *)
theory VfsAttach
  imports VfsEdits RouteLaws
begin

text \<open>
  What the edits that create a directory or a document do to the tree: \<open>attach\<close> hangs a tree below a
  directory. A file tree with a fresh node attached under a new name is a file tree, whose table is
  the one the code computes.
\<close>

section \<open>Attaching a tree\<close>

fun attach :: "string \<Rightarrow> vtree \<Rightarrow> vtree \<Rightarrow> vtree" where
  "attach p c (VDir i n cs) = VDir i n (map (attach p c) cs @ (if i = p then [c] else []))"
| "attach p c (VDoc i n d) = VDoc i n d"

fun dirs :: "vtree \<Rightarrow> string list" where
  "dirs (VDir i n cs) = i # concat (map dirs cs)"
| "dirs (VDoc i n d) = []"

lemma vid_attach [simp]: "vid (attach p c t) = vid t"
  by (cases t) simp_all

lemma vname_attach [simp]: "vname (attach p c t) = vname t"
  by (cases t) simp_all

lemma is_VDir_attach [simp]: "is_VDir (attach p c t) = is_VDir t"
  by (cases t) simp_all

lemma ids_ne: "ids t \<noteq> []"
  by (cases t) simp_all

lemma dirs_ids: "mset (dirs t) \<subseteq># mset (ids t)"
proof (induction t)
  case (VDir i n cs)
  then have "mset (concat (map dirs cs)) \<subseteq># mset (concat (map ids cs))"
    by (induction cs) (auto intro: subset_mset.add_mono)
  then show ?case by simp
qed simp

lemma set_dirs: "set (dirs t) \<subseteq> set (ids t)"
  using set_mset_mono [OF dirs_ids [of t]] by simp

lemma attach_absent: "p \<notin> set (dirs t) \<Longrightarrow> attach p c t = t"
  by (induction t) (auto simp: map_idI)

lemma subs_dirs: "(q, VDir p n cs) \<in> set (subs r t) \<Longrightarrow> p \<in> set (dirs t)"
proof (induction t arbitrary: r)
  case (VDir i m ts)
  then show ?case by (cases "p = i") auto
qed simp

lemma dirs_subs: "p \<in> set (dirs t) \<Longrightarrow> \<exists>q n cs. (q, VDir p n cs) \<in> set (subs r t)"
proof (induction t arbitrary: r)
  case (VDir i m ts)
  show ?case
  proof (cases "p = i")
    case False
    then obtain k where k: "k \<in> set ts" "p \<in> set (dirs k)" using VDir.prems by auto
    obtain q n cs where "(q, VDir p n cs) \<in> set (subs (JStr i) k)" using VDir.IH [OF k] by blast
    then show ?thesis using k(1) by auto
  qed auto
qed simp

text \<open>A measure of trees that is collected from the nodes grows by that of the new tree.\<close>

lemma mset_concat_attach:
  assumes "\<And>x. x \<in> set cs \<Longrightarrow> mset (f x) = mset (g x) + repeat_mset (count (mset (h x)) p) M"
  shows "mset (concat (map f cs)) = mset (concat (map g cs)) + repeat_mset (count (mset (concat (map h cs))) p) M"
  using assms by (induction cs) (simp_all add: repeat_mset_distrib)

lemma mset_ids_attach: "mset (ids (attach p c t)) = mset (ids t) + repeat_mset (count (mset (dirs t)) p) (mset (ids c))"
proof (induction t)
  case (VDir i n cs)
  then have "mset (concat (map (\<lambda>x. ids (attach p c x)) cs)) =
      mset (concat (map ids cs)) + repeat_mset (count (mset (concat (map dirs cs))) p) (mset (ids c))"
    by (rule mset_concat_attach)
  then show ?case by (simp add: comp_def)
qed simp

lemma mset_mounts_attach:
  "mset (mounts (attach p c t)) = mset (mounts t) + repeat_mset (count (mset (dirs t)) p) (mset (mounts c))"
proof (induction t)
  case (VDir i n cs)
  then have "mset (concat (map (\<lambda>x. mounts (attach p c x)) cs)) =
      mset (concat (map mounts cs)) + repeat_mset (count (mset (concat (map dirs cs))) p) (mset (mounts c))"
    by (rule mset_concat_attach)
  then show ?case by (simp add: comp_def)
qed simp

lemma count_dirs:
  assumes "distinct (ids t)" and "p \<in> set (dirs t)"
  shows "count (mset (dirs t)) p = 1"
proof -
  have "count (mset (dirs t)) p \<le> count (mset (ids t)) p" using dirs_ids by (rule mset_subset_eq_count)
  also have "\<dots> \<le> 1" using assms(1) by (simp add: distinct_count_atmost_1)
  finally have "count (mset (dirs t)) p \<le> 1" .
  moreover have "count (mset (dirs t)) p \<noteq> 0" using assms(2) by simp
  ultimately show ?thesis by linarith
qed

lemma ids_attach:
  assumes d: "distinct (ids t)" and p: "p \<in> set (dirs t)"
  shows "mset (ids (attach p c t)) = mset (ids t) + mset (ids c)"
  using mset_ids_attach [of p c t] count_dirs [OF d p] by simp

lemma mounts_attach:
  assumes d: "distinct (ids t)" and p: "p \<in> set (dirs t)"
  shows "mset (mounts (attach p c t)) = mset (mounts t) + mset (mounts c)"
  using mset_mounts_attach [of p c t] count_dirs [OF d p] by simp

lemma set_ids_attach:
  assumes d: "distinct (ids t)" and p: "p \<in> set (dirs t)"
  shows "set (ids (attach p c t)) = set (ids t) \<union> set (ids c)"
  using arg_cong [OF ids_attach [OF d p], of set_mset] by simp

lemma set_mounts_attach:
  assumes d: "distinct (ids t)" and p: "p \<in> set (dirs t)"
  shows "set (mounts (attach p c t)) = set (mounts t) \<union> set (mounts c)"
  using arg_cong [OF mounts_attach [OF d p], of set_mset] by simp

lemma distinct_ids_attach:
  assumes d: "distinct (ids t)" and p: "p \<in> set (dirs t)"
    and "distinct (ids c)" and "set (ids t) \<inter> set (ids c) = {}"
  shows "distinct (ids (attach p c t))"
proof -
  have "distinct (ids t @ ids c)" using assms by simp
  then show ?thesis using ids_attach [OF d p] by (metis mset_append mset_eq_imp_distinct_iff)
qed

text \<open>The paths of the nodes that were there do not change, and the new tree is below its directory.\<close>

lemma paths_below_attach: "set (paths_below q t) \<subseteq> set (paths_below q (attach p c t))"
  by (induction t arbitrary: q) (fastforce simp: subset_iff)+

lemma node_paths_attach: "set (node_paths t) \<subseteq> set (node_paths (attach p c t))"
  using paths_below_attach by (cases t) (fastforce simp: node_paths.simps subset_iff)+

lemma map_of_node_paths:
  assumes "distinct (ids t)"
  shows "map_of (node_paths t) i = Some q \<longleftrightarrow> (i, q) \<in> set (node_paths t)"
  using assms by (intro map_of_eq_Some_iff) (simp add: fst_node_paths)

lemma same_kid:
  "distinct (concat (map ids cs)) \<Longrightarrow> k \<in> set cs \<Longrightarrow> k' \<in> set cs \<Longrightarrow> x \<in> set (ids k) \<Longrightarrow> x \<in> set (ids k') \<Longrightarrow> k = k'"
  by (induction cs) auto

lemma in_paths_below: "(i, w) \<in> set (paths_below q t) \<Longrightarrow> i \<in> set (ids t)"
  using fst_paths_below [of q t] by (metis fst_conv image_eqI set_map)

lemma paths_below_attached:
  "(p, w) \<in> set (paths_below q t) \<Longrightarrow> p \<in> set (dirs t) \<Longrightarrow> distinct (ids t) \<Longrightarrow>
   set (paths_below w c) \<subseteq> set (paths_below q (attach p c t))"
proof (induction t arbitrary: q)
  case (VDir i n cs)
  show ?case
  proof (cases "i = p")
    case True
    have "(p, x) \<notin> set (paths_below (joinPath q n) k)" if "k \<in> set cs" for k x
      using VDir.prems(3) that True in_paths_below [of p x "joinPath q n" k] by auto
    then show ?thesis using VDir.prems(1) True by auto
  next
    case False
    then obtain k where k: "k \<in> set cs" "(p, w) \<in> set (paths_below (joinPath q n) k)" using VDir.prems(1) by auto
    have "p \<in> set (ids k)" using k(2) by (rule in_paths_below)
    moreover obtain k' where "k' \<in> set cs" "p \<in> set (dirs k')" using VDir.prems(2) False by auto
    ultimately have "p \<in> set (dirs k)"
      using same_kid [of cs k k' p] VDir.prems(3) k(1) subsetD [OF set_dirs] by auto
    then have "set (paths_below w c) \<subseteq> set (paths_below (joinPath q n) (attach p c k))"
      using VDir.prems(3) k by (intro VDir.IH) (auto simp: distinct_concat_iff)
    then show ?thesis using k(1) by auto
  qed
qed simp

lemma node_paths_attached:
  assumes "(p, w) \<in> set (node_paths t)" and "p \<in> set (dirs t)" and "distinct (ids t)"
  shows "set (paths_below w c) \<subseteq> set (node_paths (attach p c t))"
proof -
  obtain i n cs where t: "t = VDir i n cs" using assms(2) by (cases t) auto
  show ?thesis
  proof (cases "p = i")
    case True
    have "(i, w) \<notin> set (paths_below ''/'' k)" if "k \<in> set cs" for k
      using in_paths_below [of i w "''/''" k] assms(3) that by (auto simp: t)
    then have "w = ''/''" using assms(1) True by (auto simp: t node_paths.simps)
    then show ?thesis using True by (auto simp: t node_paths.simps)
  next
    case False
    then obtain k where k: "k \<in> set cs" "(p, w) \<in> set (paths_below ''/'' k)" using assms(1) by (auto simp: t node_paths.simps)
    obtain k' where "k' \<in> set cs" "p \<in> set (dirs k')" using assms(2) False by (auto simp: t)
    then have "p \<in> set (dirs k)"
      using same_kid [of cs k k' p] in_paths_below [OF k(2)] assms(3) k(1) subsetD [OF set_dirs] by (auto simp: t)
    moreover have "distinct (ids k)" using assms(3) k(1) by (auto simp: t distinct_concat_iff)
    ultimately show ?thesis using paths_below_attached [OF k(2)] k(1) by (fastforce simp: t node_paths.simps)
  qed
qed

text \<open>Names.\<close>

lemma map_vname_attach: "map vname (map (attach p c) cs) = map vname cs"
  by simp

lemma names_attach:
  assumes "names_ok c"
  shows "names_ok t \<Longrightarrow> (\<And>q n cs. (q, VDir p n cs) \<in> set (subs r t) \<Longrightarrow> vname c \<notin> vname ` set cs) \<Longrightarrow>
    names_ok (attach p c t)"
proof (induction t arbitrary: r)
  case (VDir i n cs)
  have "names_ok (attach p c k)" if "k \<in> set cs" for k
    using that VDir.prems by (intro VDir.IH) auto
  moreover have "vname c \<notin> vname ` set cs" if "i = p" using VDir.prems(2) [of r n cs] that by auto
  ultimately show ?case using VDir.prems(1) assms by (auto simp: comp_def image_image)
qed simp

lemma root_attach:
  assumes "root_ok t" and "names_ok c" and "\<And>q n cs. (q, VDir p n cs) \<in> set (subs r t) \<Longrightarrow> vname c \<notin> vname ` set cs"
  shows "root_ok (attach p c t)"
proof -
  obtain i n cs where t: "t = VDir i n cs" using assms(1) by (cases t) auto
  have "names_ok (attach p c k)" if "k \<in> set cs" for k
    using assms(1,3) that by (intro names_attach [OF assms(2), where r = "JStr i"]) (auto simp: t)
  moreover have "vname c \<notin> vname ` set cs" if "i = p" using assms(3) [of r n cs] that by (auto simp: t)
  ultimately show ?thesis using assms(1,2) by (auto simp: t comp_def image_image)
qed

section \<open>The table of an attached tree\<close>

lemma children_matched: "matches q (VDir i n cs) node \<Longrightarrow> getDirectoryChildren node = map (\<lambda>c. JStr (vid c)) cs"
  using matches_own(8) [of q "VDir i n cs" node] by (simp add: getDirectoryChildren_def)

lemma matches_append:
  assumes "matches q (VDir i n cs) node"
  shows "matches q (VDir i n (cs @ [c])) (append_child (vid c) node)"
proof (cases node)
  case (JObj kvs)
  then show ?thesis using assms children_matched [OF assms] by (auto simp: matches_def append_child_def)
qed (use assms in \<open>auto simp: matches_def\<close>)

lemma matches_same_kids: "matches q (VDir i n cs) node \<Longrightarrow> map vid ts = map vid cs \<Longrightarrow> matches q (VDir i n ts) node"
proof -
  assume m: "matches q (VDir i n cs) node" and "map vid ts = map vid cs"
  then have "map (\<lambda>c. JStr (vid c)) ts = map (\<lambda>c. JStr (vid c)) cs"
    using map_map [of JStr vid] unfolding comp_def by metis
  then show ?thesis using m by (simp add: matches_def del: map_eq_conv)
qed

lemma rep_attach:
  assumes same: "\<And>i. i \<in> set (ids t) \<Longrightarrow> i \<noteq> p \<Longrightarrow> map_of T' i = map_of T i"
    and parent: "\<And>node. map_of T p = Some node \<Longrightarrow> map_of T' p = Some (append_child (vid c) node)"
    and new: "rep T' (JStr p) c"
  shows "rep T q t \<Longrightarrow> distinct (ids t) \<Longrightarrow> (p \<in> set (ids t) \<Longrightarrow> p \<in> set (dirs t)) \<Longrightarrow> rep T' q (attach p c t)"
  using same
proof (induction t arbitrary: q)
  case (VDir i n cs)
  have kids: "rep T' (JStr i) (attach p c k)" if k: "k \<in> set cs" for k
  proof (rule VDir.IH [OF k])
    show "p \<in> set (ids k) \<Longrightarrow> p \<in> set (dirs k)"
    proof -
      assume p: "p \<in> set (ids k)"
      then have "p \<noteq> i" using VDir.prems(2) k by auto
      then obtain k' where "k' \<in> set cs" "p \<in> set (dirs k')" using VDir.prems(3) p k by auto
      then show "p \<in> set (dirs k)"
        using same_kid [of cs k k' p] p VDir.prems(2) k subsetD [OF set_dirs] by auto
    qed
  qed (use VDir.prems k in \<open>auto simp: distinct_concat_iff\<close>)
  obtain node where node: "map_of T i = Some node" "matches q (VDir i n cs) node"
    using VDir.prems(1) by (auto simp: stored_def)
  show ?case
  proof (cases "i = p")
    case True
    have absent: "attach p c k = k" if "k \<in> set cs" for k
      using VDir.prems(2) that True subsetD [OF set_dirs] by (intro attach_absent) auto
    have "rep T' (JStr p) k" if "k \<in> set cs" for k using kids [OF that] absent [OF that] True by simp
    moreover have "map (attach p c) cs = cs" using absent by (simp add: map_idI)
    ultimately show ?thesis
      using True parent [of node] node new matches_append [OF node(2), of c] by (auto simp: stored_def)
  next
    case False
    have "matches q (VDir i n (map (attach p c) cs)) node" by (rule matches_same_kids [OF node(2)]) simp
    then show ?thesis using False kids VDir.prems(4) [of i] node(1) by (auto simp: stored_def)
  qed
next
  case (VDoc i n d)
  then have "map_of T' i = map_of T i" by auto
  then show ?case using VDoc by (simp add: stored_def)
qed

lemma represents_attach:
  assumes T: "represents T t" and p: "p \<in> set (dirs t)" and parent: "map_of T p = Some parent"
    and fresh: "vid c \<notin> fst ` set T" and leaf: "ids c = [vid c]" and node: "matches (JStr p) c node"
  shows "represents (alist_put p (append_child (vid c) parent) (alist_put (vid c) node T)) (attach p c t)"
    (is "represents ?T' _")
proof -
  have d: "distinct (ids t)" and keys: "fst ` set T = set (ids t)" and rep: "rep T JNull t"
    using T by (simp_all add: represents_def)
  have p_in: "p \<in> set (ids t)" using p set_dirs by blast
  then have cp: "vid c \<noteq> p" using fresh keys by auto
  have "rep ?T' (JStr p) c"
  proof (cases c)
    case (VDir i n cs)
    then have "cs = []" using leaf by (cases cs) (auto simp: ids_ne)
    then show ?thesis using VDir node cp by (auto simp: stored_def)
  next
    case (VDoc i n d)
    then show ?thesis using node cp by (auto simp: stored_def)
  qed
  then have "rep ?T' JNull (attach p c t)"
    using parent fresh keys rep d p cp by (intro rep_attach [where T = T]) auto
  moreover have "distinct (ids (attach p c t))"
    using distinct_ids_attach [OF d p, of c] leaf fresh keys by auto
  moreover have "fst ` set ?T' = set (ids (attach p c t))"
    using set_ids_attach [OF d p, of c] leaf keys p_in by auto
  ultimately show ?thesis by (simp add: represents_def)
qed

section \<open>File trees with an attached node\<close>

text \<open>The facts about a directory that the code finds by its id, and about a name it does not find below it.\<close>

lemma represents_dir:
  assumes "represents T t" and "truthy_at T p = Some parent" and "has_kind parent ''dir''"
  obtains q n cs where "(q, VDir p n cs) \<in> set (subs JNull t)" and "p \<in> set (dirs t)" and "map_of T p = Some parent"
    and "matches q (VDir p n cs) parent"
proof -
  have "p \<in> set (ids t)" using assms(1,2) truthy_at_dom by (auto simp: represents_def)
  then obtain q s where s: "(q, s) \<in> set (subs JNull t)" "vid s = p" by (rule ids_subsE)
  obtain node where "truthy_at T (vid s) = Some node" "matches q s node" using represents_sub [OF assms(1) s(1)] by blast
  then have m: "matches q s parent" using assms(2) s(2) by simp
  then obtain n cs where "s = VDir p n cs" using matches_own(4) [OF m] assms(3) s(2) by (cases s) auto
  moreover have "map_of T p = Some parent" using assms(2) by (auto simp: truthy_at_def split: option.splits if_splits)
  ultimately show thesis using that s m subs_dirs by blast
qed

lemma represents_absent: "represents T t \<Longrightarrow> truthy_at T i = None \<Longrightarrow> i \<notin> fst ` set T"
proof
  assume T: "represents T t" and none: "truthy_at T i = None" and "i \<in> fst ` set T"
  then have "i \<in> set (ids t)" by (simp add: represents_def)
  then obtain q s where "(q, s) \<in> set (subs JNull t)" "vid s = i" by (rule ids_subsE)
  then show False using represents_sub [OF T] none by (metis option.discI)
qed

lemma child_ids_matched: "matches q (VDir i n cs) node \<Longrightarrow> child_ids node = map vid cs"
  by (simp add: child_ids_def children_matched comp_def map_concat [symmetric] concat_map_singleton)

lemma child_lookup:
  assumes "represents T t" and "(q, VDir p n cs) \<in> set (subs JNull t)" and "matches q (VDir p n cs) parent"
  obtains kids where "map (\<lambda>k. own k ''name'') kids = map (\<lambda>c. Some (JStr (vname c))) cs"
    and "list_all2 (\<lambda>c k. matches (JStr p) c k \<and> truthy_at T (vid c) = Some k) cs kids"
    and "getChildByName T parent name = List.find (\<lambda>k. own k ''name'' = Some (JStr name)) kids"
proof -
  have "\<exists>k. matches (JStr p) c k \<and> truthy_at T (vid c) = Some k" if "c \<in> set cs" for c
  proof -
    have "(JStr p, c) \<in> set (subs JNull t)" using subs_kid [OF assms(2), of c] that by simp
    then show ?thesis using represents_sub [OF assms(1)] by metis
  qed
  then obtain f where f: "\<And>c. c \<in> set cs \<Longrightarrow> matches (JStr p) c (f c) \<and> truthy_at T (vid c) = Some (f c)" by metis
  have "concat (map (\<lambda>i. case truthy_at T i of Some child \<Rightarrow> [child] | None \<Rightarrow> []) (child_ids parent)) = map f cs"
    unfolding child_ids_matched [OF assms(3)] using f by (induction cs) auto
  then have "getChildByName T parent name = List.find (\<lambda>k. own k ''name'' = Some (JStr name)) (map f cs)"
    by (simp add: getChildByName_def)
  moreover have "map (\<lambda>k. own k ''name'') (map f cs) = map (\<lambda>c. Some (JStr (vname c))) cs"
    using f matches_own(2) by (simp; blast)
  moreover have "list_all2 (\<lambda>c k. matches (JStr p) c k \<and> truthy_at T (vid c) = Some k) cs (map f cs)"
    using f by (simp add: list_all2_conv_all_nth)
  ultimately show thesis using that by blast
qed

lemma name_absent:
  assumes "represents T t" and "(q, VDir p n cs) \<in> set (subs JNull t)" and "matches q (VDir p n cs) parent"
    and "getChildByName T parent name = None"
  shows "name \<notin> vname ` set cs"
proof
  assume "name \<in> vname ` set cs"
  then obtain c where c: "c \<in> set cs" "vname c = name" by auto
  obtain kids where kids: "map (\<lambda>k. own k ''name'') kids = map (\<lambda>c. Some (JStr (vname c))) cs"
      "getChildByName T parent name = List.find (\<lambda>k. own k ''name'' = Some (JStr name)) kids"
    by (rule child_lookup [OF assms(1-3)])
  have "Some (JStr name) \<in> set (map (\<lambda>k. own k ''name'') kids)" unfolding kids(1) using c by auto
  then show False using assms(4) kids(2) by (auto simp: find_None_iff)
qed

lemma fields_known_children:
  assumes "fields_known node" and "own node ''children'' \<noteq> None"
  shows "fields_known (put_own ''children'' v node)"
proof -
  obtain kvs where kvs: "node = JObj kvs" "map_of kvs ''children'' \<noteq> None" using assms(2) by (cases node) auto
  have keys: "map_of kvs k \<noteq> None \<Longrightarrow> map fst (alist_put k v kvs) = map fst kvs" for k and v :: json
    by (induction kvs) (auto split: if_splits)
  then show ?thesis
    using assms kvs by (simp add: fields_known_def node_fields_def has_kind_def)
qed

lemma fields_known_append:
  "fields_known node \<Longrightarrow> own node ''children'' \<noteq> None \<Longrightarrow> fields_known (append_child i node)"
  unfolding append_child_def by (rule fields_known_children)

lemma fields_known_remove:
  "fields_known node \<Longrightarrow> own node ''children'' \<noteq> None \<Longrightarrow> fields_known (remove_child_id i node)"
  unfolding remove_child_id_def by (rule fields_known_children)

lemma fields_known_new [simp]: "fields_known (dir_node i n p)" "fields_known (doc_node i n p d)"
  by (simp_all add: fields_known_def dir_node_def doc_node_def node_fields_def has_kind_def)

lemma file_tree_docs:
  assumes "file_tree V v t"
  shows "(d, document) \<in> set (in_docsById v) \<Longrightarrow> record_ok V d document"
    and "(d, document) \<in> set (in_docsById v) \<Longrightarrow> (d, i) \<in> set (mounts t) \<Longrightarrow>
      own document ''path'' = map_option JStr (map_of (node_paths t) i)"
    and "fst ` set (mounts t) = fst ` set (in_docsById v)"
  using assms unfolding file_tree_def by blast+

lemma file_tree_attach:
  assumes v: "file_tree V v t" and keys: "distinct (map fst (in_treeById v))"
    and parent: "(q, VDir p n cs) \<in> set (subs JNull t)" "map_of (in_treeById v) p = Some parent"
    and fresh: "vid c \<notin> fst ` set (in_treeById v)" "vname c \<notin> vname ` set cs"
    and c: "ids c = [vid c]" "names_ok c" "matches (JStr p) c node" "fields_known node"
    and docs: "in_docsById v' \<noteq> []" "fst ` set (in_docsById v') = fst ` set (in_docsById v) \<union> fst ` set (mounts c)"
      "distinct (map fst (mounts c))" "fst ` set (in_docsById v) \<inter> fst ` set (mounts c) = {}"
      "\<forall>(d, document) \<in> set (in_docsById v'). record_ok V d document \<and>
        (d \<in> fst ` set (in_docsById v) \<longrightarrow> (d, document) \<in> set (in_docsById v)) \<and>
        (\<forall>i. (d, i) \<in> set (mounts c) \<longrightarrow> own document ''path'' = map_option JStr (map_of (node_paths (attach p c t)) i))"
      "distinct (singles (in_docsById v'))" "active_ok v'"
    and v': "in_treeRootId v' = in_treeRootId v"
      "in_treeById v' = alist_put p (append_child (vid c) parent) (alist_put (vid c) node (in_treeById v))"
  shows "file_tree V v' (attach p c t)"
proof -
  let ?t = "attach p c t"
  have T: "represents (in_treeById v) t" "vid t = in_treeRootId v" "root_ok t" using v by (simp_all add: file_tree_def)
  have d: "distinct (ids t)" using T(1) by (simp add: represents_def)
  have p: "p \<in> set (dirs t)" using parent(1) by (rule subs_dirs)
  have only: "cs' = cs" if "(q', VDir p n' cs') \<in> set (subs JNull t)" for q' n' cs'
    using subs_unique [OF d that parent(1)] by simp
  have rep: "represents (in_treeById v') ?t"
    unfolding v'(2) by (rule represents_attach [OF T(1) p parent(2) fresh(1) c(1,3)])
  have root: "root_ok ?t" using root_attach [OF T(3) c(2)] only fresh(2) by blast
  obtain k where k: "truthy_at (in_treeById v) (vid (VDir p n cs)) = Some k" "matches q (VDir p n cs) k"
    using T(1) parent(1) by (rule represents_sub)
  then have "k = parent" using parent(2) by (simp add: truthy_at_def split: if_splits)
  then have "matches q (VDir p n cs) parent" using k(2) by simp
  then have ch: "own parent ''children'' \<noteq> None" using matches_own(8) by fastforce
  have "fields_known parent" using v parent(2) by (auto simp: file_tree_def dest: map_of_SomeD)
  have known: "\<forall>(i, node) \<in> set (in_treeById v'). fields_known node"
  proof -
    have "(i, x) \<in> {(p, append_child (vid c) parent), (vid c, node)} \<union> set (in_treeById v)"
      if "(i, x) \<in> set (in_treeById v')" for i x
      using that unfolding v'(2) by (blast dest: subsetD [OF set_alist_put])
    moreover have "fields_known x" if "(i, x) \<in> set (in_treeById v)" for i x
      using v that by (auto simp: file_tree_def)
    ultimately show ?thesis using c(4) fields_known_append [OF \<open>fields_known parent\<close> ch] by blast
  qed
  have mounts: "mset (mounts ?t) = mset (mounts t @ mounts c)" using mounts_attach [OF d p] by simp
  then have "mset (map fst (mounts ?t)) = mset (map fst (mounts t @ mounts c))" unfolding mset_map by simp
  moreover have "distinct (map fst (mounts t @ mounts c))" using v docs(3,4) by (auto simp: file_tree_def)
  ultimately have dm: "distinct (map fst (mounts ?t))" by (metis mset_eq_imp_distinct_iff)
  have fm: "fst ` set (mounts ?t) = fst ` set (in_docsById v')"
    using set_mounts_attach [OF d p] v docs(2) by (simp add: file_tree_def image_Un)
  have "own document ''path'' = map_option JStr (map_of (node_paths ?t) i)"
    if "(e, document) \<in> set (in_docsById v')" "(e, i) \<in> set (mounts ?t)" for e document i
  proof (cases "(e, i) \<in> set (mounts c)")
    case False
    then have m: "(e, i) \<in> set (mounts t)" using that(2) set_mounts_attach [OF d p] by auto
    then have "e \<in> fst ` set (in_docsById v)" using file_tree_docs(3) [OF v] by force
    then have "(e, document) \<in> set (in_docsById v)" using docs(5) that(1) by blast
    then have "own document ''path'' = map_option JStr (map_of (node_paths t) i)" using file_tree_docs(2) [OF v] m by blast
    moreover have "i \<in> set (ids t)" using m subs_ids by (auto simp: set_mounts [of e i t JNull])
    then obtain w where w: "(i, w) \<in> set (node_paths t)" using fst_node_paths [of t] by (metis imageE prod.collapse set_map)
    moreover have "(i, w) \<in> set (node_paths ?t)" using w node_paths_attach by blast
    ultimately show ?thesis
      using map_of_node_paths [OF d] map_of_node_paths [of ?t i w] rep by (simp add: represents_def)
  qed (use docs(5) that in blast)
  then show ?thesis
    using rep root known dm fm docs(1,5-7) T(2) v'(1) by (auto simp: file_tree_def)
qed

section \<open>Creating a directory\<close>

lemma snapshot_input_with:
  assumes "typed_workspace ws" and "snapshot_input ws = Some v"
  shows "in_treeById v = tree_entries ws" and "in_docsById v = docs_of ws" and "in_treeRootId v = text_of ws ''treeRootId''"
    and "in_activeDocumentId v = own ws ''activeDocumentId''"
    and "snapshot_input (with_docs D (with_tree T ws)) = Some (v\<lparr>in_treeById := T, in_docsById := D\<rparr>)"
    and "distinct (map fst (tree_entries ws))" and "distinct (map fst (docs_of ws))"
proof -
  obtain kvs where kvs: "ws = JObj kvs" "wf_json (JObj kvs)" "map_of kvs ''treeById'' = Some (JObj (tree_entries ws))"
      "map_of kvs ''docsById'' = Some (JObj (docs_of ws))" "wf_json (JObj (tree_entries ws))" "typed_docs (docs_of ws)"
    using assms(1) by (rule typed_workspaceE)
  obtain r where r: "own ws ''treeRootId'' = Some (JStr r)"
    and v: "v = \<lparr>in_treeRootId = r, in_treeById = tree_entries ws, in_docsById = docs_of ws,
      in_activeDocumentId = own ws ''activeDocumentId''\<rparr>"
    using assms(2) kvs(3,4) by (auto simp: snapshot_input_def kvs(1) split: option.splits json.splits)
  then show "in_treeById v = tree_entries ws" "in_docsById v = docs_of ws" "in_treeRootId v = text_of ws ''treeRootId''"
    "in_activeDocumentId v = own ws ''activeDocumentId''"
    by (simp_all add: text_of_def)
  show "snapshot_input (with_docs D (with_tree T ws)) = Some (v\<lparr>in_treeById := T, in_docsById := D\<rparr>)"
    using r by (simp add: v snapshot_input_def kvs(1) with_docs_simps)
  show "distinct (map fst (tree_entries ws))" "distinct (map fst (docs_of ws))"
    using kvs(5,6) unfolding typed_docs_def wf_json_JObj_iff by blast+
qed

lemma normalizeName_canonical: "normalizeName value = Some name \<Longrightarrow> canonical_name name"
  by (auto simp: normalizeName_def canonical_name_def Let_def split: if_splits)

definition directory_parent :: "json \<Rightarrow> string option \<Rightarrow> string" where
  "directory_parent ws parentNodeId =
     (if js_trim (or_else parentNodeId '''') \<noteq> '''' then js_trim (or_else parentNodeId '''')
      else text_of ws ''treeRootId'')"

lemma createDirectory_Some:
  assumes "createDirectory ws directoryId parentNodeId newName = Some after"
  obtains name parent where "normalizeName newName = Some name"
    and "truthy_at (tree_entries ws) (directory_parent ws parentNodeId) = Some parent"
    and "js_trim directoryId \<noteq> ''''" and "truthy_at (tree_entries ws) (js_trim directoryId) = None"
    and "has_kind parent ''dir''" and "getChildByName (tree_entries ws) parent name = None"
    and "after = with_tree (alist_put (directory_parent ws parentNodeId) (append_child (js_trim directoryId) parent)
      (alist_put (js_trim directoryId) (dir_node (js_trim directoryId) name (directory_parent ws parentNodeId))
        (tree_entries ws))) ws"
  using assms unfolding createDirectory_def Let_def directory_parent_def [symmetric]
  by (simp split: option.splits if_splits)

lemma matches_new_nodes [simp]:
  "matches (JStr p) (VDir i n []) (dir_node i n p)" "matches (JStr p) (VDoc i n d) (doc_node i n p d)"
  by (simp_all add: matches_def dir_node_def doc_node_def)

lemma active_ok_same:
  "active_ok v \<Longrightarrow> in_docsById v' = in_docsById v \<Longrightarrow> in_activeDocumentId v' = in_activeDocumentId v \<Longrightarrow> active_ok v'"
  unfolding active_ok_def by (simp only:)

theorem createDirectory_attaches:
  assumes typed: "typed_workspace ws" and v: "snapshot_input ws = Some v" and tree: "file_tree V v t"
    and created: "createDirectory ws directoryId parentNodeId newName = Some after"
  shows "\<exists>v' name. snapshot_input after = Some v' \<and> normalizeName newName = Some name \<and>
    file_tree V v' (attach (directory_parent ws parentNodeId) (VDir (js_trim directoryId) name []) t)"
  using created
proof (rule createDirectory_Some)
  fix name parent
  let ?p = "directory_parent ws parentNodeId" and ?i = "js_trim directoryId" and ?T = "tree_entries ws"
  let ?T' = "alist_put ?p (append_child ?i parent) (alist_put ?i (dir_node ?i name ?p) ?T)"
  let ?v = "v\<lparr>in_treeById := ?T', in_docsById := docs_of ws\<rparr>"
  assume name: "normalizeName newName = Some name" and p: "truthy_at ?T ?p = Some parent" and i: "?i \<noteq> ''''"
    and fresh: "truthy_at ?T ?i = None" and dir: "has_kind parent ''dir''" and absent: "getChildByName ?T parent name = None"
    and after: "after = with_tree ?T' ws"
  note input = snapshot_input_with [OF typed v]
  have T: "represents ?T t" using tree input(1) by (simp add: file_tree_def)
  obtain q n cs where sub: "(q, VDir ?p n cs) \<in> set (subs JNull t)" "map_of ?T ?p = Some parent"
      "matches q (VDir ?p n cs) parent"
    using represents_dir [OF T p dir] by metis
  have "snapshot_input after = Some ?v"
    unfolding after by (subst with_docs_same [OF typed]) (rule input(5))
  moreover have "file_tree V ?v (attach ?p (VDir ?i name []) t)"
  proof (rule file_tree_attach [OF tree _ sub(1)])
    show "names_ok (VDir ?i name [])"
      using i normalizeName_canonical [OF name] by (simp add: canonical_id_def)
    show "vid (VDir ?i name []) \<notin> fst ` set (in_treeById v)" using represents_absent [OF T fresh] by (simp add: input(1))
    show "vname (VDir ?i name []) \<notin> vname ` set cs" using name_absent [OF T sub(1,3) absent] by simp
    show "\<forall>(d, document) \<in> set (in_docsById ?v). record_ok V d document \<and>
        (d \<in> fst ` set (in_docsById v) \<longrightarrow> (d, document) \<in> set (in_docsById v)) \<and>
        (\<forall>j. (d, j) \<in> set (mounts (VDir ?i name [])) \<longrightarrow>
          own document ''path'' = map_option JStr (map_of (node_paths (attach ?p (VDir ?i name []) t)) j))"
      using file_tree_docs(1) [OF tree] by (auto simp: input(2))
    show "in_docsById ?v \<noteq> []" "distinct (singles (in_docsById ?v))"
      using tree by (simp_all add: file_tree_def input(2))
    have "active_ok v" using tree by (simp add: file_tree_def)
    then show "active_ok ?v" by (rule active_ok_same) (simp_all add: input(2))
  qed (use input sub in simp_all)
  ultimately show ?thesis using name by blast
qed

end
