(* ===== verification/VfsCreate.thy ===== *)
theory VfsCreate
  imports VfsAttach
begin

text \<open>
  The creation of a document: the directories of its path that are missing are attached one after the
  other, then the document, and the path of the document's record is its path in the tree.
\<close>

section \<open>Paths\<close>

lemma path_text_snoc:
  assumes "\<forall>s \<in> set authored. s \<noteq> ''''"
  shows "joinPath (path_text authored) s = path_text (authored @ [s])"
proof -
  have join: "join_with sep (a # as @ [s]) = join_with sep (a # as) @ sep @ s" for sep and a :: string and as
    by (induction as arbitrary: a) simp_all
  have ne: "join_with sep (a # as) \<noteq> []" if "a \<noteq> []" for sep and a :: string and as
    using that by (cases as) simp_all
  show ?thesis
  proof (cases authored)
    case (Cons a as)
    then show ?thesis using assms ne [of a "''/''" as] by (simp add: joinPath_def path_text_def join)
  qed (simp add: joinPath_def path_text_def)
qed

lemma paths_below_kid:
  "(p, w) \<in> set (paths_below q t) \<Longrightarrow> (r', VDir p n cs) \<in> set (subs r t) \<Longrightarrow> distinct (ids t) \<Longrightarrow> c \<in> set cs \<Longrightarrow>
   (vid c, joinPath w (vname c)) \<in> set (paths_below q t)"
proof (induction t arbitrary: q r)
  case (VDir i m ks)
  have self: "(vid c, joinPath x (vname c)) \<in> set (paths_below x c)" for x by (cases c) simp_all
  show ?case
  proof (cases "i = p")
    case True
    have "(p, w) \<notin> set (paths_below (joinPath q m) k)" if "k \<in> set ks" for k
      using in_paths_below [of p w "joinPath q m" k] VDir.prems(3) that True by auto
    then have w: "w = joinPath q m" using VDir.prems(1) True by auto
    have "VDir p n cs = VDir i m ks"
      using subs_unique [OF VDir.prems(3,2), of r "VDir i m ks"] True by simp
    then show ?thesis using VDir.prems(4) w self by auto
  next
    case False
    then obtain k where k: "k \<in> set ks" "(p, w) \<in> set (paths_below (joinPath q m) k)" using VDir.prems(1) by auto
    obtain k' where k': "k' \<in> set ks" "(r', VDir p n cs) \<in> set (subs (JStr i) k')" using VDir.prems(2) False by auto
    have "k' = k"
      using same_kid [of ks k' k p] VDir.prems(3) k k' subs_ids [OF k'(2)] in_paths_below [OF k(2)] by auto
    then have "(vid c, joinPath w (vname c)) \<in> set (paths_below (joinPath q m) k)"
      using VDir.IH [OF k(1,2)] k'(2) VDir.prems(3,4) k(1) by (auto simp: distinct_concat_iff)
    then show ?thesis using k(1) by auto
  qed
qed simp

lemma node_paths_kid:
  assumes "(p, w) \<in> set (node_paths t)" and "(r', VDir p n cs) \<in> set (subs r t)" and "distinct (ids t)" and "c \<in> set cs"
  shows "(vid c, joinPath w (vname c)) \<in> set (node_paths t)"
proof -
  have self: "(vid c, joinPath x (vname c)) \<in> set (paths_below x c)" for x by (cases c) simp_all
  obtain i m ks where t: "t = VDir i m ks" using assms(2) by (cases t) auto
  show ?thesis
  proof (cases "i = p")
    case True
    have "(p, w) \<notin> set (paths_below ''/'' k)" if "k \<in> set ks" for k
      using in_paths_below [of p w "''/''" k] assms(3) that True by (auto simp: t)
    then have w: "w = ''/''" using assms(1) True by (auto simp: t node_paths.simps)
    have "VDir p n cs = t" using subs_unique [OF assms(3,2), of r t] True by (simp add: t)
    then show ?thesis using assms(4) w self by (auto simp: t node_paths.simps)
  next
    case False
    then obtain k where k: "k \<in> set ks" "(p, w) \<in> set (paths_below ''/'' k)" using assms(1) by (auto simp: t node_paths.simps)
    obtain k' where k': "k' \<in> set ks" "(r', VDir p n cs) \<in> set (subs (JStr i) k')" using assms(2) False by (auto simp: t)
    have "k' = k"
      using same_kid [of ks k' k p] assms(3) k k' subs_ids [OF k'(2)] in_paths_below [OF k(2)] by (auto simp: t)
    then have "(vid c, joinPath w (vname c)) \<in> set (paths_below ''/'' k)"
      using paths_below_kid [OF k(2)] k'(2) assms(3,4) k(1) by (auto simp: t distinct_concat_iff)
    then show ?thesis using k(1) by (auto simp: t node_paths.simps)
  qed
qed

section \<open>Ids of new nodes\<close>

lemma id_char_not_space: "id_char c \<Longrightarrow> \<not> js_space c"
  by (auto simp: id_char_def js_space_def Let_def)

lemma squeeze_id_chars: "c \<in> set (squeeze_others s) \<Longrightarrow> id_char c"
  by (induction s rule: squeeze_others.induct) (auto simp: id_char_def split: if_splits)

lemma path_node_id_chars: "c \<in> set (createWorkspacePathNodeId pre segments) \<Longrightarrow> c \<in> set pre \<or> id_char c"
proof -
  have join: "c \<in> set (join_with sep ws) \<Longrightarrow> c \<in> set sep \<or> (\<exists>w \<in> set ws. c \<in> set w)" for sep c ws
    by (induction sep ws rule: join_with.induct) auto
  have strip: "set (rev (dropWhile P (rev (dropWhile P w)))) \<subseteq> set w" for P and w :: string
    by (auto dest!: set_dropWhileD)
  have item: "\<forall>c \<in> set ''item''. id_char c" by code_simp
  have seg: "id_char c" if "c \<in> set (normalizePathNodeIdSegment s)" for c s
  proof -
    let ?x = "rev (dropWhile (\<lambda>c. c = CHR ''_'') (rev (dropWhile (\<lambda>c. c = CHR ''_'') (squeeze_others s))))"
    have eq: "normalizePathNodeIdSegment s = (if ?x = '''' then ''item'' else ?x)"
      by (simp only: normalizePathNodeIdSegment_def Let_def)
    show ?thesis
    proof (cases "?x = ''''")
      case True
      then show ?thesis using that item unfolding eq if_P [OF True] by blast
    next
      case False
      then show ?thesis using that squeeze_id_chars subsetD [OF strip] unfolding eq if_not_P [OF False] by blast
    qed
  qed
  assume "c \<in> set (createWorkspacePathNodeId pre segments)"
  moreover have "id_char (CHR ''_'')" by code_simp
  ultimately show ?thesis
    using join [of c "''_''" "map normalizePathNodeIdSegment segments"] seg
    by (auto simp: createWorkspacePathNodeId_def split: if_splits)
qed

lemma no_space_canonical: "s \<noteq> '''' \<Longrightarrow> \<forall>c \<in> set s. \<not> js_space c \<Longrightarrow> canonical_id s"
  by (simp add: canonical_id_def js_trim_id)

lemma path_node_id_canonical:
  assumes "pre \<in> {''dir'', ''doc''}"
  shows "canonical_id (createWorkspacePathNodeId pre segments)"
proof (rule no_space_canonical)
  show "createWorkspacePathNodeId pre segments \<noteq> ''''" using assms by (auto simp: createWorkspacePathNodeId_def)
  have "\<forall>c \<in> set ''dir''. id_char c" "\<forall>c \<in> set ''doc''. id_char c" by code_simp+
  then have "\<forall>c \<in> set pre. id_char c" using assms by blast
  then show "\<forall>c \<in> set (createWorkspacePathNodeId pre segments). \<not> js_space c"
    using path_node_id_chars id_char_not_space by blast
qed

lemma next_suffix_free: "truthy_at T (preferred @ ''-'' @ nat_text (next_suffix T preferred n)) = None"
proof (induction T preferred n rule: next_suffix.induct)
  case (1 T preferred n)
  then show ?case by (subst next_suffix.simps) auto
qed

lemma available_free: "truthy_at T (createAvailableNodeId T preferred) = None"
  using next_suffix_free by (simp add: createAvailableNodeId_def)

lemma available_canonical:
  assumes "\<forall>c \<in> set preferred. \<not> js_space c" and "preferred \<noteq> ''''"
  shows "canonical_id (createAvailableNodeId T preferred)"
proof (rule no_space_canonical)
  have "\<not> js_space (CHR ''-'')" by code_simp
  moreover have "\<not> js_space c" if "c \<in> set (nat_text n)" for c n
    using nat_text_digits [OF that] by (auto simp: is_digit_def js_space_def)
  ultimately show "\<forall>c \<in> set (createAvailableNodeId T preferred). \<not> js_space c"
    using assms(1) by (auto simp: createAvailableNodeId_def)
qed (use assms(2) in \<open>simp add: createAvailableNodeId_def\<close>)

lemma dir_id_canonical: "canonical_id (createAvailableNodeId T (createWorkspacePathNodeId ''dir'' segments))"
proof (rule available_canonical)
  have "\<forall>c \<in> set ''dir''. id_char c" by code_simp
  then show "\<forall>c \<in> set (createWorkspacePathNodeId ''dir'' segments). \<not> js_space c"
    using path_node_id_chars [of _ "''dir''" segments] id_char_not_space by blast
qed (simp add: createWorkspacePathNodeId_def)

lemma document_node_id_canonical: "canonical_id (document_node_id nodeId d)"
  using path_node_id_canonical [of "''doc''" "[d]"]
  by (simp add: document_node_id_def createWorkspaceDocumentNodeId_def canonical_id_def)

section \<open>The directories of a path\<close>

text \<open>Trees reached by attaching empty directories.\<close>

inductive extended :: "vtree \<Rightarrow> vtree \<Rightarrow> bool" where
  extended_refl: "extended t t"
| extended_dir: "extended (attach p (VDir i n []) t) t' \<Longrightarrow> p \<in> set (dirs t) \<Longrightarrow> extended t t'"

lemma extended_keeps:
  "extended t t' \<Longrightarrow> distinct (ids t') \<Longrightarrow> set (node_paths t) \<subseteq> set (node_paths t') \<and> vid t' = vid t"
  by (induction rule: extended.induct) (simp, metis node_paths_attach subset_trans vid_attach)

text \<open>A workspace's file tree when its table of nodes is another one.\<close>

abbreviation tree_at :: "validators \<Rightarrow> vfs_input \<Rightarrow> entries \<Rightarrow> vtree \<Rightarrow> bool" where
  "tree_at V v T t \<equiv> file_tree V (v\<lparr>in_treeById := T\<rparr>) t \<and> distinct (map fst T)"

lemma tree_at_attach_dir:
  assumes tree: "tree_at V v T t" and p: "truthy_at T p = Some parent" "has_kind parent ''dir''"
    and i: "truthy_at T i = None" "canonical_id i" and name: "getChildByName T parent name = None" "canonical_name name"
  shows "tree_at V v (alist_put p (append_child i parent) (alist_put i (dir_node i name p) T)) (attach p (VDir i name []) t)"
    and "p \<in> set (dirs t)" and "(p, w) \<in> set (node_paths t) \<Longrightarrow> (i, joinPath w name) \<in> set (node_paths (attach p (VDir i name []) t))"
proof -
  let ?v = "v\<lparr>in_treeById := T\<rparr>"
  have T: "represents T t" using tree by (simp add: file_tree_def)
  obtain q n cs where sub: "(q, VDir p n cs) \<in> set (subs JNull t)" "p \<in> set (dirs t)" "map_of T p = Some parent"
      "matches q (VDir p n cs) parent"
    using represents_dir [OF T p] by metis
  have ok: "active_ok ?v" "in_docsById v \<noteq> []" "distinct (singles (in_docsById v))" using tree by (simp_all add: file_tree_def)
  let ?T = "alist_put p (append_child i parent) (alist_put i (dir_node i name p) T)"
  have "file_tree V (v\<lparr>in_treeById := ?T\<rparr>) (attach p (VDir i name []) t)"
  proof (rule file_tree_attach [of V ?v t q p n cs parent])
    show "vname (VDir i name []) \<notin> vname ` set cs" using name_absent [OF T sub(1,4) name(1)] by simp
    show "\<forall>(d, document) \<in> set (in_docsById (v\<lparr>in_treeById := ?T\<rparr>)). record_ok V d document \<and>
        (d \<in> fst ` set (in_docsById ?v) \<longrightarrow> (d, document) \<in> set (in_docsById ?v)) \<and>
        (\<forall>j. (d, j) \<in> set (mounts (VDir i name [])) \<longrightarrow>
          own document ''path'' = map_option JStr (map_of (node_paths (attach p (VDir i name []) t)) j))"
      using file_tree_docs(1) [of V ?v t] tree by auto
    show "active_ok (v\<lparr>in_treeById := ?T\<rparr>)" by (rule active_ok_same [OF ok(1)]) simp_all
  qed (use tree sub i name represents_absent [OF T i(1)] ok in simp_all)
  then show "tree_at V v ?T (attach p (VDir i name []) t)" using tree by simp
  show "p \<in> set (dirs t)" by (rule sub(2))
  assume "(p, w) \<in> set (node_paths t)"
  then show "(i, joinPath w name) \<in> set (node_paths (attach p (VDir i name []) t))"
    using node_paths_attached [OF _ sub(2), of w "VDir i name []"] T by (auto simp: represents_def)
qed

lemma existing_child:
  assumes "represents T t" and "truthy_at T p = Some parent" and "has_kind parent ''dir''"
    and "getChildByName T parent name = Some child" and "(p, w) \<in> set (node_paths t)"
  shows "(text_of child ''id'', joinPath w name) \<in> set (node_paths t)"
proof -
  obtain q n cs where sub: "(q, VDir p n cs) \<in> set (subs JNull t)" "matches q (VDir p n cs) parent"
    using represents_dir [OF assms(1-3)] by metis
  obtain kids where kids: "list_all2 (\<lambda>c k. matches (JStr p) c k \<and> truthy_at T (vid c) = Some k) cs kids"
      "getChildByName T parent name = List.find (\<lambda>k. own k ''name'' = Some (JStr name)) kids"
    by (rule child_lookup [OF assms(1) sub])
  then have "List.find (\<lambda>k. own k ''name'' = Some (JStr name)) kids = Some child" using assms(4) by (simp only:)
  then obtain j where j: "j < length kids" "own (kids ! j) ''name'' = Some (JStr name)" "child = kids ! j"
    unfolding find_Some_iff by blast
  let ?c = "cs ! j"
  have c: "?c \<in> set cs" "matches (JStr p) ?c child"
    using list_all2_nthD2 [OF kids(1) j(1)] list_all2_lengthD [OF kids(1)] j by simp_all
  then have "text_of child ''id'' = vid ?c" "vname ?c = name"
    using matches_own(1,2) [OF c(2)] j(2,3) by (simp_all add: text_of_def)
  then show ?thesis
    using node_paths_kid [OF assms(5) sub(1) _ c(1)] assms(1) by (auto simp: represents_def)
qed

lemma ensure_tree:
  "ensureDirectoryPath T p authored segments = Some (T', p') \<Longrightarrow> tree_at V v T t \<Longrightarrow>
   (p, path_text authored) \<in> set (node_paths t) \<Longrightarrow> \<forall>s \<in> set (authored @ segments). canonical_name s \<Longrightarrow>
   \<exists>t'. tree_at V v T' t' \<and> extended t t' \<and> (p', path_text (authored @ segments)) \<in> set (node_paths t')"
proof (induction T p authored segments arbitrary: t rule: ensureDirectoryPath.induct)
  case (1 T p authored)
  then show ?case using extended_refl by auto
next
  case (2 T p authored segment segments)
  have path: "joinPath (path_text authored) segment = path_text (authored @ [segment])"
    using 2(6) by (intro path_text_snoc) (auto simp: canonical_name_def)
  have T: "represents T t" using 2(4) by (simp add: file_tree_def)
  obtain parent where parent: "truthy_at T p = Some parent" "has_kind parent ''dir''"
    using 2(3) by (auto split: option.splits if_splits)
  show ?case
  proof (cases "getChildByName T parent segment")
    case (Some existing)
    have at: "(text_of existing ''id'', path_text (authored @ [segment])) \<in> set (node_paths t)"
      using existing_child [OF T parent Some 2(5)] by (simp add: path)
    show ?thesis using 2(2) [OF parent(1) _ Some, of t] 2(3,4,6) parent Some at by (auto split: if_splits)
  next
    case None
    let ?i = "createAvailableNodeId T (createWorkspacePathNodeId ''dir'' (authored @ [segment]))"
    let ?T = "alist_put p (append_child ?i parent) (alist_put ?i (dir_node ?i segment p) T)"
    let ?t = "attach p (VDir ?i segment []) t"
    have name: "canonical_name segment" using 2(6) by simp
    note new = tree_at_attach_dir [OF 2(4) parent available_free dir_id_canonical None name]
    have "(?i, path_text (authored @ [segment])) \<in> set (node_paths ?t)" using new(3) [OF 2(5)] by (simp add: path)
    then obtain t' where "tree_at V v T' t'" "extended ?t t'" "(p', path_text ((authored @ [segment]) @ segments)) \<in> set (node_paths t')"
      using 2(1) [OF parent(1) _ None refl refl, of ?t] 2(3,6) parent None new(1) by (auto simp: Let_def)
    then show ?thesis using extended_dir [OF _ new(2)] by auto
  qed
qed

section \<open>Creating a document\<close>

lemma normalizePath_segments:
  assumes "normalizePath path = Some segments"
  shows "segments \<noteq> []" and "s \<in> set segments \<Longrightarrow> js_trim s = s \<Longrightarrow> canonical_name s"
proof -
  let ?x = "replace_char CHR 0x5C ''/'' (js_trim path)"
  have seg: "segments = filter (\<lambda>s. s \<noteq> '''') (split_on CHR ''/'' ?x)" "segments \<noteq> []"
    "\<not> list_ex (\<lambda>s. s = ''.'' \<or> s = ''..'') segments"
    using assms by (auto simp: normalizePath_def Let_def simp del: replace_char_def split: if_splits)
  show "segments \<noteq> []" by (rule seg(2))
  assume s: "s \<in> set segments" "js_trim s = s"
  have "CHR 0x5C \<notin> set ?x" by (auto simp: replace_char_def)
  moreover have "set s \<subseteq> set ?x - {CHR ''/''}" using s(1) seg(1) set_split_on by auto
  moreover have "s \<noteq> ''.'' \<and> s \<noteq> ''..''" using seg(3) s(1) by (auto simp: list_ex_iff)
  moreover have "s \<noteq> ''''" using s(1) seg(1) by simp
  ultimately show "canonical_name s" using s(2) by (auto simp: canonical_name_def)
qed

lemma snapshot_input_active:
  assumes "snapshot_input ws = Some v"
  shows "snapshot_input (put_own ''activeDocumentId'' (JStr d) ws) = Some (v\<lparr>in_activeDocumentId := Some (JStr d)\<rparr>)"
  using assms by (cases ws) (auto simp: snapshot_input_def split: option.splits json.splits)

theorem createDocument_attaches:
  assumes typed: "typed_workspace ws" and v: "snapshot_input ws = Some v" and tree: "file_tree V v t"
    and created: "createDocument ws d nodeId path type content = Some after"
    and trimmed: "\<And>segments. normalizePath path = Some segments \<Longrightarrow> \<forall>s \<in> set segments. js_trim s = s"
    and valid_record: "\<And>segments. normalizePath path = Some segments \<Longrightarrow>
      record_ok V d (new_document d (or_else type ''code'') (last segments) segments content) \<and>
      distinct (singles (docs_of ws @ [(d, new_document d (or_else type ''code'') (last segments) segments content)]))"
  shows "\<exists>segments v' t' p. normalizePath path = Some segments \<and> snapshot_input after = Some v' \<and> extended t t' \<and>
    p \<in> set (dirs t') \<and>
    file_tree V v' (attach p (VDoc (document_node_id nodeId d) (last segments) d) t') \<and>
    map_of (node_paths (attach p (VDoc (document_node_id nodeId d) (last segments) d) t')) (document_node_id nodeId d) =
      Some (path_text segments)"
  using created
proof (rule createDocument_Some)
  fix segments T p parent
  let ?i = "document_node_id nodeId d"
  let ?doc = "new_document d (or_else type ''code'') (last segments) segments content"
  let ?T = "alist_put p (append_child ?i parent) (alist_put ?i (doc_node ?i (last segments) p d) T)"
  let ?D = "alist_put d ?doc (docs_of ws)"
  let ?w = "v\<lparr>in_treeById := T\<rparr>"
  let ?v = "v\<lparr>in_treeById := ?T, in_docsById := ?D, in_activeDocumentId := Some (JStr d)\<rparr>"
  let ?c = "VDoc ?i (last segments) d"
  assume path: "normalizePath path = Some segments" and fresh: "truthy_at (docs_of ws) d = None"
    and dirs: "ensureDirectoryPath (tree_entries ws) (text_of ws ''treeRootId'') [] (butlast segments) = Some (T, p)"
    and parent: "truthy_at T p = Some parent" "has_kind parent ''dir''" "getChildByName T parent (last segments) = None"
    and i: "truthy_at T ?i = None" and after: "after = put_own ''activeDocumentId'' (JStr d) (with_docs ?D (with_tree ?T ws))"
  note input = snapshot_input_with [OF typed v]
  have names: "\<forall>s \<in> set segments. canonical_name s" using normalizePath_segments(2) [OF path] trimmed [OF path] by blast
  have ne: "segments \<noteq> []" by (rule normalizePath_segments(1) [OF path])
  have start: "v\<lparr>in_treeById := tree_entries ws\<rparr> = v" by (simp add: input(1) [symmetric])
  have root: "(text_of ws ''treeRootId'', path_text []) \<in> set (node_paths t)"
    using tree by (simp add: file_tree_def input(3) [symmetric] node_paths.simps path_text_def)
  obtain t' where t': "tree_at V v T t'" "extended t t'" "(p, path_text (butlast segments)) \<in> set (node_paths t')"
    using ensure_tree [OF dirs _ root, of V v] tree names input(6) start by (auto dest: in_set_butlastD)
  have T: "represents T t'" using t'(1) by (simp add: file_tree_def)
  have dist: "distinct (ids t')" using T by (simp add: represents_def)
  obtain q n cs where sub: "(q, VDir p n cs) \<in> set (subs JNull t')" "p \<in> set (dirs t')" "map_of T p = Some parent"
      "matches q (VDir p n cs) parent"
    using represents_dir [OF T parent(1,2)] by metis
  have typed_D: "typed_docs (docs_of ws)" using typed by (simp add: typed_workspace_def)
  have new: "map_of (docs_of ws) d = None"
    using fresh truthy_at_records [of "docs_of ws" d] typed_D by (auto simp: typed_docs_def)
  then have D: "?D = docs_of ws @ [(d, ?doc)]" and d_new: "d \<notin> fst ` set (docs_of ws)"
    by (simp_all add: alist_put_new map_of_eq_None_iff)
  have "joinPath (path_text (butlast segments)) (last segments) = path_text segments"
    using path_text_snoc [of "butlast segments" "last segments"] names ne by (auto simp: canonical_name_def dest: in_set_butlastD)
  then have here: "(?i, path_text segments) \<in> set (node_paths (attach p ?c t'))"
    using node_paths_attached [OF t'(3) sub(2) dist, of ?c] by auto
  have ft: "file_tree V ?v (attach p ?c t')"
  proof (rule file_tree_attach [of V ?w t' q p n cs parent])
    have rep: "represents ?T (attach p ?c t')"
      using represents_attach [OF T sub(2,3), of ?c] represents_absent [OF T i] by simp
    have at: "map_of (node_paths (attach p ?c t')) ?i = Some (path_text segments)"
      using here map_of_node_paths [of "attach p ?c t'"] rep by (simp add: represents_def)
    show "vname ?c \<notin> vname ` set cs" using name_absent [OF T sub(1,4) parent(3)] by simp
    show "names_ok ?c"
      using names ne document_node_id_canonical record_ok_facts(2) valid_record [OF path] by auto
    show "\<forall>(e, document) \<in> set (in_docsById ?v). record_ok V e document \<and>
        (e \<in> fst ` set (in_docsById ?w) \<longrightarrow> (e, document) \<in> set (in_docsById ?w)) \<and>
        (\<forall>j. (e, j) \<in> set (mounts ?c) \<longrightarrow> own document ''path'' = map_option JStr (map_of (node_paths (attach p ?c t')) j))"
    proof -
      have "own ?doc ''path'' = Some (JStr (path_text segments))" by (simp add: new_document_def)
      then have "own ?doc ''path'' = map_option JStr (map_of (node_paths (attach p ?c t')) ?i)" using at by simp
      moreover have "\<forall>(e, document) \<in> set (docs_of ws). e \<noteq> d \<and> record_ok V e document"
        using file_tree_docs(1) [OF tree] d_new by (force simp: input(2))
      moreover have "in_docsById ?v = docs_of ws @ [(d, ?doc)]" "in_docsById ?w = docs_of ws"
        "set (mounts ?c) = {(d, ?i)}"
        by (simp_all add: D input(2))
      moreover have "record_ok V d ?doc" using valid_record [OF path] by blast
      ultimately show ?thesis using d_new by auto
    qed
    show "distinct (singles (in_docsById ?v))" using valid_record [OF path] by (simp add: D)
    show "active_ok ?v" by (simp add: active_ok_def truthy_at_def new_document_def)
    show "in_docsById ?v \<noteq> []" by (simp add: D)
    show "fst ` set (in_docsById ?w) \<inter> fst ` set (mounts ?c) = {}" using d_new by (simp add: input(2))
  qed (use t'(1) sub parent represents_absent [OF T i] input(2) in simp_all)
  have rep: "distinct (ids (attach p ?c t'))" using ft by (simp add: file_tree_def represents_def)
  have "snapshot_input after = Some ?v"
    unfolding after using snapshot_input_active [OF input(5)] by simp
  moreover have "map_of (node_paths (attach p ?c t')) ?i = Some (path_text segments)"
    using here map_of_node_paths [OF rep] by simp
  ultimately show ?thesis using path t'(2) sub(2) ft by blast
qed

end
