(* ===== verification/VfsDetach.thy ===== *)
theory VfsDetach
  imports VfsCreate
begin

text \<open>
  What the edits that delete a document or a directory do to the tree: \<open>detach\<close> cuts the subtree off
  that a node is the root of. What is left of a file tree is a file tree, and its table is the one
  the code computes.
\<close>

section \<open>Detaching a subtree\<close>

fun detach :: "string \<Rightarrow> vtree \<Rightarrow> vtree" where
  "detach x (VDir i n cs) = VDir i n (concat (map (\<lambda>c. if vid c = x then [] else [detach x c]) cs))"
| "detach x (VDoc i n d) = VDoc i n d"

text \<open>The subtrees that are cut off; in a tree with distinct ids there is at most one.\<close>

fun cut_off :: "string \<Rightarrow> vtree \<Rightarrow> vtree list" where
  "cut_off x (VDir i n cs) = concat (map (\<lambda>c. if vid c = x then [c] else cut_off x c) cs)"
| "cut_off x (VDoc i n d) = []"

lemma vid_detach [simp]: "vid (detach x t) = vid t"
  by (cases t) simp_all

lemma vname_detach [simp]: "vname (detach x t) = vname t"
  by (cases t) simp_all

lemma is_VDir_detach [simp]: "is_VDir (detach x t) = is_VDir t"
  by (cases t) simp_all

lemma mset_concat_cut:
  assumes "\<And>c. c \<in> set cs \<Longrightarrow> mset (f c) = mset (f (detach x c)) + mset (concat (map f (cut_off x c)))"
  shows "mset (concat (map f cs)) =
    mset (concat (map f (concat (map (\<lambda>c. if vid c = x then [] else [detach x c]) cs)))) +
    mset (concat (map f (concat (map (\<lambda>c. if vid c = x then [c] else cut_off x c) cs))))"
  using assms by (induction cs) (auto simp: union_ac)

lemma mset_ids_detach: "mset (ids t) = mset (ids (detach x t)) + mset (concat (map ids (cut_off x t)))"
proof (induction t)
  case (VDir i n cs)
  from mset_concat_cut [of cs ids x, OF VDir] show ?case by simp
qed simp

lemma mset_mounts_detach: "mset (mounts t) = mset (mounts (detach x t)) + mset (concat (map mounts (cut_off x t)))"
proof (induction t)
  case (VDir i n cs)
  from mset_concat_cut [of cs mounts x, OF VDir] show ?case by simp
qed simp

lemma cut_subs: "c \<in> set (cut_off x t) \<Longrightarrow> vid c = x \<and> (\<exists>q. (q, c) \<in> set (subs r t))"
proof (induction t arbitrary: r)
  case (VDir i n cs)
  then obtain k where k: "k \<in> set cs" "c \<in> set (if vid k = x then [k] else cut_off x k)" by auto
  show ?case
  proof (cases "vid k = x")
    case True
    then have "c = k" using k(2) by simp
    then have "(JStr i, c) \<in> set (subs r (VDir i n cs))" using k(1) by (auto intro!: bexI [of _ k])
    then show ?thesis using True \<open>c = k\<close> by blast
  next
    case False
    then obtain q where "vid c = x" "(q, c) \<in> set (subs (JStr i) k)" using VDir.IH [OF k(1), of "JStr i"] k(2) by auto
    moreover from this have "(q, c) \<in> set (subs r (VDir i n cs))" using k(1) by (auto intro!: bexI [of _ k])
    ultimately show ?thesis by blast
  qed
qed simp

lemma cut_ne: "x \<in> set (ids t) \<Longrightarrow> x \<noteq> vid t \<Longrightarrow> cut_off x t \<noteq> []"
proof (induction t)
  case (VDir i n cs)
  then obtain k where k: "k \<in> set cs" "x \<in> set (ids k)" by auto
  then have "(if vid k = x then [k] else cut_off x k) \<noteq> []" using VDir.IH by auto
  then obtain c where c: "c \<in> set (if vid k = x then [k] else cut_off x k)"
    by (cases "if vid k = x then [k] else cut_off x k") auto
  then have "c \<in> set (cut_off x (VDir i n cs))"
    unfolding cut_off.simps set_concat set_map image_image by (rule UN_I [OF k(1)])
  then show ?case by (metis empty_iff list.set(1))
qed simp

lemma cut_single:
  assumes d: "distinct (ids t)" and s: "(q, s) \<in> set (subs r t)" and x: "vid s = x" "x \<noteq> vid t"
  shows "cut_off x t = [s]"
proof -
  have all: "c = s" if "c \<in> set (cut_off x t)" for c
    using cut_subs [OF that, of r] subs_unique [OF d s] x(1) by metis
  have "cut_off x t \<noteq> []" using cut_ne [of x t] subs_ids [OF s] x by auto
  moreover have "length (cut_off x t) \<le> 1"
  proof (rule ccontr)
    assume "\<not> length (cut_off x t) \<le> 1"
    then obtain a b rest where c: "cut_off x t = a # b # rest" by (cases "cut_off x t" rule: remdups_adj.cases) auto
    then have "a = s" "b = s" using all by auto
    then have "distinct (ids (detach x t) @ ids s @ ids s @ concat (map ids rest))"
      using d mset_ids_detach [of t x] c by (metis append.assoc concat.simps(2) list.simps(9) mset_append mset_eq_imp_distinct_iff)
    then show False using ids_ne [of s] by (cases "ids s") auto
  qed
  ultimately obtain c where "cut_off x t = [c]" by (cases "cut_off x t") auto
  then show ?thesis using all by simp
qed

lemma ids_detach:
  assumes d: "distinct (ids t)" and s: "(q, s) \<in> set (subs r t)" and x: "vid s = x" "x \<noteq> vid t"
  shows "mset (ids t) = mset (ids (detach x t)) + mset (ids s)"
  using mset_ids_detach [of t x] cut_single [OF d s x] by simp

lemma mounts_detach:
  assumes d: "distinct (ids t)" and s: "(q, s) \<in> set (subs r t)" and x: "vid s = x" "x \<noteq> vid t"
  shows "mset (mounts t) = mset (mounts (detach x t)) + mset (mounts s)"
  using mset_mounts_detach [of t x] cut_single [OF d s x] by simp

lemma distinct_detach:
  assumes d: "distinct (ids t)" and s: "(q, s) \<in> set (subs r t)" and x: "vid s = x" "x \<noteq> vid t"
  shows "distinct (ids (detach x t) @ ids s)"
  using d ids_detach [OF assms] by (metis mset_append mset_eq_imp_distinct_iff)

lemma set_ids_detach:
  assumes d: "distinct (ids t)" and s: "(q, s) \<in> set (subs r t)" and x: "vid s = x" "x \<noteq> vid t"
  shows "set (ids (detach x t)) = set (ids t) - set (ids s)"
proof -
  have "set (ids t) = set (ids (detach x t)) \<union> set (ids s)" using arg_cong [OF ids_detach [OF assms], of set_mset] by simp
  then show ?thesis using distinct_detach [OF assms] by auto
qed

lemma set_mounts_detach:
  assumes d: "distinct (ids t)" and s: "(q, s) \<in> set (subs r t)" and x: "vid s = x" "x \<noteq> vid t"
  shows "set (mounts t) = set (mounts (detach x t)) \<union> set (mounts s)"
  using arg_cong [OF mounts_detach [OF assms], of set_mset] by simp

lemma paths_below_detach: "set (paths_below q (detach x t)) \<subseteq> set (paths_below q t)"
proof (induction t arbitrary: q)
  case (VDir i n cs)
  have "w \<in> set (concat (map (paths_below (joinPath q n)) cs))"
    if "w \<in> set (concat (map (paths_below (joinPath q n)) (concat (map (\<lambda>c. if vid c = x then [] else [detach x c]) cs))))" for w
    using that VDir by (fastforce split: if_splits)
  then show ?case by auto
qed simp

lemma node_paths_detach: "set (node_paths (detach x t)) \<subseteq> set (node_paths t)"
proof (cases t)
  case (VDir i n cs)
  have "w \<in> set (concat (map (paths_below ''/'') cs))"
    if "w \<in> set (concat (map (paths_below ''/'') (concat (map (\<lambda>c. if vid c = x then [] else [detach x c]) cs))))" for w
    using that paths_below_detach by (fastforce split: if_splits)
  then show ?thesis by (auto simp: VDir node_paths.simps)
qed simp

lemma distinct_vname_detach:
  "distinct (map vname cs) \<Longrightarrow> distinct (map vname (concat (map (\<lambda>c. if vid c = x then [] else [detach x c]) cs)))"
  by (induction cs) (auto split: if_splits)

lemma names_detach: "names_ok t \<Longrightarrow> names_ok (detach x t)"
  by (induction t) (auto simp: distinct_vname_detach simp del: map_concat split: if_splits)

lemma root_detach: "root_ok t \<Longrightarrow> root_ok (detach x t)"
  by (cases t) (auto simp: distinct_vname_detach names_detach split: if_splits)

section \<open>The table of a tree that is cut\<close>

lemma vid_kids_detach:
  "map vid (concat (map (\<lambda>c. if vid c = x then [] else [detach x c]) cs)) = filter (\<lambda>i. i \<noteq> x) (map vid cs)"
  by (induction cs) auto

lemma filter_other: "x \<notin> set xs \<Longrightarrow> filter (\<lambda>i. i \<noteq> x) xs = xs"
  by (induction xs) auto

lemma matches_remove:
  assumes "matches q (VDir i n cs) node" and "map vid ts = filter (\<lambda>i. i \<noteq> x) (map vid cs)"
  shows "matches q (VDir i n ts) (remove_child_id x node)"
proof -
  have "filter (\<lambda>c. c \<noteq> JStr x) (getDirectoryChildren node) = map (\<lambda>c. JStr (vid c)) ts"
  proof -
    have "filter (\<lambda>c. c \<noteq> JStr x) (getDirectoryChildren node) = filter (\<lambda>c. c \<noteq> JStr x) (map JStr (map vid cs))"
      using children_matched [OF assms(1)] by (simp add: comp_def)
    also have "\<dots> = map JStr (filter (\<lambda>i. i \<noteq> x) (map vid cs))" by (simp add: filter_map comp_def)
    also have "\<dots> = map (\<lambda>c. JStr (vid c)) ts" unfolding assms(2) [symmetric] by (simp add: comp_def)
    finally show ?thesis .
  qed
  then show ?thesis using assms(1) by (cases node) (auto simp: matches_def remove_child_id_def)
qed

lemma rep_detach:
  assumes parent: "\<And>node. map_of T p = Some node \<Longrightarrow> map_of T' p = Some (remove_child_id x node)"
  shows "rep T q t \<Longrightarrow>
    (\<And>r s. (r, s) \<in> set (subs q t) \<Longrightarrow> (vid s = p \<longrightarrow> is_VDir s) \<and> (\<forall>c \<in> set (vkids s). vid c = x \<longrightarrow> vid s = p)) \<Longrightarrow>
    (\<And>i. i \<in> set (ids (detach x t)) \<Longrightarrow> i \<noteq> p \<Longrightarrow> map_of T' i = map_of T i) \<Longrightarrow> rep T' q (detach x t)"
proof (induction t arbitrary: q)
  case (VDir i n cs)
  let ?ts = "concat (map (\<lambda>c. if vid c = x then [] else [detach x c]) cs)"
  obtain node where node: "map_of T i = Some node" "matches q (VDir i n cs) node"
    using VDir.prems(1) by (auto simp: stored_def)
  have kids: "rep T' (JStr i) (detach x k)" if k: "k \<in> set cs" "vid k \<noteq> x" for k
  proof (rule VDir.IH [OF k(1)])
    show "rep T (JStr i) k" using VDir.prems(1) k(1) by simp
    show "(vid s = p \<longrightarrow> is_VDir s) \<and> (\<forall>c \<in> set (vkids s). vid c = x \<longrightarrow> vid s = p)"
      if "(r, s) \<in> set (subs (JStr i) k)" for r s
      using that k(1) by (intro VDir.prems(2) [of r s]) (auto intro!: bexI [of _ k])
    show "map_of T' j = map_of T j" if "j \<in> set (ids (detach x k))" "j \<noteq> p" for j
      using that k by (intro VDir.prems(3)) (auto intro!: bexI [of _ k])
  qed
  have "stored T' q (VDir i n ?ts)"
  proof (cases "i = p")
    case True
    have "matches q (VDir i n ?ts) (remove_child_id x node)" using node(2) vid_kids_detach by (rule matches_remove)
    then show ?thesis using parent [of node] node(1) True unfolding stored_def by simp
  next
    case False
    have "x \<notin> set (map vid cs)" using VDir.prems(2) [of q "VDir i n cs"] False by auto
    then have "map vid ?ts = map vid cs" unfolding vid_kids_detach by (rule filter_other)
    then have "matches q (VDir i n ?ts) node" by (rule matches_same_kids [OF node(2)])
    then show ?thesis using VDir.prems(3) [of i] False node(1) unfolding stored_def by simp
  qed
  moreover have "rep T' (JStr i) c" if "c \<in> set ?ts" for c using that kids by (auto split: if_splits)
  ultimately show ?case by (simp del: set_concat)
next
  case (VDoc i n d)
  then have "i \<noteq> p" using VDoc.prems(2) [of q "VDoc i n d"] by auto
  then show ?case using VDoc.prems(1) VDoc.prems(3) [of i] by (simp add: stored_def)
qed

lemma foldl_alist_del: "foldl (\<lambda>T k. alist_del k T) T ks = filter (\<lambda>e. fst e \<notin> set ks) T"
  by (induction ks arbitrary: T) (auto simp: alist_del_def intro: filter_cong)

lemma map_of_dels: "map_of (foldl (\<lambda>T k. alist_del k T) T ks) i = (if i \<in> set ks then None else map_of T i)"
  by (induction ks arbitrary: T) auto

lemma dom_dels: "fst ` set (foldl (\<lambda>T k. alist_del k T) T ks) = fst ` set T - set ks"
  by (induction ks arbitrary: T) auto

lemma represents_detach:
  assumes T: "represents T t" and s: "(JStr p, s) \<in> set (subs JNull t)"
    and parent: "map_of T p = Some parent" "has_kind parent ''dir''"
  shows "represents (foldl (\<lambda>T k. alist_del k T) (alist_put p (remove_child_id (vid s) parent) T) (ids s)) (detach (vid s) t)"
    (is "represents ?T' _")
proof -
  have d: "distinct (ids t)" and keys: "fst ` set T = set (ids t)" and rep: "rep T JNull t"
    using T by (simp_all add: represents_def)
  have x: "vid s \<noteq> vid t"
    using subs_unique [OF d s self_in_subs] by auto
  note cut = set_ids_detach [OF d s refl x]
  have p: "vid s' = p" if sub: "(r, s') \<in> set (subs JNull t)" "c \<in> set (vkids s')" "vid c = vid s" for r s' c
    using subs_unique [OF d subs_kid [OF sub(1,2)] s sub(3)] by simp
  have dir: "is_VDir s'" if sub: "(r, s') \<in> set (subs JNull t)" "vid s' = p" for r s'
  proof -
    obtain node where "truthy_at T (vid s') = Some node" "matches r s' node" using represents_sub [OF T sub(1)] by blast
    moreover from this have "node = parent" using sub(2) parent(1) by (simp add: truthy_at_def split: if_splits)
    ultimately show ?thesis using matches_own(4) parent(2) by blast
  qed
  obtain r s' where s': "(r, s') \<in> set (subs JNull t)" "vid s' = p" "s \<in> set (vkids s')"
    using subs_parent [OF s] by auto
  have "p \<in> set (ids t)" using subs_ids [OF s'(1)] s'(2) by simp
  moreover have "p \<notin> set (ids s)"
  proof -
    have "distinct (ids s')" using d s'(1) by (rule distinct_sub)
    then show ?thesis using s'(2,3) by (cases s') auto
  qed
  ultimately have "map_of ?T' p = Some (remove_child_id (vid s) parent)"
    "fst ` set ?T' = set (ids (detach (vid s) t))"
    using keys cut by (auto simp: map_of_dels dom_dels)
  moreover have "map_of ?T' i = map_of T i" if "i \<in> set (ids (detach (vid s) t))" "i \<noteq> p" for i
    using that cut by (simp add: map_of_dels)
  ultimately have "rep ?T' JNull (detach (vid s) t)"
    using parent(1) p dir by (intro rep_detach [where T = T, OF _ rep]) auto
  moreover have "distinct (ids (detach (vid s) t))" using distinct_detach [OF d s refl x] by simp
  ultimately show ?thesis using \<open>fst ` set ?T' = _\<close> by (simp add: represents_def)
qed

section \<open>File trees that are cut\<close>

lemma singles_Cons: "singles (e # docs) = singles [e] @ singles docs"
  by (simp add: singles_def)

lemma set_singles_filter: "set (singles (filter P docs)) \<subseteq> set (singles docs)"
  by (auto simp: singles_def)

lemma distinct_singles_filter: "distinct (singles docs) \<Longrightarrow> distinct (singles (filter P docs))"
proof (induction docs)
  case (Cons e docs)
  have "distinct (singles (filter P docs))" "set (singles [e]) \<inter> set (singles docs) = {}" "distinct (singles [e])"
    using Cons unfolding singles_Cons [of e docs] by simp_all
  then have "distinct (singles [e] @ singles (filter P docs))" using set_singles_filter [of P docs] by auto
  then show ?case using \<open>distinct (singles (filter P docs))\<close> singles_Cons [of e "filter P docs"] by simp
qed simp

lemma file_tree_detach:
  assumes v: "file_tree V v t" and s: "(JStr p, s) \<in> set (subs JNull t)"
    and parent: "map_of (in_treeById v) p = Some parent" "has_kind parent ''dir''"
    and v': "in_treeRootId v' = in_treeRootId v"
      "in_treeById v' = foldl (\<lambda>T k. alist_del k T) (alist_put p (remove_child_id (vid s) parent) (in_treeById v)) (ids s)"
      "in_docsById v' = foldl (\<lambda>docs d. alist_del d docs) (in_docsById v) (map fst (mounts s))"
    and ok: "in_docsById v' \<noteq> []" "active_ok v'"
  shows "file_tree V v' (detach (vid s) t)"
proof -
  let ?t = "detach (vid s) t"
  have T: "represents (in_treeById v) t" "vid t = in_treeRootId v" "root_ok t" using v by (simp_all add: file_tree_def)
  have d: "distinct (ids t)" using T(1) by (simp add: represents_def)
  have x: "vid s \<noteq> vid t" using subs_unique [OF d s self_in_subs] by auto
  have rep: "represents (in_treeById v') ?t" unfolding v'(2) by (rule represents_detach [OF T(1) s parent])
  have known: "\<forall>(i, node) \<in> set (in_treeById v'). fields_known node"
  proof -
    have fk: "\<forall>(i, node) \<in> set (in_treeById v). fields_known node" using v by (simp add: file_tree_def)
    obtain r s' where "(r, s') \<in> set (subs JNull t)" "vid s' = p" "s \<in> set (vkids s')" using subs_parent [OF s] by auto
    moreover obtain node where "truthy_at (in_treeById v) (vid s') = Some node" "matches r s' node"
      using represents_sub [OF T(1) calculation(1)] by blast
    moreover from this calculation(2) have "node = parent" using parent(1) by (simp add: truthy_at_def split: if_splits)
    ultimately have "own parent ''children'' \<noteq> None" using matches_own(8) vkids_dir by fastforce
    moreover have "fields_known parent" using fk parent(1) by (auto dest: map_of_SomeD)
    ultimately have "fields_known (remove_child_id (vid s) parent)" by (intro fields_known_remove)
    then show ?thesis using fk set_alist_put unfolding v'(2) foldl_alist_del by fastforce
  qed
  have dm: "distinct (map fst (mounts t))" using v by (simp add: file_tree_def)
  have "mset (map fst (mounts t)) = mset (map fst (mounts ?t @ mounts s))"
    using mounts_detach [OF d s refl x] unfolding mset_map by simp
  then have dm': "distinct (map fst (mounts ?t @ mounts s))" using dm by (metis mset_eq_imp_distinct_iff)
  have docs: "set (in_docsById v') = {e \<in> set (in_docsById v). fst e \<notin> fst ` set (mounts s)}"
    unfolding v'(3) foldl_alist_del by auto
  have fm: "fst ` set (mounts ?t) = fst ` set (in_docsById v')"
  proof -
    have "fst ` set (in_docsById v') = fst ` set (mounts t) - fst ` set (mounts s)"
      unfolding docs file_tree_docs(3) [OF v] by auto
    also have "\<dots> = fst ` set (mounts ?t)"
      using set_mounts_detach [OF d s refl x] dm' by (auto simp: image_Un)
    finally show ?thesis by simp
  qed
  have at: "own document ''path'' = map_option JStr (map_of (node_paths ?t) i)"
    if "(e, document) \<in> set (in_docsById v')" "(e, i) \<in> set (mounts ?t)" for e document i
  proof -
    have "(e, i) \<in> set (mounts t)" using that(2) set_mounts_detach [OF d s refl x] by auto
    moreover have "(e, document) \<in> set (in_docsById v)" using that(1) docs by auto
    ultimately have path: "own document ''path'' = map_option JStr (map_of (node_paths t) i)"
      using file_tree_docs(2) [OF v] by blast
    have "i \<in> set (ids ?t)" using that(2) subs_ids by (auto simp: set_mounts [of e i ?t JNull])
    then obtain w where w: "(i, w) \<in> set (node_paths ?t)" using fst_node_paths [of ?t] by (metis imageE prod.collapse set_map)
    then have "(i, w) \<in> set (node_paths t)" using node_paths_detach by blast
    then show ?thesis
      using path w map_of_node_paths [OF d] map_of_node_paths [of ?t i w] rep by (simp add: represents_def)
  qed
  have "distinct (singles (in_docsById v'))"
    using v unfolding v'(3) foldl_alist_del file_tree_def by (blast intro: distinct_singles_filter)
  moreover have "record_ok V e document" if "(e, document) \<in> set (in_docsById v')" for e document
    using that docs file_tree_docs(1) [OF v] by auto
  ultimately show ?thesis
    using rep root_detach [OF T(3)] known dm' fm at ok T(2) v'(1) by (auto simp: file_tree_def)
qed

section \<open>Deleting\<close>

lemma subs_trans: "(q, s) \<in> set (subs p t) \<Longrightarrow> (r, c) \<in> set (subs q s) \<Longrightarrow> (r, c) \<in> set (subs p t)"
proof (induction t arbitrary: p)
  case (VDir i n cs)
  show ?case
  proof (cases "(q, s) = (p, VDir i n cs)")
    case False
    then obtain k where k: "k \<in> set cs" "(q, s) \<in> set (subs (JStr i) k)" using VDir.prems(1) by auto
    then have "(r, c) \<in> set (subs (JStr i) k)" using VDir.IH VDir.prems(2) by blast
    then show ?thesis using k(1) by auto
  qed (use VDir.prems(2) in simp)
qed simp

lemma collectSubtreeNodeIds_represents:
  assumes T: "represents T t" and s: "(q, s) \<in> set (subs JNull t)"
  shows "collectSubtreeNodeIds T (vid s) = ids s"
proof -
  have node: "\<exists>node. truthy_at T (vid (snd x)) = Some node \<and>
      (if has_kind node ''dir'' then child_ids node else []) = map vid (vkids (snd x))" if x: "x \<in> set (subs q s)" for x
  proof -
    obtain r c where c: "x = (r, c)" "(r, c) \<in> set (subs q s)" using x by (metis prod.collapse)
    obtain node where node: "truthy_at T (vid c) = Some node" "matches r c node"
      using represents_sub [OF T subs_trans [OF s c(2)]] by blast
    have "(if has_kind node ''dir'' then child_ids node else []) = map vid (vkids c)"
    proof (cases c)
      case (VDir i n cs)
      then show ?thesis using matches_own(4) [OF node(2)] child_ids_matched node(2) by simp
    qed (use matches_own(4) [OF node(2)] in simp)
    then show ?thesis using node(1) c(1) by auto
  qed
  have "walkable T (\<lambda>node. if has_kind node ''dir'' then child_ids node else []) (\<lambda>_ _. ()) (\<lambda>_ _. ()) q s"
    unfolding walkable_def case_prod_beta
  proof
    fix x
    assume "x \<in> set (subs q s)"
    from node [OF this] show "\<exists>node. truthy_at T (vid (snd x)) = Some node \<and>
        (if has_kind node ''dir'' then child_ids node else []) = map vid (vkids (snd x)) \<and> (\<forall>c. () = ())"
      by blast
  qed
  moreover have "distinct (ids s)" using T s by (auto simp: represents_def intro: distinct_sub)
  ultimately show ?thesis unfolding collectSubtreeNodeIds_def by (subst collect_walk_tree) (simp_all add: fst_walk_tree)
qed

text \<open>The documents of the nodes of a subtree.\<close>

lemma removed_documents:
  assumes T: "represents T t" "root_ok t" and s: "(q, s) \<in> set (subs JNull t)"
  shows "concat (map (\<lambda>k. case truthy_at T k of
      Some n \<Rightarrow> if has_kind n ''doc'' \<and> text_of n ''docId'' \<noteq> '''' then [text_of n ''docId''] else []
    | None \<Rightarrow> []) (ids s)) = map fst (mounts s)"
proof -
  have at: "(case truthy_at T (vid c) of
      Some n \<Rightarrow> if has_kind n ''doc'' \<and> text_of n ''docId'' \<noteq> '''' then [text_of n ''docId''] else []
    | None \<Rightarrow> []) = map fst (if is_VDir c then [] else [(vdoc c, vid c)])" if c: "(r, c) \<in> set (subs q s)" for r c
  proof -
    note sub = subs_trans [OF s c]
    obtain node where node: "truthy_at T (vid c) = Some node" "matches r c node" using represents_sub [OF T(1) sub] by blast
    show ?thesis
    proof (cases "is_VDir c")
      case False
      then have "text_of node ''docId'' = vdoc c" using matches_own(9) [OF node(2)] by (simp add: text_of_def)
      moreover have "vdoc c \<noteq> ''''" using root_ok_facts(4) [OF T(2) sub False] by (simp add: canonical_id_def)
      ultimately show ?thesis using node matches_own(5) [OF node(2)] False by simp
    qed (use node matches_own(5) [OF node(2)] in simp)
  qed
  show ?thesis
    unfolding ids_subs [of s q] mounts_subs [of s q] map_map map_concat using at
    by (intro arg_cong [where f = concat] map_cong) (auto simp: comp_def)
qed

lemma docs_of_put_other: "docs_of (put_own ''activeDocumentId'' a ws) = docs_of ws"
  by (cases ws) (simp_all add: docs_of_def)

lemma updateActiveDocument_input:
  assumes v: "snapshot_input ws = Some v" and D: "docs_of ws = in_docsById v" and docs: "in_docsById v \<noteq> []"
    "\<And>d document. (d, document) \<in> set (in_docsById v) \<Longrightarrow> d \<noteq> '''' \<and> truthy document"
    and active: "\<And>a. in_activeDocumentId v = Some a \<Longrightarrow> truthy a \<Longrightarrow> \<exists>s. a = JStr s"
  shows "\<exists>v'. snapshot_input (updateActiveDocument ws) = Some v' \<and> active_ok v' \<and> in_treeRootId v' = in_treeRootId v \<and>
    in_treeById v' = in_treeById v \<and> in_docsById v' = in_docsById v"
proof -
  have A: "own ws ''activeDocumentId'' = in_activeDocumentId v"
    using v by (auto simp: snapshot_input_def split: option.splits json.splits)
  let ?a = "text_of ws ''activeDocumentId''"
  show ?thesis
  proof (cases "?a \<noteq> '''' \<and> truthy_at (docs_of ws) ?a = None")
    case True
    obtain d ds where ds: "sort (map fst (docs_of ws)) = d # ds"
      using docs(1) D by (cases "sort (map fst (docs_of ws))") (auto dest: arg_cong [where f = length])
    then have "d \<in> set (map fst (docs_of ws))" by (metis list.set_intros(1) set_sort)
    then obtain document where "map_of (docs_of ws) d = Some document" by (metis map_of_eq_None_iff not_None_eq set_map)
    then have "truthy_at (docs_of ws) d \<noteq> None" using docs(2) D by (auto simp: truthy_at_def dest: map_of_SomeD)
    then have "active_ok (v\<lparr>in_activeDocumentId := Some (JStr d)\<rparr>)" by (simp add: active_ok_def D)
    moreover have "updateActiveDocument ws = put_own ''activeDocumentId'' (JStr d) ws"
      using True ds by (simp add: updateActiveDocument_def Let_def)
    ultimately show ?thesis
      using snapshot_input_active [OF v] by (intro exI [of _ "v\<lparr>in_activeDocumentId := Some (JStr d)\<rparr>"]) simp
  next
    case False
    then have "updateActiveDocument ws = ws" by (auto simp: updateActiveDocument_def Let_def)
    moreover have "active_ok v"
    proof -
      have "truthy_at (in_docsById v) s \<noteq> None" if "in_activeDocumentId v = Some (JStr s)" "truthy (JStr s)" for s
        using False that A D by (auto simp: text_of_def)
      then show ?thesis using active by (fastforce simp: active_ok_def split: option.split)
    qed
    ultimately show ?thesis using v by auto
  qed
qed

text \<open>Both deletions take the subtree of a node off the table and its documents off the documents.\<close>

lemma deletion_detaches:
  assumes typed: "typed_workspace ws" and v: "snapshot_input ws = Some v" and tree: "file_tree V v t"
    and s: "(JStr p, s) \<in> set (subs JNull t)"
    and parent: "truthy_at (tree_entries ws) p = Some parent" "has_kind parent ''dir''"
    and rest: "foldl (\<lambda>docs d. alist_del d docs) (docs_of ws) (map fst (mounts s)) \<noteq> []"
    and after: "after = updateActiveDocument
      (with_docs (foldl (\<lambda>docs d. alist_del d docs) (docs_of ws) (map fst (mounts s)))
        (with_tree (foldl (\<lambda>T k. alist_del k T) (alist_put p (remove_child_id (vid s) parent) (tree_entries ws)) (ids s)) ws))"
  shows "\<exists>v'. snapshot_input after = Some v' \<and> file_tree V v' (detach (vid s) t)"
proof -
  note input = snapshot_input_with [OF typed v]
  let ?D = "foldl (\<lambda>docs d. alist_del d docs) (docs_of ws) (map fst (mounts s))"
  let ?T = "foldl (\<lambda>T k. alist_del k T) (alist_put p (remove_child_id (vid s) parent) (tree_entries ws)) (ids s)"
  let ?w = "with_docs ?D (with_tree ?T ws)" and ?v = "v\<lparr>in_treeById := ?T, in_docsById := ?D\<rparr>"
  obtain kvs where kvs: "ws = JObj kvs" using typed by (rule typed_workspaceE)
  have D: "docs_of ?w = in_docsById ?v" by (simp add: kvs with_docs_simps docs_of_def)
  have docs: "d \<noteq> '''' \<and> truthy document" if "(d, document) \<in> set (in_docsById ?v)" for d document
  proof -
    have "(d, document) \<in> set (in_docsById v)" using that by (auto simp: input(2) foldl_alist_del)
    then have "record_ok V d document" using file_tree_docs(1) [OF tree] by blast
    then show ?thesis using record_ok_facts record_truthy by (fastforce simp: canonical_id_def)
  qed
  have active: "\<exists>s. a = JStr s" if "in_activeDocumentId ?v = Some a" "truthy a" for a
    using tree that by (auto simp: file_tree_def active_ok_def)
  have "in_docsById ?v \<noteq> []" using rest by simp
  from updateActiveDocument_input [OF input(5) D this docs active]
  obtain v' where v': "snapshot_input after = Some v'" "active_ok v'" "in_treeRootId v' = in_treeRootId v"
      "in_treeById v' = ?T" "in_docsById v' = ?D"
    unfolding after by auto
  have "map_of (in_treeById v) p = Some parent"
    using parent(1) by (auto simp: input(1) truthy_at_def split: option.splits if_splits)
  then have "file_tree V v' (detach (vid s) t)"
    using v' parent(2) rest by (intro file_tree_detach [OF tree s]) (simp_all add: input)
  then show ?thesis using v'(1) by blast
qed

lemma deleteDirectory_Some:
  assumes "deleteDirectory ws directoryId = Some after"
  obtains node p parent where "truthy_at (tree_entries ws) directoryId = Some node" and "has_kind node ''dir''"
    and "parent_dir (tree_entries ws) node = Some (p, parent)"
    and "length (concat (map (\<lambda>k. case truthy_at (tree_entries ws) k of
        Some n \<Rightarrow> if has_kind n ''doc'' \<and> text_of n ''docId'' \<noteq> '''' then [text_of n ''docId''] else []
      | None \<Rightarrow> []) (collectSubtreeNodeIds (tree_entries ws) (text_of node ''id'')))) < length (docs_of ws)"
    and "after = updateActiveDocument (with_docs (foldl (\<lambda>docs d. alist_del d docs) (docs_of ws)
      (concat (map (\<lambda>k. case truthy_at (tree_entries ws) k of
        Some n \<Rightarrow> if has_kind n ''doc'' \<and> text_of n ''docId'' \<noteq> '''' then [text_of n ''docId''] else []
      | None \<Rightarrow> []) (collectSubtreeNodeIds (tree_entries ws) (text_of node ''id'')))))
      (with_tree (foldl (\<lambda>T k. alist_del k T) (alist_put p (remove_child_id (text_of node ''id'') parent) (tree_entries ws))
        (collectSubtreeNodeIds (tree_entries ws) (text_of node ''id''))) ws))"
  using assms unfolding deleteDirectory_def Let_def
  by (simp split: option.splits if_splits prod.splits)

lemma parent_dirE:
  assumes "parent_dir T node = Some (p, parent)"
  obtains "own node ''parentId'' = Some (JStr p)" and "truthy_at T p = Some parent" and "has_kind parent ''dir''"
  using assms by (auto simp: parent_dir_def split: option.splits json.splits if_splits)

lemma dels_nonempty:
  assumes "length ks < length xs" and "distinct (map fst xs)"
  shows "foldl (\<lambda>xs k. alist_del k xs) xs ks \<noteq> []"
proof
  assume "foldl (\<lambda>xs k. alist_del k xs) xs ks = []"
  then have "fst ` set xs \<subseteq> set ks" by (auto simp: foldl_alist_del filter_empty_conv)
  then have "card (fst ` set xs) \<le> length ks" by (meson List.finite_set card_length card_mono le_trans)
  then show False using assms distinct_card [of "map fst xs"] by simp
qed

theorem deleteDirectory_detaches:
  assumes typed: "typed_workspace ws" and v: "snapshot_input ws = Some v" and tree: "file_tree V v t"
    and deleted: "deleteDirectory ws directoryId = Some after"
  shows "\<exists>v'. snapshot_input after = Some v' \<and> file_tree V v' (detach directoryId t)"
  using deleted
proof (rule deleteDirectory_Some)
  fix node p parent
  let ?T = "tree_entries ws"
  let ?docs = "concat (map (\<lambda>k. case truthy_at ?T k of
      Some n \<Rightarrow> if has_kind n ''doc'' \<and> text_of n ''docId'' \<noteq> '''' then [text_of n ''docId''] else []
    | None \<Rightarrow> []) (collectSubtreeNodeIds ?T (text_of node ''id'')))"
  assume node: "truthy_at ?T directoryId = Some node" "has_kind node ''dir''" and up: "parent_dir ?T node = Some (p, parent)"
    and size: "length ?docs < length (docs_of ws)"
    and after: "after = updateActiveDocument (with_docs (foldl (\<lambda>docs d. alist_del d docs) (docs_of ws) ?docs)
      (with_tree (foldl (\<lambda>T k. alist_del k T) (alist_put p (remove_child_id (text_of node ''id'') parent) ?T)
        (collectSubtreeNodeIds ?T (text_of node ''id''))) ws))"
  note input = snapshot_input_with [OF typed v]
  have T: "represents ?T t" "root_ok t" using tree by (simp_all add: file_tree_def input(1) [symmetric])
  obtain q n cs where sub: "(q, VDir directoryId n cs) \<in> set (subs JNull t)" "matches q (VDir directoryId n cs) node"
    using represents_dir [OF T(1) node] by metis
  from up obtain up: "own node ''parentId'' = Some (JStr p)" "truthy_at ?T p = Some parent" "has_kind parent ''dir''"
    by (rule parent_dirE)
  have q: "q = JStr p" using matches_own(3) [OF sub(2)] up(1) by simp
  have i: "text_of node ''id'' = directoryId" using matches_own(1) [OF sub(2)] by (simp add: text_of_def)
  let ?s = "VDir directoryId n cs"
  have walk: "collectSubtreeNodeIds ?T directoryId = ids ?s" using collectSubtreeNodeIds_represents [OF T(1) sub(1)] by simp
  have docs: "?docs = map fst (mounts ?s)" unfolding i walk by (rule removed_documents [OF T sub(1)])
  have "foldl (\<lambda>docs d. alist_del d docs) (docs_of ws) (map fst (mounts ?s)) \<noteq> []"
    using size input(7) unfolding docs by (intro dels_nonempty)
  moreover have "after = updateActiveDocument (with_docs (foldl (\<lambda>docs d. alist_del d docs) (docs_of ws) (map fst (mounts ?s)))
      (with_tree (foldl (\<lambda>T k. alist_del k T) (alist_put p (remove_child_id (vid ?s) parent) ?T) (ids ?s)) ws))"
    unfolding after docs unfolding i walk by simp
  ultimately show ?thesis
    using deletion_detaches [OF typed v tree sub(1) [unfolded q] up(2,3)] by simp
qed


lemma deleteDocument_Some:
  assumes "deleteDocument ws documentId type = Some after"
  obtains document node p parent where "truthy_at (docs_of ws) documentId = Some document" and "1 < length (docs_of ws)"
    and "findDocumentNode (tree_entries ws) (text_of document ''id'') = Some node"
    and "parent_dir (tree_entries ws) node = Some (p, parent)"
    and "after = updateActiveDocument (with_docs (alist_del (text_of document ''id'') (docs_of ws))
      (with_tree (alist_del (text_of node ''id'') (alist_put p (remove_child_id (text_of node ''id'') parent) (tree_entries ws))) ws))"
  using assms unfolding deleteDocument_def Let_def
  by (simp split: option.splits if_splits prod.splits)

theorem deleteDocument_detaches:
  assumes typed: "typed_workspace ws" and v: "snapshot_input ws = Some v" and tree: "file_tree V v t"
    and deleted: "deleteDocument ws documentId type = Some after"
  shows "\<exists>v' i. snapshot_input after = Some v' \<and> (documentId, i) \<in> set (mounts t) \<and> file_tree V v' (detach i t)"
  using deleted
proof (rule deleteDocument_Some)
  fix document node p parent
  let ?T = "tree_entries ws" and ?i = "text_of node ''id''"
  assume document: "truthy_at (docs_of ws) documentId = Some document" and size: "1 < length (docs_of ws)"
    and found: "findDocumentNode ?T (text_of document ''id'') = Some node" and up: "parent_dir ?T node = Some (p, parent)"
    and after: "after = updateActiveDocument (with_docs (alist_del (text_of document ''id'') (docs_of ws))
      (with_tree (alist_del ?i (alist_put p (remove_child_id ?i parent) ?T)) ws))"
  note input = snapshot_input_with [OF typed v]
  have T: "represents ?T t" using tree by (simp add: file_tree_def input(1) [symmetric])
  have "map_of (docs_of ws) documentId = Some document"
    using document by (auto simp: truthy_at_def split: option.splits if_splits)
  then have d: "text_of document ''id'' = documentId"
    using typed by (auto simp: typed_workspace_def typed_docs_def text_of_def)
  from found have "node \<in> set (map snd ?T)" and kind: "has_kind node ''doc''" "own node ''docId'' = Some (JStr documentId)"
    unfolding findDocumentNode_def d by (auto dest: find_item_in)
  then obtain k where "(k, node) \<in> set ?T" by auto
  then obtain q s where s: "(q, s) \<in> set (subs JNull t)" "vid s = k" "matches q s node"
    by (rule represents_entry [OF T input(6)])
  from up obtain up: "own node ''parentId'' = Some (JStr p)" "truthy_at ?T p = Some parent" "has_kind parent ''dir''"
    by (rule parent_dirE)
  have q: "q = JStr p" using matches_own(3) [OF s(3)] up(1) by simp
  have i: "?i = vid s" using matches_own(1) [OF s(3)] by (simp add: text_of_def)
  obtain n where leaf: "s = VDoc k n documentId"
    using matches_own(5,9) [OF s(3)] kind s(2) by (cases s) auto
  have "foldl (\<lambda>docs d. alist_del d docs) (docs_of ws) (map fst (mounts s)) \<noteq> []"
    using size input(7) by (intro dels_nonempty) (simp_all add: leaf)
  moreover have "after = updateActiveDocument (with_docs (foldl (\<lambda>docs d. alist_del d docs) (docs_of ws) (map fst (mounts s)))
      (with_tree (foldl (\<lambda>T k. alist_del k T) (alist_put p (remove_child_id (vid s) parent) ?T) (ids s)) ws))"
    unfolding after i d by (simp add: leaf)
  ultimately obtain v' where "snapshot_input after = Some v'" "file_tree V v' (detach (vid s) t)"
    using deletion_detaches [OF typed v tree s(1) [unfolded q] up(2,3)] by blast
  moreover have "(documentId, vid s) \<in> set (mounts t)"
    using s(1) unfolding set_mounts [of _ _ t JNull] by (auto simp: leaf intro!: bexI [of _ "(q, s)"])
  ultimately show ?thesis by blast
qed

end
