(* ===== verification/VfsEditProperties.thy ===== *)
theory VfsEditProperties
  imports VfsPlans VfsDetach VfsProperties
begin

text \<open>
  The properties of the edits of the file tree and of the commands they become. The lemmas they rest
  on are those of \<open>VfsEdits\<close>, \<open>VfsPlans\<close>, \<open>VfsCreate\<close> and \<open>VfsDetach\<close>; the workspaces of the witnesses
  are edits of the small workspace of \<open>VfsProperties\<close>.
\<close>

section \<open>Edited workspaces\<close>

definition edit_request :: "vfs_intent \<Rightarrow> vfs_request" where
  "edit_request i =
     \<lparr>expectedWorkspaceRev = 1, vr_id = ''r'', vr_issuedAt = ''t'', vr_intent = i, vr_clientMutationId = None\<rparr>"

definition edit_content :: json where
  "edit_content = JObj [(''language'', JStr ''ts''), (''source'', JStr ''x'')]"

definition grown_workspace :: json where
  "grown_workspace =
     (case createDocument (vfs_workspace [] ''a'') ''d'' None ''/src/lib/b.ts'' None edit_content of Some ws \<Rightarrow> ws)"

definition grown_document :: json where
  "grown_document = new_document ''e'' ''code'' ''b.ts'' [''src'', ''lib'', ''b.ts''] edit_content"



lemma typed_samples: "typed_workspace (vfs_workspace [] ''a'')" "typed_workspace grown_workspace"
proof -
  have "wf_json (vfs_workspace [] ''a'')" "wf_json grown_workspace" by code_simp+
  moreover have "typed_docs docs" if "wf_json (JObj docs)" "list_all (\<lambda>(d, v). isRecord v \<and> own v ''id'' = Some (JStr d)) docs" for docs
    using that by (auto simp: typed_docs_def list_all_iff dest: map_of_SomeD)
  moreover have "wf_json (JObj (docs_of (vfs_workspace [] ''a'')))" "wf_json (JObj (docs_of grown_workspace))"
    "list_all (\<lambda>(d, v). isRecord v \<and> own v ''id'' = Some (JStr d)) (docs_of (vfs_workspace [] ''a''))"
    "list_all (\<lambda>(d, v). isRecord v \<and> own v ''id'' = Some (JStr d)) (docs_of grown_workspace)"
    "own (vfs_workspace [] ''a'') ''treeById'' = Some (JObj (tree_entries (vfs_workspace [] ''a'')))"
    "own (vfs_workspace [] ''a'') ''docsById'' = Some (JObj (docs_of (vfs_workspace [] ''a'')))"
    "own grown_workspace ''treeById'' = Some (JObj (tree_entries grown_workspace))"
    "own grown_workspace ''docsById'' = Some (JObj (docs_of grown_workspace))"
    by code_simp+
  ultimately show "typed_workspace (vfs_workspace [] ''a'')" "typed_workspace grown_workspace"
    unfolding typed_workspace_def by blast+
qed

lemma sample_trees:
  shows "\<exists>v t. snapshot_input (vfs_workspace [] ''a'') = Some v \<and> file_tree vfs_validators v t"
    and "\<exists>v t. snapshot_input grown_workspace = Some v \<and> file_tree vfs_validators v t"
proof -
  have tree: "\<exists>v t. snapshot_input ws = Some v \<and> file_tree vfs_validators v t"
    if "snapshot_input ws \<noteq> None" "validateWorkspaceVfs vfs_validators (the (snapshot_input ws)) = Some []"
      "distinct (map fst (in_treeById (the (snapshot_input ws))))" "distinct (map fst (in_docsById (the (snapshot_input ws))))" for ws
    using that valid_iff_file_tree by fastforce
  show "\<exists>v t. snapshot_input (vfs_workspace [] ''a'') = Some v \<and> file_tree vfs_validators v t"
    by (rule tree) code_simp+
  show "\<exists>v t. snapshot_input grown_workspace = Some v \<and> file_tree vfs_validators v t"
    by (rule tree) code_simp+
qed

section \<open>The commands of edits\<close>

text \<open>C4. The command of an edit performs the edit and can be undone. When an edit of the file tree of a
  typed workspace is turned into a command, its forward operations apply and yield the edited
  workspace (up to the order of members), and its reverse operations apply to the result and give
  the workspace back, the check every command has to pass. This holds for all six edits, whatever
  documents, directories and active document they change.\<close>

theorem intent_command_is_edit:
  assumes "typed_workspace workspace" and "wf_intent (vr_intent request)"
    and "createWorkspaceVfsIntentCommandPlan workspace request = Some command"
  shows "\<exists>after result. apply_intent workspace (vr_intent request) = Some after \<and>
    patch_and_restore workspace (forwardOps command) (reverseOps command) = Inr result \<and> json_eqv result after"
proof -
  obtain after where after: "apply_intent workspace (vr_intent request) = Some after"
      "createCommand workspace after request = Some command"
    using assms(3) by (auto simp: createWorkspaceVfsIntentCommandPlan_def split: if_splits option.splits)
  obtain result where "exact_run workspace (intent_patches workspace after) result" "json_eqv result after"
    using edit_run [OF intent_edits [OF assms(1,2) after(1)]] by blast
  moreover have "wf_json workspace" using assms(1) by (simp add: typed_workspace_def)
  moreover have "forwardOps command = map fst (intent_patches workspace after)"
    "reverseOps command = rev (map snd (intent_patches workspace after))"
    using after(2) by (auto simp: createCommand_def Let_def split: if_splits)
  ultimately show ?thesis using after(1) exact_run_restores by auto
qed

theorem intent_command_is_edit_witness:
  "\<exists>command after result. createWorkspaceVfsIntentCommandPlan grown_workspace (edit_request (RenameDirectory ''src'' ''app'')) = Some command \<and>
    apply_intent grown_workspace (RenameDirectory ''src'' ''app'') = Some after \<and>
    patch_and_restore grown_workspace (forwardOps command) (reverseOps command) = Inr result \<and> json_eqv result after"
proof -
  have "createWorkspaceVfsIntentCommandPlan grown_workspace (edit_request (RenameDirectory ''src'' ''app'')) \<noteq> None"
    by code_simp
  then obtain command where command:
      "createWorkspaceVfsIntentCommandPlan grown_workspace (edit_request (RenameDirectory ''src'' ''app'')) = Some command"
    by blast
  moreover have "wf_intent (vr_intent (edit_request (RenameDirectory ''src'' ''app'')))"
    by (simp add: edit_request_def wf_intent_def)
  ultimately show ?thesis
    using intent_command_is_edit [OF typed_samples(2) _ command] by (simp add: edit_request_def)
qed

text \<open>C9. The command that creates a document at its path does what was planned and can be undone. The
  patches that the factory collects while it creates the missing directories one by one, with the
  indexes it computes for the children, lead exactly from the workspace to the planned one, and the
  reverse patches lead back. The directories must have room for the new children below the largest
  index the pointers can express.\<close>

theorem at_path_command_is_plan:
  assumes "typed_workspace workspace" and "wf_json document" and "isRecord document"
    and "room (2 * length segments) (tree_entries workspace)"
    and "normalizeCanonicalDocumentPath (text_of document ''path'') = Inr segments"
    and "planWorkspaceDocumentAtPath workspace document idFactory = Inr plan"
  shows "\<exists>command. createWorkspaceDocumentAtPathCommand workspace document commandId issuedAt idFactory label = Inr command \<and>
    patch_and_restore workspace (forwardOps command) (reverseOps command) = Inr (dp_snapshot plan)"
proof -
  have "exact_run workspace (dp_patches plan) (dp_snapshot plan)"
    using assms(4,5) by (intro plan_run [OF assms(1-3) _ assms(6)]) simp
  moreover have "wf_json workspace" using assms(1) by (simp add: typed_workspace_def)
  ultimately have "patch_and_restore workspace (map fst (dp_patches plan)) (rev (map snd (dp_patches plan))) = Inr (dp_snapshot plan)"
    by (rule exact_run_restores)
  then show ?thesis using assms(6) by (simp add: createWorkspaceDocumentAtPathCommand_def workspace_command_def)
qed

theorem at_path_command_is_plan_witness:
  "\<exists>plan command. planWorkspaceDocumentAtPath (vfs_workspace [] ''a'') grown_document None = Inr plan \<and>
    createWorkspaceDocumentAtPathCommand (vfs_workspace [] ''a'') grown_document ''1'' ''t'' None None = Inr command \<and>
    patch_and_restore (vfs_workspace [] ''a'') (forwardOps command) (reverseOps command) = Inr (dp_snapshot plan)"
proof -
  let ?ws = "vfs_workspace [] ''a''"
  have "isl (planWorkspaceDocumentAtPath ?ws grown_document None) = False" by code_simp
  then obtain plan where plan: "planWorkspaceDocumentAtPath ?ws grown_document None = Inr plan"
    by (cases "planWorkspaceDocumentAtPath ?ws grown_document None") auto
  have doc: "wf_json grown_document" "isRecord grown_document"
    "normalizeCanonicalDocumentPath (text_of grown_document ''path'') = Inr [''src'', ''lib'', ''b.ts'']"
    by code_simp+
  have "wf_json (JObj (tree_entries ?ws))" by code_simp
  moreover have "list_all (\<lambda>(i, node). isRecord node \<and>
      (case own node ''children'' of Some (JArr xs) \<Rightarrow> length xs + 2 * length [''src'', ''lib'', ''b.ts''] \<le> max_safe_integer | _ \<Rightarrow> True))
      (tree_entries ?ws)"
    by code_simp
  ultimately have "room (2 * length [''src'', ''lib'', ''b.ts'']) (tree_entries ?ws)"
    unfolding room_def list_all_iff by (fastforce dest: map_of_SomeD)
  then show ?thesis using at_path_command_is_plan [OF typed_samples(1) doc(1,2) _ doc(3) plan] plan by blast
qed

section \<open>What edits do to the tree\<close>



text \<open>C7. Deleting a directory cuts its subtree. From a workspace that is a file tree the edit leads to a
  workspace that is the tree without the subtree of the directory: exactly the nodes below it and
  the documents mounted there are gone, every other node and document is as before, and the active
  document is one that is left.\<close>

theorem delete_directory_detaches:
  assumes "typed_workspace workspace" and "snapshot_input workspace = Some v" and "file_tree V v t"
    and "deleteDirectory workspace directoryId = Some after"
  shows "\<exists>v'. snapshot_input after = Some v' \<and> file_tree V v' (detach directoryId t)"
  using assms by (rule deleteDirectory_detaches)

theorem delete_directory_detaches_witness:
  "\<exists>after v' t. deleteDirectory grown_workspace ''dir_src_lib'' = Some after \<and> snapshot_input after = Some v' \<and>
    file_tree vfs_validators v' (detach ''dir_src_lib'' t)"
proof -
  have "deleteDirectory grown_workspace ''dir_src_lib'' \<noteq> None" by code_simp
  then obtain after where "deleteDirectory grown_workspace ''dir_src_lib'' = Some after" by blast
  then show ?thesis using sample_trees(2) delete_directory_detaches [OF typed_samples(2)] by blast
qed



text \<open>C8. Deleting a document takes its node off the tree and nothing else: the result is the file tree
  without the node the document is mounted at, and the active document is one that is left.\<close>

theorem delete_document_detaches:
  assumes "typed_workspace workspace" and "snapshot_input workspace = Some v" and "file_tree V v t"
    and "deleteDocument workspace documentId type = Some after"
  shows "\<exists>v' i. snapshot_input after = Some v' \<and> (documentId, i) \<in> set (mounts t) \<and> file_tree V v' (detach i t)"
  using assms by (rule deleteDocument_detaches)

theorem delete_document_detaches_witness:
  "\<exists>after v' t i. deleteDocument grown_workspace ''d'' None = Some after \<and> snapshot_input after = Some v' \<and>
    (''d'', i) \<in> set (mounts t) \<and> file_tree vfs_validators v' (detach i t)"
proof -
  have "deleteDocument grown_workspace ''d'' None \<noteq> None" by code_simp
  then obtain after where "deleteDocument grown_workspace ''d'' None = Some after" by blast
  then show ?thesis using sample_trees(2) delete_document_detaches [OF typed_samples(2)] by blast
qed

section \<open>What goes wrong\<close>


end
