(* ===== verification/Spec2Isabelle.thy ===== *)
theory Spec2Isabelle
  imports WorkspaceProperties RouteProperties DataProperties SyncProperties MergeProperties RuntimeProperties VfsProperties VfsEditProperties
begin

text \<open>
  \<^bold>\<open>The program.\<close> Prodivix is a browser development environment. Its durable state is a workspace: a
  tree of files, documents of several types (pages, code, design tokens, data sources, ...), a
  route manifest and settings. Every edit is a command, an envelope with a forward and a reverse
  JSON patch; commands that belong together form a transaction. The local history records the
  applied operations and undoes and redoes them per scope; the synchronisation keeps an outbox of
  operations to commit and merges remote changes; the router resolves paths against the manifest
  and its mounted modules; the runtime core runs projects as jobs and drives their declared work
  with a deterministic scheduler.

  \<^bold>\<open>The theories.\<close>
  \<^item> \<open>Prelude\<close>: association lists as JavaScript objects, strings, numbers, stable sorting, and the two
    interfaces of the library: \<open>comparator\<close> (a comparison function that is total and transitive
    sorts), interpreted on the code point order, on the ranking of sibling routes, on the entries of
    one workspace in the outbox, on the hunks of a text and on the tasks of the scheduler, and
    \<open>machine\<close> (a step function with an invariant), interpreted on the history, the outbox, the
    scheduler and the jobs.
  \<^item> \<open>Json\<close>, \<open>JsonPointer\<close>, \<open>JsonPatch\<close>: JSON values, the two deep equalities, pointers, and the
    patch engine of \<open>packages/workspace/src/workspaceCommand.ts\<close> and
    \<open>packages/workspace-sync/src/jsonValue.ts\<close>.
  \<^item> \<open>Contract\<close>: \<open>workspaceContractRegistry.ts\<close>, the document types with their patch policies.
  \<^item> \<open>Command\<close>, with the laws in \<open>CommandLaws\<close>, \<open>RouteRefs\<close> and \<open>TransactionLaws\<close>: the envelopes and
    the application of commands and transactions (\<open>workspaceCommand.ts\<close>,
    \<open>workspaceCodeDocument.ts\<close>); the references of the routes to documents are specified by the
    inductive \<open>route_ref\<close>, and \<open>routes_resolve\<close> is what the traversal of the code decides.
  \<^item> \<open>Operation\<close>, \<open>History\<close>, with the laws in \<open>HistoryLaws\<close> and \<open>ReplayLaws\<close>:
    \<open>workspaceOperation.ts\<close>, \<open>workspaceHistory.ts\<close>, \<open>workspaceHistoryReplay.ts\<close>,
    \<open>resolveCanonicalWorkspaceDocumentId.ts\<close>.
  \<^item> \<open>Vfs\<close>, with the specification in \<open>VfsTree\<close> and the laws in \<open>VfsLaws\<close> and \<open>VfsCommands\<close>:
    \<open>validateWorkspaceVfs.ts\<close> and \<open>workspaceDocumentValidation.ts\<close>, the validation of the tables
    \<open>treeById\<close> and \<open>docsById\<close>. \<open>VfsTree\<close> has the inductive tree of directories and documents and what
    it means that a table represents it; \<open>VfsLaws\<close> shows that the local checks of the code (links
    between parents and children, names, reachability) hold exactly of the tables of trees, by an
    induction along the links, which are acyclic below a root without a parent; \<open>VfsCommands\<close> puts
    the validation behind commands and transactions.
  \<^item> \<open>VfsIntent\<close>: \<open>workspaceVfsIntent.ts\<close>, the edits that create, rename and delete documents and
    directories, and the commands they become. \<open>VfsFactory\<close>: \<open>workspaceDocumentFactory.ts\<close>, which
    mounts a document at its path, and the creators of commands and requests in
    \<open>workspaceCommand.ts\<close>. \<open>VfsPatches\<close>, \<open>VfsEdits\<close> and \<open>VfsPlans\<close> show that the patches of these
    commands lead exactly to the edited workspace and back: \<open>exact_run\<close> is a sequence of pairs of a
    patch and its reversal, by rule induction, and \<open>edits\<close> says what an edit may change. \<open>VfsAttach\<close>,
    \<open>VfsCreate\<close> and \<open>VfsDetach\<close> say what the edits do to the tree: \<open>attach\<close> and \<open>detach\<close> are the
    operations on the abstract tree that the edits of the tables implement.
  \<^item> \<open>Canonical\<close>: code point order and canonical base64 of \<open>packages/shared/src/canonical\<close>.
  \<^item> \<open>Route\<close>, with the laws in \<open>RouteLaws\<close>: \<open>packages/router/src/routeCore.ts\<close>,
    \<open>routeNavigation.ts\<close>, \<open>routeTypes.ts\<close> and the active route of \<open>routeCodec.ts\<close>.
  \<^item> \<open>Outbox\<close>, with the laws in \<open>OutboxLaws\<close>: \<open>packages/workspace-sync/src/workspaceOutbox.ts\<close>, the
    entries, their transitions under a lease, the causal order, and the in-memory store with every
    operation as a step of several clients; the abstract queue of each workspace is specified
    beside it, and the store refines it.
  \<^item> \<open>StableArrays\<close>, \<open>SemanticDiff\<close>: the rest of \<open>jsonValue.ts\<close> (collections by entity id, reading and
    writing at pointers), \<open>workspaceRevisions.ts\<close> and \<open>workspaceSemanticDiff.ts\<close>.
  \<^item> \<open>TextMerge\<close>, with the laws in \<open>TextMergeLaws\<close>: \<open>workspaceTextDiff.ts\<close>, the line diff and the
    three-way merge of texts. The laws show that the table holds the lengths of longest common
    subsequences, that diffs rebuild the text, and specify the merge by \<open>patched\<close>.
  \<^item> \<open>ThreeWay\<close>, with \<open>MergeStates\<close>, \<open>ThreeWayLaws\<close> and \<open>RebaseLaws\<close>: \<open>workspaceThreeWay.ts\<close>.
    \<open>MergeStates\<close> reads a value at a place (keys and entity ids); \<open>diff3\<close> in \<open>ThreeWayLaws\<close> is the
    contract of the merge of values, by rule induction over the four ways a merge can go, and
    \<open>RebaseLaws\<close> carries it to documents and whole workspaces.
  \<^item> \<open>Scheduler\<close>, with the laws in \<open>SchedulerLaws\<close>: \<open>packages/runtime-core/src/deterministicScheduler.ts\<close>.
    An operation returns a reply and the state, the state also when it throws. An asynchronous turn
    is split at its await (\<open>begin_turn\<close>, \<open>end_turn\<close>), so that calls of others come between; runs and
    waits are recursions whose measure is the rest of the budget of turns.
  \<^item> \<open>Job\<close>, with the laws in \<open>JobLaws\<close>: \<open>executionJob.ts\<close> with the types of \<open>execution.types.ts\<close>,
    and \<open>cloneExecutionValue\<close> of \<open>executionRequest.ts\<close>. Subscribers are kept under the number of
    their subscription, and what they were handed is recorded beside the state.
  \<^item> \<open>WorkspaceProperties\<close>, \<open>RouteProperties\<close>, \<open>DataProperties\<close>, \<open>SyncProperties\<close>, \<open>MergeProperties\<close>,
    \<open>RuntimeProperties\<close>, \<open>VfsProperties\<close>, \<open>VfsEditProperties\<close>: the properties with their witnesses.

  \<^bold>\<open>How the code is represented.\<close> A workspace is a run-time value, so commands and history work on
  \<open>json\<close>; the router is typed and works on records. A thrown exception is a value (\<open>Thrown\<close>,
  \<open>TxThrown\<close>, \<open>None\<close> where documented); a refusal is \<open>Inl\<close> with its issues. Strings are lists of
  code units below 256, numbers are rationals (JSON has no infinities, and the code computes no
  fractions here). An object is the list of its own members in insertion order: the enumeration of
  integer-like keys and members inherited from \<open>Object.prototype\<close> are not modelled. Messages of
  issues are not modelled; where the code returns the same object to signal "no change", the model
  returns an equal value. Document references that are not strings count as missing. The edits of the
  file tree are typed in the code: their workspaces are values of the declared type (\<open>typed_workspace\<close>
  in the theorems), and a member of another type counts as missing. Loops are
  structural recursions or recursions with a proved measure. Fuel is used in one place, the delivery
  of events to listeners that may subscribe further listeners (\<open>None\<close> is out of fuel): for listeners
  that only observe, the queued events plus the actions plus five suffice for a whole run, which is
  part of the property of the observers; other theorems hold for every amount.

  \<^bold>\<open>Parameters.\<close> Code of other packages or of the host is an argument: the content validators and
  \<open>validateWorkspaceSnapshot\<close> (the record \<open>validators\<close>; a theorem that needs it assumes that they do
  not depend on the order of keys, \<open>extensional\<close>; \<open>with_vfs\<close> puts the modelled
  \<open>validateWorkspaceSnapshot\<close> in its place, whose checks of animation targets and of the component
  graph remain arguments), \<open>decodeURIComponent\<close>, \<open>Date.parse\<close>, the clock
  and the id factory of the history, the id factory of documents at a path (the number of the call
  and the preferred id determine its result), and the planner and the wire normaliser of the outbox; the
  behaviour of the tasks of the scheduler (the calls each makes while it runs, and how it settles),
  its observed source and the clock of the host; the listeners of a job, its clock and the
  normaliser of its log records.

  \<^bold>\<open>What the properties show.\<close> Undo and redo are inverses through the whole machinery, and the entry
  undo picks commutes with what was recorded later; the stacks keep their invariant; merging loses
  nothing; the validation of workspaces accepts exactly the file trees, so that
  transactions commit only file trees, and they never touch members the server owns; the command of
  an edit of the file tree performs exactly the edit and can be undone, and an edit attaches or
  detaches exactly the subtree it is about;
  patches are functions of values up to key order and their operations have inverses; route
  matching is complete with respect to an inductive specification; tree
  edits neither lose nor duplicate nodes; base64 and pointers round-trip; the outbox is a queue per
  workspace whose leases hold; the automatic rebase loses no update of either side; diffs are
  minimal and rebuild the text, and a text merge is the union of the hunks. The scheduler keeps its
  invariant under any interleaving, runs the least task, ends within its budget and answers waits
  truthfully; a job moves along its transition table, ends once, and shows every observer each event
  once. Eleven properties show where the code fails: the undo of a token group named like a document,
  the missing route manifest, the order of entries of several workspaces, a text merge that joins
  two lines, the deleted name of a document that a merge brings back, a wait that lifts a pause, the
  completion that is never settled, an event delivered twice, a member with an empty name that hides
  unknown members from the validation, a list of capabilities that makes it throw, and the command
  for a document whose id has a slash.

  \<^bold>\<open>Not modelled.\<close> The decoder of route manifests in \<open>routeCodec.ts\<close>, which checks the wire form of
  manifests field by field, and the sessions and providers of the runtime core, which drive sockets,
  processes and timers of the host. User interfaces, the Go backend, code generation, plugins and the
  AI evaluation tooling are left out: rendering, storage, generated text and third-party protocols.
\<close>

end
